(* ===== verification/Prelude.thy ===== *)
theory Prelude
  imports Main "HOL-Library.Word" "HOL-Library.Monad_Syntax"
begin

text \<open>
  The prelude of the library: machine types, the memory model and the byte-level lemmas that
  the component theories share.

  \<^item> C's fixed width integers are words (\<open>u8\<close>, \<open>u16\<close>, \<open>u32\<close>, \<open>u64\<close>). Lengths and offsets
    into one object are \<open>nat\<close>: an object is far smaller than \<open>2^31\<close> bytes, so that 32 bit
    offset arithmetic does not wrap before an access leaves the object. Where a length is kept
    in a narrower type (\<open>u8\<close>, \<open>u16\<close>) the narrow type is kept.
  \<^item> A C object is a byte list. Every access goes through \<open>rd\<close>, \<open>rd_n\<close>, \<open>wr\<close> or \<open>wr_n\<close>,
    whose result is \<open>None\<close> when the access leaves the object. A function of the model that can
    touch memory is in the option monad: \<open>None\<close> is undefined behaviour (an access outside the
    object), and \<open>Some r\<close> is a normal return with result \<open>r\<close>.
  \<^item> A pointer into an object is the object together with an offset; a null pointer is the
    \<open>None\<close> of an inner option.
\<close>

unbundle bit_operations_syntax

type_synonym u8 = "8 word"
type_synonym u16 = "16 word"
type_synonym u32 = "32 word"
type_synonym u64 = "64 word"
type_synonym bytes = "u8 list"

named_theorems mem_simps \<open>equations that evaluate memory accesses\<close>

section \<open>Memory\<close>

definition rd :: "bytes \<Rightarrow> nat \<Rightarrow> u8 option" where
  "rd m i = (if i < length m then Some (m ! i) else None)"

definition rd_n :: "bytes \<Rightarrow> nat \<Rightarrow> nat \<Rightarrow> bytes option" where
  "rd_n m i n = (if i + n \<le> length m then Some (take n (drop i m)) else None)"

definition wr_n :: "bytes \<Rightarrow> nat \<Rightarrow> bytes \<Rightarrow> bytes option" where
  "wr_n m i bs =
     (if i + length bs \<le> length m then Some (take i m @ bs @ drop (i + length bs) m) else None)"

definition wr :: "bytes \<Rightarrow> nat \<Rightarrow> u8 \<Rightarrow> bytes option" where
  "wr m i b = (if i < length m then Some (m[i := b]) else None)"

text \<open>The driver's wrapper of \<open>memcmp\<close> is true when the two blocks are equal. The comparison may
  read every byte of both blocks.\<close>

definition memeq :: "bytes \<Rightarrow> nat \<Rightarrow> bytes \<Rightarrow> nat \<Rightarrow> bool option" where
  "memeq m i src n = do { a \<leftarrow> rd_n m i n; b \<leftarrow> rd_n src 0 n; Some (a = b) }"

text \<open>\<open>memcpy\<close> between two objects, and \<open>memmove\<close> inside one.\<close>

definition memcpy :: "bytes \<Rightarrow> nat \<Rightarrow> bytes \<Rightarrow> nat \<Rightarrow> nat \<Rightarrow> bytes option" where
  "memcpy dst i src j n = do { bs \<leftarrow> rd_n src j n; wr_n dst i bs }"

definition memset :: "bytes \<Rightarrow> nat \<Rightarrow> u8 \<Rightarrow> nat \<Rightarrow> bytes option" where
  "memset dst i b n = wr_n dst i (replicate n b)"

text \<open>Byte order helpers of \<open>osdep_service.h\<close>.\<close>

definition mk16 :: "u8 \<Rightarrow> u8 \<Rightarrow> u16" where
  "mk16 hi lo = push_bit 8 (ucast hi) OR ucast lo"

definition lo8 :: "u16 \<Rightarrow> u8" where "lo8 v = ucast v"

definition hi8 :: "u16 \<Rightarrow> u8" where "hi8 v = ucast (drop_bit 8 v)"

text \<open>\<open>BIT(n)\<close>\<close>

abbreviation bit_mask :: "nat \<Rightarrow> 'a :: len word" where "bit_mask n \<equiv> push_bit n 1"

text \<open>Subtraction of two \<open>uint\<close> values, which wraps.\<close>

definition usub32 :: "nat \<Rightarrow> nat \<Rightarrow> nat" where
  "usub32 a b = (if b \<le> a then a - b else 2 ^ 32 + a - b)"

definition RTW_GET_LE16 :: "bytes \<Rightarrow> nat \<Rightarrow> u16 option" where
  "RTW_GET_LE16 m i = do { lo \<leftarrow> rd m i; hi \<leftarrow> rd m (i + 1); Some (mk16 hi lo) }"

definition RTW_GET_BE16 :: "bytes \<Rightarrow> nat \<Rightarrow> u16 option" where
  "RTW_GET_BE16 m i = do { hi \<leftarrow> rd m i; lo \<leftarrow> rd m (i + 1); Some (mk16 hi lo) }"

definition RTW_PUT_LE16 :: "bytes \<Rightarrow> nat \<Rightarrow> u16 \<Rightarrow> bytes option" where
  "RTW_PUT_LE16 m i v = do { m1 \<leftarrow> wr m (i + 1) (hi8 v); wr m1 i (lo8 v) }"

definition put_LE16 :: "u16 \<Rightarrow> bytes" where "put_LE16 v = [lo8 v, hi8 v]"
definition put_BE16 :: "u16 \<Rightarrow> bytes" where "put_BE16 v = [hi8 v, lo8 v]"

section \<open>Facts about memory accesses\<close>

lemma rd_in [mem_simps]: "i < length m \<Longrightarrow> rd m i = Some (m ! i)"
  by (simp add: rd_def)

lemma rd_out [mem_simps]: "length m \<le> i \<Longrightarrow> rd m i = None"
  by (simp add: rd_def)

lemma rd_Some_iff: "rd m i = Some b \<longleftrightarrow> i < length m \<and> m ! i = b"
  by (auto simp: rd_def)

lemma rd_n_in [mem_simps]: "i + n \<le> length m \<Longrightarrow> rd_n m i n = Some (take n (drop i m))"
  by (simp add: rd_n_def)

lemma rd_n_out [mem_simps]: "length m < i + n \<Longrightarrow> rd_n m i n = None"
  by (simp add: rd_n_def)

lemma rd_n_Some_iff:
  "rd_n m i n = Some bs \<longleftrightarrow> i + n \<le> length m \<and> bs = take n (drop i m)"
  by (auto simp: rd_n_def)

lemma wr_n_Some_iff:
  "wr_n m i bs = Some m' \<longleftrightarrow>
     i + length bs \<le> length m \<and> m' = take i m @ bs @ drop (i + length bs) m"
  by (auto simp: wr_n_def)

lemma wr_Some_iff: "wr m i b = Some m' \<longleftrightarrow> i < length m \<and> m' = m[i := b]"
  by (auto simp: wr_def)

lemma wr_n_length [dest]: "wr_n m i bs = Some m' \<Longrightarrow> length m' = length m"
  by (auto simp: wr_n_def split: if_splits)

lemma wr_length [dest]: "wr m i b = Some m' \<Longrightarrow> length m' = length m"
  by (auto simp: wr_def split: if_splits)

lemma wr_n_app [mem_simps]:
  "length bs = length old \<Longrightarrow> wr_n (pre @ old @ post) (length pre) bs = Some (pre @ bs @ post)"
  by (simp add: wr_n_def)

lemma rd_n_app [mem_simps]:
  "n = length mid \<Longrightarrow> rd_n (pre @ mid @ post) (length pre) n = Some mid"
  by (simp add: rd_n_def)

lemma rd_app [mem_simps]: "rd (pre @ b # post) (length pre) = Some b"
  by (simp add: rd_def nth_append)

lemma memeq_in:
  "i + n \<le> length m \<Longrightarrow> n \<le> length src \<Longrightarrow>
     memeq m i src n = Some (take n (drop i m) = take n src)"
  by (simp add: memeq_def mem_simps)

lemma take_shorter: "take n xs = d \<Longrightarrow> j \<le> n \<Longrightarrow> take j xs = take j d"
  by (auto simp: min_def)

lemma rd_drop: "drop k m = b # post \<Longrightarrow> rd m k = Some b"
  by (metis drop_eq_Nil2 linorder_not_le list.distinct(1) nth_via_drop rd_in)

lemma drop_add: "drop k m = xs @ post \<Longrightarrow> drop (k + length xs) m = post"
  by (metis add.commute append_eq_conv_conj drop_drop)

lemma drop_app_le: "drop k m = xs @ post \<Longrightarrow> xs \<noteq> [] \<Longrightarrow> k + length xs \<le> length m"
  by (metis append_is_Nil_conv drop_eq_Nil2 le_add1 length_append length_drop linorder_le_cases
      ordered_cancel_comm_monoid_diff_class.le_diff_conv2 add.commute)

lemma rd2_drop: "drop k m = b # c # post \<Longrightarrow> rd m k = Some b \<and> rd m (k + 1) = Some c"
  using drop_add [of k m "[b]" "c # post"] by (simp add: rd_drop)

section \<open>Facts about byte order\<close>

lemma unat_mk16: "unat (mk16 hi lo) = 256 * unat hi + unat lo"
proof -
  have "mk16 hi lo = push_bit 8 (ucast hi) + ucast lo"
    unfolding mk16_def
    by (rule disjunctive_add [symmetric])
      (auto simp: bit_simps dest: bit_imp_le_length)
  moreover have "unat (push_bit 8 (ucast hi) :: u16) = 256 * unat hi"
    using unsigned_less [of hi, where 'a = nat]
    by (simp add: push_bit_eq_mult unat_word_ariths unsigned_ucast_eq take_bit_eq_mod)
  ultimately show ?thesis
    using unsigned_less [of hi, where 'a = nat] unsigned_less [of lo, where 'a = nat]
    by (simp add: unat_word_ariths unsigned_ucast_eq take_bit_eq_mod)
qed

lemma lo8_mk16 [simp]: "lo8 (mk16 hi lo) = lo"
  by (rule bit_word_eqI) (simp add: lo8_def mk16_def bit_simps)

lemma hi8_mk16 [simp]: "hi8 (mk16 hi lo) = hi"
  by (rule bit_word_eqI) (auto simp: hi8_def mk16_def bit_simps dest: bit_imp_le_length)

lemma mk16_hi8_lo8 [simp]: "mk16 (hi8 v) (lo8 v) = v"
  by (rule bit_word_eqI) (auto simp: hi8_def lo8_def mk16_def bit_simps)

lemma RTW_GET_PUT_LE16:
  assumes "RTW_PUT_LE16 m i v = Some m'"
  shows "RTW_GET_LE16 m' i = Some v"
  using assms
  by (auto simp: RTW_PUT_LE16_def RTW_GET_LE16_def wr_Some_iff Option.bind_eq_Some_conv rd_def)

lemma put16_length [simp]: "length (put_LE16 v) = 2" "length (put_BE16 v) = 2"
  by (simp_all add: put_LE16_def put_BE16_def)

lemma get_put_LE16: "drop k m = put_LE16 v @ post \<Longrightarrow> RTW_GET_LE16 m k = Some v"
  by (auto simp: put_LE16_def RTW_GET_LE16_def dest!: rd2_drop)

lemma get_put_BE16: "drop k m = put_BE16 v @ post \<Longrightarrow> RTW_GET_BE16 m k = Some v"
  by (auto simp: put_BE16_def RTW_GET_BE16_def dest!: rd2_drop)

text \<open>Group addresses, used by the receive and the transmit path alike.\<close>

definition IS_MCAST :: "bytes \<Rightarrow> bool" where "IS_MCAST a \<longleftrightarrow> hd a AND 1 \<noteq> 0"

lemma unat_u8_le [simp]: "unat (b :: u8) \<le> 255"
  using unsigned_less [of b, where 'a = nat] by simp

lemma unat_of_nat_u8: "n \<le> 255 \<Longrightarrow> unat (of_nat n :: u8) = n"
  by (simp add: unat_of_nat)

end
