(* ===== verification/Ie_Core.thy ===== *)
theory Ie_Core
  imports Prelude
begin

text \<open>
  Information elements: the writers, the searchers and the in-place editors of
  \<open>core/rtw_ieee80211.c\<close>. An 802.11 management frame carries a sequence of elements, each an
  identifier byte, a length byte and that many bytes of content.

  A pointer argument is an object \<open>m\<close> with an offset; an optional output (a pointer that may be
  null) is an option, \<open>None\<close> when the caller passes null. The interface \<open>ie_finder\<close> states once
  what every element searcher of the driver promises on a well-formed sequence; the searchers of
  this theory and of \<open>Ie_Vendor\<close> are its instances.
\<close>

section \<open>Elements and their encoding\<close>

type_synonym ie = "u8 \<times> bytes"

definition ie_enc :: "ie \<Rightarrow> bytes" where
  "ie_enc e = fst e # of_nat (length (snd e)) # snd e"

definition ies_enc :: "ie list \<Rightarrow> bytes" where
  "ies_enc es = concat (map ie_enc es)"

definition wf_ie :: "ie \<Rightarrow> bool" where
  "wf_ie e \<longleftrightarrow> length (snd e) \<le> 255"

text \<open>The first element with a property, with its offset: what a searcher has to find.\<close>

fun first_match :: "(ie \<Rightarrow> bool) \<Rightarrow> nat \<Rightarrow> ie list \<Rightarrow> (nat \<times> ie) option" where
  "first_match P off [] = None"
| "first_match P off (e # es) =
     (if P e then Some (off, e) else first_match P (off + length (ie_enc e)) es)"

section \<open>The description of a network\<close>

text \<open>The fields of \<open>WLAN_BSSID_EX\<close> that the element code uses. \<open>IEs\<close> is the fixed buffer of
  \<open>MAX_IE_SZ\<close> bytes, of which the first \<open>IELength\<close> are in use.\<close>

record wlan_bssid_ex =
  Reserved0 :: u8
  SsidLength :: nat
  Ssid :: bytes
  Privacy :: bool
  BeaconPeriod :: u16
  ATIMWindow :: u32
  DSConfig :: u32
  SupportedRates :: bytes
  IELength :: nat
  IEs :: bytes

section \<open>Writers\<close>

definition rtw_set_fixed_ie ::
    "bytes \<Rightarrow> nat \<Rightarrow> nat \<Rightarrow> bytes \<Rightarrow> nat \<Rightarrow> (bytes \<times> nat \<times> nat) option" where
  "rtw_set_fixed_ie m pbuf len source frlen = do {
     m1 \<leftarrow> memcpy m pbuf source 0 len;
     Some (m1, pbuf + len, frlen + len) }"

definition rtw_set_ie ::
    "bytes \<Rightarrow> nat \<Rightarrow> int \<Rightarrow> nat \<Rightarrow> bytes \<Rightarrow> nat option \<Rightarrow> (bytes \<times> nat \<times> nat option) option" where
  "rtw_set_ie m pbuf index len source frlen = do {
     m1 \<leftarrow> wr m pbuf (of_int index);
     m2 \<leftarrow> wr m1 (pbuf + 1) (of_nat len);
     m3 \<leftarrow> (if len > 0 then memcpy m2 (pbuf + 2) source 0 len else Some m2);
     Some (m3, pbuf + len + 2, map_option (\<lambda>f. f + (len + 2)) frlen) }"

section \<open>Searchers\<close>

text \<open>The body of the loop of \<open>rtw_get_ie\<close> runs at least once; \<open>index\<close>, \<open>len\<close> and \<open>limit\<close>
  are signed.\<close>

function rtw_get_ie_loop ::
    "bytes \<Rightarrow> nat \<Rightarrow> int \<Rightarrow> int \<Rightarrow> nat \<Rightarrow> (nat option \<times> int) option" where
  "rtw_get_ie_loop m pbuf index limit i = do {
     b \<leftarrow> rd m (pbuf + i);
     tmp \<leftarrow> rd m (pbuf + i + 1);
     if uint b = index then Some (Some (pbuf + i), uint tmp)
     else if int (i + unat tmp + 2) \<ge> limit then Some (None, 0)
     else rtw_get_ie_loop m pbuf index limit (i + unat tmp + 2) }"
  by pat_completeness auto
termination
proof (relation "measure (\<lambda>(m, pbuf, index, limit, i). nat limit - i)", goal_cases)
  case (2 m pbuf index limit i b tmp)
  then have "int (i + unat tmp + 2) < limit" by linarith
  then have "i < nat limit" by linarith
  then show ?case by (simp add: diff_less_mono2)
qed simp

definition rtw_get_ie ::
    "bytes \<Rightarrow> nat \<Rightarrow> int \<Rightarrow> int \<Rightarrow> int \<Rightarrow> (nat option \<times> int) option" where
  "rtw_get_ie m pbuf index len limit =
     (if limit < 1 then Some (None, len) else rtw_get_ie_loop m pbuf index limit 0)"

function rtw_get_ie_ex_loop ::
    "bytes \<Rightarrow> nat \<Rightarrow> nat \<Rightarrow> u8 \<Rightarrow> bytes option \<Rightarrow> nat \<Rightarrow> bytes option \<Rightarrow> nat option \<Rightarrow> nat
       \<Rightarrow> (nat option \<times> bytes option \<times> nat option) option" where
  "rtw_get_ie_ex_loop m in_ie in_len eid oui oui_len ie ielen cnt =
     (if cnt < in_len then do {
        b \<leftarrow> rd m (in_ie + cnt);
        hit \<leftarrow> (if eid = b
                then (case oui of None \<Rightarrow> Some True | Some o' \<Rightarrow> memeq m (in_ie + cnt + 2) o' oui_len)
                else Some False);
        if hit then do {
          ie' \<leftarrow> (case ie of None \<Rightarrow> Some None
                  | Some d \<Rightarrow> do { l \<leftarrow> rd m (in_ie + cnt + 1);
                                  d' \<leftarrow> memcpy d 0 m (in_ie + cnt) (unat l + 2);
                                  Some (Some d') });
          ielen' \<leftarrow> (case ielen of None \<Rightarrow> Some None
                     | Some _ \<Rightarrow> do { l \<leftarrow> rd m (in_ie + cnt + 1); Some (Some (unat l + 2)) });
          Some (Some (in_ie + cnt), ie', ielen') }
        else do {
          l \<leftarrow> rd m (in_ie + cnt + 1);
          rtw_get_ie_ex_loop m in_ie in_len eid oui oui_len ie ielen (cnt + (unat l + 2)) } }
      else Some (None, ie, ielen))"
  by pat_completeness auto
termination
  by (relation "measure (\<lambda>(m, in_ie, in_len, eid, oui, oui_len, ie, ielen, cnt). in_len - cnt)") auto

definition rtw_get_ie_ex ::
    "(bytes \<times> nat) option \<Rightarrow> nat \<Rightarrow> u8 \<Rightarrow> bytes option \<Rightarrow> nat \<Rightarrow> bytes option \<Rightarrow> nat option
       \<Rightarrow> (nat option \<times> bytes option \<times> nat option) option" where
  "rtw_get_ie_ex in_ie in_len eid oui oui_len ie ielen =
     (let ielen = map_option (\<lambda>_. 0) ielen in
      case in_ie of
        None \<Rightarrow> Some (None, ie, ielen)
      | Some (m, p) \<Rightarrow>
          if in_len \<le> 0 then Some (None, ie, ielen)
          else rtw_get_ie_ex_loop m p in_len eid oui oui_len ie ielen 0)"

declare rtw_get_ie_loop.simps [simp del] rtw_get_ie_ex_loop.simps [simp del]

lemma rtw_get_ie_ex_loop_cases:
  assumes "rtw_get_ie_ex_loop m p n eid oui ol ie il cnt = Some r"
  obtains (over) "n \<le> cnt" "r = (None, ie, il)"
    | (hit) ie' il' where "cnt < n" "r = (Some (p + cnt), ie', il')"
        "ie = None \<Longrightarrow> ie' = None" "il \<noteq> None \<Longrightarrow> \<exists>l :: u8. il' = Some (unat l + 2)"
    | (miss) l :: u8 where "cnt < n"
        "rtw_get_ie_ex_loop m p n eid oui ol ie il (cnt + (unat l + 2)) = Some r"
proof (cases "cnt < n")
  case True
  note unf = rtw_get_ie_ex_loop.simps [of m p n eid oui ol ie il cnt]
  from True assms obtain b h where
      b: "rd m (p + cnt) = Some b" and
      h: "(if eid = b then (case oui of None \<Rightarrow> Some True | Some o' \<Rightarrow> memeq m (p + cnt + 2) o' ol)
             else Some False) = Some h"
    unfolding unf by (simp add: Option.bind_eq_Some_conv split del: if_split) blast
  show thesis
  proof (cases h)
    case True
    with assms \<open>cnt < n\<close> b h obtain ie' il' where "r = (Some (p + cnt), ie', il')"
        "ie = None \<Longrightarrow> ie' = None" "il \<noteq> None \<Longrightarrow> \<exists>l :: u8. il' = Some (unat l + 2)"
      unfolding unf
      by (cases ie; cases il) (auto simp: Option.bind_eq_Some_conv split del: if_split)
    with \<open>cnt < n\<close> show thesis by (rule hit)
  next
    case False
    with assms \<open>cnt < n\<close> b h obtain l :: u8 where
        "rtw_get_ie_ex_loop m p n eid oui ol ie il (cnt + (unat l + 2)) = Some r"
      unfolding unf by (simp add: Option.bind_eq_Some_conv split del: if_split) blast
    with \<open>cnt < n\<close> show thesis by (rule miss)
  qed
qed (use assms in \<open>simp add: rtw_get_ie_ex_loop.simps over\<close>)

lemma rtw_get_ie_ex_loop_ge:
  "rtw_get_ie_ex_loop m p n eid oui ol ie il cnt = Some (Some t, r) \<Longrightarrow> p + cnt \<le> t"
proof (induction "n - cnt" arbitrary: cnt rule: less_induct)
  case less
  from less.prems show ?case
  proof (cases rule: rtw_get_ie_ex_loop_cases)
    case (miss l)
    then show ?thesis using less.hyps [of "cnt + (unat l + 2)"] by (simp add: diff_less_mono2)
  qed auto
qed

lemma rtw_get_ie_ex_ge:
  "rtw_get_ie_ex (Some (m, p)) n eid oui ol ie il = Some (Some t, r) \<Longrightarrow> p \<le> t"
  by (auto simp: rtw_get_ie_ex_def Let_def split: if_splits dest: rtw_get_ie_ex_loop_ge)

section \<open>Editors\<close>

datatype status = SUCCESS | FAIL

text \<open>\<open>alloc n\<close> tells whether \<open>rtw_malloc(n)\<close> succeeds.\<close>

definition rtw_ies_update_ie ::
    "(nat \<Rightarrow> bool) \<Rightarrow> bytes option \<Rightarrow> nat \<Rightarrow> nat \<Rightarrow> u8 \<Rightarrow> bytes \<Rightarrow> u8
       \<Rightarrow> (bytes option \<times> nat \<times> status) option" where
  "rtw_ies_update_ie alloc ies ies_len ies_offset eid content content_len =
     (case ies of
        None \<Rightarrow> Some (ies, ies_len, FAIL)
      | Some m \<Rightarrow>
          if ies_len = 0 \<or> ies_len \<le> ies_offset then Some (ies, ies_len, FAIL)
          else do {
            let search_len = ies_len - ies_offset;
            (target, tlen) \<leftarrow> rtw_get_ie m ies_offset (uint eid) 0 (int search_len);
            (case target of
               None \<Rightarrow> Some (ies, ies_len, FAIL)
             | Some t \<Rightarrow>
                 if tlen = 0 then Some (ies, ies_len, FAIL)
                 else if nat tlen \<noteq> unat content_len then do {
                   let remain_ies = t + 2 + nat tlen;
                   let remain_len = usub32 search_len (remain_ies - ies_offset);
                   if \<not> alloc remain_len then Some (ies, ies_len, FAIL)
                   else do {
                     backup \<leftarrow> rd_n m remain_ies remain_len;
                     m1 \<leftarrow> memcpy m (t + 2) content 0 (unat content_len);
                     m2 \<leftarrow> wr m1 (t + 1) content_len;
                     m3 \<leftarrow> wr_n m2 (t + 2 + unat content_len) backup;
                     Some (Some m3, ies_len + unat content_len - nat tlen, SUCCESS) } }
                 else do {
                   m1 \<leftarrow> memcpy m (t + 2) content 0 (unat content_len);
                   m2 \<leftarrow> wr m1 (t + 1) content_len;
                   Some (Some m2, ies_len, SUCCESS) }) })"

text \<open>The loop of \<open>rtw_ies_remove_ie\<close>. When the element runs past \<open>search_len\<close> the \<open>uint\<close>
  difference wraps to more than \<open>2^31\<close>, so that the move leaves every object: that branch is the
  memory error \<open>None\<close>.\<close>

function rtw_ies_remove_ie_loop ::
    "bytes \<Rightarrow> nat \<Rightarrow> nat \<Rightarrow> nat \<Rightarrow> u8 \<Rightarrow> bytes option \<Rightarrow> nat \<Rightarrow> status
       \<Rightarrow> (bytes \<times> nat \<times> status) option" where
  "rtw_ies_remove_ie_loop m ies_len start search_len eid oui oui_len ret = do {
     (target, _, tlen) \<leftarrow> rtw_get_ie_ex (Some (m, start)) search_len eid oui oui_len None (Some 0);
     (case (target, tlen) of
        (Some t, Some target_ielen) \<Rightarrow>
          if target_ielen \<noteq> 0 then do {
            let remain_ies = t + target_ielen;
            if search_len < remain_ies - start then None
            else do {
              let remain_len = search_len - (remain_ies - start);
              moved \<leftarrow> rd_n m remain_ies remain_len;
              m1 \<leftarrow> wr_n m t moved;
              rtw_ies_remove_ie_loop m1 (ies_len - target_ielen) t remain_len eid oui oui_len SUCCESS } }
          else Some (m, ies_len, ret)
      | _ \<Rightarrow> Some (m, ies_len, ret)) }"
  by pat_completeness auto
termination
  by (relation "measure (\<lambda>(m, ies_len, start, search_len, eid, oui, oui_len, ret). search_len)")
    (auto dest!: rtw_get_ie_ex_ge)

declare rtw_ies_remove_ie_loop.simps [simp del]

definition rtw_ies_remove_ie ::
    "bytes option \<Rightarrow> nat option \<Rightarrow> nat \<Rightarrow> u8 \<Rightarrow> bytes option \<Rightarrow> nat
       \<Rightarrow> (bytes option \<times> nat option \<times> status) option" where
  "rtw_ies_remove_ie ies ies_len offset eid oui oui_len =
     (case (ies, ies_len) of
        (Some m, Some n) \<Rightarrow>
          if n \<le> offset then Some (ies, ies_len, FAIL)
          else do {
            (m', n', r) \<leftarrow> rtw_ies_remove_ie_loop m n offset (n - offset) eid oui oui_len FAIL;
            Some (Some m', Some n', r) }
      | _ \<Rightarrow> Some (ies, ies_len, FAIL))"

section \<open>The encoding\<close>

lemma ie_enc_simps [simp]:
  "length (ie_enc e) = length (snd e) + 2"
  "ie_enc e \<noteq> []"
  by (simp_all add: ie_enc_def)

lemma ies_enc_simps [simp]:
  "ies_enc [] = []"
  "ies_enc (e # es) = ie_enc e @ ies_enc es"
  "ies_enc (es @ es') = ies_enc es @ ies_enc es'"
  by (simp_all add: ies_enc_def)

lemma rd_ie_eid: "drop k m = ie_enc e @ post \<Longrightarrow> rd m k = Some (fst e)"
  by (rule rd_drop) (simp add: ie_enc_def)

lemma rd_ie_len: "drop k m = ie_enc e @ post \<Longrightarrow> rd m (k + 1) = Some (of_nat (length (snd e)))"
  by (rule rd_drop [of _ _ _ "snd e @ post"]) (simp add: ie_enc_def drop_Suc drop_tl)

lemma rd_n_ie_data:
  assumes "drop k m = ie_enc e @ post" "n \<le> length (snd e)"
  shows "rd_n m (k + 2) n = Some (take n (snd e))"
proof -
  have "drop (k + 2) m = snd e @ post"
    using drop_add [of k m "[fst e, of_nat (length (snd e))]" "snd e @ post"] assms(1)
    by (simp add: ie_enc_def)
  moreover have "k + length (ie_enc e) \<le> length m"
    using assms(1) by (rule drop_app_le) simp
  ultimately show ?thesis using assms(2) by (simp add: rd_n_def)
qed

lemmas rd_ie = rd_ie_eid rd_ie_len rd_ie_len [simplified] rd_n_ie_data rd_n_ie_data [simplified]

lemma first_match_Some:
  "first_match P off es = Some (k, e) \<Longrightarrow>
     \<exists>es1 es2. es = es1 @ e # es2 \<and> P e \<and> (\<forall>x \<in> set es1. \<not> P x) \<and> k = off + length (ies_enc es1)"
proof (induction es arbitrary: off)
  case (Cons a es)
  show ?case
  proof (cases "P a")
    case True
    with Cons.prems show ?thesis by (metis append_Nil empty_iff first_match.simps(2) ies_enc_simps(1) length_0_conv
          list.set(1) Nat.add_0_right option.inject prod.inject)
  next
    case False
    with Cons.prems have "first_match P (off + length (ie_enc a)) es = Some (k, e)" by simp
    then obtain es1 es2 where "es = es1 @ e # es2" "P e" "\<forall>x \<in> set es1. \<not> P x"
        "k = off + length (ie_enc a) + length (ies_enc es1)"
      using Cons.IH by blast
    with False show ?thesis
      by - (rule exI [of _ "a # es1"], rule exI [of _ es2], auto)
  qed
qed simp

lemma first_match_None: "first_match P off es = None \<longleftrightarrow> (\<forall>e \<in> set es. \<not> P e)"
  by (induction es arbitrary: off) auto

lemma first_match_app:
  "\<forall>x \<in> set es1. \<not> P x \<Longrightarrow> first_match P off (es1 @ es2) = first_match P (off + length (ies_enc es1)) es2"
  by (induction es1 arbitrary: off) (auto simp: add.assoc)

section \<open>The contract of an element searcher\<close>

text \<open>
  \<open>find m p n cnt\<close> searches the \<open>n\<close> bytes at \<open>p\<close> from offset \<open>cnt\<close> on. \<open>match\<close> is what the
  searcher looks for, \<open>ok\<close> the elements on which it behaves (a searcher that compares a fixed
  number of content bytes needs candidates that have them), \<open>lim\<close> the lengths it accepts.
\<close>

locale ie_finder =
  fixes find :: "bytes \<Rightarrow> nat \<Rightarrow> nat \<Rightarrow> nat \<Rightarrow> (nat \<times> nat) option option"
    and ok :: "ie \<Rightarrow> bool"
    and match :: "ie \<Rightarrow> bool"
    and lim :: "nat \<Rightarrow> bool"
  assumes ok_wf: "ok e \<Longrightarrow> wf_ie e"
    and find_done: "lim n \<Longrightarrow> find m p n n = Some None"
    and find_hit: "ok e \<Longrightarrow> match e \<Longrightarrow> lim n \<Longrightarrow> drop (p + cnt) m = ie_enc e @ post \<Longrightarrow>
          cnt + length (ie_enc e) \<le> n \<Longrightarrow> p + n \<le> length m \<Longrightarrow>
          find m p n cnt = Some (Some (p + cnt, length (snd e)))"
    and find_miss: "ok e \<Longrightarrow> \<not> match e \<Longrightarrow> lim n \<Longrightarrow> drop (p + cnt) m = ie_enc e @ post \<Longrightarrow>
          cnt + length (ie_enc e) \<le> n \<Longrightarrow> p + n \<le> length m \<Longrightarrow>
          find m p n cnt = find m p n (cnt + length (ie_enc e))"
begin

lemma find_first:
  assumes "list_all ok es" "lim n" "drop (p + cnt) m = ies_enc es @ post"
    "n = cnt + length (ies_enc es)" "p + n \<le> length m"
  shows "find m p n cnt =
     Some (map_option (\<lambda>(k, e). (k, length (snd e))) (first_match match (p + cnt) es))"
  using assms
proof (induction es arbitrary: cnt)
  case Nil
  then show ?case by (simp add: find_done)
next
  case (Cons e es)
  from Cons.prems have e: "ok e" "drop (p + cnt) m = ie_enc e @ ies_enc es @ post"
      "cnt + length (ie_enc e) \<le> n" by simp_all
  show ?case
  proof (cases "match e")
    case True
    with e Cons.prems show ?thesis by (simp add: find_hit)
  next
    case False
    have "drop (p + (cnt + length (ie_enc e))) m = ies_enc es @ post"
      using drop_add [OF e(2)] by (simp add: add.assoc)
    then have "find m p n (cnt + length (ie_enc e)) =
        Some (map_option (\<lambda>(k, e). (k, length (snd e)))
          (first_match match (p + (cnt + length (ie_enc e))) es))"
      using Cons.prems by (intro Cons.IH) simp_all
    moreover have "find m p n cnt = find m p n (cnt + length (ie_enc e))"
      using e False Cons.prems by (intro find_miss) simp_all
    ultimately show ?thesis using False by (simp add: add.assoc)
  qed
qed

lemma find_none_iff:
  assumes "list_all ok es" "lim n" "drop p m = ies_enc es @ post" "n = length (ies_enc es)"
    "p + n \<le> length m"
  shows "find m p n 0 = Some None \<longleftrightarrow> (\<forall>e \<in> set es. \<not> match e)"
  using find_first [of es n p 0 m post] assms by (simp add: first_match_None)

end

section \<open>The searchers meet the contract\<close>

definition find_ie :: "int \<Rightarrow> bytes \<Rightarrow> nat \<Rightarrow> nat \<Rightarrow> nat \<Rightarrow> (nat \<times> nat) option option" where
  "find_ie index m p n cnt =
     (if cnt < n
      then map_option (\<lambda>(t, l). map_option (\<lambda>k. (k, nat l)) t) (rtw_get_ie_loop m p index (int n) cnt)
      else Some None)"

interpretation get_ie: ie_finder "find_ie index" wf_ie "\<lambda>e. uint (fst e) = index" "\<lambda>_. True"
  for index
proof (unfold_locales, goal_cases)
  case (2 n m p)
  show ?case by (simp add: find_ie_def)
next
  case (3 e n p cnt m post)
  then show ?case
    by (simp add: find_ie_def rtw_get_ie_loop.simps [of m p index "int n" cnt] rd_ie_eid
        rd_ie_len [simplified] wf_ie_def unat_of_nat_u8 flip: unat_eq_nat_uint)
next
  case (4 e n p cnt m post)
  then show ?case
    by (simp add: find_ie_def rtw_get_ie_loop.simps [of m p index "int n" cnt] rd_ie_eid
        rd_ie_len [simplified] wf_ie_def unat_of_nat_u8 add.assoc)
qed simp

definition ie_ex_ok :: "u8 \<Rightarrow> bytes option \<Rightarrow> nat \<Rightarrow> ie \<Rightarrow> bool" where
  "ie_ex_ok eid oui oui_len e \<longleftrightarrow>
     wf_ie e \<and>
     (case oui of None \<Rightarrow> True
      | Some o' \<Rightarrow> oui_len \<le> length o' \<and> (fst e = eid \<longrightarrow> oui_len \<le> length (snd e)))"

definition ie_ex_match :: "u8 \<Rightarrow> bytes option \<Rightarrow> nat \<Rightarrow> ie \<Rightarrow> bool" where
  "ie_ex_match eid oui oui_len e \<longleftrightarrow>
     fst e = eid \<and>
     (case oui of None \<Rightarrow> True | Some o' \<Rightarrow> take oui_len (snd e) = take oui_len o')"

definition find_ie_ex ::
    "u8 \<Rightarrow> bytes option \<Rightarrow> nat \<Rightarrow> bytes \<Rightarrow> nat \<Rightarrow> nat \<Rightarrow> nat \<Rightarrow> (nat \<times> nat) option option" where
  "find_ie_ex eid oui oui_len m p n cnt =
     map_option (\<lambda>(t, _, l). map_option (\<lambda>k. (k, the l - 2)) t)
       (rtw_get_ie_ex_loop m p n eid oui oui_len None (Some 0) cnt)"

lemma ie_ex_compare:
  assumes "ie_ex_ok eid oui ol e" "drop k m = ie_enc e @ post"
  shows "(if eid = fst e then (case oui of None \<Rightarrow> Some True | Some o' \<Rightarrow> memeq m (k + 2) o' ol)
          else Some False) = Some (ie_ex_match eid oui ol e)"
  using assms
  by (auto simp: ie_ex_ok_def ie_ex_match_def memeq_def rd_ie rd_n_in split: option.split)

interpretation get_ie_ex:
  ie_finder "find_ie_ex eid oui ol" "ie_ex_ok eid oui ol" "ie_ex_match eid oui ol" "\<lambda>_. True"
  for eid oui ol
proof (unfold_locales, goal_cases)
  case (1 e)
  then show ?case by (simp add: ie_ex_ok_def)
next
  case (2 n m p)
  show ?case by (simp add: find_ie_ex_def rtw_get_ie_ex_loop.simps)
next
  case (3 e n p cnt m post)
  note cmp = ie_ex_compare [OF 3(1,4)]
  from 3 have "unat (of_nat (length (snd e)) :: u8) = length (snd e)"
    by (simp add: ie_ex_ok_def wf_ie_def unat_of_nat_u8)
  with 3 cmp show ?case
    by (simp add: find_ie_ex_def rtw_get_ie_ex_loop.simps [of m p n eid oui ol None "Some 0" cnt]
        rd_ie_eid rd_ie_len [simplified] split del: if_split)
next
  case (4 e n p cnt m post)
  note cmp = ie_ex_compare [OF 4(1,4)]
  from 4 have "unat (of_nat (length (snd e)) :: u8) = length (snd e)"
    by (simp add: ie_ex_ok_def wf_ie_def unat_of_nat_u8)
  with 4 cmp show ?case
    by (simp add: find_ie_ex_def rtw_get_ie_ex_loop.simps [of m p n eid oui ol None "Some 0" cnt]
        rd_ie_eid rd_ie_len [simplified] split del: if_split)
qed

section \<open>What the searchers return\<close>

lemma rtw_get_ie_find:
  assumes "0 < n" "find_ie index m p n 0 = Some r"
  shows "\<exists>l. rtw_get_ie m p index len (int n) = Some (map_option fst r, l) \<and>
             (case r of None \<Rightarrow> True | Some (k, d) \<Rightarrow> nat l = d)"
  using assms by (auto simp: find_ie_def rtw_get_ie_def option.map_comp comp_def split: option.split)

lemma rtw_get_ie_loop_len:
  "rtw_get_ie_loop m p index limit i = Some (t, l) \<Longrightarrow> 0 \<le> l \<and> (t = None \<longrightarrow> l = 0)"
proof (induction m p index limit i rule: rtw_get_ie_loop.induct)
  case (1 m p index limit i)
  from "1.prems" obtain b tmp where rds: "rd m (p + i) = Some b" "rd m (p + i + 1) = Some tmp"
    by (subst (asm) rtw_get_ie_loop.simps) (auto simp: Option.bind_eq_Some_conv)
  show ?case
    using "1.prems" "1.IH" [OF rds] rds
    by (subst (asm) rtw_get_ie_loop.simps) (auto split: if_splits)
qed

lemma rtw_get_ie_first:
  assumes "list_all wf_ie es" and "es \<noteq> []"
    and "m = pre @ ies_enc es @ post"
  shows "rtw_get_ie m (length pre) index len (int (length (ies_enc es))) =
     Some (case first_match (\<lambda>e. uint (fst e) = index) (length pre) es of
             None \<Rightarrow> (None, 0)
           | Some (k, e) \<Rightarrow> (Some k, int (length (snd e))))"
proof -
  let ?n = "length (ies_enc es)"
  from assms(2) have n: "0 < ?n" by (cases es) auto
  have "find_ie index m (length pre) ?n 0 = Some (map_option (\<lambda>(k, e). (k, length (snd e)))
      (first_match (\<lambda>e. uint (fst e) = index) (length pre + 0) es))"
    using assms by (intro get_ie.find_first [where post = post]) simp_all
  from rtw_get_ie_find [OF n this, of len] obtain l where
    res: "rtw_get_ie m (length pre) index len (int ?n) =
        Some (map_option fst (first_match (\<lambda>e. uint (fst e) = index) (length pre) es), l)"
    and l: "\<forall>k e. first_match (\<lambda>e. uint (fst e) = index) (length pre) es = Some (k, e) \<longrightarrow>
              nat l = length (snd e)"
    by (auto simp: option.map_comp comp_def case_prod_beta split: option.splits)
  from res n have "0 \<le> l \<and> (first_match (\<lambda>e. uint (fst e) = index) (length pre) es = None \<longrightarrow> l = 0)"
    by (auto simp: rtw_get_ie_def split: if_splits dest!: rtw_get_ie_loop_len)
  with res l show ?thesis by (auto split: option.splits)
qed

text \<open>On a well-formed sequence of elements \<open>rtw_get_ie\<close> never leaves the buffer, and returns
  the offset and the content length of the first element with the given identifier, and a null
  pointer with length 0 when there is none.\<close>

theorem rtw_get_ie_correct:
  assumes "list_all wf_ie es" and "es \<noteq> []"
    and "m = pre @ ies_enc es @ post"
  shows "rtw_get_ie m (length pre) index len (int (length (ies_enc es))) =
     Some (case first_match (\<lambda>e. uint (fst e) = index) (length pre) es of
             None \<Rightarrow> (None, 0)
           | Some (k, e) \<Rightarrow> (Some k, int (length (snd e))))"
  using assms by (rule rtw_get_ie_first)

theorem rtw_get_ie_correct_witness:
  "rtw_get_ie (ies_enc [(0, [65, 66]), (48, [1, 0])]) 0 48 0 8 = Some (Some 4, 2)"
  using rtw_get_ie_correct [of "[(0, [65, 66]), (48, [1, 0])]"
      "ies_enc [(0, [65, 66]), (48, [1, 0])]" "[]" "[]" 48 0]
  by (simp add: wf_ie_def)

text \<open>On arbitrary bytes \<open>rtw_get_ie\<close> reads at most one byte past its limit: it never leaves an
  object that has one more byte than the limit.\<close>

theorem rtw_get_ie_bounds:
  assumes "pbuf + nat limit < length m"
  shows "\<exists>r. rtw_get_ie m pbuf index len limit = Some r"
proof -
  have "int i < limit \<Longrightarrow> \<exists>r. rtw_get_ie_loop m pbuf index limit i = Some r" for i
    using assms
  proof (induction m pbuf index limit i rule: rtw_get_ie_loop.induct)
    case (1 m pbuf index limit i)
    then have "rd m (pbuf + i) = Some (m ! (pbuf + i))"
        "rd m (pbuf + i + 1) = Some (m ! (pbuf + i + 1))"
      by (simp_all add: rd_def)
    with 1 show ?case by (subst rtw_get_ie_loop.simps) auto
  qed
  then show ?thesis by (simp add: rtw_get_ie_def)
qed

theorem rtw_get_ie_bounds_witness:
  "\<exists>r. rtw_get_ie [0, 0, 0 :: u8] 0 48 0 2 = Some r"
  using rtw_get_ie_bounds [of 0 2 "[0, 0, 0]" 48 0] by simp

lemma rtw_get_ie_ex_loop_shape:
  "rtw_get_ie_ex_loop m p n eid oui ol None (Some 0) cnt = Some (t, ie', il) \<Longrightarrow>
     ie' = None \<and> (\<exists>l. il = Some l \<and> (case t of None \<Rightarrow> l = 0 | Some _ \<Rightarrow> 2 \<le> l))"
proof (induction "n - cnt" arbitrary: cnt rule: less_induct)
  case less
  from less.prems show ?case
  proof (cases rule: rtw_get_ie_ex_loop_cases)
    case (miss l)
    then show ?thesis using less.hyps [of "cnt + (unat l + 2)"] by (simp add: diff_less_mono2)
  qed auto
qed

lemma rtw_get_ie_ex_find:
  assumes "list_all (ie_ex_ok eid oui ol) es" "drop p m = ies_enc es @ post"
    "n = length (ies_enc es)" "p + n \<le> length m"
  shows "rtw_get_ie_ex (Some (m, p)) n eid oui ol None (Some il) =
     Some (case first_match (ie_ex_match eid oui ol) p es of
             None \<Rightarrow> (None, None, Some 0)
           | Some (k, e) \<Rightarrow> (Some k, None, Some (length (snd e) + 2)))"
proof (cases "n = 0")
  case True
  with assms(3) have "es = []" by (cases es) auto
  with True show ?thesis by (simp add: rtw_get_ie_ex_def)
next
  case False
  have "find_ie_ex eid oui ol m p n 0 = Some (map_option (\<lambda>(k, e). (k, length (snd e)))
      (first_match (ie_ex_match eid oui ol) (p + 0) es))"
    using assms by (intro get_ie_ex.find_first [where post = post]) simp_all
  then obtain t ie' l where
      loop: "rtw_get_ie_ex_loop m p n eid oui ol None (Some 0) 0 = Some (t, ie', l)" and
      t: "map_option (\<lambda>k. (k, the l - 2)) t =
        map_option (\<lambda>(k, e). (k, length (snd e))) (first_match (ie_ex_match eid oui ol) p es)"
    by (auto simp: find_ie_ex_def)
  from rtw_get_ie_ex_loop_shape [OF loop] loop t False show ?thesis
    by (auto simp: rtw_get_ie_ex_def split: option.splits)
qed

lemma remove_loop:
  assumes "list_all (ie_ex_ok eid oui ol) es" "drop start m = ies_enc es @ post"
    "n = length (ies_enc es)" "start + n \<le> length m"
  shows "\<exists>m' junk. rtw_ies_remove_ie_loop m ies_len start n eid oui ol ret =
       Some (m', ies_len - length (ies_enc (filter (ie_ex_match eid oui ol) es)),
             if \<exists>e \<in> set es. ie_ex_match eid oui ol e then SUCCESS else ret) \<and>
     m' = take start m @ ies_enc (filter (\<lambda>e. \<not> ie_ex_match eid oui ol e) es) @ junk @ post \<and>
     length m' = length m"
  using assms
proof (induction "length es" arbitrary: es m start n ies_len ret post rule: less_induct)
  case (less es)
  let ?P = "ie_ex_match eid oui ol"
  note get = rtw_get_ie_ex_find [OF less.prems, of 0]
  show ?case
  proof (cases "first_match ?P start es")
    case None
    then have "\<forall>e \<in> set es. \<not> ?P e" by (simp add: first_match_None)
    then have "filter ?P es = []" "filter (\<lambda>e. \<not> ?P e) es = es"
      by (simp_all add: filter_empty_conv)
    moreover have "m = take start m @ ies_enc es @ post"
      using less.prems(2) by (metis append_take_drop_id)
    moreover have "rtw_ies_remove_ie_loop m ies_len start n eid oui ol ret = Some (m, ies_len, ret)"
      using None get by (simp add: rtw_ies_remove_ie_loop.simps)
    ultimately show ?thesis
      using \<open>\<forall>e \<in> set es. \<not> ?P e\<close> by (intro exI [of _ m] exI [of _ "[]"]) simp
  next
    case (Some ke)
    obtain k e where ke: "ke = (k, e)" by (cases ke)
    from first_match_Some [OF Some [unfolded ke]] obtain es1 es2 where
      es: "es = es1 @ e # es2" and e: "?P e" and es1: "\<forall>x \<in> set es1. \<not> ?P x" and
      k: "k = start + length (ies_enc es1)" by blast
    let ?m1 = "take k m @ ies_enc es2 @ drop (k + length (ies_enc es2)) m"
    let ?n2 = "length (ies_enc es2)"
    have mk: "m = take start m @ ies_enc es1 @ ie_enc e @ ies_enc es2 @ post"
      using less.prems(2) by (metis append_assoc append_take_drop_id es ies_enc_simps(2,3))
    have n: "n = length (ies_enc es1) + (length (snd e) + 2) + ?n2"
      using less.prems(3) es by simp
    have st: "length (take start m) = start" using less.prems(4) by simp
    have tk: "take k m = take start m @ ies_enc es1"
      using arg_cong [OF mk, of "take k"] st k by simp
    have dk: "drop k m = ie_enc e @ ies_enc es2 @ post"
      using arg_cong [OF mk, of "drop k"] st k by simp
    have junk: "drop (k + ?n2) m = drop ?n2 (ie_enc e @ ies_enc es2) @ post"
      using arg_cong [OF dk, of "drop ?n2"] by (simp add: add.commute)
    have moved: "rd_n m (k + (length (snd e) + 2)) ?n2 = Some (ies_enc es2)"
      using drop_add [OF dk] k n less.prems(4) by (simp add: rd_n_def)
    have wr: "wr_n m k (ies_enc es2) = Some ?m1"
      using k n less.prems(4) by (simp add: wr_n_def)
    have "length es2 < length es" using es by simp
    moreover have "list_all (ie_ex_ok eid oui ol) es2" using less.prems(1) es by simp
    moreover have "drop k ?m1 = ies_enc es2 @ drop (k + ?n2) m"
      using k n less.prems(4) by simp
    moreover have "k + ?n2 \<le> length ?m1" using k n less.prems(4) by simp
    ultimately obtain m' junk' where
      rec: "rtw_ies_remove_ie_loop ?m1 (ies_len - (length (snd e) + 2)) k ?n2 eid oui ol SUCCESS =
         Some (m', ies_len - (length (snd e) + 2) - length (ies_enc (filter ?P es2)),
               if \<exists>e \<in> set es2. ?P e then SUCCESS else SUCCESS)" and
      m': "m' = take k ?m1 @ ies_enc (filter (\<lambda>e. \<not> ?P e) es2) @ junk' @ drop (k + ?n2) m"
         "length m' = length ?m1"
      using less.hyps [of es2 k ?m1 "drop (k + ?n2) m" ?n2 "ies_len - (length (snd e) + 2)" SUCCESS]
      by blast
    have loop: "rtw_ies_remove_ie_loop m ies_len start n eid oui ol ret =
        rtw_ies_remove_ie_loop ?m1 (ies_len - (length (snd e) + 2)) k ?n2 eid oui ol SUCCESS"
      using get Some ke moved wr k n
      by (subst rtw_ies_remove_ie_loop.simps) (simp add: Let_def add.assoc)
    have "filter ?P es1 = []" "filter (\<lambda>e. \<not> ?P e) es1 = es1"
      using es1 by (simp_all add: filter_empty_conv)
    moreover have "m' = take start m @ ies_enc (filter (\<lambda>e. \<not> ?P e) es) @
        (junk' @ drop ?n2 (ie_enc e @ ies_enc es2)) @ post"
      using m'(1) tk junk e es calculation k n less.prems(4) by simp
    moreover have "length m' = length m" using m'(2) k n less.prems(4) by simp
    moreover have "rtw_ies_remove_ie_loop m ies_len start n eid oui ol ret =
       Some (m', ies_len - length (ies_enc (filter ?P es)),
             if \<exists>e \<in> set es. ?P e then SUCCESS else ret)"
      using loop rec e es calculation(1) by (simp add: diff_diff_left add.assoc)
    ultimately show ?thesis by blast
  qed
qed

lemma length_ies_enc_partition:
  "length (ies_enc (filter P es)) + length (ies_enc (filter (\<lambda>e. \<not> P e) es)) = length (ies_enc es)"
  by (induction es) auto

text \<open>\<open>rtw_ies_remove_ie\<close> deletes exactly the matching elements: the sequence that is left is the
  old one with the matching elements filtered out, the recorded length shrinks accordingly, the
  bytes before and after the sequence are untouched, and the status says whether anything was
  deleted.\<close>

theorem rtw_ies_remove_ie_correct:
  assumes "list_all (ie_ex_ok eid oui ol) es" and "es \<noteq> []"
    and "m = pre @ ies_enc es @ post"
  shows "\<exists>m' junk.
     rtw_ies_remove_ie (Some m) (Some (length pre + length (ies_enc es))) (length pre) eid oui ol =
       Some (Some m',
             Some (length pre + length (ies_enc (filter (\<lambda>e. \<not> ie_ex_match eid oui ol e) es))),
             if \<exists>e \<in> set es. ie_ex_match eid oui ol e then SUCCESS else FAIL) \<and>
     m' = pre @ ies_enc (filter (\<lambda>e. \<not> ie_ex_match eid oui ol e) es) @ junk @ post \<and>
     length m' = length m"
proof -
  let ?P = "ie_ex_match eid oui ol" and ?n = "length (ies_enc es)"
  from assms(2) have "0 < ?n" by (cases es) auto
  moreover obtain m' junk where
    "rtw_ies_remove_ie_loop m (length pre + ?n) (length pre) ?n eid oui ol FAIL =
       Some (m', length pre + ?n - length (ies_enc (filter ?P es)),
             if \<exists>e \<in> set es. ?P e then SUCCESS else FAIL)"
    "m' = take (length pre) m @ ies_enc (filter (\<lambda>e. \<not> ?P e) es) @ junk @ post"
    "length m' = length m"
    using remove_loop [OF assms(1), of "length pre" m post ?n "length pre + ?n" FAIL] assms(3)
    by auto
  moreover have "length pre + ?n - length (ies_enc (filter ?P es)) =
      length pre + length (ies_enc (filter (\<lambda>e. \<not> ?P e) es))"
    using length_ies_enc_partition [of ?P es] by linarith
  ultimately show ?thesis
    using assms(3) by (intro exI [of _ m'] exI [of _ junk]) (simp add: rtw_ies_remove_ie_def)
qed

theorem rtw_ies_remove_ie_correct_witness:
  "\<exists>m' junk. rtw_ies_remove_ie (Some ([9] @ ies_enc [(127, [1]), (0, [65]), (127, [2])] @ [7]))
       (Some 10) 1 127 None 0 = Some (Some m', Some 4, SUCCESS) \<and>
     m' = [9] @ ies_enc [(0, [65])] @ junk @ [7] \<and> length m' = 11"
  using rtw_ies_remove_ie_correct [of 127 None 0 "[(127, [1]), (0, [65]), (127, [2])]"
      "[9] @ ies_enc [(127, [1]), (0, [65]), (127, [2])] @ [7]" "[9]" "[7]"]
  by (simp add: ie_ex_ok_def ie_ex_match_def wf_ie_def, simp add: numeral_eq_Suc)

lemma memcpy_content:
  "length c \<le> length rest \<Longrightarrow>
     memcpy (A @ a # b # rest) (length A + 2) c 0 (length c) = Some (A @ a # b # c @ drop (length c) rest)"
  by (simp add: memcpy_def rd_n_def wr_n_def numeral_eq_Suc)

lemma wr_len: "wr (A @ a # b # rest) (length A + 1) v = Some (A @ a # v # rest)"
  by (simp add: wr_def list_update_append)

lemma wr_n_tail:
  "length z \<le> length y \<Longrightarrow>
     wr_n (A @ a # v # c @ y) (length A + 2 + length c) z = Some (A @ a # v # c @ z @ drop (length z) y)"
  using wr_n_def [of "(A @ a # v # c) @ y" "length (A @ a # v # c)" z] by simp

text \<open>\<open>rtw_ies_update_ie\<close> replaces the content of the first element with the given identifier,
  of any new length, and keeps every other element, when the buffer has room and the scratch
  allocation succeeds.\<close>

theorem rtw_ies_update_ie_correct:
  assumes "list_all wf_ie (es1 @ (eid, d) # es2)" and "\<forall>e \<in> set es1. fst e \<noteq> eid" and "d \<noteq> []"
    and "m = pre @ ies_enc (es1 @ (eid, d) # es2) @ post"
    and "unat cl = length content" and "alloc (length (ies_enc es2))"
    and "length content \<le> length d + length post"
  shows "\<exists>m' post'.
     rtw_ies_update_ie alloc (Some m) (length pre + length (ies_enc (es1 @ (eid, d) # es2)))
       (length pre) eid content cl =
     Some (Some m', length pre + length (ies_enc (es1 @ (eid, content) # es2)), SUCCESS) \<and>
     m' = pre @ ies_enc (es1 @ (eid, content) # es2) @ post' \<and> length m' = length m"
proof -
  let ?A = "pre @ ies_enc es1" and ?E2 = "ies_enc es2"
  let ?n = "length (ies_enc (es1 @ (eid, d) # es2))"
  let ?B = "d @ ?E2 @ post"
  have m: "m = ?A @ eid # of_nat (length d) # ?B"
    using assms(4) by (simp add: ie_enc_def)
  have cl: "cl = of_nat (length content)" using assms(5) by (metis of_nat_unat ucast_id)
  have "first_match (\<lambda>e. uint (fst e) = uint eid) (length pre) (es1 @ (eid, d) # es2) =
      Some (length ?A, (eid, d))"
    using assms(2) by (subst first_match_app) (auto dest: unsigned_word_eqI)
  then have get: "rtw_get_ie m (length pre) (uint eid) 0 (int ?n) =
      Some (Some (length ?A), int (length d))"
    using rtw_get_ie_first [OF assms(1) _ assms(4), of "uint eid" 0] by simp
  have room: "length content \<le> length ?B" using assms(7) by simp
  note c1 = memcpy_content [OF room, of ?A eid "of_nat (length d)"]
  show ?thesis
  proof (cases "length d = length content")
    case True
    with assms(3) have "content \<noteq> []" by auto
    with True have "rtw_ies_update_ie alloc (Some m) (length pre + ?n) (length pre) eid content cl =
        Some (Some (?A @ eid # cl # content @ ?E2 @ post), length pre + ?n, SUCCESS)"
      using get c1 wr_len [of ?A eid "of_nat (length d)" _ cl] assms(3,5) m
      by (simp add: rtw_ies_update_ie_def Let_def)
    with True cl m show ?thesis
      by (intro exI [of _ "?A @ eid # cl # content @ ?E2 @ post"] exI [of _ post])
        (simp add: ie_enc_def)
  next
    case False
    define post' where "post' = drop (length ?E2) (drop (length content) ?B)"
    have bk: "rd_n m (length ?A + 2 + length d) (length ?E2) = Some ?E2"
      using m rd_n_app [of "length ?E2" ?E2 "?A @ eid # of_nat (length d) # d" post]
      by (simp add: add.assoc)
    have tail: "length ?E2 \<le> length (drop (length content) ?B)" using assms(7) by simp
    have "usub32 ?n (length ?A + 2 + length d - length pre) = length ?E2"
      by (simp add: usub32_def)
    then have "rtw_ies_update_ie alloc (Some m) (length pre + ?n) (length pre) eid content cl =
        Some (Some (?A @ eid # cl # content @ ?E2 @ post'),
              length pre + ?n + length content - length d, SUCCESS)"
      using get c1 wr_len [of ?A eid "of_nat (length d)" _ cl] wr_n_tail [OF tail, of ?A eid cl content]
        bk assms(3,5,6) m False
      by (simp add: rtw_ies_update_ie_def Let_def post'_def)
    moreover have "length content + length ?E2 + length post' = length ?B"
      using room tail unfolding post'_def length_drop by linarith
    ultimately show ?thesis
      using cl m assms(7)
      by (intro exI [of _ "?A @ eid # cl # content @ ?E2 @ post'"] exI [of _ post'])
        (simp add: ie_enc_def)
  qed
qed

theorem rtw_ies_update_ie_correct_witness:
  "\<exists>m' post'. rtw_ies_update_ie (\<lambda>_. True) (Some ([9] @ ies_enc [(0, [65]), (127, [1]), (3, [6])] @ [0]))
       10 1 127 [2, 4] 2 = Some (Some m', 11, SUCCESS) \<and>
     m' = [9] @ ies_enc [(0, [65]), (127, [2, 4]), (3, [6])] @ post' \<and> length m' = 11"
  using rtw_ies_update_ie_correct [of "[(0, [65])]" 127 "[1]" "[(3, [6])]"
      "[9] @ ies_enc [(0, [65]), (127, [1]), (3, [6])] @ [0]" "[9]" "[0]" 2 "[2, 4]" "\<lambda>_. True"]
  by (simp add: wf_ie_def, simp add: numeral_eq_Suc)

lemma of_int_u8: "0 \<le> i \<Longrightarrow> i < 256 \<Longrightarrow> uint (of_int i :: u8) = i"
  by (simp add: uint_word_of_int)

lemma rtw_set_ie_layout:
  assumes "rtw_set_ie m p index n src frlen = Some (m', p', frlen')"
  shows "p + n + 2 \<le> length m \<and> n \<le> length src \<and>
     m' = take p m @ [of_int index, of_nat n] @ take n src @ drop (p + n + 2) m \<and>
     p' = p + n + 2 \<and> frlen' = map_option (\<lambda>f. f + (n + 2)) frlen"
proof -
  let ?m2 = "m[p := of_int index, Suc p := of_nat n]"
  from assms have p: "Suc p < length m"
    and m': "(if n > 0 then memcpy ?m2 (p + 2) src 0 n else Some ?m2) = Some m'"
    and rest: "p' = p + n + 2" "frlen' = map_option (\<lambda>f. f + (n + 2)) frlen"
    by (auto simp: rtw_set_ie_def wr_Some_iff Option.bind_eq_Some_conv split: if_splits)
  have m2: "?m2 = take p m @ [of_int index, of_nat n] @ drop (p + 2) m"
    using p by (simp add: upd_conv_take_nth_drop drop_Suc list_update_append flip: drop_Suc)
  show ?thesis
  proof (cases "n = 0")
    case True
    with m' m2 p rest show ?thesis by simp
  next
    case False
    with m' have "n \<le> length src" "p + 2 + n \<le> length m"
      "m' = take (p + 2) ?m2 @ take n src @ drop (p + 2 + n) ?m2"
      by (auto simp: memcpy_def rd_n_Some_iff wr_n_Some_iff Option.bind_eq_Some_conv)
    with m2 p rest show ?thesis by (simp add: numeral_eq_Suc add.commute)
  qed
qed

text \<open>Round trip of the element writer and the searcher: after \<open>rtw_set_ie\<close> has written an
  element of at most 255 bytes, \<open>rtw_get_ie\<close> at the same place finds it with its length, its
  content is the source, nothing else changes, and the frame length grows by the whole element.\<close>

theorem rtw_set_get_ie:
  assumes "rtw_set_ie m p index n src frlen = Some (m', p', frlen')"
    and "0 \<le> index" and "index < 256" and "n \<le> 255"
  shows "rtw_get_ie m' p index len (int (n + 2)) = Some (Some p, int n) \<and>
     rd_n m' (p + 2) n = Some (take n src) \<and> p' = p + n + 2 \<and>
     frlen' = map_option (\<lambda>f. f + (n + 2)) frlen \<and>
     take p m' = take p m \<and> drop (p + n + 2) m' = drop (p + n + 2) m"
proof -
  have len: "p + n + 2 \<le> length m" and sl: "n \<le> length src"
    and m': "m' = take p m @ ie_enc (of_int index, take n src) @ drop (p + n + 2) m"
    and rest: "p' = p + n + 2" "frlen' = map_option (\<lambda>f. f + (n + 2)) frlen"
    using rtw_set_ie_layout [OF assms(1)] by (auto simp: ie_enc_def)
  have "rtw_get_ie m' (length (take p m)) index len
      (int (length (ies_enc [(of_int index, take n src)]))) =
      Some (Some p, int n)"
    using assms(2-4) len sl
    by (subst rtw_get_ie_first [where post = "drop (p + n + 2) m"])
      (simp_all add: m' wf_ie_def of_int_u8)
  then have "rtw_get_ie m' p index len (int (n + 2)) = Some (Some p, int n)"
    using len sl by simp
  moreover have "rd_n m' (p + 2) n = Some (take n src)"
    using len sl rd_n_ie_data [of p m' "(of_int index, take n src)"] by (simp add: m')
  ultimately show ?thesis using len sl by (simp add: m' rest)
qed

theorem rtw_set_get_ie_witness:
  "rtw_get_ie (the (map_option fst (rtw_set_ie [0, 0, 0, 0] 0 3 1 [6] (Some 0)))) 0 3 0 3 =
     Some (Some 0, 1)"
proof -
  have "rtw_set_ie [0, 0, 0, 0] 0 3 1 [6] (Some 0) = Some ([3, 1, 6, 0], 3, Some 3)"
    by (simp add: rtw_set_ie_def wr_def memcpy_def rd_n_def wr_n_def)
  from rtw_set_get_ie [OF this, of 0] this show ?thesis by simp
qed

text \<open>The one byte over-read is real: with a limit of one byte, \<open>rtw_get_ie\<close> reads the length
  byte of an element whose identifier is the last byte of the buffer.\<close>

theorem rtw_get_ie_overread: "rtw_get_ie [b] 0 index len 1 = None"
  by (simp add: rtw_get_ie_def rtw_get_ie_loop.simps rd_def)

text \<open>\<open>rtw_get_ie_ex\<close> does not look at the length byte before it compares the OUI: a one byte
  vendor element matches a four byte OUI that is made of its only byte and the header of the element
  that follows, though no element of the sequence carries that OUI.\<close>

theorem rtw_get_ie_ex_crosses_elements:
  "let es = [(221, [0]), (0x50, 1 # replicate 241 0)] in
     list_all wf_ie es \<and>
     \<not> list_ex (ie_ex_match 221 (Some [0x00, 0x50, 0xf2, 0x01]) 4) es \<and>
     rtw_get_ie_ex (Some (ies_enc es, 0)) (length (ies_enc es)) 221
       (Some [0x00, 0x50, 0xf2, 0x01]) 4 None (Some 0) = Some (Some 0, None, Some 3)"
  by (simp add: rtw_get_ie_ex_def rtw_get_ie_ex_loop.simps rd_def memeq_def rd_n_def ie_enc_def
      wf_ie_def ie_ex_match_def)

end
