(* ===== verification/Ie_Vendor.thy ===== *)
theory Ie_Vendor
  imports Ie_Core
begin

text \<open>
  The vendor elements of \<open>core/rtw_ieee80211.c\<close>: the searchers for WPS, P2P, WFD and OWE elements,
  the searchers for the attributes inside a WPS, P2P or WFD element, the P2P attribute writer, the
  merge of several P2P elements into one, and the deletion of elements and attributes.

  The attribute searchers keep the length of an attribute in a \<open>u16\<close> whose sum with the header
  length can wrap to 0, so their loops need not end. They are \<^theory_text>\<open>partial_function\<close>s: the
  outer \<open>None\<close> is a loop that never ends, \<open>Some Fault\<close> a memory error, \<open>Some (Ret r)\<close> a return.
\<close>

section \<open>Element searchers\<close>

definition MAX_IE_SZ :: nat where "MAX_IE_SZ = 768"

abbreviation WLAN_EID_VENDOR_SPECIFIC :: u8 where "WLAN_EID_VENDOR_SPECIFIC \<equiv> 221"
abbreviation WLAN_EID_EXTENSION :: u8 where "WLAN_EID_EXTENSION \<equiv> 255"
abbreviation WLAN_EID_EXT_OWE_DH_PARAM :: u8 where "WLAN_EID_EXT_OWE_DH_PARAM \<equiv> 32"

definition wps_oui :: bytes where "wps_oui = [0x00, 0x50, 0xf2, 0x04]"
definition p2p_oui :: bytes where "p2p_oui = [0x50, 0x6F, 0x9A, 0x09]"
definition wfd_oui :: bytes where "wfd_oui = [0x50, 0x6F, 0x9A, 0x0A]"

text \<open>The copies into the optional outputs, the same in all four searchers.\<close>

definition ie_copy_out ::
    "bytes \<Rightarrow> nat \<Rightarrow> bytes option \<Rightarrow> nat option \<Rightarrow> (bytes option \<times> nat option) option" where
  "ie_copy_out m k ie ielen = do {
     ie' \<leftarrow> (case ie of None \<Rightarrow> Some None
             | Some d \<Rightarrow> do { l \<leftarrow> rd m (k + 1); d' \<leftarrow> memcpy d 0 m k (unat l + 2); Some (Some d') });
     ielen' \<leftarrow> (case ielen of None \<Rightarrow> Some None
                | Some _ \<Rightarrow> do { l \<leftarrow> rd m (k + 1); Some (Some (unat l + 2)) });
     Some (ie', ielen') }"

text \<open>The loop the four searchers share; \<open>test\<close> is the condition under which the element at an
  offset is the one searched for.\<close>

function vendor_ie_loop ::
    "(bytes \<Rightarrow> nat \<Rightarrow> u8 \<Rightarrow> bool option) \<Rightarrow> bytes \<Rightarrow> nat \<Rightarrow> nat \<Rightarrow> bytes option \<Rightarrow> nat option \<Rightarrow> nat
       \<Rightarrow> (nat option \<times> bytes option \<times> nat option) option" where
  "vendor_ie_loop test m in_ie in_len ie ielen cnt =
     (if cnt + 1 + 4 < in_len then do {
        eid \<leftarrow> rd m (in_ie + cnt);
        if cnt + 1 + 4 \<ge> MAX_IE_SZ then Some (None, ie, ielen)
        else do {
          hit \<leftarrow> test m (in_ie + cnt) eid;
          if hit then do {
            (ie', ielen') \<leftarrow> ie_copy_out m (in_ie + cnt) ie ielen;
            Some (Some (in_ie + cnt), ie', ielen') }
          else do {
            l \<leftarrow> rd m (in_ie + cnt + 1);
            vendor_ie_loop test m in_ie in_len ie ielen (cnt + (unat l + 2)) } } }
      else Some (None, ie, ielen))"
  by pat_completeness auto
termination
  by (relation "measure (\<lambda>(test, m, in_ie, in_len, ie, ielen, cnt). in_len - cnt)") auto

declare vendor_ie_loop.simps [simp del]

definition vendor_test :: "bytes \<Rightarrow> bytes \<Rightarrow> nat \<Rightarrow> u8 \<Rightarrow> bool option" where
  "vendor_test oui m k eid =
     (if eid = WLAN_EID_VENDOR_SPECIFIC then memeq m (k + 2) oui 4 else Some False)"

definition owe_test :: "bytes \<Rightarrow> nat \<Rightarrow> u8 \<Rightarrow> bool option" where
  "owe_test m k eid =
     (if eid = WLAN_EID_EXTENSION
      then do { x \<leftarrow> rd m (k + 2); Some (x = WLAN_EID_EXT_OWE_DH_PARAM) } else Some False)"

type_synonym finder_args = "(bytes \<times> nat) option"

definition vendor_search ::
    "(bytes \<Rightarrow> nat \<Rightarrow> u8 \<Rightarrow> bool option) \<Rightarrow> finder_args \<Rightarrow> int \<Rightarrow> bytes option \<Rightarrow> nat option
       \<Rightarrow> (nat option \<times> bytes option \<times> nat option) option" where
  "vendor_search test in_ie in_len ie ielen =
     (let ielen = map_option (\<lambda>_. 0) ielen in
      case in_ie of
        None \<Rightarrow> Some (None, ie, ielen)
      | Some (m, p) \<Rightarrow>
          if in_len \<le> 0 then Some (None, ie, ielen)
          else vendor_ie_loop test m p (nat in_len) ie ielen 0)"

definition rtw_get_wps_ie where "rtw_get_wps_ie = vendor_search (vendor_test wps_oui)"
definition rtw_get_p2p_ie where "rtw_get_p2p_ie = vendor_search (vendor_test p2p_oui)"
definition rtw_get_wfd_ie where "rtw_get_wfd_ie = vendor_search (vendor_test wfd_oui)"
definition rtw_get_owe_ie where "rtw_get_owe_ie = vendor_search owe_test"

definition rtw_is_wps_ie :: "(bytes \<times> nat) option \<Rightarrow> nat \<Rightarrow> (bool \<times> nat) option" where
  "rtw_is_wps_ie ie_ptr wps_ielen =
     (case ie_ptr of
        None \<Rightarrow> Some (False, wps_ielen)
      | Some (m, p) \<Rightarrow> do {
          eid \<leftarrow> rd m p;
          hit \<leftarrow> (if eid = 0xdd then memeq m (p + 2) wps_oui 4 else Some False);
          if hit then do { l \<leftarrow> rd m (p + 1); Some (True, unat l + 2) }
          else Some (False, wps_ielen) })"

datatype bss_type = BSS_TYPE_UNDEF | BSS_TYPE_BCN | BSS_TYPE_PROB_REQ | BSS_TYPE_PROB_RSP

definition rtw_get_wps_ie_from_scan_queue ::
    "bytes \<Rightarrow> nat \<Rightarrow> bytes option \<Rightarrow> nat option \<Rightarrow> bss_type
       \<Rightarrow> (nat option \<times> bytes option \<times> nat option) option" where
  "rtw_get_wps_ie_from_scan_queue in_ie in_len wps_ie wps_ielen frame_type =
     (case frame_type of
        BSS_TYPE_BCN \<Rightarrow> rtw_get_wps_ie (Some (in_ie, 12)) (int in_len - 12) wps_ie wps_ielen
      | BSS_TYPE_PROB_RSP \<Rightarrow> rtw_get_wps_ie (Some (in_ie, 12)) (int in_len - 12) wps_ie wps_ielen
      | BSS_TYPE_PROB_REQ \<Rightarrow> rtw_get_wps_ie (Some (in_ie, 0)) (int in_len - 0) wps_ie wps_ielen
      | BSS_TYPE_UNDEF \<Rightarrow> Some (None, wps_ie, wps_ielen))"

section \<open>Attribute searchers\<close>

datatype 'a run = Fault | Ret 'a

partial_function (option) wps_attr_loop ::
    "bytes \<Rightarrow> nat \<Rightarrow> nat \<Rightarrow> u16 \<Rightarrow> nat \<Rightarrow> (nat \<times> u16) option run option" where
  "wps_attr_loop m wps_ie wps_ielen target_attr_id attr_ptr =
     (if attr_ptr - wps_ie < wps_ielen then
        (case RTW_GET_BE16 m attr_ptr of
           None \<Rightarrow> Some Fault
         | Some attr_id \<Rightarrow>
             (case RTW_GET_BE16 m (attr_ptr + 2) of
                None \<Rightarrow> Some Fault
              | Some attr_data_len \<Rightarrow>
                  (let attr_len = attr_data_len + 4 in
                   if attr_id = target_attr_id then Some (Ret (Some (attr_ptr, attr_len)))
                   else wps_attr_loop m wps_ie wps_ielen target_attr_id (attr_ptr + unat attr_len))))
      else Some (Ret None))"

text \<open>The P2P searcher reads a little-endian length, the WFD searcher a big-endian one; otherwise the
  two loops are the same.\<close>

partial_function (option) attr_loop ::
    "(bytes \<Rightarrow> nat \<Rightarrow> u16 option) \<Rightarrow> bytes \<Rightarrow> nat \<Rightarrow> nat \<Rightarrow> u8 \<Rightarrow> nat \<Rightarrow> (nat \<times> u16) option run option" where
  "attr_loop get_len m p2p_ie p2p_ielen target_attr_id attr_ptr =
     (if attr_ptr - p2p_ie + 3 \<le> p2p_ielen then
        (case rd m attr_ptr of
           None \<Rightarrow> Some Fault
         | Some attr_id \<Rightarrow>
             (case get_len m (attr_ptr + 1) of
                None \<Rightarrow> Some Fault
              | Some attr_data_len \<Rightarrow>
                  (let attr_len = attr_data_len + 3 in
                   if attr_ptr - p2p_ie + unat attr_len > p2p_ielen then Some (Ret None)
                   else if attr_id = target_attr_id then Some (Ret (Some (attr_ptr, attr_len)))
                   else attr_loop get_len m p2p_ie p2p_ielen target_attr_id (attr_ptr + unat attr_len))))
      else Some (Ret None))"

text \<open>The copies into the optional outputs at the end of the three searchers.\<close>

definition attr_copy_out ::
    "bytes \<Rightarrow> bytes option \<Rightarrow> u32 option \<Rightarrow> (nat \<times> u16) option run
       \<Rightarrow> (nat option \<times> bytes option \<times> u32 option) run" where
  "attr_copy_out m buf_attr len_attr r =
     (case r of
        Fault \<Rightarrow> Fault
      | Ret None \<Rightarrow> Ret (None, buf_attr, len_attr)
      | Ret (Some (a, l)) \<Rightarrow>
          (case buf_attr of
             None \<Rightarrow> Ret (Some a, None, map_option (\<lambda>_. ucast l) len_attr)
           | Some d \<Rightarrow>
               (case memcpy d 0 m a (unat l) of
                  None \<Rightarrow> Fault
                | Some d' \<Rightarrow> Ret (Some a, Some d', map_option (\<lambda>_. ucast l) len_attr))))"

definition rtw_get_wps_attr ::
    "bytes \<Rightarrow> nat \<Rightarrow> nat \<Rightarrow> u16 \<Rightarrow> bytes option \<Rightarrow> u32 option
       \<Rightarrow> (nat option \<times> bytes option \<times> u32 option) run option" where
  "rtw_get_wps_attr m wps_ie wps_ielen target_attr_id buf_attr len_attr =
     (let len_attr = map_option (\<lambda>_. 0) len_attr in
      case do { b \<leftarrow> rd m wps_ie;
                if b \<noteq> WLAN_EID_VENDOR_SPECIFIC then Some False else memeq m (wps_ie + 2) wps_oui 4 } of
        None \<Rightarrow> Some Fault
      | Some False \<Rightarrow> Some (Ret (None, buf_attr, len_attr))
      | Some True \<Rightarrow>
          map_option (attr_copy_out m buf_attr len_attr)
            (wps_attr_loop m wps_ie wps_ielen target_attr_id (wps_ie + 6)))"

definition vendor_attr ::
    "(bytes \<Rightarrow> nat \<Rightarrow> u16 option) \<Rightarrow> bytes \<Rightarrow> (bytes \<times> nat) option \<Rightarrow> nat \<Rightarrow> u8 \<Rightarrow> bytes option \<Rightarrow> u32 option
       \<Rightarrow> (nat option \<times> bytes option \<times> u32 option) run option" where
  "vendor_attr get_len oui ie ielen target_attr_id buf_attr len_attr =
     (let len_attr = map_option (\<lambda>_. 0) len_attr in
      case ie of
        None \<Rightarrow> Some (Ret (None, buf_attr, len_attr))
      | Some (m, p) \<Rightarrow>
          if ielen \<le> 6 then Some (Ret (None, buf_attr, len_attr))
          else
            (case do { b \<leftarrow> rd m p;
                       if b \<noteq> WLAN_EID_VENDOR_SPECIFIC then Some False else memeq m (p + 2) oui 4 } of
               None \<Rightarrow> Some Fault
             | Some False \<Rightarrow> Some (Ret (None, buf_attr, len_attr))
             | Some True \<Rightarrow>
                 map_option (attr_copy_out m buf_attr len_attr)
                   (attr_loop get_len m p ielen target_attr_id (p + 6))))"

definition rtw_get_p2p_attr where "rtw_get_p2p_attr = vendor_attr RTW_GET_LE16 p2p_oui"
definition rtw_get_wfd_attr where "rtw_get_wfd_attr = vendor_attr RTW_GET_BE16 wfd_oui"

text \<open>The content searchers of WPS (header of 4 bytes) and P2P (header of 3 bytes). The length that
  the caller passes in bounds the copy; the subtraction of the header length is on \<open>u32\<close>.\<close>

definition attr_content ::
    "nat \<Rightarrow> bytes \<Rightarrow> bytes option \<Rightarrow> u32 option \<Rightarrow> (nat option \<times> bytes option \<times> u32 option) run
       \<Rightarrow> (nat option \<times> bytes option \<times> u32 option) run" where
  "attr_content hdr m buf_content len_content r =
     (case r of
        Ret (Some a, _, Some attr_len) \<Rightarrow>
          if attr_len \<noteq> 0 then
            (let data_len = attr_len - of_nat hdr;
                 len' = (case len_content of None \<Rightarrow> None
                         | Some lc \<Rightarrow>
                             if (buf_content \<noteq> None \<and> lc > data_len) \<or> buf_content = None
                             then Some data_len else Some lc) in
             case buf_content of
               None \<Rightarrow> Ret (Some (a + hdr), None, len')
             | Some d \<Rightarrow>
                 (case memcpy d 0 m (a + hdr) (case len' of None \<Rightarrow> 1 | Some n \<Rightarrow> unat n) of
                    None \<Rightarrow> Fault
                  | Some d' \<Rightarrow> Ret (Some (a + hdr), Some d', len')))
          else Ret (None, buf_content, map_option (\<lambda>_. 0) len_content)
      | Ret _ \<Rightarrow> Ret (None, buf_content, map_option (\<lambda>_. 0) len_content)
      | Fault \<Rightarrow> Fault)"

definition rtw_get_wps_attr_content ::
    "bytes \<Rightarrow> nat \<Rightarrow> nat \<Rightarrow> u16 \<Rightarrow> bytes option \<Rightarrow> u32 option
       \<Rightarrow> (nat option \<times> bytes option \<times> u32 option) run option" where
  "rtw_get_wps_attr_content m wps_ie wps_ielen target_attr_id buf_content len_content =
     map_option (attr_content 4 m buf_content len_content)
       (rtw_get_wps_attr m wps_ie wps_ielen target_attr_id None (Some 0))"

definition rtw_get_p2p_attr_content ::
    "bytes \<Rightarrow> nat \<Rightarrow> nat \<Rightarrow> u8 \<Rightarrow> bytes option \<Rightarrow> u32 option
       \<Rightarrow> (nat option \<times> bytes option \<times> u32 option) run option" where
  "rtw_get_p2p_attr_content m p2p_ie p2p_ielen target_attr_id buf_content len_content =
     map_option (attr_content 3 m buf_content len_content)
       (rtw_get_p2p_attr (Some (m, p2p_ie)) p2p_ielen target_attr_id None (Some 0))"

text \<open>The WFD variant does not bound the copy by the length the caller passes in.\<close>

definition rtw_get_wfd_attr_content ::
    "bytes \<Rightarrow> nat \<Rightarrow> nat \<Rightarrow> u8 \<Rightarrow> bytes option \<Rightarrow> u32 option
       \<Rightarrow> (nat option \<times> bytes option \<times> u32 option) run option" where
  "rtw_get_wfd_attr_content m wfd_ie wfd_ielen target_attr_id buf_content len_content =
     map_option (\<lambda>r. case r of
         Ret (Some a, _, Some attr_len) \<Rightarrow>
           if attr_len \<noteq> 0 then
             (case buf_content of
                None \<Rightarrow> Ret (Some (a + 3), None, map_option (\<lambda>_. attr_len - 3) len_content)
              | Some d \<Rightarrow>
                  (case memcpy d 0 m (a + 3) (unat (attr_len - 3)) of
                     None \<Rightarrow> Fault
                   | Some d' \<Rightarrow> Ret (Some (a + 3), Some d', map_option (\<lambda>_. attr_len - 3) len_content)))
           else Ret (None, buf_content, map_option (\<lambda>_. 0) len_content)
       | Ret _ \<Rightarrow> Ret (None, buf_content, map_option (\<lambda>_. 0) len_content)
       | Fault \<Rightarrow> Fault)
       (rtw_get_wfd_attr (Some (m, wfd_ie)) wfd_ielen target_attr_id None (Some 0))"

definition rtw_set_p2p_attr_content ::
    "bytes \<Rightarrow> nat \<Rightarrow> u8 \<Rightarrow> u16 \<Rightarrow> bytes option \<Rightarrow> (bytes \<times> u32) option" where
  "rtw_set_p2p_attr_content m pbuf attr_id attr_len pdata_attr = do {
     m1 \<leftarrow> wr m pbuf attr_id;
     m2 \<leftarrow> RTW_PUT_LE16 m1 (pbuf + 1) attr_len;
     m3 \<leftarrow> (case pdata_attr of None \<Rightarrow> Some m2
            | Some d \<Rightarrow> memcpy m2 (pbuf + 3) d 0 (unat attr_len));
     Some (m3, ucast attr_len + 3) }"

section \<open>Merging P2P elements\<close>

function p2p_merged_len_loop :: "bytes \<Rightarrow> nat \<Rightarrow> nat \<Rightarrow> nat \<Rightarrow> int \<Rightarrow> int option" where
  "p2p_merged_len_loop m in_ie in_len i len =
     (if i < in_len then do {
        eid \<leftarrow> rd m (in_ie + i);
        l \<leftarrow> rd m (in_ie + i + 1);
        hit \<leftarrow> (if eid = WLAN_EID_VENDOR_SPECIFIC then memeq m (in_ie + i + 2) p2p_oui 4 else Some False);
        p2p_merged_len_loop m in_ie in_len (i + (unat l + 2))
          (if hit then len + (uint l - 4) else len) }
      else Some len)"
  by pat_completeness auto
termination
  by (relation "measure (\<lambda>(m, in_ie, in_len, i, len). in_len - i)") auto

declare p2p_merged_len_loop.simps [simp del]

definition rtw_get_p2p_merged_ies_len :: "bytes \<Rightarrow> nat \<Rightarrow> nat \<Rightarrow> u32 option" where
  "rtw_get_p2p_merged_ies_len m in_ie in_len =
     map_option (\<lambda>len. of_int (len + 4)) (p2p_merged_len_loop m in_ie in_len 0 0)"

text \<open>The running length of \<open>rtw_p2p_merge_ies\<close> is a \<open>u8\<close>. An element shorter than its OUI makes the
  copied length negative, that is larger than every object.\<close>

function p2p_merge_loop ::
    "bytes \<Rightarrow> nat \<Rightarrow> nat \<Rightarrow> nat \<Rightarrow> u8 \<Rightarrow> bytes \<Rightarrow> nat \<Rightarrow> (u8 \<times> bytes) option" where
  "p2p_merge_loop m in_ie in_len i len dst merge_ie =
     (if i < in_len then do {
        eid \<leftarrow> rd m (in_ie + i);
        l \<leftarrow> rd m (in_ie + i + 1);
        hit \<leftarrow> (if eid = WLAN_EID_VENDOR_SPECIFIC then memeq m (in_ie + i + 2) p2p_oui 4 else Some False);
        if hit then
          (if unat l < 4 then None
           else do {
             dst' \<leftarrow> memcpy dst merge_ie m (in_ie + i + 2 + 4) (unat l - 4);
             p2p_merge_loop m in_ie in_len (i + (unat l + 2)) (len + (l - 4)) dst'
               (merge_ie + (unat l - 4)) })
        else p2p_merge_loop m in_ie in_len (i + (unat l + 2)) len dst merge_ie }
      else Some (len, dst))"
  by pat_completeness auto
termination
  by (relation "measure (\<lambda>(m, in_ie, in_len, i, len, dst, merge_ie). in_len - i)") auto

declare p2p_merge_loop.simps [simp del]

definition rtw_p2p_merge_ies ::
    "bytes \<Rightarrow> nat \<Rightarrow> nat \<Rightarrow> bytes option \<Rightarrow> (int \<times> bytes option) option" where
  "rtw_p2p_merge_ies m in_ie in_len merge_ie =
     (case merge_ie of
        None \<Rightarrow> Some (0, None)
      | Some d \<Rightarrow> do {
          d1 \<leftarrow> wr_n d 0 [0xDD, 0x00, 0x50, 0x6f, 0x9a, 0x09];
          (len, d2) \<leftarrow> p2p_merge_loop m in_ie in_len 0 0 d1 6;
          Some (uint len + 4, Some d2) })"

section \<open>Deleting elements and attributes\<close>

text \<open>The loop of \<open>rtw_del_p2p_ie\<close> and \<open>rtw_del_wfd_ie\<close>: find the first element, move what follows
  over it, clear the tail, and start again. \<open>fnd\<close> returns the offset and the whole length of an
  element. An element that runs past the end makes the moved length wrap, which is a memory error.\<close>

function del_ie_loop ::
    "(bytes \<Rightarrow> nat \<Rightarrow> nat \<Rightarrow> (nat \<times> nat) option option) \<Rightarrow> bytes \<Rightarrow> nat \<Rightarrow> nat \<Rightarrow> (bytes \<times> nat) option" where
  "del_ie_loop fnd m ies ies_len = do {
     r \<leftarrow> fnd m ies ies_len;
     (case r of
        None \<Rightarrow> Some (m, ies_len)
      | Some (target_ie, target_ie_len) \<Rightarrow>
          if target_ie_len = 0 then Some (m, ies_len)
          else do {
            let next_ie = target_ie + target_ie_len;
            if ies_len < next_ie - ies \<or> ies_len < target_ie_len then None
            else do {
              let remain_len = ies_len - (next_ie - ies);
              moved \<leftarrow> rd_n m next_ie remain_len;
              m1 \<leftarrow> wr_n m target_ie moved;
              m2 \<leftarrow> memset m1 (target_ie + remain_len) 0 target_ie_len;
              del_ie_loop fnd m2 ies (ies_len - target_ie_len) } }) }"
  by pat_completeness auto
termination
  by (relation "measure (\<lambda>(fnd, m, ies, ies_len). ies_len)") auto

declare del_ie_loop.simps [simp del]

definition vendor_find ::
    "(finder_args \<Rightarrow> int \<Rightarrow> bytes option \<Rightarrow> nat option \<Rightarrow> (nat option \<times> bytes option \<times> nat option) option)
       \<Rightarrow> bytes \<Rightarrow> nat \<Rightarrow> nat \<Rightarrow> (nat \<times> nat) option option" where
  "vendor_find get m ies ies_len =
     map_option (\<lambda>(t, _, l). map_option (\<lambda>k. (k, case l of None \<Rightarrow> 0 | Some n \<Rightarrow> n)) t)
       (get (Some (m, ies)) (int ies_len) None (Some 0))"

definition rtw_del_p2p_ie :: "bytes \<Rightarrow> nat \<Rightarrow> nat \<Rightarrow> (bytes \<times> nat) option" where
  "rtw_del_p2p_ie m ies ies_len_ori = del_ie_loop (vendor_find rtw_get_p2p_ie) m ies ies_len_ori"

definition rtw_del_wfd_ie :: "bytes \<Rightarrow> nat \<Rightarrow> nat \<Rightarrow> (bytes \<times> nat) option" where
  "rtw_del_wfd_ie m ies ies_len_ori = del_ie_loop (vendor_find rtw_get_wfd_ie) m ies ies_len_ori"

definition BSS_EX_FIXED_IE_OFFSET :: "wlan_bssid_ex \<Rightarrow> nat" where
  "BSS_EX_FIXED_IE_OFFSET bss = (if Reserved0 bss = 1 then 0 else 12)"

definition bss_ex_del_ie ::
    "(bytes \<Rightarrow> nat \<Rightarrow> nat \<Rightarrow> (bytes \<times> nat) option) \<Rightarrow> wlan_bssid_ex \<Rightarrow> wlan_bssid_ex option" where
  "bss_ex_del_ie del bss_ex = do {
     let off = BSS_EX_FIXED_IE_OFFSET bss_ex;
     let ies_len_ori = usub32 (IELength bss_ex) off;
     (m, ies_len) \<leftarrow> del (IEs bss_ex) off ies_len_ori;
     Some (bss_ex\<lparr>IEs := m, IELength := usub32 (IELength bss_ex) (usub32 ies_len_ori ies_len)\<rparr>) }"

definition rtw_bss_ex_del_p2p_ie :: "wlan_bssid_ex \<Rightarrow> wlan_bssid_ex option" where
  "rtw_bss_ex_del_p2p_ie = bss_ex_del_ie rtw_del_p2p_ie"

definition rtw_bss_ex_del_wfd_ie :: "wlan_bssid_ex \<Rightarrow> wlan_bssid_ex option" where
  "rtw_bss_ex_del_wfd_ie = bss_ex_del_ie rtw_del_wfd_ie"

text \<open>The loop of \<open>rtw_del_p2p_attr\<close> and \<open>rtw_del_wfd_attr\<close>, over the attribute searcher \<open>get\<close>.\<close>

partial_function (option) del_attr_loop ::
    "(bytes \<Rightarrow> nat \<Rightarrow> nat \<Rightarrow> (nat option \<times> bytes option \<times> u32 option) run option)
       \<Rightarrow> bytes \<Rightarrow> nat \<Rightarrow> nat \<Rightarrow> (bytes \<times> nat) run option" where
  "del_attr_loop get m ie ielen =
     (case get m ie ielen of
        None \<Rightarrow> None
      | Some Fault \<Rightarrow> Some Fault
      | Some (Ret (Some a, _, Some al)) \<Rightarrow>
          if al = 0 then Some (Ret (m, ielen))
          else
            (case do { let remain_len = usub32 ielen (a + unat al - ie);
                       moved \<leftarrow> rd_n m (a + unat al) remain_len;
                       m1 \<leftarrow> wr_n m a moved;
                       m2 \<leftarrow> memset m1 (a + remain_len) 0 (unat al);
                       l \<leftarrow> rd m2 (ie + 1);
                       wr m2 (ie + 1) (l - ucast al) } of
               None \<Rightarrow> Some Fault
             | Some m3 \<Rightarrow> del_attr_loop get m3 ie (usub32 ielen (unat al)))
      | Some (Ret _) \<Rightarrow> Some (Ret (m, ielen)))"

definition rtw_del_p2p_attr :: "bytes \<Rightarrow> nat \<Rightarrow> nat \<Rightarrow> u8 \<Rightarrow> (bytes \<times> nat) run option" where
  "rtw_del_p2p_attr m ie ielen_ori attr_id =
     del_attr_loop (\<lambda>m ie ielen. rtw_get_p2p_attr (Some (m, ie)) ielen attr_id None (Some 0)) m ie ielen_ori"

definition rtw_del_wfd_attr :: "bytes \<Rightarrow> nat \<Rightarrow> nat \<Rightarrow> u8 \<Rightarrow> (bytes \<times> nat) run option" where
  "rtw_del_wfd_attr m ie ielen_ori attr_id =
     del_attr_loop (\<lambda>m ie ielen. rtw_get_wfd_attr (Some (m, ie)) ielen attr_id None (Some 0)) m ie ielen_ori"

section \<open>The element searchers meet the contract\<close>

definition find_vendor ::
    "(bytes \<Rightarrow> nat \<Rightarrow> u8 \<Rightarrow> bool option) \<Rightarrow> bytes \<Rightarrow> nat \<Rightarrow> nat \<Rightarrow> nat \<Rightarrow> (nat \<times> nat) option option" where
  "find_vendor test m p n cnt =
     map_option (\<lambda>(t, _, l). map_option (\<lambda>k. (k, the l - 2)) t)
       (vendor_ie_loop test m p n None (Some 0) cnt)"

text \<open>What a test has to do for the shared loop to be an element searcher: decide the property on an
  element that has enough content.\<close>

locale vendor_tester =
  fixes test :: "bytes \<Rightarrow> nat \<Rightarrow> u8 \<Rightarrow> bool option"
    and sel :: "u8"
    and match :: "ie \<Rightarrow> bool"
  assumes match_sel: "match e \<Longrightarrow> fst e = sel"
    and test_other: "eid \<noteq> sel \<Longrightarrow> test m k eid = Some False"
    and test_sel: "drop k m = ie_enc e @ post \<Longrightarrow> fst e = sel \<Longrightarrow> 4 \<le> length (snd e) \<Longrightarrow>
          test m k sel = Some (match e)"
begin

definition ok :: "ie \<Rightarrow> bool" where
  "ok e \<longleftrightarrow> wf_ie e \<and> (fst e = sel \<longrightarrow> 4 \<le> length (snd e))"

lemma test_ie:
  "ok e \<Longrightarrow> drop k m = ie_enc e @ post \<Longrightarrow> test m k (fst e) = Some (match e)"
  by (cases "fst e = sel") (auto simp: ok_def test_sel test_other dest: match_sel)

lemma len_ie: "ok e \<Longrightarrow> unat (of_nat (length (snd e)) :: u8) = length (snd e)"
  by (simp add: ok_def wf_ie_def unat_of_nat_u8)

lemma find_vendor_finder:
  "ie_finder (find_vendor test) ok match (\<lambda>n. n \<le> MAX_IE_SZ)"
proof (unfold_locales, goal_cases)
  case (1 e)
  then show ?case by (simp add: ok_def)
next
  case (2 n m p)
  show ?case by (simp add: find_vendor_def vendor_ie_loop.simps)
next
  case (3 e n p cnt m post)
  then have "4 \<le> length (snd e)" by (simp add: ok_def match_sel)
  with 3 show ?case
    by (simp add: find_vendor_def vendor_ie_loop.simps [of test m p n None "Some 0" cnt]
        test_ie len_ie rd_ie ie_copy_out_def)
next
  case (4 e n p cnt m post)
  show ?case
  proof (cases "cnt + 1 + 4 < n")
    case True
    with 4 show ?thesis
      by (simp add: find_vendor_def vendor_ie_loop.simps [of test m p n None "Some 0" cnt]
          test_ie len_ie rd_ie)
  next
    case False
    then show ?thesis by (simp add: find_vendor_def vendor_ie_loop.simps)
  qed
qed

end

sublocale vendor_tester \<subseteq> ie_finder "find_vendor test" ok match "\<lambda>n. n \<le> MAX_IE_SZ"
  by (rule find_vendor_finder)

definition vendor_match :: "bytes \<Rightarrow> ie \<Rightarrow> bool" where
  "vendor_match oui e \<longleftrightarrow> fst e = WLAN_EID_VENDOR_SPECIFIC \<and> take 4 (snd e) = oui"

definition owe_match :: "ie \<Rightarrow> bool" where
  "owe_match e \<longleftrightarrow> fst e = WLAN_EID_EXTENSION \<and> take 1 (snd e) = [WLAN_EID_EXT_OWE_DH_PARAM]"

lemma oui_lengths [simp]: "length wps_oui = 4" "length p2p_oui = 4" "length wfd_oui = 4"
  by (simp_all add: wps_oui_def p2p_oui_def wfd_oui_def)

lemma vendor_tester_oui:
  "length oui = 4 \<Longrightarrow> vendor_tester (vendor_test oui) WLAN_EID_VENDOR_SPECIFIC (vendor_match oui)"
  by unfold_locales
    (simp_all add: vendor_test_def vendor_match_def memeq_def rd_ie rd_n_in)

interpretation wps: vendor_tester "vendor_test wps_oui" WLAN_EID_VENDOR_SPECIFIC "vendor_match wps_oui"
  by (rule vendor_tester_oui) simp

interpretation p2p: vendor_tester "vendor_test p2p_oui" WLAN_EID_VENDOR_SPECIFIC "vendor_match p2p_oui"
  by (rule vendor_tester_oui) simp

interpretation wfd: vendor_tester "vendor_test wfd_oui" WLAN_EID_VENDOR_SPECIFIC "vendor_match wfd_oui"
  by (rule vendor_tester_oui) simp

interpretation owe: vendor_tester owe_test WLAN_EID_EXTENSION owe_match
proof (unfold_locales, goal_cases)
  case (3 k m e post)
  then obtain x xs where d: "snd e = x # xs" by (cases "snd e") auto
  with 3 have "rd m (k + 2) = Some x"
    using rd_drop [of "k + 2" m x "xs @ post"] drop_add [of k m "[fst e, of_nat (length (snd e))]" "x # xs @ post"]
    by (simp add: ie_enc_def)
  with d 3 show ?case by (simp add: owe_test_def owe_match_def)
qed (simp_all add: owe_test_def owe_match_def)

lemma vendor_ie_loop_shape:
  "vendor_ie_loop test m p n None (Some 0) cnt = Some (t, ie', il) \<Longrightarrow>
     ie' = None \<and> (\<exists>l. il = Some l \<and> (case t of None \<Rightarrow> l = 0 | Some _ \<Rightarrow> 2 \<le> l))"
proof (induction "n - cnt" arbitrary: cnt rule: less_induct)
  case less
  note unf = vendor_ie_loop.simps [of test m p n None "Some 0" cnt]
  have IH: "cnt + 5 < n \<Longrightarrow> vendor_ie_loop test m p n None (Some 0) (cnt + (unat l + 2)) = Some (t, ie', il) \<Longrightarrow> ?case"
    for l :: u8
    using less.hyps [of "cnt + (unat l + 2)"] by (simp add: diff_less_mono2)
  show ?case
    using less.prems IH unfolding unf
    by (auto simp: Option.bind_eq_Some_conv ie_copy_out_def split: if_splits)
qed

context vendor_tester
begin

lemma search_first:
  assumes "list_all ok es" "drop p m = ies_enc es @ post" "length (ies_enc es) \<le> MAX_IE_SZ"
    "p + length (ies_enc es) \<le> length m"
  shows "vendor_search test (Some (m, p)) (int (length (ies_enc es))) None (Some il) =
     Some (case first_match match p es of
             None \<Rightarrow> (None, None, Some 0)
           | Some (k, e) \<Rightarrow> (Some k, None, Some (length (snd e) + 2)))"
proof -
  let ?n = "length (ies_enc es)"
  have "find_vendor test m p ?n 0 =
      Some (map_option (\<lambda>(k, e). (k, length (snd e))) (first_match match (p + 0) es))"
    using assms by (intro find_first [where post = post]) simp_all
  then obtain t ie' l where
      loop: "vendor_ie_loop test m p ?n None (Some 0) 0 = Some (t, ie', l)" and
      t: "map_option (\<lambda>k. (k, the l - 2)) t =
        map_option (\<lambda>(k, e). (k, length (snd e))) (first_match match p es)"
    by (auto simp: find_vendor_def)
  have "vendor_search test (Some (m, p)) (int ?n) None (Some il) = Some (t, ie', l)"
  proof (cases "ies_enc es = []")
    case True
    with loop show ?thesis by (simp add: vendor_search_def vendor_ie_loop.simps)
  next
    case False
    with loop show ?thesis by (simp add: vendor_search_def Let_def)
  qed
  with vendor_ie_loop_shape [OF loop] t show ?thesis by (auto split: option.splits)
qed

end

lemma replicate_app: "replicate a x @ replicate b x @ zs = replicate (b + a) x @ zs"
  by (subst add.commute) (simp add: replicate_add)

section \<open>Deletion of elements\<close>

text \<open>A searcher of whole sequences, as the deletion loop uses it.\<close>

locale whole_finder =
  fixes fnd :: "bytes \<Rightarrow> nat \<Rightarrow> nat \<Rightarrow> (nat \<times> nat) option option"
    and ok :: "ie \<Rightarrow> bool"
    and match :: "ie \<Rightarrow> bool"
    and lim :: "nat \<Rightarrow> bool"
  assumes fnd_first: "list_all ok es \<Longrightarrow> drop p m = ies_enc es @ post \<Longrightarrow> lim (length (ies_enc es)) \<Longrightarrow>
        p + length (ies_enc es) \<le> length m \<Longrightarrow>
        fnd m p (length (ies_enc es)) =
          Some (map_option (\<lambda>(k, e). (k, length (ie_enc e))) (first_match match p es))"
    and lim_mono: "lim n \<Longrightarrow> k \<le> n \<Longrightarrow> lim k"
begin

lemma del_ie_loop_filter:
  assumes "list_all ok es" "lim (length (ies_enc es))"
  shows "del_ie_loop fnd (pre @ ies_enc es @ post) (length pre) (length (ies_enc es)) =
     Some (pre @ ies_enc (filter (\<lambda>e. \<not> match e) es) @
             replicate (length (ies_enc (filter match es))) 0 @ post,
           length (ies_enc (filter (\<lambda>e. \<not> match e) es)))"
  using assms
proof (induction "length es" arbitrary: es post rule: less_induct)
  case (less es)
  let ?m = "pre @ ies_enc es @ post" and ?n = "length (ies_enc es)"
  have fnd: "fnd ?m (length pre) ?n =
      Some (map_option (\<lambda>(k, e). (k, length (ie_enc e))) (first_match match (length pre) es))"
    using less.prems by (intro fnd_first [where post = post]) simp_all
  show ?case
  proof (cases "first_match match (length pre) es")
    case None
    then have "\<forall>e \<in> set es. \<not> match e" by (simp add: first_match_None)
    with None fnd show ?thesis by (simp add: del_ie_loop.simps [of fnd ?m])
  next
    case (Some ke)
    obtain k e where ke: "ke = (k, e)" by (cases ke)
    from first_match_Some [OF Some [unfolded ke]] obtain es1 es2 where
      es: "es = es1 @ e # es2" and e: "match e" and es1: "\<forall>x \<in> set es1. \<not> match x" and
      k: "k = length pre + length (ies_enc es1)" by blast
    let ?P = "pre @ ies_enc es1" and ?E2 = "ies_enc es2" and ?l = "length (ie_enc e)"
    let ?m2 = "pre @ ies_enc (es1 @ es2) @ replicate ?l 0 @ post"
    have rd: "rd_n ?m (k + ?l) (length ?E2) = Some ?E2"
      using rd_n_app [of "length ?E2" ?E2 "?P @ ie_enc e" post] es k by (simp add: add.assoc)
    have wr: "wr_n ?m k ?E2 = Some (?P @ ?E2 @ drop (length ?E2) (ie_enc e @ ?E2) @ post)"
      using es k by (simp add: wr_n_def)
    have mset: "memset (?P @ ?E2 @ drop (length ?E2) (ie_enc e @ ?E2) @ post) (k + length ?E2) 0 ?l = Some ?m2"
      using wr_n_app [of "replicate ?l 0" "drop (length ?E2) (ie_enc e @ ?E2)" "?P @ ?E2" post] k
      by (simp add: memset_def add.assoc del: drop_append)
    have n: "?n = length (ies_enc es1) + ?l + length ?E2" using es by simp
    have "del_ie_loop fnd ?m (length pre) ?n = del_ie_loop fnd ?m2 (length pre) (?n - ?l)"
      using fnd Some ke rd wr mset k n
      by (subst del_ie_loop.simps) (simp add: Let_def)
    moreover have "length (es1 @ es2) < length es" "list_all ok (es1 @ es2)"
        "lim (length (ies_enc (es1 @ es2)))"
      using less.prems es lim_mono [OF less.prems(2)] by simp_all
    note less.hyps [OF this, of "replicate ?l 0 @ post"]
    moreover have "?n - ?l = length (ies_enc (es1 @ es2))" using n by simp
    moreover have "filter match es1 = []" "filter (\<lambda>e. \<not> match e) es1 = es1"
      using es1 by (simp_all add: filter_empty_conv)
    moreover have "replicate (length (ies_enc (filter match es2))) 0 @ replicate ?l 0 @ post =
        replicate (?l + length (ies_enc (filter match es2))) 0 @ post"
      by (rule replicate_app)
    ultimately show ?thesis using e es by (simp del: ie_enc_simps)
  qed
qed

end

lemma whole_finder_vendor:
  assumes "vendor_tester test sel mt" "get = vendor_search test"
  shows "whole_finder (vendor_find get) (vendor_tester.ok sel) mt (\<lambda>n. n \<le> MAX_IE_SZ)"
proof (unfold_locales, goal_cases)
  case (1 es p m post)
  from vendor_tester.search_first [OF assms(1) 1(1,2,3,4), of 0] assms(2) show ?case
    by (auto simp: vendor_find_def split: option.splits)
qed simp

interpretation p2p_del: whole_finder "vendor_find rtw_get_p2p_ie" p2p.ok "vendor_match p2p_oui"
    "\<lambda>n. n \<le> MAX_IE_SZ"
  by (rule whole_finder_vendor [OF p2p.vendor_tester_axioms]) (simp add: rtw_get_p2p_ie_def)

interpretation wfd_del: whole_finder "vendor_find rtw_get_wfd_ie" wfd.ok "vendor_match wfd_oui"
    "\<lambda>n. n \<le> MAX_IE_SZ"
  by (rule whole_finder_vendor [OF wfd.vendor_tester_axioms]) (simp add: rtw_get_wfd_ie_def)

section \<open>Properties of the element searchers and editors\<close>

definition vendor_ok :: "ie \<Rightarrow> bool" where
  "vendor_ok e \<longleftrightarrow> wf_ie e \<and> (fst e = WLAN_EID_VENDOR_SPECIFIC \<longrightarrow> 4 \<le> length (snd e))"

lemma vendor_ok_eq: "wps.ok = vendor_ok"
  by (simp add: fun_eq_iff vendor_ok_def wps.ok_def)

text \<open>\<open>rtw_get_wps_ie\<close> finds the first WPS element of a well-formed sequence, with its whole
  length, and nothing when there is none; it never leaves the sequence.\<close>

theorem rtw_get_wps_ie_correct:
  assumes "list_all vendor_ok es" and "length (ies_enc es) \<le> MAX_IE_SZ"
    and "m = pre @ ies_enc es @ post"
  shows "rtw_get_wps_ie (Some (m, length pre)) (int (length (ies_enc es))) None (Some il) =
     Some (case first_match (vendor_match wps_oui) (length pre) es of
             None \<Rightarrow> (None, None, Some 0)
           | Some (k, e) \<Rightarrow> (Some k, None, Some (length (snd e) + 2)))"
  using wps.search_first [of es "length pre" m post il] assms
  by (simp add: rtw_get_wps_ie_def vendor_ok_eq)

theorem rtw_get_wps_ie_correct_witness:
  "rtw_get_wps_ie (Some (ies_enc [(0, [65]), (221, [0, 0x50, 0xf2, 4, 1])], 0)) 10 None (Some 0) =
     Some (Some 3, None, Some 7)"
  using rtw_get_wps_ie_correct [of "[(0, [65]), (221, [0, 0x50, 0xf2, 4, 1])]"
      "ies_enc [(0, [65]), (221, [0, 0x50, 0xf2, 4, 1])]" "[]" "[]" 0]
  by (simp add: vendor_ok_def wf_ie_def MAX_IE_SZ_def vendor_match_def wps_oui_def)

text \<open>\<open>rtw_del_p2p_ie\<close> deletes every P2P element of a well-formed sequence, keeps the other
  elements in order, clears the freed tail, and returns the new length.\<close>

theorem rtw_del_p2p_ie_correct:
  assumes "list_all vendor_ok es" and "length (ies_enc es) \<le> MAX_IE_SZ"
  shows "rtw_del_p2p_ie (pre @ ies_enc es @ post) (length pre) (length (ies_enc es)) =
     Some (pre @ ies_enc (filter (\<lambda>e. \<not> vendor_match p2p_oui e) es) @
             replicate (length (ies_enc (filter (vendor_match p2p_oui) es))) 0 @ post,
           length (ies_enc (filter (\<lambda>e. \<not> vendor_match p2p_oui e) es)))"
  using p2p_del.del_ie_loop_filter [of es pre post] assms
  by (simp add: rtw_del_p2p_ie_def vendor_ok_eq)

theorem rtw_del_p2p_ie_correct_witness:
  "rtw_del_p2p_ie (ies_enc [(221, [0x50, 0x6f, 0x9a, 9]), (0, [65])]) 0 9 =
     Some ([0, 1, 65, 0, 0, 0, 0, 0, 0], 3)"
  using rtw_del_p2p_ie_correct [of "[(221, [0x50, 0x6f, 0x9a, 9]), (0, [65])]" "[]" "[]"]
  by (simp add: vendor_ok_def wf_ie_def MAX_IE_SZ_def vendor_match_def p2p_oui_def ie_enc_def,
      simp add: eval_nat_numeral)

definition p2p_body :: "ie list \<Rightarrow> bytes" where
  "p2p_body es = concat (map (drop 4 \<circ> snd) (filter (vendor_match p2p_oui) es))"

lemma p2p_body_simps [simp]:
  "p2p_body [] = []"
  "p2p_body (e # es) = (if vendor_match p2p_oui e then drop 4 (snd e) @ p2p_body es else p2p_body es)"
  by (simp_all add: p2p_body_def)

lemma p2p_hit:
  assumes "vendor_ok e" "drop k m = ie_enc e @ post"
  shows "(if fst e = WLAN_EID_VENDOR_SPECIFIC then memeq m (k + 2) p2p_oui 4 else Some False) =
     Some (vendor_match p2p_oui e)"
  using assms p2p.test_ie [of e k m post] by (simp add: vendor_test_def vendor_ok_eq split: if_splits)

lemma unat_len_ok: "vendor_ok e \<Longrightarrow> unat (of_nat (length (snd e)) :: u8) = length (snd e)"
  by (simp add: vendor_ok_def wf_ie_def unat_of_nat_u8)

lemma p2p_merged_len_loop_body:
  assumes "list_all vendor_ok es" "drop (p + i) m = ies_enc es @ post" "n = i + length (ies_enc es)"
  shows "p2p_merged_len_loop m p n i len = Some (len + int (length (p2p_body es)))"
  using assms
proof (induction es arbitrary: i len)
  case Nil
  then show ?case by (simp add: p2p_merged_len_loop.simps)
next
  case (Cons e es)
  let ?l = "length (snd e)"
  from Cons.prems have e: "vendor_ok e" "drop (p + i) m = ie_enc e @ ies_enc es @ post" by simp_all
  have l4: "vendor_match p2p_oui e \<Longrightarrow> 4 \<le> ?l" using e(1) by (simp add: vendor_ok_def vendor_match_def)
  have "drop (p + (i + (?l + 2))) m = ies_enc es @ post"
    using drop_add [OF e(2)] by (simp add: add.assoc)
  then have "p2p_merged_len_loop m p n (i + (?l + 2)) len' = Some (len' + int (length (p2p_body es)))" for len'
    using Cons.prems by (intro Cons.IH) simp_all
  moreover have "uint (of_nat ?l :: u8) = int ?l" using unat_len_ok [OF e(1)] by (metis uint_nat)
  ultimately show ?case
    using p2p_hit [OF e] rd_ie_eid [OF e(2)] rd_ie_len [OF e(2)] unat_len_ok [OF e(1)] Cons.prems(3) l4
    by (subst p2p_merged_len_loop.simps) (auto simp: add.assoc of_nat_diff)
qed

lemma memcpy_app:
  assumes "drop k m = bs @ post" "n = length bs" "k \<le> length m"
  shows "memcpy (D @ old) (length D) m k n =
    (if n \<le> length old then Some (D @ bs @ drop n old) else None)"
proof -
  have "length m = k + length bs + length post"
    using arg_cong [OF assms(1), of length] assms(3) by simp
  with assms show ?thesis by (simp add: memcpy_def rd_n_def wr_n_def)
qed

lemma p2p_merge_loop_body:
  assumes "list_all vendor_ok es" "drop (p + i) m = ies_enc es @ post" "n = i + length (ies_enc es)"
    "length (p2p_body es) \<le> length old"
  shows "p2p_merge_loop m p n i len (D @ old) (length D) =
    Some (len + of_nat (length (p2p_body es)), D @ p2p_body es @ drop (length (p2p_body es)) old)"
  using assms
proof (induction es arbitrary: i len D old)
  case Nil
  then show ?case by (simp add: p2p_merge_loop.simps)
next
  case (Cons e es)
  let ?l = "length (snd e)" and ?b = "drop 4 (snd e)"
  from Cons.prems have e: "vendor_ok e" "drop (p + i) m = ie_enc e @ ies_enc es @ post" by simp_all
  have nxt: "drop (p + (i + (?l + 2))) m = ies_enc es @ post"
    using drop_add [OF e(2)] by (simp add: add.assoc)
  have IH: "length (p2p_body es) \<le> length old' \<Longrightarrow>
      p2p_merge_loop m p n (i + (?l + 2)) len' (D' @ old') (length D') =
      Some (len' + of_nat (length (p2p_body es)), D' @ p2p_body es @ drop (length (p2p_body es)) old')"
    for len' D' old' using Cons.prems nxt by (intro Cons.IH) simp_all
  note rds = p2p_hit [OF e] rd_ie_eid [OF e(2)] rd_ie_len [OF e(2)] unat_len_ok [OF e(1)]
  show ?case
  proof (cases "vendor_match p2p_oui e")
    case False
    with rds IH [of old len D] Cons.prems show ?thesis
      by (subst p2p_merge_loop.simps) (simp add: add.assoc)
  next
    case True
    then have l4: "4 \<le> ?l" using e(1) by (simp add: vendor_ok_def vendor_match_def)
    have "drop 6 (ie_enc e @ ies_enc es @ post) = ?b @ ies_enc es @ post"
      using l4 by (simp add: ie_enc_def drop_Cons')
    then have "drop (p + i + 6) m = ?b @ ies_enc es @ post"
      using arg_cong [OF e(2), of "drop 6"] by (simp only: drop_drop add.commute add.left_commute)
    moreover have "p + i + 6 \<le> length m"
      using drop_app_le [of "p + i" m "ie_enc e"] e(2) l4 by simp
    ultimately have cp: "memcpy (D @ old) (length D) m (p + i + 6) (?l - 4) =
        Some ((D @ ?b) @ drop (?l - 4) old)"
      using Cons.prems(4) True memcpy_app [of "p + i + 6" m ?b "ies_enc es @ post" "?l - 4" D old]
      by (simp split: if_splits)
    have w: "(of_nat ?l :: u8) - 4 = of_nat (?l - 4)" using l4 by (simp add: of_nat_diff)
    have "p2p_merge_loop m p n i len (D @ old) (length D) =
        p2p_merge_loop m p n (i + (?l + 2)) (len + of_nat (?l - 4)) ((D @ ?b) @ drop (?l - 4) old) (length (D @ ?b))"
      using rds True cp l4 Cons.prems(3)
      by (subst p2p_merge_loop.simps) (simp only: w, simp add: add.commute [of 6])
    also note IH [of "drop (?l - 4) old" "len + of_nat (?l - 4)" "D @ ?b"]
    finally show ?thesis using True Cons.prems(4) by (simp add: algebra_simps)
  qed
qed

text \<open>\<open>rtw_p2p_merge_ies\<close> concatenates the attributes of all P2P elements of a well-formed
  sequence behind one header, in order, inside a buffer of that size. The length byte of the header
  stays 0, and the length it returns is the true one modulo 256, while
  \<open>rtw_get_p2p_merged_ies_len\<close> returns the true one.\<close>

theorem rtw_p2p_merge_ies_correct:
  assumes "list_all vendor_ok es" and "m = pre @ ies_enc es @ post"
    and "6 + length (p2p_body es) \<le> length d"
  shows "rtw_p2p_merge_ies m (length pre) (length (ies_enc es)) (Some d) =
      Some (int (length (p2p_body es) mod 256) + 4,
            Some ([0xDD, 0x00, 0x50, 0x6f, 0x9a, 0x09] @ p2p_body es @ drop (6 + length (p2p_body es)) d)) \<and>
    rtw_get_p2p_merged_ies_len m (length pre) (length (ies_enc es)) =
      Some (of_nat (length (p2p_body es) + 4))"
proof -
  let ?H = "[0xDD, 0x00, 0x50, 0x6f, 0x9a, 0x09] :: bytes" and ?n = "length (p2p_body es)"
  have w: "wr_n d 0 ?H = Some (?H @ drop 6 d)" using assms(3) by (simp add: wr_n_def eval_nat_numeral)
  have dr: "drop (length pre + 0) m = ies_enc es @ post" using assms(2) by simp
  have H6: "length ?H = 6" by simp
  have "p2p_merge_loop m (length pre) (length (ies_enc es)) 0 0 (?H @ drop 6 d) 6 =
      Some (0 + of_nat ?n, ?H @ p2p_body es @ drop ?n (drop 6 d))"
    using assms(3) by (intro p2p_merge_loop_body [OF assms(1) dr, where D = ?H, unfolded H6]) simp_all
  moreover have "uint (of_nat ?n :: u8) = int (?n mod 256)"
    by (simp add: uint_word_of_int zmod_int unsigned_of_nat take_bit_eq_mod of_nat_mod)
  moreover have "p2p_merged_len_loop m (length pre) (length (ies_enc es)) 0 0 = Some (0 + int ?n)"
    by (rule p2p_merged_len_loop_body [OF assms(1) dr]) simp
  ultimately show ?thesis
    by (simp add: rtw_p2p_merge_ies_def w rtw_get_p2p_merged_ies_len_def add.commute del: append.simps)
qed

theorem rtw_p2p_merge_ies_correct_witness:
  "rtw_p2p_merge_ies (ies_enc [(221, [0x50, 0x6f, 0x9a, 9, 1]), (0, [65]), (221, [0x50, 0x6f, 0x9a, 9, 2])])
     0 (length (ies_enc [(221, [0x50, 0x6f, 0x9a, 9, 1]), (0, [65]), (221, [0x50, 0x6f, 0x9a, 9, 2])])) (Some [7, 7, 7, 7, 7, 7, 7, 7, 7]) = Some (6, Some [0xDD, 0, 0x50, 0x6f, 0x9a, 9, 1, 2, 7])"
  using rtw_p2p_merge_ies_correct [of "[(221, [0x50, 0x6f, 0x9a, 9, 1]), (0, [65]), (221, [0x50, 0x6f, 0x9a, 9, 2])]"
     "ies_enc [(221, [0x50, 0x6f, 0x9a, 9, 1]), (0, [65]), (221, [0x50, 0x6f, 0x9a, 9, 2])]" "[]" "[]" "[7, 7, 7, 7, 7, 7, 7, 7, 7]"]
  by (simp add: vendor_ok_def wf_ie_def vendor_match_def p2p_oui_def)

section \<open>The attribute searchers\<close>

text \<open>Memory safety of the loop of the P2P and WFD searchers, and where the attribute lies.\<close>

lemma RTW_GET16_in:
  "i + 1 < length m \<Longrightarrow> \<exists>v. RTW_GET_LE16 m i = Some v"
  "i + 1 < length m \<Longrightarrow> \<exists>v. RTW_GET_BE16 m i = Some v"
  by (simp_all add: RTW_GET_LE16_def RTW_GET_BE16_def rd_in)

lemma unat_ucast_u16: "unat (ucast (v :: u16) :: u32) = unat v"
  using unsigned_less [of v, where 'a = nat] by (simp add: unsigned_ucast_eq take_bit_eq_mod)

lemma attr_loop_safe:
  assumes "attr_loop get_len m p n t q = Some r"
    and "\<And>i. i + 1 < length m \<Longrightarrow> \<exists>v. get_len m i = Some v"
    and "p + n \<le> length m" "p \<le> q"
  shows "r \<noteq> Fault \<and> (\<forall>a l. r = Ret (Some (a, l)) \<longrightarrow>
     q \<le> a \<and> a + unat l \<le> p + n \<and> rd m a = Some t)"
proof -
  let ?Q = "\<lambda>get_len m p n t q r.
     (\<forall>i. i + 1 < length m \<longrightarrow> (\<exists>v. get_len m i = Some v)) \<and> p + n \<le> length m \<and> p \<le> q \<longrightarrow>
     r \<noteq> Fault \<and> (\<forall>a l. r = Ret (Some (a, l)) \<longrightarrow> q \<le> a \<and> a + unat l \<le> p + n \<and> rd m a = Some t)"
  have "?Q get_len m p n t q r"
  proof (rule attr_loop.raw_induct [where P = ?Q, OF _ assms(1)], rule impI)
    fix loop get_len m p n t q r
    assume IH: "\<And>get_len m p n t q r. loop get_len m p n t q = Some r \<Longrightarrow> ?Q get_len m p n t q r"
      and body: "(if q - p + 3 \<le> n then case rd m q of None \<Rightarrow> Some Fault
           | Some attr_id \<Rightarrow> case get_len m (q + 1) of None \<Rightarrow> Some Fault
             | Some attr_data_len \<Rightarrow>
                 let attr_len = attr_data_len + 3 in
                 if n < q - p + unat attr_len then Some (Ret None)
                 else if attr_id = t then Some (Ret (Some (q, attr_len)))
                 else loop get_len m p n t (q + unat attr_len)
         else Some (Ret None)) = Some r"
      and pre: "(\<forall>i. i + 1 < length m \<longrightarrow> (\<exists>v. get_len m i = Some v)) \<and> p + n \<le> length m \<and> p \<le> q"
    show "r \<noteq> Fault \<and> (\<forall>a l. r = Ret (Some (a, l)) \<longrightarrow> q \<le> a \<and> a + unat l \<le> p + n \<and> rd m a = Some t)"
    proof (cases "q - p + 3 \<le> n")
      case False
      with body show ?thesis by auto
    next
      case True
      with pre have q: "q + 1 + 1 < length m" "q < length m" by linarith+
      with pre obtain v where v: "get_len m (q + 1) = Some v" by blast
      consider "n < q - p + unat (v + 3)" "r = Ret None"
        | "q - p + unat (v + 3) \<le> n" "m ! q = t" "r = Ret (Some (q, v + 3))"
        | "loop get_len m p n t (q + unat (v + 3)) = Some r"
        using body True v q(2) by (fastforce simp: rd_in Let_def split: if_splits)
      then show ?thesis
      proof cases
        case 3
        from IH [OF this] pre show ?thesis by fastforce
      qed (use pre q in \<open>auto simp: rd_in\<close>)
    qed
  qed
  with assms(2-) show ?thesis by blast
qed

text \<open>On arbitrary bytes, when the element lies inside the object, the P2P attribute searcher
  makes no access outside of it, and an attribute it returns lies inside the element and has the
  identifier searched for.\<close>

theorem rtw_get_p2p_attr_safe:
  assumes "p + ielen \<le> length m"
    and "rtw_get_p2p_attr (Some (m, p)) ielen t None (Some l0) = Some r"
  shows "r \<noteq> Fault \<and>
    (\<forall>a b l. r = Ret (Some a, b, Some l) \<longrightarrow>
       p + 6 \<le> a \<and> a + unat l \<le> p + ielen \<and> rd m a = Some t)"
proof (cases "6 < ielen")
  case False
  with assms(2) show ?thesis by (auto simp: rtw_get_p2p_attr_def vendor_attr_def Let_def)
next
  case True
  let ?hit = "m ! p = WLAN_EID_VENDOR_SPECIFIC \<and> take 4 (drop (p + 2) m) = p2p_oui"
  from True assms(1) have hd: "do { b \<leftarrow> rd m p;
      if b \<noteq> WLAN_EID_VENDOR_SPECIFIC then Some False else memeq m (p + 2) p2p_oui 4 } = Some ?hit"
    by (simp add: rd_in memeq_in)
  show ?thesis
  proof (cases ?hit)
    case False
    with assms(2) True show ?thesis
      by (auto simp: rtw_get_p2p_attr_def vendor_attr_def Let_def hd simp del: de_Morgan_conj)
  next
    case hit: True
    with assms(2) True obtain r0 where
      loop: "attr_loop RTW_GET_LE16 m p ielen t (p + 6) = Some r0" and
      r: "r = attr_copy_out m None (Some 0) r0"
      by (auto simp: rtw_get_p2p_attr_def vendor_attr_def Let_def hd)
    have "r0 \<noteq> Fault \<and> (\<forall>a l. r0 = Ret (Some (a, l)) \<longrightarrow>
        p + 6 \<le> a \<and> a + unat l \<le> p + ielen \<and> rd m a = Some t)"
      by (rule attr_loop_safe [OF loop RTW_GET16_in(1) assms(1)]) simp_all
    with r show ?thesis
      by (auto simp: attr_copy_out_def unat_ucast_u16 split: run.splits option.splits)
  qed
qed

theorem rtw_get_p2p_attr_safe_witness:
  "\<exists>r. rtw_get_p2p_attr (Some ([221, 7, 0x50, 0x6f, 0x9a, 9, 2, 0, 0], 0)) 9 2 None (Some 0) = Some r \<and> r \<noteq> Fault"
proof -
  have "rtw_get_p2p_attr (Some ([221, 7, 0x50, 0x6f, 0x9a, 9, 2, 0, 0], 0)) 9 2 None (Some 0) =
      Some (Ret (Some 6, None, Some 3))"
    by (simp add: rtw_get_p2p_attr_def vendor_attr_def Let_def rd_def memeq_def rd_n_def p2p_oui_def
        attr_loop.simps RTW_GET_LE16_def mk16_def attr_copy_out_def)
  with rtw_get_p2p_attr_safe [OF _ this] show ?thesis by simp
qed

text \<open>The loops do not end when an attribute length makes the 16 bit sum wrap to 0.\<close>

lemma wps_attr_loop_stuck:
  assumes "RTW_GET_BE16 m q = Some a" "a \<noteq> t" "RTW_GET_BE16 m (q + 2) = Some 0xFFFC" "q - p < n"
  shows "wps_attr_loop m p n t q = None"
proof (rule ccontr)
  assume "wps_attr_loop m p n t q \<noteq> None"
  then obtain r where "wps_attr_loop m p n t q = Some r" by blast
  note ind = wps_attr_loop.raw_induct [OF _ this, where P = "\<lambda>m' p' n' t' q' _. \<not> (m' = m \<and> p' = p \<and> n' = n \<and> t' = t \<and> q' = q)"]
  have "\<not> (m = m \<and> p = p \<and> n = n \<and> t = t \<and> q = q)"
    by (rule ind) (use assms in \<open>clarsimp simp: Let_def; blast\<close>)
  then show False by simp
qed

lemma attr_loop_stuck:
  assumes "rd m q = Some a" "a \<noteq> t" "get_len m (q + 1) = Some 0xFFFD" "q - p + 3 \<le> n"
  shows "attr_loop get_len m p n t q = None"
proof (rule ccontr)
  assume "attr_loop get_len m p n t q \<noteq> None"
  then obtain r where "attr_loop get_len m p n t q = Some r" by blast
  note ind = attr_loop.raw_induct [OF _ this, where P = "\<lambda>g' m' p' n' t' q' _.
      \<not> (g' = get_len \<and> m' = m \<and> p' = p \<and> n' = n \<and> t' = t \<and> q' = q)"]
  have "\<not> (get_len = get_len \<and> m = m \<and> p = p \<and> n = n \<and> t = t \<and> q = q)"
    by (rule ind) (use assms in \<open>clarsimp simp: Let_def; blast\<close>)
  then show False by simp
qed

text \<open>C31. \<open>rtw_get_wps_attr\<close> never returns on a WPS element whose first attribute is not the one
  searched for and carries the length \<open>0xFFFC\<close>: the 16 bit sum with the header length is 0, so the
  loop stays at the same attribute.\<close>

theorem rtw_get_wps_attr_hangs:
  assumes "rd m p = Some WLAN_EID_VENDOR_SPECIFIC" and "rd_n m (p + 2) 4 = Some wps_oui"
    and "6 < ielen" and "RTW_GET_BE16 m (p + 6) = Some a" and "a \<noteq> t"
    and "RTW_GET_BE16 m (p + 8) = Some 0xFFFC"
  shows "rtw_get_wps_attr m p ielen t buf len = None"
proof -
  have "memeq m (p + 2) wps_oui 4 = Some True"
    using assms(2) by (simp add: memeq_def rd_n_in)
  moreover have "wps_attr_loop m p ielen t (p + 6) = None"
    using assms(3-6) by (intro wps_attr_loop_stuck [of _ _ a]) (simp_all add: add.commute)
  ultimately show ?thesis
    using assms(1) by (simp add: rtw_get_wps_attr_def)
qed

theorem rtw_get_wps_attr_hangs_witness:
  "rtw_get_wps_attr [221, 8, 0x00, 0x50, 0xf2, 4, 0x10, 0x4a, 0xff, 0xfc] 0 10 0x1041 None (Some 0) = None"
  by (rule rtw_get_wps_attr_hangs [where a = "0x104a"])
    (simp_all add: rd_def rd_n_def RTW_GET_BE16_def mk16_def wps_oui_def)

text \<open>The P2P searcher has the same defect with the length \<open>0xFFFD\<close>.\<close>

theorem rtw_get_p2p_attr_hangs:
  assumes "rd m p = Some WLAN_EID_VENDOR_SPECIFIC" and "rd_n m (p + 2) 4 = Some p2p_oui"
    and "9 \<le> ielen" and "rd m (p + 6) = Some a" and "a \<noteq> t"
    and "RTW_GET_LE16 m (p + 7) = Some 0xFFFD"
  shows "rtw_get_p2p_attr (Some (m, p)) ielen t buf len = None"
proof -
  have "memeq m (p + 2) p2p_oui 4 = Some True"
    using assms(2) by (simp add: memeq_def rd_n_in)
  moreover have "attr_loop RTW_GET_LE16 m p ielen t (p + 6) = None"
    using assms(3-6) by (intro attr_loop_stuck [of _ _ a]) (simp_all add: add.commute)
  ultimately show ?thesis
    using assms(1,3) by (simp add: rtw_get_p2p_attr_def vendor_attr_def)
qed

theorem rtw_get_p2p_attr_hangs_witness:
  "rtw_get_p2p_attr (Some ([221, 7, 0x50, 0x6f, 0x9a, 9, 2, 0xfd, 0xff], 0)) 9 5 None (Some 0) = None"
  by (rule rtw_get_p2p_attr_hangs [where a = 2])
    (simp_all add: rd_def rd_n_def RTW_GET_LE16_def mk16_def p2p_oui_def)

text \<open>The two byte orders of an attribute length, as one interface: what is read back is what was
  written.\<close>

type_synonym attr = "u8 \<times> bytes"

locale attr_codec =
  fixes get_len :: "bytes \<Rightarrow> nat \<Rightarrow> u16 option"
    and put_len :: "u16 \<Rightarrow> bytes"
  assumes put_length: "length (put_len v) = 2"
    and get_put: "drop k m = put_len v @ post \<Longrightarrow> get_len m k = Some v"
begin

definition attr_enc :: "attr \<Rightarrow> bytes" where
  "attr_enc a = fst a # put_len (of_nat (length (snd a))) @ snd a"

definition attrs_enc :: "attr list \<Rightarrow> bytes" where
  "attrs_enc as = concat (map attr_enc as)"

fun first_attr :: "u8 \<Rightarrow> nat \<Rightarrow> attr list \<Rightarrow> (nat \<times> bytes) option" where
  "first_attr t q [] = None"
| "first_attr t q (a # as) =
     (if fst a = t then Some (q, snd a) else first_attr t (q + length (attr_enc a)) as)"

lemma attr_enc_simps [simp]:
  "length (attr_enc a) = length (snd a) + 3"
  "attrs_enc [] = []" "attrs_enc (a # as) = attr_enc a @ attrs_enc as"
  by (simp_all add: attr_enc_def attrs_enc_def put_length)

lemma attr_loop_first:
  assumes "list_all (\<lambda>a. length (snd a) \<le> 65532) as" "drop q m = attrs_enc as @ post" "p \<le> q"
    "q - p + length (attrs_enc as) = n"
  shows "attr_loop get_len m p n t q =
     Some (Ret (map_option (\<lambda>(k, d). (k, of_nat (length d + 3))) (first_attr t q as)))"
  using assms
proof (induction as arbitrary: q)
  case Nil
  then show ?case by (simp add: attr_loop.simps)
next
  case (Cons a as)
  let ?l = "length (snd a)"
  from Cons.prems have d: "drop q m = attr_enc a @ attrs_enc as @ post" by simp
  have "drop (q + 1) m = put_len (of_nat ?l) @ snd a @ attrs_enc as @ post"
    using drop_add [of q m "[fst a]"] d by (simp add: attr_enc_def)
  from get_put [OF this] have len: "get_len m (q + 1) = Some (of_nat ?l)" .
  have w: "(of_nat ?l :: u16) + 3 = of_nat (?l + 3)" by simp
  have u: "unat (of_nat (?l + 3) :: u16) = ?l + 3"
    using Cons.prems(1) by (simp add: unat_of_nat del: of_nat_add)
  have nxt: "drop (q + (?l + 3)) m = attrs_enc as @ post" using drop_add [OF d] by simp
  have IH: "attr_loop get_len m p n t (q + (?l + 3)) =
      Some (Ret (map_option (\<lambda>(k, d). (k, of_nat (length d + 3))) (first_attr t (q + (?l + 3)) as)))"
    using Cons.prems nxt by (intro Cons.IH) auto
  have "rd m q = Some (fst a)" by (rule rd_drop) (simp add: d attr_enc_def)
  moreover have "q - p + 3 \<le> n" "\<not> q - p + (?l + 3) > n" using Cons.prems(4) by simp_all
  ultimately show ?case
    using IH len
    by (subst attr_loop.simps) (simp only: Let_def w u if_True if_False option.case first_attr.simps
        attr_enc_simps, simp)
qed

lemma first_attr_content:
  "first_attr t q as = Some (k, d) \<Longrightarrow> drop q m = attrs_enc as @ post \<Longrightarrow>
     rd_n m (k + 3) (length d) = Some d \<and> length d \<le> length (attrs_enc as)"
proof (induction as arbitrary: q)
  case (Cons a as)
  from Cons.prems(2) have d: "drop q m = attr_enc a @ attrs_enc as @ post" by simp
  show ?case
  proof (cases "fst a = t")
    case True
    have "drop (q + 3) m = snd a @ attrs_enc as @ post"
      using drop_add [of q m "fst a # put_len (of_nat (length (snd a)))" "snd a @ attrs_enc as @ post"] d
      by (simp add: attr_enc_def put_length numeral_3_eq_3)
    moreover have "q + length (attr_enc a) \<le> length m"
      using d by (rule drop_app_le) (simp add: attr_enc_def)
    ultimately show ?thesis using True Cons.prems(1) by (simp add: rd_n_def)
  next
    case False
    then have "first_attr t (q + length (attr_enc a)) as = Some (k, d)" using Cons.prems(1) by simp
    from Cons.IH [OF this drop_add [OF d]] show ?thesis by simp
  qed
qed simp

end

interpretation p2p_codec: attr_codec RTW_GET_LE16 put_LE16
  by unfold_locales (simp_all add: put16_length get_put_LE16)

interpretation wfd_codec: attr_codec RTW_GET_BE16 put_BE16
  by unfold_locales (simp_all add: put16_length get_put_BE16)

text \<open>The P2P element that holds a list of attributes, and the attribute with an identifier that comes
  first in it.\<close>

definition p2p_ie_of :: "attr list \<Rightarrow> ie" where
  "p2p_ie_of as =
     (WLAN_EID_VENDOR_SPECIFIC,
      p2p_oui @ concat (map (\<lambda>a. fst a # put_LE16 (of_nat (length (snd a))) @ snd a) as))"

lemma p2p_ie_of_eq: "p2p_ie_of as = (WLAN_EID_VENDOR_SPECIFIC, p2p_oui @ p2p_codec.attrs_enc as)"
  by (simp add: p2p_ie_of_def p2p_codec.attrs_enc_def p2p_codec.attr_enc_def [abs_def])

lemma p2p_first_attr:
  "find (\<lambda>a. fst a = t) as = map_option (\<lambda>(k, d). (t, d)) (p2p_codec.first_attr t q as)"
  by (induction as arbitrary: q) auto

text \<open>On a P2P element that holds a list of attributes \<open>rtw_get_p2p_attr_content\<close> copies the
  content of the first attribute with the given identifier, cut to the length the caller offers, and
  returns its place and the copied length; it returns nothing when there is no such attribute.\<close>

theorem rtw_get_p2p_attr_content_correct:
  assumes "list_all (\<lambda>a. length (snd a) \<le> 65532) as" and "length (snd (p2p_ie_of as)) \<le> 255"
    and "m = pre @ ie_enc (p2p_ie_of as) @ post" and "unat lc \<le> length buf"
  shows "\<exists>k. rtw_get_p2p_attr_content m (length pre) (length (ie_enc (p2p_ie_of as))) t (Some buf) (Some lc) =
     Some (Ret (case find (\<lambda>a. fst a = t) as of
         None \<Rightarrow> (None, Some buf, Some 0)
       | Some (_, d) \<Rightarrow>
           (let n = min (unat lc) (length d) in
            (Some k, Some (take n d @ drop n buf), Some (of_nat n))))) \<and>
     (\<forall>d. find (\<lambda>a. fst a = t) as = Some (t, d) \<longrightarrow> rd_n m k (length d) = Some d)"
proof -
  let ?p = "length pre" and ?e = "p2p_ie_of as" and ?as = "p2p_codec.attrs_enc as"
  let ?n = "length (ie_enc ?e)" and ?fa = "p2p_codec.first_attr t (length pre + 6) as"
  have d0: "drop ?p m = ie_enc ?e @ post" using assms(3) by simp
  have d6: "drop (?p + 6) m = ?as @ post"
    using assms(3) by (simp add: p2p_ie_of_eq ie_enc_def p2p_oui_def)
  have n: "?n = 6 + length ?as" by (simp add: p2p_ie_of_eq)
  have hd: "rd m ?p = Some WLAN_EID_VENDOR_SPECIFIC" "memeq m (?p + 2) p2p_oui 4 = Some True"
    using rd_ie_eid [OF d0] rd_n_ie_data [OF d0, of 4] by (simp_all add: p2p_ie_of_eq memeq_def rd_n_in)
  have loop: "attr_loop RTW_GET_LE16 m ?p ?n t (?p + 6) =
      Some (Ret (map_option (\<lambda>(k, d). (k, of_nat (length d + 3))) ?fa))"
    using assms(1) d6 n by (intro p2p_codec.attr_loop_first [where post = post]) simp_all
  have get: "rtw_get_p2p_attr (Some (m, ?p)) ?n t None (Some 0) =
      Some (Ret (case ?fa of None \<Rightarrow> (None, None, Some 0)
        | Some (k, d) \<Rightarrow> (Some k, None, Some (ucast (of_nat (length d + 3) :: u16)))))"
  proof (cases as)
    case Nil
    with n have "?n = 6" by simp
    with Nil show ?thesis by (simp only: rtw_get_p2p_attr_def vendor_attr_def Let_def) simp
  next
    case (Cons a as')
    then have "\<not> ?n \<le> 6" unfolding n by simp
    with loop hd show ?thesis
      by (simp only: rtw_get_p2p_attr_def vendor_attr_def Let_def)
        (auto simp: attr_copy_out_def split: option.splits)
  qed
  show ?thesis
  proof (cases ?fa)
    case None
    with get p2p_first_attr [of t as "?p + 6"] show ?thesis
      by (simp add: rtw_get_p2p_attr_content_def attr_content_def)
  next
    case (Some kd)
    obtain k d where kd: "kd = (k, d)" by (cases kd)
    with Some p2p_codec.first_attr_content [OF _ d6] have
      rd: "rd_n m (k + 3) (length d) = Some d" and ld: "length d \<le> length ?as" by blast+
    from ld n assms(2) have l: "length d < 256" by simp
    let ?j = "min (unat lc) (length d)"
    have f: "find (\<lambda>a. fst a = t) as = Some (t, d)" using p2p_first_attr [of t as "?p + 6"] Some kd by simp
    have cp: "memcpy buf 0 m (k + 3) ?j = Some (take ?j d @ drop ?j buf)"
    proof -
      from rd have "k + 3 + length d \<le> length m" "take (length d) (drop (k + 3) m) = d"
        by (simp_all add: rd_n_Some_iff)
      then have "k + 3 + ?j \<le> length m" "take ?j (drop (k + 3) m) = take ?j d"
        by (linarith, intro take_shorter [of "length d"]) simp_all
      with assms(4) show ?thesis by (simp add: memcpy_def rd_n_def wr_n_def min_def)
    qed
    have uc: "(ucast (of_nat (length d + 3) :: u16) :: u32) = of_nat (length d) + 3"
      using l by (simp add: word_unat_eq_iff unat_ucast_u16 unat_of_nat unat_word_ariths del: of_nat_add)
    have nz: "(of_nat (length d) + 3 :: u32) \<noteq> 0"
      using l by (simp add: word_unat_eq_iff unat_of_nat unat_word_ariths)
    have lt: "of_nat (length d) < lc \<longleftrightarrow> length d < unat lc" "unat (of_nat (length d) :: u32) = length d"
      using l by (simp_all add: word_less_nat_alt unat_of_nat)
    show ?thesis
    proof (cases "length d < unat lc")
      case True
      with get Some kd f cp rd uc nz lt show ?thesis
        by (intro exI [of _ "k + 3"]) (simp add: rtw_get_p2p_attr_content_def attr_content_def Let_def)
    next
      case False
      then have "?j = unat lc" by simp
      with False get Some kd f cp rd uc nz lt show ?thesis
        by (intro exI [of _ "k + 3"]) (simp add: rtw_get_p2p_attr_content_def attr_content_def Let_def)
    qed
  qed
qed

theorem rtw_get_p2p_attr_content_correct_witness:
  "\<exists>k. rtw_get_p2p_attr_content (ie_enc (p2p_ie_of [(2, [7]), (5, [8, 9])])) 0
        (length (ie_enc (p2p_ie_of [(2, [7]), (5, [8, 9])]))) 5 (Some [0, 0, 0]) (Some 3) =
      Some (Ret (Some k, Some [8, 9, 0], Some 2))"
  using rtw_get_p2p_attr_content_correct [of "[(2, [7]), (5, [8, 9])]"
      "ie_enc (p2p_ie_of [(2, [7]), (5, [8, 9])])" "[]" "[]" 3 "[0, 0, 0]" 5]
  by (auto simp: p2p_ie_of_def p2p_oui_def put_LE16_def)

end
