(* ===== verification/Ie_Security.thy ===== *)
theory Ie_Security
  imports Ie_Core
begin

text \<open>
  The security elements of \<open>core/rtw_ieee80211.c\<close>: the searchers for the WPA, RSN and WAPI
  elements, the tables of cipher and key management suites, and the parsers of the WPA element and
  of the RSN element. A pointer into the parsed element is its offset in the object.
\<close>

section \<open>Suites\<close>

abbreviation WPA_IE_ID :: u8 where "WPA_IE_ID \<equiv> 0xdd"
abbreviation WPA2_IE_ID :: u8 where "WPA2_IE_ID \<equiv> 0x30"
abbreviation WAPI_IE :: u8 where "WAPI_IE \<equiv> 68"

definition RTW_WPA_OUI_TYPE :: bytes where "RTW_WPA_OUI_TYPE = [0x00, 0x50, 0xf2, 1]"

text \<open>The suites in the order in which the code compares them, with the bit each is mapped to.\<close>

definition wpa_cipher_suites :: "(bytes \<times> u32) list" where
  "wpa_cipher_suites =
     [([0x00, 0x50, 0xf2, 0], bit_mask 0), ([0x00, 0x50, 0xf2, 1], bit_mask 1),
      ([0x00, 0x50, 0xf2, 2], bit_mask 3), ([0x00, 0x50, 0xf2, 4], bit_mask 4),
      ([0x00, 0x50, 0xf2, 5], bit_mask 2)]"

definition rsn_cipher_suites :: "(bytes \<times> u32) list" where
  "rsn_cipher_suites =
     [([0x00, 0x0f, 0xac, 0], bit_mask 0), ([0x00, 0x0f, 0xac, 1], bit_mask 1),
      ([0x00, 0x0f, 0xac, 2], bit_mask 3), ([0x00, 0x0f, 0xac, 4], bit_mask 4),
      ([0x00, 0x0f, 0xac, 8], bit_mask 5), ([0x00, 0x0f, 0xac, 9], bit_mask 6),
      ([0x00, 0x0f, 0xac, 10], bit_mask 7), ([0x00, 0x0f, 0xac, 5], bit_mask 2),
      ([0x00, 0x0f, 0xac, 6], bit_mask 8), ([0x00, 0x0f, 0xac, 11], bit_mask 9),
      ([0x00, 0x0f, 0xac, 12], bit_mask 10), ([0x00, 0x0f, 0xac, 13], bit_mask 11)]"

definition akm_suites :: "(bytes \<times> u32) list" where
  "akm_suites =
     [([0x00, 0x0f, 0xac, 1], bit_mask 0), ([0x00, 0x0f, 0xac, 2], bit_mask 1),
      ([0x00, 0x0f, 0xac, 3], bit_mask 2), ([0x00, 0x0f, 0xac, 4], bit_mask 3),
      ([0x00, 0x0f, 0xac, 5], bit_mask 4), ([0x00, 0x0f, 0xac, 6], bit_mask 5),
      ([0x00, 0x0f, 0xac, 7], bit_mask 6), ([0x00, 0x0f, 0xac, 8], bit_mask 7),
      ([0x00, 0x0f, 0xac, 9], bit_mask 8), ([0x00, 0x0f, 0xac, 11], bit_mask 9),
      ([0x00, 0x0f, 0xac, 12], bit_mask 10), ([0x00, 0x0f, 0xac, 14], bit_mask 11),
      ([0x00, 0x0f, 0xac, 15], bit_mask 12), ([0x00, 0x0f, 0xac, 16], bit_mask 13),
      ([0x00, 0x0f, 0xac, 17], bit_mask 14)]"

text \<open>One comparison after the other, the first that holds decides, 0 when none does.\<close>

fun suite_lookup :: "(bytes \<times> u32) list \<Rightarrow> bytes \<Rightarrow> nat \<Rightarrow> u32 option" where
  "suite_lookup [] m s = Some 0"
| "suite_lookup ((sel, v) # tab) m s = do {
     eq \<leftarrow> memeq m s sel 4;
     if eq then Some v else suite_lookup tab m s }"

definition rtw_get_wpa_cipher_suite :: "bytes \<Rightarrow> nat \<Rightarrow> u32 option" where
  "rtw_get_wpa_cipher_suite = suite_lookup wpa_cipher_suites"

definition rtw_get_rsn_cipher_suite :: "bytes \<Rightarrow> nat \<Rightarrow> u32 option" where
  "rtw_get_rsn_cipher_suite = suite_lookup rsn_cipher_suites"

definition rtw_get_akm_suite_bitmap :: "bytes \<Rightarrow> nat \<Rightarrow> u32 option" where
  "rtw_get_akm_suite_bitmap = suite_lookup akm_suites"

section \<open>Searchers\<close>

lemma rtw_get_ie_loop_ge:
  "rtw_get_ie_loop m p index limit i = Some (Some t, l) \<Longrightarrow> p + i \<le> t \<and> 0 \<le> l"
proof (induction m p index limit i rule: rtw_get_ie_loop.induct)
  case (1 m p index limit i)
  from "1.prems" obtain b tmp where rds: "rd m (p + i) = Some b" "rd m (p + i + 1) = Some tmp"
    by (subst (asm) rtw_get_ie_loop.simps) (auto simp: Option.bind_eq_Some_conv)
  show ?case
    using "1.prems" "1.IH" [OF rds] rds
    by (subst (asm) rtw_get_ie_loop.simps) (auto split: if_splits)
qed

lemma rtw_get_ie_ge:
  "rtw_get_ie m p index len limit = Some (Some t, l) \<Longrightarrow> p \<le> t \<and> 0 \<le> l"
  by (auto simp: rtw_get_ie_def split: if_splits dest: rtw_get_ie_loop_ge)

text \<open>The loop of \<open>rtw_get_wpa_ie\<close>: look for the next vendor element, and go on behind it when it is
  not a WPA element of version 1.\<close>

function rtw_get_wpa_ie_loop ::
    "bytes \<Rightarrow> nat \<Rightarrow> int \<Rightarrow> nat \<Rightarrow> int \<Rightarrow> int \<Rightarrow> (nat option \<times> int) option" where
  "rtw_get_wpa_ie_loop m pie limit pbuf len limit_new = do {
     (t, len) \<leftarrow> rtw_get_ie m pbuf (uint WPA_IE_ID) len limit_new;
     (case t of
        None \<Rightarrow> Some (None, 0)
      | Some t \<Rightarrow> do {
          oui_ok \<leftarrow> memeq m (t + 2) RTW_WPA_OUI_TYPE 4;
          ver_ok \<leftarrow> (if oui_ok then do { val16 \<leftarrow> RTW_GET_LE16 m (t + 6); Some (val16 = 1) } else Some False);
          if ver_ok then do { l \<leftarrow> rd m (t + 1); Some (Some t, uint l) }
          else do {
            let limit_new = limit - (int t - int pie) - 2 - len;
            if limit_new \<le> 0 then Some (None, 0)
            else rtw_get_wpa_ie_loop m pie limit (t + nat (2 + len)) len limit_new } }) }"
  by pat_completeness auto
termination
  by (relation "measure (\<lambda>(m, pie, limit, pbuf, len, limit_new). nat (limit + int pie - int pbuf))")
    (auto dest!: rtw_get_ie_ge)

declare rtw_get_wpa_ie_loop.simps [simp del]

definition rtw_get_wpa_ie :: "bytes \<Rightarrow> nat \<Rightarrow> int \<Rightarrow> (nat option \<times> int) option" where
  "rtw_get_wpa_ie m pie limit = rtw_get_wpa_ie_loop m pie limit pie 0 limit"

definition rtw_get_wpa2_ie :: "bytes \<Rightarrow> nat \<Rightarrow> int \<Rightarrow> int \<Rightarrow> (nat option \<times> int) option" where
  "rtw_get_wpa2_ie m pie rsn_ie_len limit = rtw_get_ie m pie (uint WPA2_IE_ID) rsn_ie_len limit"

text \<open>\<open>rtw_get_wapi_ie\<close> keeps the last WAPI element.\<close>

function rtw_get_wapi_ie_loop ::
    "bytes \<Rightarrow> nat \<Rightarrow> bytes option \<Rightarrow> u16 option \<Rightarrow> nat \<Rightarrow> (bytes option \<times> u16 option) option" where
  "rtw_get_wapi_ie_loop in_ie in_len wapi_ie wapi_len cnt =
     (if cnt < in_len then do {
        authmode \<leftarrow> rd in_ie cnt;
        hit \<leftarrow> (if authmode = WAPI_IE then do {
                  one \<leftarrow> memeq in_ie (cnt + 6) [0x00, 0x14, 0x72, 0x01] 4;
                  if one then Some True else memeq in_ie (cnt + 6) [0x00, 0x14, 0x72, 0x02] 4 }
                else Some False);
        l \<leftarrow> rd in_ie (cnt + 1);
        (wapi_ie', wapi_len') \<leftarrow>
          (if hit then do {
             d \<leftarrow> (case wapi_ie of None \<Rightarrow> Some None
                   | Some d \<Rightarrow> map_option Some (memcpy d 0 in_ie cnt (unat l + 2)));
             Some (d, map_option (\<lambda>_. of_nat (unat l + 2)) wapi_len) }
           else Some (wapi_ie, wapi_len));
        rtw_get_wapi_ie_loop in_ie in_len wapi_ie' wapi_len' (cnt + (unat l + 2)) }
      else Some (wapi_ie, wapi_len))"
  by pat_completeness auto
termination
  by (relation "measure (\<lambda>(in_ie, in_len, wapi_ie, wapi_len, cnt). in_len - cnt)") auto

declare rtw_get_wapi_ie_loop.simps [simp del]

definition rtw_get_wapi_ie ::
    "bytes option \<Rightarrow> nat \<Rightarrow> bytes option \<Rightarrow> u16 option \<Rightarrow> (int \<times> bytes option \<times> u16 option) option" where
  "rtw_get_wapi_ie in_ie in_len wapi_ie wapi_len =
     (let wapi_len = map_option (\<lambda>_. 0) wapi_len in
      case in_ie of
        None \<Rightarrow> Some (0, wapi_ie, wapi_len)
      | Some m \<Rightarrow>
          if in_len \<le> 0 then Some (0, wapi_ie, wapi_len)
          else do {
            (d, l) \<leftarrow> rtw_get_wapi_ie_loop m in_len wapi_ie wapi_len 12;
            Some (case l of None \<Rightarrow> 0 | Some n \<Rightarrow> uint n, d, l) })"

text \<open>The outputs of \<open>rtw_get_sec_ie\<close>.\<close>

record sec_ies =
  rsn_ie :: "bytes option"
  rsn_len :: u16
  wpa_ie :: "bytes option"
  wpa_len :: u16

definition copy_ie :: "bytes option \<Rightarrow> bytes \<Rightarrow> nat \<Rightarrow> nat \<Rightarrow> bytes option option" where
  "copy_ie dst m cnt n =
     (case dst of None \<Rightarrow> Some None | Some d \<Rightarrow> map_option Some (memcpy d 0 m cnt n))"

function rtw_get_sec_ie_loop :: "bytes \<Rightarrow> nat \<Rightarrow> sec_ies \<Rightarrow> nat \<Rightarrow> sec_ies option" where
  "rtw_get_sec_ie_loop in_ie in_len s cnt =
     (if cnt < in_len then do {
        authmode \<leftarrow> rd in_ie cnt;
        wpa \<leftarrow> (if authmode = WPA_IE_ID then memeq in_ie (cnt + 2) [0x0, 0x50, 0xf2, 0x01] 4 else Some False);
        l \<leftarrow> rd in_ie (cnt + 1);
        s' \<leftarrow> (if wpa then do {
                 d \<leftarrow> copy_ie (wpa_ie s) in_ie cnt (unat l + 2);
                 Some (s\<lparr>wpa_ie := d, wpa_len := of_nat (unat l + 2)\<rparr>) }
               else if authmode = WPA2_IE_ID then do {
                 d \<leftarrow> copy_ie (rsn_ie s) in_ie cnt (unat l + 2);
                 Some (s\<lparr>rsn_ie := d, rsn_len := of_nat (unat l + 2)\<rparr>) }
               else Some s);
        rtw_get_sec_ie_loop in_ie in_len s' (cnt + (unat l + 2)) }
      else Some s)"
  by pat_completeness auto
termination
  by (relation "measure (\<lambda>(in_ie, in_len, s, cnt). in_len - cnt)") auto

declare rtw_get_sec_ie_loop.simps [simp del]

definition rtw_get_sec_ie :: "bytes \<Rightarrow> nat \<Rightarrow> sec_ies \<Rightarrow> (int \<times> sec_ies) option" where
  "rtw_get_sec_ie in_ie in_len s = do {
     s' \<leftarrow> rtw_get_sec_ie_loop in_ie in_len s 12;
     Some (uint (rsn_len s') + uint (wpa_len s'), s') }"

section \<open>The WPA element\<close>

primrec wpa_pairwise_loop :: "bytes \<Rightarrow> nat \<Rightarrow> nat \<Rightarrow> u32 \<Rightarrow> u32 option" where
  "wpa_pairwise_loop m 0 pos pw = Some pw"
| "wpa_pairwise_loop m (Suc n) pos pw = do {
     c \<leftarrow> rtw_get_wpa_cipher_suite m pos;
     wpa_pairwise_loop m n (pos + 4) (pw OR c) }"

text \<open>The outputs of \<open>rtw_parse_wpa_ie\<close>; \<open>wpa_akm\<close> is \<open>None\<close> for a null pointer.\<close>

record wpa_suites =
  group_cipher :: u32
  pairwise_cipher :: u32
  wpa_akm :: "u32 option"

text \<open>The part of \<open>rtw_parse_wpa_ie\<close> behind the pairwise suites.\<close>

definition wpa_akm_part :: "bytes \<Rightarrow> nat \<Rightarrow> int \<Rightarrow> wpa_suites \<Rightarrow> (status \<times> wpa_suites) option" where
  "wpa_akm_part m pos left s =
     (if wpa_akm s \<noteq> None \<and> left \<ge> 6 then do {
        eq \<leftarrow> memeq m (pos + 2) [0x00, 0x50, 0xf2, 1] 4;
        Some (SUCCESS, if eq then s\<lparr>wpa_akm := Some (bit_mask 0)\<rparr> else s) }
      else Some (SUCCESS, s))"

definition wpa_pairwise_part :: "bytes \<Rightarrow> nat \<Rightarrow> int \<Rightarrow> wpa_suites \<Rightarrow> (status \<times> wpa_suites) option" where
  "wpa_pairwise_part m pos left s =
     (if left \<ge> 2 then do {
        count \<leftarrow> RTW_GET_LE16 m pos;
        if count = 0 \<or> left - 2 < uint count * 4 then Some (FAIL, s)
        else do {
          pc \<leftarrow> wpa_pairwise_loop m (unat count) (pos + 2) (pairwise_cipher s);
          wpa_akm_part m (pos + 2 + 4 * unat count) (left - 2 - 4 * uint count) (s\<lparr>pairwise_cipher := pc\<rparr>) } }
      else if left = 1 then Some (FAIL, s)
      else wpa_akm_part m pos left s)"

definition rtw_parse_wpa_ie :: "bytes \<Rightarrow> nat \<Rightarrow> int \<Rightarrow> wpa_suites \<Rightarrow> (status \<times> wpa_suites) option" where
  "rtw_parse_wpa_ie m p wpa_ie_len s =
     (if wpa_ie_len \<le> 0 then Some (FAIL, s)
      else do {
        eid \<leftarrow> rd m p;
        if eid \<noteq> WPA_IE_ID then Some (FAIL, s)
        else do {
          l \<leftarrow> rd m (p + 1);
          if l \<noteq> of_int (wpa_ie_len - 2) then Some (FAIL, s)
          else do {
            oui_ok \<leftarrow> memeq m (p + 2) RTW_WPA_OUI_TYPE 4;
            if \<not> oui_ok then Some (FAIL, s)
            else (let pos = p + 8; left = wpa_ie_len - 8 in
              if left \<ge> 4 then do {
                gc \<leftarrow> rtw_get_wpa_cipher_suite m pos;
                wpa_pairwise_part m (pos + 4) (left - 4) (s\<lparr>group_cipher := gc\<rparr>) }
              else if left > 0 then Some (FAIL, s)
              else wpa_pairwise_part m pos left s) } } })"

section \<open>The RSN element\<close>

text \<open>\<open>struct rsne_info\<close>: the pointers are offsets into the parsed object.\<close>

record rsne_info =
  gcs :: "nat option"
  pcs_cnt :: u16
  pcs_list :: "nat option"
  akm_cnt :: u16
  akm_list :: "nat option"
  cap :: "nat option"
  pmkid_cnt :: u16
  pmkid_list :: "nat option"
  gmcs :: "nat option"
  err :: u8

definition rsne_info0 :: rsne_info where
  "rsne_info0 = \<lparr>gcs = None, pcs_cnt = 0, pcs_list = None, akm_cnt = 0, akm_list = None, cap = None,
     pmkid_cnt = 0, pmkid_list = None, gmcs = None, err = 0\<rparr>"

definition rsne_err :: "rsne_info \<Rightarrow> (status \<times> rsne_info) option" where
  "rsne_err info = Some (FAIL, info\<lparr>err := 1\<rparr>)"

text \<open>What the parser does when the next field does not fit: succeed at the exact end of the element,
  and fail otherwise.\<close>

definition rsne_short :: "nat \<Rightarrow> nat \<Rightarrow> rsne_info \<Rightarrow> (status \<times> rsne_info) option" where
  "rsne_short iend pos info = (if iend \<noteq> pos then rsne_err info else Some (SUCCESS, info))"

definition rsne_gmcs :: "nat \<Rightarrow> nat \<Rightarrow> rsne_info \<Rightarrow> (status \<times> rsne_info) option" where
  "rsne_gmcs iend pos info =
     (if iend < pos + 4 then rsne_short iend pos info
      else Some (SUCCESS, info\<lparr>gmcs := Some pos\<rparr>))"

definition rsne_pmkid :: "bytes \<Rightarrow> nat \<Rightarrow> nat \<Rightarrow> rsne_info \<Rightarrow> (status \<times> rsne_info) option" where
  "rsne_pmkid m iend pos info =
     (if iend < pos + 2 then rsne_short iend pos info
      else do {
        cnt \<leftarrow> RTW_GET_LE16 m pos;
        let pos = pos + 2;
        if iend < pos + 16 * unat cnt then rsne_err info
        else rsne_gmcs iend (pos + 16 * unat cnt) (info\<lparr>pmkid_cnt := cnt, pmkid_list := Some pos\<rparr>) })"

definition rsne_cap :: "bytes \<Rightarrow> nat \<Rightarrow> nat \<Rightarrow> rsne_info \<Rightarrow> (status \<times> rsne_info) option" where
  "rsne_cap m iend pos info =
     (if iend < pos + 2 then rsne_short iend pos info
      else rsne_pmkid m iend (pos + 2) (info\<lparr>cap := Some pos\<rparr>))"

definition rsne_akm :: "bytes \<Rightarrow> nat \<Rightarrow> nat \<Rightarrow> rsne_info \<Rightarrow> (status \<times> rsne_info) option" where
  "rsne_akm m iend pos info =
     (if iend < pos + 2 then rsne_short iend pos info
      else do {
        cnt \<leftarrow> RTW_GET_LE16 m pos;
        let pos = pos + 2;
        if iend < pos + 4 * unat cnt then rsne_short iend pos info
        else rsne_cap m iend (pos + 4 * unat cnt) (info\<lparr>akm_cnt := cnt, akm_list := Some pos\<rparr>) })"

definition rsne_pairwise :: "bytes \<Rightarrow> nat \<Rightarrow> nat \<Rightarrow> rsne_info \<Rightarrow> (status \<times> rsne_info) option" where
  "rsne_pairwise m iend pos info =
     (if iend < pos + 2 then rsne_short iend pos info
      else do {
        cnt \<leftarrow> RTW_GET_LE16 m pos;
        let pos = pos + 2;
        if iend < pos + 4 * unat cnt then rsne_short iend pos info
        else rsne_akm m iend (pos + 4 * unat cnt) (info\<lparr>pcs_cnt := cnt, pcs_list := Some pos\<rparr>) })"

definition rsne_group :: "bytes \<Rightarrow> nat \<Rightarrow> nat \<Rightarrow> rsne_info \<Rightarrow> (status \<times> rsne_info) option" where
  "rsne_group m iend pos info =
     (if iend < pos + 4 then rsne_short iend pos info
      else rsne_pairwise m iend (pos + 4) (info\<lparr>gcs := Some pos\<rparr>))"

definition rtw_rsne_info_parse :: "bytes \<Rightarrow> nat \<Rightarrow> nat \<Rightarrow> (status \<times> rsne_info) option" where
  "rtw_rsne_info_parse m ie ie_len =
     (if ie + ie_len < ie + 4 then rsne_err rsne_info0
      else do {
        eid \<leftarrow> rd m ie;
        if eid \<noteq> WPA2_IE_ID then rsne_err rsne_info0
        else do {
          l \<leftarrow> rd m (ie + 1);
          if unat l \<noteq> ie_len - 2 then rsne_err rsne_info0
          else do {
            ver \<leftarrow> RTW_GET_LE16 m (ie + 2);
            if ver \<noteq> 1 then rsne_err rsne_info0
            else rsne_group m (ie + ie_len) (ie + 4) rsne_info0 } } })"

primrec or_suites :: "(bytes \<Rightarrow> nat \<Rightarrow> u32 option) \<Rightarrow> bytes \<Rightarrow> nat \<Rightarrow> nat \<Rightarrow> u32 \<Rightarrow> u32 option" where
  "or_suites f m 0 pos acc = Some acc"
| "or_suites f m (Suc n) pos acc = do { c \<leftarrow> f m pos; or_suites f m n (pos + 4) (acc OR c) }"

definition GET_RSN_CAP_MFP_OPTION :: "bytes \<Rightarrow> nat \<Rightarrow> u16 option" where
  "GET_RSN_CAP_MFP_OPTION m c = do { v \<leftarrow> RTW_GET_LE16 m c; Some (drop_bit 6 v AND 3) }"

definition GET_RSN_CAP_SPP_OPT :: "bytes \<Rightarrow> nat \<Rightarrow> u16 option" where
  "GET_RSN_CAP_SPP_OPT m c = do { v \<leftarrow> RTW_GET_LE16 m c; Some (drop_bit 10 v AND 3) }"

text \<open>The outputs of \<open>rtw_parse_wpa2_ie\<close>; \<open>None\<close> is a null pointer, for which nothing is computed.\<close>

record rsn_suites =
  rs_group :: "u32 option"
  rs_pairwise :: "u32 option"
  rs_gmcs :: "u32 option"
  rs_akm :: "u32 option"
  rs_mfp_opt :: "u8 option"
  rs_spp_opt :: "u8 option"

definition out :: "'a option \<Rightarrow> 'a option \<Rightarrow> 'a option option" where
  "out ptr v = (case ptr of None \<Rightarrow> Some None | Some _ \<Rightarrow> map_option Some v)"

definition rtw_parse_wpa2_ie :: "bytes \<Rightarrow> nat \<Rightarrow> nat \<Rightarrow> rsn_suites \<Rightarrow> (status \<times> rsn_suites) option" where
  "rtw_parse_wpa2_ie m p rsn_ie_len s = do {
     (ret, info) \<leftarrow> rtw_rsne_info_parse m p rsn_ie_len;
     if ret \<noteq> SUCCESS then Some (ret, s)
     else do {
       gc \<leftarrow> out (rs_group s)
         (case gcs info of Some g \<Rightarrow> rtw_get_rsn_cipher_suite m g | None \<Rightarrow> Some 0);
       pc \<leftarrow> out (rs_pairwise s)
         (case pcs_list info of
            Some l \<Rightarrow> or_suites rtw_get_rsn_cipher_suite m (unat (pcs_cnt info)) l 0 | None \<Rightarrow> Some 0);
       gm \<leftarrow> out (rs_gmcs s)
         (case gmcs info of
            Some g \<Rightarrow> rtw_get_rsn_cipher_suite m g
          | None \<Rightarrow>
              (case cap info of
                 None \<Rightarrow> Some 0
               | Some c \<Rightarrow> do { mfp \<leftarrow> GET_RSN_CAP_MFP_OPTION m c; Some (if mfp > 1 then bit_mask 8 else 0) }));
       ak \<leftarrow> out (rs_akm s)
         (case akm_list info of
            Some l \<Rightarrow> or_suites rtw_get_akm_suite_bitmap m (unat (akm_cnt info)) l 0 | None \<Rightarrow> Some 0);
       mfp \<leftarrow> out (rs_mfp_opt s)
         (case cap info of Some c \<Rightarrow> map_option ucast (GET_RSN_CAP_MFP_OPTION m c) | None \<Rightarrow> Some 0);
       spp \<leftarrow> out (rs_spp_opt s)
         (case cap info of Some c \<Rightarrow> map_option ucast (GET_RSN_CAP_SPP_OPT m c) | None \<Rightarrow> Some 0);
       Some (ret, \<lparr>rs_group = gc, rs_pairwise = pc, rs_gmcs = gm, rs_akm = ak, rs_mfp_opt = mfp,
                   rs_spp_opt = spp\<rparr>) } }"

section \<open>Suites as a table\<close>

definition suite_of :: "(bytes \<times> u32) list \<Rightarrow> bytes \<Rightarrow> u32" where
  "suite_of tab sel = (case map_of tab sel of None \<Rightarrow> 0 | Some v \<Rightarrow> v)"

lemma suite_lookup_in:
  assumes "s + 4 \<le> length m" "\<forall>x \<in> set tab. length (fst x) = 4"
  shows "suite_lookup tab m s = Some (suite_of tab (take 4 (drop s m)))"
  using assms(2)
proof (induction tab)
  case (Cons x tab)
  then show ?case using assms(1)
    by (cases x) (auto simp: memeq_in suite_of_def)
qed (simp add: suite_of_def)

lemma suite_tables_4:
  "\<forall>x \<in> set wpa_cipher_suites. length (fst x) = 4"
  "\<forall>x \<in> set rsn_cipher_suites. length (fst x) = 4"
  "\<forall>x \<in> set akm_suites. length (fst x) = 4"
  by (simp_all add: wpa_cipher_suites_def rsn_cipher_suites_def akm_suites_def)

lemma suite_in:
  assumes "s + 4 \<le> length m"
  shows "rtw_get_wpa_cipher_suite m s = Some (suite_of wpa_cipher_suites (take 4 (drop s m)))"
    "rtw_get_rsn_cipher_suite m s = Some (suite_of rsn_cipher_suites (take 4 (drop s m)))"
    "rtw_get_akm_suite_bitmap m s = Some (suite_of akm_suites (take 4 (drop s m)))"
  using suite_lookup_in [OF assms] suite_tables_4
  by (simp_all add: rtw_get_wpa_cipher_suite_def rtw_get_rsn_cipher_suite_def rtw_get_akm_suite_bitmap_def)

lemma or_suites_total:
  assumes "\<And>s. s + 4 \<le> length m \<Longrightarrow> \<exists>v. f m s = Some v" "pos + 4 * n \<le> length m"
  shows "\<exists>v. or_suites f m n pos acc = Some v"
  using assms(2)
proof (induction n arbitrary: pos acc)
  case (Suc n)
  then obtain v where "f m pos = Some v" using assms(1) [of pos] by auto
  with Suc show ?case by simp
qed simp

section \<open>The RSN parser stays inside the element\<close>

definition rsne_in :: "nat \<Rightarrow> rsne_info \<Rightarrow> bool" where
  "rsne_in e info \<longleftrightarrow>
     pred_option (\<lambda>p. p + 4 \<le> e) (gcs info) \<and>
     pred_option (\<lambda>p. p + 4 * unat (pcs_cnt info) \<le> e) (pcs_list info) \<and>
     pred_option (\<lambda>p. p + 4 * unat (akm_cnt info) \<le> e) (akm_list info) \<and>
     pred_option (\<lambda>p. p + 2 \<le> e) (cap info) \<and>
     pred_option (\<lambda>p. p + 16 * unat (pmkid_cnt info) \<le> e) (pmkid_list info) \<and>
     pred_option (\<lambda>p. p + 4 \<le> e) (gmcs info)"

text \<open>A stage of the parser returns and keeps the pointers inside the element.\<close>

definition rsne_stage_ok :: "nat \<Rightarrow> (status \<times> rsne_info) option \<Rightarrow> bool" where
  "rsne_stage_ok e r \<longleftrightarrow> (\<exists>st info. r = Some (st, info) \<and> rsne_in e info \<and> (st = FAIL \<longleftrightarrow> err info \<noteq> 0))"

lemma rsne_short_ok [simp]: "rsne_in e info \<Longrightarrow> err info = 0 \<Longrightarrow> rsne_stage_ok e (rsne_short e pos info)"
  and rsne_err_ok [simp]: "rsne_in e info \<Longrightarrow> err info = 0 \<Longrightarrow> rsne_stage_ok e (rsne_err info)"
  by (auto simp: rsne_stage_ok_def rsne_short_def rsne_err_def rsne_in_def)

lemma RTW_GET_LE16_total: "pos + 2 \<le> length m \<Longrightarrow> \<exists>v. RTW_GET_LE16 m pos = Some v"
  by (simp add: RTW_GET_LE16_def rd_in)

lemma rsne_gmcs_ok: "rsne_in e info \<Longrightarrow> err info = 0 \<Longrightarrow> rsne_stage_ok e (rsne_gmcs e pos info)"
  by (auto simp: rsne_gmcs_def) (simp add: rsne_stage_ok_def rsne_in_def)

lemma rsne_pmkid_ok:
  assumes "e \<le> length m" "rsne_in e info" "err info = 0"
  shows "rsne_stage_ok e (rsne_pmkid m e pos info)"
proof (cases "e < pos + 2")
  case False
  with RTW_GET_LE16_total [of pos m] assms(1) obtain v where "RTW_GET_LE16 m pos = Some v" by auto
  with False assms show ?thesis
    by (auto simp: rsne_pmkid_def Let_def rsne_in_def intro!: rsne_gmcs_ok)
qed (simp add: rsne_pmkid_def assms)

lemma rsne_cap_ok:
  "e \<le> length m \<Longrightarrow> rsne_in e info \<Longrightarrow> err info = 0 \<Longrightarrow> rsne_stage_ok e (rsne_cap m e pos info)"
  by (auto simp: rsne_cap_def rsne_in_def intro!: rsne_pmkid_ok)

lemma rsne_akm_ok:
  assumes "e \<le> length m" "rsne_in e info" "err info = 0"
  shows "rsne_stage_ok e (rsne_akm m e pos info)"
proof (cases "e < pos + 2")
  case False
  with RTW_GET_LE16_total [of pos m] assms(1) obtain v where "RTW_GET_LE16 m pos = Some v" by auto
  with False assms show ?thesis
    by (auto simp: rsne_akm_def Let_def rsne_in_def intro!: rsne_cap_ok)
qed (simp add: rsne_akm_def assms)

lemma rsne_pairwise_ok:
  assumes "e \<le> length m" "rsne_in e info" "err info = 0"
  shows "rsne_stage_ok e (rsne_pairwise m e pos info)"
proof (cases "e < pos + 2")
  case False
  with RTW_GET_LE16_total [of pos m] assms(1) obtain v where "RTW_GET_LE16 m pos = Some v" by auto
  with False assms show ?thesis
    by (auto simp: rsne_pairwise_def Let_def rsne_in_def intro!: rsne_akm_ok)
qed (simp add: rsne_pairwise_def assms)

lemma rsne_group_ok:
  "e \<le> length m \<Longrightarrow> rsne_in e info \<Longrightarrow> err info = 0 \<Longrightarrow> rsne_stage_ok e (rsne_group m e pos info)"
  by (auto simp: rsne_group_def rsne_in_def intro!: rsne_pairwise_ok)

lemma rsne_parse_ok:
  assumes "ie + ie_len \<le> length m"
  shows "rsne_stage_ok (ie + ie_len) (rtw_rsne_info_parse m ie ie_len)"
proof -
  have i0: "rsne_in (ie + ie_len) rsne_info0" "err rsne_info0 = 0"
    by (simp_all add: rsne_in_def rsne_info0_def)
  show ?thesis
  proof (cases "ie_len < 4")
    case False
    with assms have "rd m ie = Some (m ! ie)" "rd m (ie + 1) = Some (m ! (ie + 1))"
      by (simp_all add: rd_in)
    moreover obtain v where "RTW_GET_LE16 m (ie + 2) = Some v"
      using RTW_GET_LE16_total [of "ie + 2" m] False assms by auto
    ultimately show ?thesis
      using False i0 assms by (simp add: rtw_rsne_info_parse_def rsne_group_ok)
  qed (simp add: rtw_rsne_info_parse_def i0)
qed

text \<open>On arbitrary bytes, when the element lies inside the object, \<open>rtw_rsne_info_parse\<close> returns
  without an access outside of it, every field and list it reports lies inside the element, and
  the error flag is set exactly when it fails.\<close>

theorem rtw_rsne_info_parse_safe:
  assumes "ie + ie_len \<le> length m"
  shows "\<exists>st info. rtw_rsne_info_parse m ie ie_len = Some (st, info) \<and> rsne_in (ie + ie_len) info \<and>
     (st = FAIL \<longleftrightarrow> err info \<noteq> 0)"
  using rsne_parse_ok [OF assms] by (simp add: rsne_stage_ok_def)

theorem rtw_rsne_info_parse_safe_witness:
  "\<exists>st info. rtw_rsne_info_parse [48, 6, 1, 0, 0, 15, 172, 4] 0 8 = Some (st, info) \<and> rsne_in 8 info \<and>
     (st = FAIL \<longleftrightarrow> err info \<noteq> 0)"
  using rtw_rsne_info_parse_safe [of 0 8 "[48, 6, 1, 0, 0, 15, 172, 4]"] by simp

lemma out_total: "\<exists>v. x = Some v \<Longrightarrow> \<exists>w. out p x = Some w"
  by (auto simp: out_def split: option.split)

text \<open>The whole RSN parser never leaves the element, on arbitrary bytes.\<close>

theorem rtw_parse_wpa2_ie_safe:
  assumes "ie + ie_len \<le> length m"
  shows "\<exists>r. rtw_parse_wpa2_ie m ie ie_len s = Some r"
proof -
  obtain st info where parse: "rtw_rsne_info_parse m ie ie_len = Some (st, info)"
      and ins: "rsne_in (ie + ie_len) info"
    using rsne_parse_ok [OF assms] by (auto simp: rsne_stage_ok_def)
  have "\<exists>v. or_suites rtw_get_rsn_cipher_suite m n l 0 = Some v"
      "\<exists>v. or_suites rtw_get_akm_suite_bitmap m n l 0 = Some v" if "l + 4 * n \<le> ie + ie_len" for l n
    using that assms by (auto intro!: or_suites_total simp: suite_in)
  moreover have "\<exists>v. GET_RSN_CAP_MFP_OPTION m c = Some v" "\<exists>v. GET_RSN_CAP_SPP_OPT m c = Some v"
      if "c + 2 \<le> ie + ie_len" for c
    using RTW_GET_LE16_total [of c m] that assms
    by (auto simp: GET_RSN_CAP_MFP_OPTION_def GET_RSN_CAP_SPP_OPT_def)
  moreover have "\<exists>v. rtw_get_rsn_cipher_suite m c = Some v" if "c + 4 \<le> ie + ie_len" for c
    using suite_in(2) [of c m] that assms by simp
  ultimately have
    "\<exists>w. out (rs_group s) (case gcs info of Some g \<Rightarrow> rtw_get_rsn_cipher_suite m g | None \<Rightarrow> Some 0) = Some w"
    "\<exists>w. out (rs_pairwise s) (case pcs_list info of
        Some l \<Rightarrow> or_suites rtw_get_rsn_cipher_suite m (unat (pcs_cnt info)) l 0 | None \<Rightarrow> Some 0) = Some w"
    "\<exists>w. out (rs_gmcs s) (case gmcs info of Some g \<Rightarrow> rtw_get_rsn_cipher_suite m g
        | None \<Rightarrow> (case cap info of None \<Rightarrow> Some 0
           | Some c \<Rightarrow> do { mfp \<leftarrow> GET_RSN_CAP_MFP_OPTION m c; Some (if mfp > 1 then bit_mask 8 else 0) })) = Some w"
    "\<exists>w. out (rs_akm s) (case akm_list info of
        Some l \<Rightarrow> or_suites rtw_get_akm_suite_bitmap m (unat (akm_cnt info)) l 0 | None \<Rightarrow> Some 0) = Some w"
    "\<exists>w. out (rs_mfp_opt s)
        (case cap info of Some c \<Rightarrow> map_option ucast (GET_RSN_CAP_MFP_OPTION m c) | None \<Rightarrow> Some 0) = Some w"
    "\<exists>w. out (rs_spp_opt s)
        (case cap info of Some c \<Rightarrow> map_option ucast (GET_RSN_CAP_SPP_OPT m c) | None \<Rightarrow> Some 0) = Some w"
    using ins by (intro out_total; force simp: rsne_in_def Option.bind_eq_Some_conv split: option.split)+
  with parse show ?thesis
    by (cases "st = SUCCESS") (auto simp: rtw_parse_wpa2_ie_def)
qed

theorem rtw_parse_wpa2_ie_safe_witness:
  "\<exists>r. rtw_parse_wpa2_ie [48, 6, 1, 0, 0, 15, 172, 4] 0 8
     \<lparr>rs_group = Some 0, rs_pairwise = None, rs_gmcs = None, rs_akm = None, rs_mfp_opt = None,
      rs_spp_opt = None\<rparr> = Some r"
  using rtw_parse_wpa2_ie_safe [of 0 8 "[48, 6, 1, 0, 0, 15, 172, 4]"] by simp

section \<open>The RSN parser reads what an RSN element says\<close>

record rsne =
  v_group :: bytes
  v_pairwise :: "bytes list"
  v_akm :: "bytes list"
  v_cap :: u16
  v_pmkids :: "bytes list"
  v_gmcs :: "bytes option"

definition rsne_ie :: "rsne \<Rightarrow> ie" where
  "rsne_ie r = (WPA2_IE_ID, put_LE16 1 @ v_group r @
     put_LE16 (of_nat (length (v_pairwise r))) @ concat (v_pairwise r) @
     put_LE16 (of_nat (length (v_akm r))) @ concat (v_akm r) @
     put_LE16 (v_cap r) @
     put_LE16 (of_nat (length (v_pmkids r))) @ concat (v_pmkids r) @
     (case v_gmcs r of None \<Rightarrow> [] | Some g \<Rightarrow> g))"

definition wf_rsne :: "rsne \<Rightarrow> bool" where
  "wf_rsne r \<longleftrightarrow> length (v_group r) = 4 \<and> list_all (\<lambda>s. length s = 4) (v_pairwise r) \<and>
     list_all (\<lambda>s. length s = 4) (v_akm r) \<and> list_all (\<lambda>s. length s = 16) (v_pmkids r) \<and>
     pred_option (\<lambda>g. length g = 4) (v_gmcs r) \<and> wf_ie (rsne_ie r)"

definition or_all :: "(bytes \<times> u32) list \<Rightarrow> bytes list \<Rightarrow> u32" where
  "or_all tab sels = foldl (\<lambda>a s. a OR suite_of tab s) 0 sels"

definition rsne_mfp :: "rsne \<Rightarrow> u16" where "rsne_mfp r = drop_bit 6 (v_cap r) AND 3"

lemma concat_len: "list_all (\<lambda>s. length s = k) xs \<Longrightarrow> length (concat xs) = k * length xs"
  by (induction xs) auto

lemma or_suites_fold:
  assumes "\<And>s. s + 4 \<le> length m \<Longrightarrow> f m s = Some (suite_of tab (take 4 (drop s m)))"
    "list_all (\<lambda>s. length s = 4) sels" "drop pos m = concat sels @ post"
  shows "or_suites f m (length sels) pos acc = Some (foldl (\<lambda>a s. a OR suite_of tab s) acc sels)"
  using assms(2,3)
proof (induction sels arbitrary: pos acc)
  case (Cons s sels)
  then have d: "drop pos m = s @ concat sels @ post" and s: "length s = 4" by simp_all
  have "pos + 4 \<le> length m" using drop_app_le [OF d] s by (cases s) auto
  moreover have "take 4 (drop pos m) = s" using d s by simp
  moreover have "drop (pos + 4) m = concat sels @ post" using drop_add [OF d] s by simp
  ultimately show ?case using Cons assms(1) by simp
qed simp

text \<open>The stages on the encoding of their field.\<close>

lemma rsne_count_list:
  assumes "drop pos m = put_LE16 (of_nat (length xs)) @ concat xs @ rest" "length xs < 65536"
    "list_all (\<lambda>s. length s = k) xs"
  shows "RTW_GET_LE16 m pos = Some (of_nat (length xs))" "unat (of_nat (length xs) :: u16) = length xs"
    "drop (pos + 2) m = concat xs @ rest" "drop (pos + 2 + k * length xs) m = rest"
proof -
  show "RTW_GET_LE16 m pos = Some (of_nat (length xs))" using assms(1) by (rule get_put_LE16)
  show "unat (of_nat (length xs) :: u16) = length xs" using assms(2) by (simp add: unat_of_nat)
  show d: "drop (pos + 2) m = concat xs @ rest" using drop_add [OF assms(1)] by simp
  show "drop (pos + 2 + k * length xs) m = rest"
    using drop_add [OF d] by (simp only: concat_len [OF assms(3)])
qed

lemma rsne_pairwise_enc:
  assumes "drop pos m = put_LE16 (of_nat (length xs)) @ concat xs @ rest" "length xs < 65536"
    "list_all (\<lambda>s. length s = 4) xs" "pos + 2 + 4 * length xs \<le> e"
  shows "rsne_pairwise m e pos info =
     rsne_akm m e (pos + 2 + 4 * length xs) (info\<lparr>pcs_cnt := of_nat (length xs), pcs_list := Some (pos + 2)\<rparr>)"
  using rsne_count_list [OF assms(1-3)] assms(4) by (simp add: rsne_pairwise_def Let_def)

lemma rsne_akm_enc:
  assumes "drop pos m = put_LE16 (of_nat (length xs)) @ concat xs @ rest" "length xs < 65536"
    "list_all (\<lambda>s. length s = 4) xs" "pos + 2 + 4 * length xs \<le> e"
  shows "rsne_akm m e pos info =
     rsne_cap m e (pos + 2 + 4 * length xs) (info\<lparr>akm_cnt := of_nat (length xs), akm_list := Some (pos + 2)\<rparr>)"
  using rsne_count_list [OF assms(1-3)] assms(4) by (simp add: rsne_akm_def Let_def)

lemma rsne_pmkid_enc:
  assumes "drop pos m = put_LE16 (of_nat (length xs)) @ concat xs @ rest" "length xs < 65536"
    "list_all (\<lambda>s. length s = 16) xs" "pos + 2 + 16 * length xs \<le> e"
  shows "rsne_pmkid m e pos info =
     rsne_gmcs e (pos + 2 + 16 * length xs) (info\<lparr>pmkid_cnt := of_nat (length xs), pmkid_list := Some (pos + 2)\<rparr>)"
  using rsne_count_list [OF assms(1-3)] assms(4) by (simp add: rsne_pmkid_def Let_def)

lemma rsne_parse_hdr:
  assumes "drop p m = ie_enc x @ post" "fst x = WPA2_IE_ID" "wf_ie x" "2 \<le> length (snd x)"
    "RTW_GET_LE16 m (p + 2) = Some 1"
  shows "rtw_rsne_info_parse m p (length (ie_enc x)) = rsne_group m (p + length (ie_enc x)) (p + 4) rsne_info0"
  using assms rd_ie_eid [OF assms(1)] rd_ie_len [OF assms(1)]
  by (simp add: rtw_rsne_info_parse_def wf_ie_def unat_of_nat_u8)

definition points :: "bytes \<Rightarrow> nat option \<Rightarrow> bytes \<Rightarrow> bool" where
  "points m ptr bs \<longleftrightarrow> (\<exists>q rest. ptr = Some q \<and> drop q m = bs @ rest \<and> q + length bs \<le> length m)"

lemma rsne_parse_enc:
  assumes "wf_rsne r" and "m = pre @ ie_enc (rsne_ie r) @ post"
  shows "\<exists>info. rtw_rsne_info_parse m (length pre) (length (ie_enc (rsne_ie r))) = Some (SUCCESS, info) \<and>
     points m (gcs info) (v_group r) \<and>
     unat (pcs_cnt info) = length (v_pairwise r) \<and> points m (pcs_list info) (concat (v_pairwise r)) \<and>
     unat (akm_cnt info) = length (v_akm r) \<and> points m (akm_list info) (concat (v_akm r)) \<and>
     points m (cap info) (put_LE16 (v_cap r)) \<and>
     (case v_gmcs r of None \<Rightarrow> gmcs info = None | Some g \<Rightarrow> points m (gmcs info) g)"
proof -
  let ?np = "length (v_pairwise r)" and ?na = "length (v_akm r)" and ?nk = "length (v_pmkids r)"
  let ?g = "case v_gmcs r of None \<Rightarrow> [] | Some g \<Rightarrow> g"
  let ?R7 = "?g @ post"
  let ?R6 = "put_LE16 (of_nat ?nk) @ concat (v_pmkids r) @ ?R7"
  let ?R5 = "put_LE16 (v_cap r) @ ?R6"
  let ?R3 = "put_LE16 (of_nat ?na) @ concat (v_akm r) @ ?R5"
  let ?R1 = "put_LE16 (of_nat ?np) @ concat (v_pairwise r) @ ?R3"
  define p e where "p = length pre" and "e = length pre + length (ie_enc (rsne_ie r))"
  define q0 where "q0 = p + 4"
  define q1 where "q1 = q0 + 4"
  define q3 where "q3 = q1 + 2 + 4 * ?np"
  define q5 where "q5 = q3 + 2 + 4 * ?na"
  define q6 where "q6 = q5 + 2"
  define q8 where "q8 = q6 + 2 + 16 * ?nk"
  have l: "length (v_group r) = 4" and lp: "list_all (\<lambda>s. length s = 4) (v_pairwise r)"
    and la: "list_all (\<lambda>s. length s = 4) (v_akm r)" and lk: "list_all (\<lambda>s. length s = 16) (v_pmkids r)"
    and lg: "pred_option (\<lambda>g. length g = 4) (v_gmcs r)" and wf: "length (snd (rsne_ie r)) \<le> 255"
    using assms(1) by (simp_all add: wf_rsne_def wf_ie_def)
  have glen: "length ?g = (if v_gmcs r = None then 0 else 4)" using lg by (auto split: option.split)
  have body: "length (snd (rsne_ie r)) = 14 + 4 * ?np + 4 * ?na + 16 * ?nk + length ?g"
    using l by (simp add: rsne_ie_def concat_len [OF lp] concat_len [OF la] concat_len [OF lk])
  have e: "e = q8 + length ?g" and elen: "e = p + length (ie_enc (rsne_ie r))"
    using body by (simp_all add: e_def p_def q8_def q6_def q5_def q3_def q1_def q0_def)
  have short: "?np < 65536" "?na < 65536" "?nk < 65536" using wf body by simp_all
  have d: "drop p m = ie_enc (rsne_ie r) @ post" using assms(2) by (simp add: p_def)
  have d2: "drop (p + 2) m = put_LE16 1 @ v_group r @ ?R1"
    using drop_add [of p m "[WPA2_IE_ID, of_nat (length (snd (rsne_ie r)))]"] d
    by (simp add: ie_enc_def rsne_ie_def)
  have d0: "drop q0 m = v_group r @ ?R1" using drop_add [OF d2] by (simp add: q0_def eval_nat_numeral)
  have d1: "drop q1 m = ?R1" using drop_add [OF d0] by (simp add: q1_def l)
  note c1 = rsne_count_list [OF d1 short(1) lp, folded q3_def]
  note c3 = rsne_count_list [OF c1(4) short(2) la, folded q5_def]
  have d6: "drop q6 m = ?R6" using drop_add [OF c3(4)] by (simp add: q6_def)
  note c6 = rsne_count_list [OF d6 short(3) lk, folded q8_def]
  have em: "e \<le> length m" using assms(2) by (simp add: e_def)
  let ?info = "\<lparr>gcs = Some q0, pcs_cnt = of_nat ?np, pcs_list = Some (q1 + 2), akm_cnt = of_nat ?na,
     akm_list = Some (q3 + 2), cap = Some q5, pmkid_cnt = of_nat ?nk, pmkid_list = Some (q6 + 2),
     gmcs = map_option (\<lambda>_. q8) (v_gmcs r), err = 0\<rparr>"
  have ord: "q0 + 4 \<le> e" "q3 \<le> e" "q5 \<le> e" "q6 \<le> e" "q8 \<le> e"
    using e by (simp_all add: q8_def q6_def q5_def q3_def q1_def)
  have stages: "rsne_group m e q0 rsne_info0 = Some (SUCCESS, ?info)"
  proof -
    have "rsne_group m e q0 rsne_info0 = rsne_pairwise m e q1 (rsne_info0\<lparr>gcs := Some q0\<rparr>)"
      using ord by (simp add: rsne_group_def q1_def)
    moreover note rsne_pairwise_enc [OF d1 short(1) lp, folded q3_def, OF ord(2)]
      rsne_akm_enc [OF c1(4) short(2) la, folded q5_def, OF ord(3)]
      rsne_pmkid_enc [OF d6 short(3) lk, folded q8_def, OF ord(5)]
    moreover have "rsne_cap m e q5 i = rsne_pmkid m e q6 (i\<lparr>cap := Some q5\<rparr>)" for i
      using ord by (simp add: rsne_cap_def q6_def)
    moreover have "gmcs i = None \<Longrightarrow> rsne_gmcs e q8 i = Some (SUCCESS, i\<lparr>gmcs := map_option (\<lambda>_. q8) (v_gmcs r)\<rparr>)" for i
      using e glen by (cases "v_gmcs r") (simp_all add: rsne_gmcs_def rsne_short_def)
    ultimately show ?thesis by (simp add: rsne_info0_def)
  qed
  have fst: "fst (rsne_ie r) = WPA2_IE_ID" by (simp add: rsne_ie_def)
  have "rtw_rsne_info_parse m p (length (ie_enc (rsne_ie r))) = Some (SUCCESS, ?info)"
    using stages body wf by (subst rsne_parse_hdr [OF d fst _ _ get_put_LE16 [OF d2]])
      (simp_all only: wf_ie_def elen q0_def)
  moreover have "points m (Some q0) (v_group r)" "points m (Some (q1 + 2)) (concat (v_pairwise r))"
      "points m (Some (q3 + 2)) (concat (v_akm r))" "points m (Some q5) (put_LE16 (v_cap r))"
    using d0 c1(3) c3(3,4) ord em l
    by (auto simp: points_def concat_len [OF lp] concat_len [OF la] q1_def q3_def q5_def q6_def)
  moreover have "case v_gmcs r of None \<Rightarrow> True | Some g \<Rightarrow> points m (Some q8) g"
    using c6(4) e em glen lg by (auto simp: points_def split: option.split)
  ultimately show ?thesis
    using c1(2) c3(2) by (intro exI [of _ ?info]) (simp add: p_def split: option.splits)
qed

lemma points_suite:
  "points m ptr bs \<Longrightarrow> length bs = 4 \<Longrightarrow>
     \<exists>q. ptr = Some q \<and> rtw_get_rsn_cipher_suite m q = Some (suite_of rsn_cipher_suites bs)"
  by (auto simp: points_def suite_in)

lemma points_or_suites:
  assumes "points m ptr (concat sels)" "list_all (\<lambda>s. length s = 4) sels"
  shows "\<exists>q. ptr = Some q \<and>
     or_suites rtw_get_rsn_cipher_suite m (length sels) q 0 = Some (or_all rsn_cipher_suites sels) \<and>
     or_suites rtw_get_akm_suite_bitmap m (length sels) q 0 = Some (or_all akm_suites sels)"
  using assms or_suites_fold [of m rtw_get_rsn_cipher_suite, OF suite_in(2) assms(2)]
    or_suites_fold [of m rtw_get_akm_suite_bitmap, OF suite_in(3) assms(2)]
  by (auto simp: points_def or_all_def)

lemma points_LE16: "points m ptr (put_LE16 v) \<Longrightarrow> \<exists>q. ptr = Some q \<and> RTW_GET_LE16 m q = Some v"
  by (auto simp: points_def get_put_LE16)

text \<open>C10. On the encoding of an RSN element \<open>rtw_parse_wpa2_ie\<close> succeeds and returns the group
  cipher, the union of the pairwise ciphers, the union of the key management suites, the protection
  options of the capability field, and the group management cipher (by default the 128 bit CMAC when
  the element is protected and names none).\<close>

theorem rtw_parse_wpa2_ie_correct:
  assumes "wf_rsne r" and "m = pre @ ie_enc (rsne_ie r) @ post"
    and "s = \<lparr>rs_group = Some g0, rs_pairwise = Some p0, rs_gmcs = Some m0, rs_akm = Some a0,
      rs_mfp_opt = Some f0, rs_spp_opt = Some t0\<rparr>"
  shows "rtw_parse_wpa2_ie m (length pre) (length (ie_enc (rsne_ie r))) s = Some (SUCCESS,
     \<lparr>rs_group = Some (suite_of rsn_cipher_suites (v_group r)),
      rs_pairwise = Some (or_all rsn_cipher_suites (v_pairwise r)),
      rs_gmcs = Some (case v_gmcs r of Some g \<Rightarrow> suite_of rsn_cipher_suites g
                      | None \<Rightarrow> if rsne_mfp r > 1 then bit_mask 8 else 0),
      rs_akm = Some (or_all akm_suites (v_akm r)),
      rs_mfp_opt = Some (ucast (rsne_mfp r)),
      rs_spp_opt = Some (ucast (drop_bit 10 (v_cap r) AND 3))\<rparr>)"
proof -
  obtain info where
    parse: "rtw_rsne_info_parse m (length pre) (length (ie_enc (rsne_ie r))) = Some (SUCCESS, info)" and
    g: "points m (gcs info) (v_group r)" and
    n: "unat (pcs_cnt info) = length (v_pairwise r)" "unat (akm_cnt info) = length (v_akm r)" and
    pw: "points m (pcs_list info) (concat (v_pairwise r))" and
    ak: "points m (akm_list info) (concat (v_akm r))" and
    cp: "points m (cap info) (put_LE16 (v_cap r))" and
    gm: "case v_gmcs r of None \<Rightarrow> gmcs info = None | Some g \<Rightarrow> points m (gmcs info) g"
    using rsne_parse_enc [OF assms(1,2)] by blast
  from assms(1) have "length (v_group r) = 4" "list_all (\<lambda>s. length s = 4) (v_pairwise r)"
      "list_all (\<lambda>s. length s = 4) (v_akm r)" "pred_option (\<lambda>g. length g = 4) (v_gmcs r)"
    by (simp_all add: wf_rsne_def)
  with points_suite [OF g] points_or_suites [OF pw] points_or_suites [OF ak] points_LE16 [OF cp] gm
  show ?thesis
    using parse n
    by (cases "v_gmcs r") (auto simp: rtw_parse_wpa2_ie_def out_def assms(3) rsne_mfp_def
        GET_RSN_CAP_MFP_OPTION_def GET_RSN_CAP_SPP_OPT_def dest!: points_suite)
qed

theorem rtw_parse_wpa2_ie_correct_witness:
  "\<exists>r m s. r = \<lparr>v_group = [0, 15, 172, 4], v_pairwise = [[0, 15, 172, 4], [0, 15, 172, 2]],
        v_akm = [[0, 15, 172, 2]], v_cap = 0x80, v_pmkids = [], v_gmcs = None\<rparr> \<and>
     m = ie_enc (rsne_ie r) \<and>
     rtw_parse_wpa2_ie m 0 (length m)
       \<lparr>rs_group = Some 0, rs_pairwise = Some 0, rs_gmcs = Some 0, rs_akm = Some 0,
        rs_mfp_opt = Some 0, rs_spp_opt = Some 0\<rparr> = Some (SUCCESS, s) \<and>
     rs_group s = Some 0x10 \<and> rs_pairwise s = Some 0x18 \<and> rs_gmcs s = Some 0x100 \<and>
     rs_akm s = Some 2 \<and> rs_mfp_opt s = Some 2"
proof -
  let ?r = "\<lparr>v_group = [0, 15, 172, 4], v_pairwise = [[0, 15, 172, 4], [0, 15, 172, 2]],
        v_akm = [[0, 15, 172, 2]], v_cap = 0x80, v_pmkids = [], v_gmcs = None\<rparr>"
  have "wf_rsne ?r" by (simp add: wf_rsne_def rsne_ie_def wf_ie_def put_LE16_def)
  from rtw_parse_wpa2_ie_correct [OF this, of "ie_enc (rsne_ie ?r)" "[]" "[]" _ 0 0 0 0 0 0, OF _ refl]
  show ?thesis
    by (simp add: suite_of_def rsn_cipher_suites_def or_all_def akm_suites_def rsne_mfp_def)
qed

section \<open>The WPA element\<close>

definition wpa_match :: "ie \<Rightarrow> bool" where
  "wpa_match e \<longleftrightarrow> fst e = WPA_IE_ID \<and> take 6 (snd e) = RTW_WPA_OUI_TYPE @ [1, 0]"

definition wpa_ok :: "ie \<Rightarrow> bool" where
  "wpa_ok e \<longleftrightarrow> wf_ie e \<and> (fst e = WPA_IE_ID \<longrightarrow> 6 \<le> length (snd e))"

lemma mk16_eq_1: "mk16 hi lo = 1 \<longleftrightarrow> hi = 0 \<and> lo = 1"
proof
  assume "mk16 hi lo = 1"
  then have "hi = hi8 1" "lo = lo8 1" using hi8_mk16 [of hi lo] lo8_mk16 [of hi lo] by simp_all
  then show "hi = 0 \<and> lo = 1" by (simp add: hi8_def lo8_def)
next
  assume "hi = 0 \<and> lo = 1"
  then show "mk16 hi lo = 1" by (simp add: mk16_def)
qed

text \<open>The two tests of the loop, on an element that has the bytes.\<close>

lemma wpa_tests:
  assumes "drop k m = ie_enc e @ post" "wpa_ok e" "fst e = WPA_IE_ID"
  shows "do { oui_ok \<leftarrow> memeq m (k + 2) RTW_WPA_OUI_TYPE 4;
       (if oui_ok then do { val16 \<leftarrow> RTW_GET_LE16 m (k + 6); Some (val16 = 1) } else Some False) } =
     Some (wpa_match e)"
proof -
  from assms(2,3) obtain b0 b1 b2 b3 b4 b5 bs where e: "snd e = b0 # b1 # b2 # b3 # b4 # b5 # bs"
    by (auto simp: wpa_ok_def eval_nat_numeral Suc_le_length_iff)
  have "drop (k + 6) m = b4 # b5 # bs @ post"
    using drop_add [of k m "[fst e, of_nat (length (snd e)), b0, b1, b2, b3]" "b4 # b5 # bs @ post"] assms(1) e
    by (simp add: ie_enc_def eval_nat_numeral)
  from rd2_drop [OF this] have "RTW_GET_LE16 m (k + 6) = Some (mk16 b5 b4)"
    by (simp add: RTW_GET_LE16_def)
  moreover have "memeq m (k + 2) RTW_WPA_OUI_TYPE 4 = Some ([b0, b1, b2, b3] = RTW_WPA_OUI_TYPE)"
    using rd_n_ie_data [OF assms(1), of 4] e by (simp add: memeq_def RTW_WPA_OUI_TYPE_def rd_n_def)
  ultimately show ?thesis
    using assms(3) e by (auto simp: wpa_match_def mk16_eq_1 RTW_WPA_OUI_TYPE_def)
qed

lemma rtw_get_wpa_ie_loop_first:
  assumes "list_all wpa_ok es" "drop pbuf m = ies_enc es @ post" "pbuf + length (ies_enc es) \<le> length m"
    "limit_new = int (length (ies_enc es))" "limit = int pbuf - int pie + limit_new"
  shows "rtw_get_wpa_ie_loop m pie limit pbuf len limit_new =
     Some (case first_match wpa_match pbuf es of
             None \<Rightarrow> (None, 0) | Some (k, e) \<Rightarrow> (Some k, int (length (snd e))))"
  using assms
proof (induction "length es" arbitrary: es pbuf limit_new len rule: less_induct)
  case less
  let ?P = "\<lambda>e. uint (fst e) = uint WPA_IE_ID"
  have m: "m = take pbuf m @ ies_enc es @ post" and lt: "length (take pbuf m) = pbuf"
    using less.prems(2,3) by (metis append_take_drop_id) (use less.prems(3) in simp)
  have wf: "list_all wf_ie es" using less.prems(1) by (auto simp: list_all_iff wpa_ok_def)
  have get: "rtw_get_ie m pbuf (uint WPA_IE_ID) len limit_new =
      (if es = [] then Some (None, len) else
       Some (case first_match ?P pbuf es of None \<Rightarrow> (None, 0) | Some (k, e) \<Rightarrow> (Some k, int (length (snd e)))))"
    using rtw_get_ie_first [OF wf _ m, of "uint WPA_IE_ID" len, unfolded lt] less.prems(4)
    by (cases "es = []") (simp add: rtw_get_ie_def, simp)
  show ?case
  proof (cases "first_match ?P pbuf es")
    case None
    then have "\<forall>e \<in> set es. \<not> wpa_match e" unfolding first_match_None by (auto simp: wpa_match_def)
    then have "first_match wpa_match pbuf es = None" by (simp add: first_match_None)
    with None get show ?thesis by (subst rtw_get_wpa_ie_loop.simps) simp
  next
    case (Some ke)
    obtain t e where ke: "ke = (t, e)" by (cases ke)
    from first_match_Some [OF Some [unfolded ke]] obtain es1 es2 where
      es: "es = es1 @ e # es2" and e': "?P e" and es1': "\<forall>x \<in> set es1. \<not> ?P x" and
      t: "t = pbuf + length (ies_enc es1)" by blast
    from e' have e: "fst e = WPA_IE_ID" by (rule unsigned_word_eqI)
    from es1' have es1: "\<forall>x \<in> set es1. \<not> wpa_match x" by (auto simp: wpa_match_def)
    have dt: "drop t m = ie_enc e @ ies_enc es2 @ post"
      using drop_add [of pbuf m "ies_enc es1"] less.prems(2) es t by simp
    have ok: "wpa_ok e" using less.prems(1) es by simp
    note tests = wpa_tests [OF dt ok e]
    have fm: "first_match wpa_match pbuf es = first_match wpa_match t (e # es2)"
      unfolding es t using es1 by (rule first_match_app)
    have ul: "uint (of_nat (length (snd e)) :: u8) = int (length (snd e))"
      using ok unat_of_nat_u8 [of "length (snd e)"] by (metis wpa_ok_def wf_ie_def uint_nat)
    have ne: "es \<noteq> []" using es by simp
    note unf = rtw_get_wpa_ie_loop.simps [of m pie limit pbuf len limit_new]
    show ?thesis
    proof (cases "wpa_match e")
      case True
      with get Some ke ne tests rd_ie_len [OF dt] fm ul show ?thesis
        by (simp add: unf Option.bind_assoc [symmetric])
    next
      case False
      let ?n = "int (length (ies_enc es2))"
      have n: "limit - (int t - int pie) - 2 - int (length (snd e)) = ?n"
        using less.prems(4,5) es t by simp
      have step: "rtw_get_wpa_ie_loop m pie limit pbuf len limit_new =
          (if ?n \<le> 0 then Some (None, 0)
           else rtw_get_wpa_ie_loop m pie limit (t + length (ie_enc e)) (int (length (snd e))) ?n)"
        using get Some ke ne tests False n
        by (simp add: unf Option.bind_assoc [symmetric] Let_def nat_add_distrib) (auto simp flip: length_greater_0_conv)
      have "rtw_get_wpa_ie_loop m pie limit (t + length (ie_enc e)) (int (length (snd e))) ?n =
         Some (case first_match wpa_match (t + length (ie_enc e)) es2 of
             None \<Rightarrow> (None, 0) | Some (k, e) \<Rightarrow> (Some k, int (length (snd e))))"
        using less.prems es t drop_add [OF dt] by (intro less.hyps) simp_all
      moreover have "?n \<le> 0 \<Longrightarrow> es2 = []" by (cases es2) auto
      ultimately show ?thesis using step False fm by auto
    qed
  qed
qed

text \<open>\<open>rtw_get_wpa_ie\<close> finds the first WPA element of version 1 of a well-formed sequence,
  skips the vendor elements of other kinds, and returns null with length 0 when there is none.\<close>

theorem rtw_get_wpa_ie_correct:
  assumes "list_all wpa_ok es" and "m = pre @ ies_enc es @ post"
  shows "rtw_get_wpa_ie m (length pre) (int (length (ies_enc es))) =
     Some (case first_match wpa_match (length pre) es of
             None \<Rightarrow> (None, 0) | Some (k, e) \<Rightarrow> (Some k, int (length (snd e))))"
  using rtw_get_wpa_ie_loop_first [OF assms(1), of "length pre" m post _ _ "length pre" 0, OF _ _ refl refl] assms(2)
  by (simp add: rtw_get_wpa_ie_def)

theorem rtw_get_wpa_ie_correct_witness:
  "rtw_get_wpa_ie (ies_enc [(221, [0, 0x50, 0xf2, 2, 1, 0]), (221, [0, 0x50, 0xf2, 1, 1, 0])]) 0 16 =
     Some (Some 8, 6)"
  using rtw_get_wpa_ie_correct [of "[(221, [0, 0x50, 0xf2, 2, 1, 0]), (221, [0, 0x50, 0xf2, 1, 1, 0])]"
      "ies_enc [(221, [0, 0x50, 0xf2, 2, 1, 0]), (221, [0, 0x50, 0xf2, 1, 1, 0])]" "[]" "[]"]
  by (simp add: wpa_ok_def wf_ie_def wpa_match_def RTW_WPA_OUI_TYPE_def)

lemma wpa_pairwise_loop_total:
  "pos + 4 * n \<le> length m \<Longrightarrow> \<exists>v. wpa_pairwise_loop m n pos pw = Some v"
  by (induction n arbitrary: pos pw) (auto simp: suite_in)

lemma wpa_akm_part_total:
  "0 \<le> left \<Longrightarrow> pos + nat left \<le> length m \<Longrightarrow> \<exists>r. wpa_akm_part m pos left s = Some r"
  by (auto simp: wpa_akm_part_def memeq_in)

lemma wpa_pairwise_part_some:
  assumes "2 \<le> left" "RTW_GET_LE16 m pos = Some c"
    "wpa_pairwise_loop m (unat c) (pos + 2) (pairwise_cipher s) = Some v"
    "wpa_akm_part m (pos + 2 + 4 * unat c) (left - 2 - 4 * uint c) (s\<lparr>pairwise_cipher := v\<rparr>) = Some r"
  shows "\<exists>r. wpa_pairwise_part m pos left s = Some r"
  unfolding wpa_pairwise_part_def assms(2) Option.bind.simps assms(3) assms(4)
  using assms(1) by simp

lemma wpa_pairwise_part_total:
  assumes "pos + nat left \<le> length m"
  shows "\<exists>r. wpa_pairwise_part m pos left s = Some r"
proof (cases "left \<ge> 2")
  case True
  with assms have "pos + 2 \<le> length m" by linarith
  then obtain c where c: "RTW_GET_LE16 m pos = Some c"
    using RTW_GET_LE16_total by blast
  show ?thesis
  proof (cases "left - 2 < uint c * 4")
    case False
    then have ge: "0 \<le> left - 2 - 4 * uint c" by simp
    moreover have "int (unat c) = uint c" by simp
    ultimately have le: "pos + 2 + 4 * unat c + nat (left - 2 - 4 * uint c) \<le> length m"
      using assms True by linarith
    then have "pos + 2 + 4 * unat c \<le> length m" by linarith
    from wpa_pairwise_loop_total [OF this] obtain v where
      v: "wpa_pairwise_loop m (unat c) (pos + 2) (pairwise_cipher s) = Some v" by blast
    from wpa_akm_part_total [OF ge le, of "s\<lparr>pairwise_cipher := v\<rparr>"] obtain r where
      "wpa_akm_part m (pos + 2 + 4 * unat c) (left - 2 - 4 * uint c) (s\<lparr>pairwise_cipher := v\<rparr>) = Some r" ..
    with True c v show ?thesis by (rule wpa_pairwise_part_some)
  next
    case small: True
    with c True show ?thesis unfolding wpa_pairwise_part_def c by simp
  qed
next
  case False
  then show ?thesis by (simp add: wpa_pairwise_part_def wpa_akm_part_def)
qed

text \<open>On arbitrary bytes \<open>rtw_parse_wpa_ie\<close> stays inside the element, provided that at least six
  bytes are there (the OUI is compared before the length is looked at).\<close>

theorem rtw_parse_wpa_ie_safe:
  assumes "p + nat len \<le> length m" and "p + 6 \<le> length m"
  shows "\<exists>r. rtw_parse_wpa_ie m p len s = Some r"
proof -
  have "rd m p = Some (m ! p)" "rd m (p + 1) = Some (m ! (p + 1))"
      "memeq m (p + 2) RTW_WPA_OUI_TYPE 4 = Some (take 4 (drop (p + 2) m) = RTW_WPA_OUI_TYPE)"
    using assms(2) by (simp_all add: rd_in memeq_in RTW_WPA_OUI_TYPE_def)
  moreover have "\<exists>r. (if len - 8 \<ge> 4 then do {
                gc \<leftarrow> rtw_get_wpa_cipher_suite m (p + 8);
                wpa_pairwise_part m (p + 8 + 4) (len - 8 - 4) (s\<lparr>group_cipher := gc\<rparr>) }
              else if len - 8 > 0 then Some (FAIL, s)
              else wpa_pairwise_part m (p + 8) (len - 8) s) = Some r"
  proof (cases "len - 8 \<ge> 4")
    case True
    with assms(1) have "\<exists>g. rtw_get_wpa_cipher_suite m (p + 8) = Some g"
        "p + 8 + 4 + nat (len - 8 - 4) \<le> length m"
      by (simp_all add: suite_in)
    with True wpa_pairwise_part_total [of "p + 8 + 4" "len - 8 - 4" m] show ?thesis by auto
  next
    case False
    then show ?thesis by (auto simp: wpa_pairwise_part_def wpa_akm_part_def)
  qed
  ultimately show ?thesis by (simp add: rtw_parse_wpa_ie_def Let_def)
qed

theorem rtw_parse_wpa_ie_safe_witness:
  "\<exists>r. rtw_parse_wpa_ie [221, 6, 0, 0x50, 0xf2, 1, 1, 0] 0 8
     \<lparr>group_cipher = 0, pairwise_cipher = 0, wpa_akm = None\<rparr> = Some r"
  using rtw_parse_wpa_ie_safe [of 0 8 "[221, 6, 0, 0x50, 0xf2, 1, 1, 0]"] by simp

end
