(* ===== verification/Ie_Elems.thy ===== *)
theory Ie_Elems
  imports Ie_Core
begin

text \<open>
  The parser that splits the elements of a management frame into the members of
  \<open>struct rtw_ieee802_11_elems\<close> (\<open>core/rtw_ieee80211.c\<close>), with its parser of vendor elements.
  The structure has a pointer and a length for each kind of element; it is modelled as a map from
  the members to an offset and a length, \<open>None\<close> for a null pointer. The members under
  \<open>CONFIG_RTW_MESH\<close> and \<open>CONFIG_RTW_TOKEN_BASED_XMIT\<close> are not compiled in.
\<close>

section \<open>Definitions\<close>

datatype elem_member =
    ssid | supp_rates | fh_params | ds_params | cf_params | tim | ibss_params | challenge | erp_info
  | ext_supp_rates | wpa_ie | rsn_ie | wme | wme_tspec | wps_ie | power_cap | supp_channels | mdie
  | ftie | timeout_int | ht_capabilities | ht_operation | vendor_ht_cap | vht_capabilities
  | vht_operation | vht_op_mode_notify | rm_en_cap

type_synonym rtw_ieee802_11_elems = "elem_member \<Rightarrow> (nat \<times> u8) option"

datatype ParseRes = ParseOK | ParseUnknown | ParseFailed

definition RTW_GET_BE24 :: "bytes \<Rightarrow> nat \<Rightarrow> u32 option" where
  "RTW_GET_BE24 m i = do {
     a \<leftarrow> rd m i; b \<leftarrow> rd m (i + 1); c \<leftarrow> rd m (i + 2);
     Some (push_bit 16 (ucast a) OR push_bit 8 (ucast b) OR ucast c) }"

abbreviation OUI_MICROSOFT :: u32 where "OUI_MICROSOFT \<equiv> 0x0050f2"
abbreviation OUI_BROADCOM :: u32 where "OUI_BROADCOM \<equiv> 0x00904c"

text \<open>The result is false where the code returns -1.\<close>

definition rtw_ieee802_11_parse_vendor_specific ::
    "bytes \<Rightarrow> nat \<Rightarrow> u8 \<Rightarrow> rtw_ieee802_11_elems \<Rightarrow> (bool \<times> rtw_ieee802_11_elems) option" where
  "rtw_ieee802_11_parse_vendor_specific m pos elen elems =
     (if elen < 4 then Some (False, elems)
      else do {
        oui \<leftarrow> RTW_GET_BE24 m pos;
        if oui = OUI_MICROSOFT then do {
          t \<leftarrow> rd m (pos + 3);
          if t = 1 then Some (True, elems(wpa_ie \<mapsto> (pos, elen)))
          else if t = 2 then
            (if elen < 5 then Some (False, elems)
             else do {
               st \<leftarrow> rd m (pos + 4);
               if st = 0 \<or> st = 1 then Some (True, elems(wme \<mapsto> (pos, elen)))
               else if st = 2 then Some (True, elems(wme_tspec \<mapsto> (pos, elen)))
               else Some (False, elems) })
          else if t = 4 then Some (True, elems(wps_ie \<mapsto> (pos, elen)))
          else Some (False, elems) }
        else if oui = OUI_BROADCOM then do {
          t \<leftarrow> rd m (pos + 3);
          if t = 0x33 then Some (True, elems(vendor_ht_cap \<mapsto> (pos, elen))) else Some (False, elems) }
        else Some (False, elems) })"

text \<open>The cases of the switch on the element identifier that only set a member.\<close>

definition elem_case :: "u8 \<Rightarrow> elem_member option" where
  "elem_case eid = map_of
     [(0, ssid), (1, supp_rates), (2, fh_params), (3, ds_params), (4, cf_params), (5, tim),
      (6, ibss_params), (16, challenge), (42, erp_info), (50, ext_supp_rates), (48, rsn_ie),
      (33, power_cap), (36, supp_channels), (54, mdie), (55, ftie), (56, timeout_int),
      (45, ht_capabilities), (61, ht_operation), (191, vht_capabilities), (192, vht_operation),
      (199, vht_op_mode_notify), (70, rm_en_cap)] eid"

function parse_elems_loop ::
    "bytes \<Rightarrow> nat \<Rightarrow> nat \<Rightarrow> nat \<Rightarrow> rtw_ieee802_11_elems \<Rightarrow> (ParseRes \<times> rtw_ieee802_11_elems) option" where
  "parse_elems_loop m left pos unknown elems =
     (if left \<ge> 2 then do {
        eid \<leftarrow> rd m pos;
        elen \<leftarrow> rd m (pos + 1);
        if unat elen > left - 2 then Some (ParseFailed, elems)
        else do {
          (known, elems') \<leftarrow>
            (if eid = 221 then rtw_ieee802_11_parse_vendor_specific m (pos + 2) elen elems
             else case elem_case eid of
                Some f \<Rightarrow> Some (True, elems(f \<mapsto> (pos + 2, elen)))
              | None \<Rightarrow> Some (False, elems));
          parse_elems_loop m (left - 2 - unat elen) (pos + 2 + unat elen)
            (if known then unknown else unknown + 1) elems' } }
      else if left \<noteq> 0 then Some (ParseFailed, elems)
      else Some (if unknown = 0 then ParseOK else ParseUnknown, elems))"
  by pat_completeness auto
termination
  by (relation "measure (\<lambda>(m, left, pos, unknown, elems). left)") auto

declare parse_elems_loop.simps [simp del]

definition rtw_ieee802_11_parse_elems ::
    "bytes \<Rightarrow> nat \<Rightarrow> nat \<Rightarrow> (ParseRes \<times> rtw_ieee802_11_elems) option" where
  "rtw_ieee802_11_parse_elems m start len = parse_elems_loop m len start 0 (\<lambda>_. None)"

section \<open>What the parser computes\<close>

text \<open>The kind of an element, from its identifier and its content.\<close>

definition vendor_class :: "bytes \<Rightarrow> elem_member option" where
  "vendor_class d =
     (if length d < 4 then None
      else if take 3 d = [0x00, 0x50, 0xf2] then
        (if d ! 3 = 1 then Some wpa_ie
         else if d ! 3 = 2 then
           (if length d < 5 then None
            else if d ! 4 \<le> 1 then Some wme else if d ! 4 = 2 then Some wme_tspec else None)
         else if d ! 3 = 4 then Some wps_ie else None)
      else if take 4 d = [0x00, 0x90, 0x4c, 0x33] then Some vendor_ht_cap
      else None)"

definition elem_class :: "ie \<Rightarrow> elem_member option" where
  "elem_class e = (if fst e = 221 then vendor_class (snd e) else elem_case (fst e))"

text \<open>The members after a sequence of elements: the last element of a kind wins.\<close>

fun slots :: "nat \<Rightarrow> ie list \<Rightarrow> rtw_ieee802_11_elems" where
  "slots off [] = (\<lambda>_. None)"
| "slots off (e # es) =
     (case elem_class e of None \<Rightarrow> (\<lambda>_. None) | Some f \<Rightarrow> [f \<mapsto> (off + 2, of_nat (length (snd e)))]) ++
     slots (off + length (ie_enc e)) es"

definition be24 :: "u8 \<Rightarrow> u8 \<Rightarrow> u8 \<Rightarrow> u32" where
  "be24 a b c = push_bit 16 (ucast a) OR push_bit 8 (ucast b) OR ucast c"

lemma be24_bytes:
  "ucast (drop_bit 16 (be24 a b c)) = a" "ucast (drop_bit 8 (be24 a b c)) = b" "ucast (be24 a b c) = c"
  by (rule bit_word_eqI, force simp: be24_def bit_simps dest: bit_imp_le_length)+

lemma be24_inj: "be24 a b c = be24 a' b' c' \<longleftrightarrow> a = a' \<and> b = b' \<and> c = c'"
  using be24_bytes by metis

lemma be24_ouis: "OUI_MICROSOFT = be24 0 0x50 0xf2" "OUI_BROADCOM = be24 0 0x90 0x4c"
  by (simp_all add: be24_def)

lemma word_le_1: "(x :: u8) \<le> 1 \<longleftrightarrow> x = 0 \<or> x = 1"
  by (auto simp: word_le_nat_alt word_unat_eq_iff)

lemma nth_drop_rd:
  assumes "drop k m = d @ post" "i < length d"
  shows "rd m (k + i) = Some (d ! i)"
proof -
  have "k + length d \<le> length m" using assms by (intro drop_app_le) auto
  then show ?thesis using assms(2) nth_drop [of k m i] assms(1) by (simp add: rd_in nth_append)
qed

lemma vendor_specific_class:
  assumes "drop pos m = d @ post" "unat elen = length d"
  shows "rtw_ieee802_11_parse_vendor_specific m pos elen elems =
     Some (case vendor_class d of None \<Rightarrow> (False, elems) | Some f \<Rightarrow> (True, elems(f \<mapsto> (pos, elen))))"
proof (cases "length d < 4")
  case True
  with assms(2) show ?thesis
    by (simp add: rtw_ieee802_11_parse_vendor_specific_def vendor_class_def word_less_nat_alt)
next
  case False
  then obtain a b c t ds where d: "d = a # b # c # t # ds"
    by (auto simp: eval_nat_numeral not_less Suc_le_length_iff)
  have l4: "\<not> elen < 4" using False assms(2) by (simp add: word_less_nat_alt)
  have l5: "elen < 5 \<longleftrightarrow> ds = []" using assms(2) d by (cases ds) (auto simp: word_less_nat_alt)
  have oui: "RTW_GET_BE24 m pos = Some (be24 a b c)" and t: "rd m (pos + 3) = Some t"
    using nth_drop_rd [OF assms(1), of 0] nth_drop_rd [OF assms(1), of 1] nth_drop_rd [OF assms(1), of 2]
      nth_drop_rd [OF assms(1), of 3] d
    by (simp_all add: RTW_GET_BE24_def be24_def)
  have st: "ds = x # xs \<Longrightarrow> rd m (pos + 4) = Some x" for x xs
    using nth_drop_rd [OF assms(1), of 4] d by simp
  show ?thesis
    using l4 l5 oui t
    by (cases ds) (auto simp: rtw_ieee802_11_parse_vendor_specific_def vendor_class_def be24_ouis be24_inj d
        word_le_1 dest!: st)
qed

lemma parse_elems_loop_slots:
  assumes "list_all wf_ie es" "drop pos m = ies_enc es @ post"
  shows "parse_elems_loop m (length (ies_enc es)) pos unknown elems =
     Some (if unknown = 0 \<and> list_all (\<lambda>e. elem_class e \<noteq> None) es then ParseOK else ParseUnknown,
           elems ++ slots pos es)"
  using assms
proof (induction es arbitrary: pos unknown elems)
  case Nil
  then show ?case by (simp add: parse_elems_loop.simps)
next
  case (Cons e es)
  let ?l = "length (snd e)"
  from Cons.prems have d: "drop pos m = ie_enc e @ ies_enc es @ post" by simp
  have ul: "unat (of_nat ?l :: u8) = ?l" using Cons.prems(1) by (simp add: wf_ie_def unat_of_nat_u8)
  have d2: "drop (pos + 2) m = snd e @ ies_enc es @ post"
    using drop_add [of pos m "[fst e, of_nat ?l]" "snd e @ ies_enc es @ post"] d by (simp add: ie_enc_def)
  have cls: "(if fst e = 221 then rtw_ieee802_11_parse_vendor_specific m (pos + 2) (of_nat ?l) elems
      else case elem_case (fst e) of Some f \<Rightarrow> Some (True, elems(f \<mapsto> (pos + 2, of_nat ?l)))
        | None \<Rightarrow> Some (False, elems)) =
      Some (case elem_class e of None \<Rightarrow> (False, elems) | Some f \<Rightarrow> (True, elems(f \<mapsto> (pos + 2, of_nat ?l))))"
    using vendor_specific_class [OF d2 ul] by (simp add: elem_class_def split: option.split)
  have "drop (pos + 2 + ?l) m = ies_enc es @ post" using drop_add [OF d2] by simp
  note IH = Cons.IH [OF _ this]
  show ?case
    using rd_ie_eid [OF d] rd_ie_len [OF d] ul cls IH Cons.prems(1)
    by (subst parse_elems_loop.simps) (auto split: option.split)
qed

text \<open>C9. On a well-formed sequence \<open>rtw_ieee802_11_parse_elems\<close> sets each member to the last element
  of its kind and to nothing else, and reports unknown elements exactly when there are some.\<close>

theorem rtw_ieee802_11_parse_elems_correct:
  assumes "list_all wf_ie es" and "m = pre @ ies_enc es @ post"
  shows "rtw_ieee802_11_parse_elems m (length pre) (length (ies_enc es)) =
     Some (if list_all (\<lambda>e. elem_class e \<noteq> None) es then ParseOK else ParseUnknown,
           slots (length pre) es)"
  using parse_elems_loop_slots [OF assms(1), of "length pre" m post 0 "\<lambda>_. None"] assms(2)
  by (simp add: rtw_ieee802_11_parse_elems_def)

theorem rtw_ieee802_11_parse_elems_correct_witness:
  "\<exists>el. rtw_ieee802_11_parse_elems (ies_enc [(0, [65]), (221, [0, 0x50, 0xf2, 4]), (0, [66, 67])]) 0 13 =
     Some (ParseOK, el) \<and> el ssid = Some (11, 2) \<and> el wps_ie = Some (5, 4) \<and> el wpa_ie = None"
  using rtw_ieee802_11_parse_elems_correct [of "[(0, [65]), (221, [0, 0x50, 0xf2, 4]), (0, [66, 67])]"
      "ies_enc [(0, [65]), (221, [0, 0x50, 0xf2, 4]), (0, [66, 67])]" "[]" "[]"]
  by (simp add: wf_ie_def elem_class_def elem_case_def vendor_class_def, simp add: eval_nat_numeral)


text \<open>A member lies inside the parsed bytes.\<close>

definition elems_in :: "nat \<Rightarrow> nat \<Rightarrow> rtw_ieee802_11_elems \<Rightarrow> bool" where
  "elems_in lo hi elems \<longleftrightarrow> (\<forall>f q l. elems f = Some (q, l) \<longrightarrow> lo \<le> q \<and> q + unat l \<le> hi)"

lemma elems_in_upd:
  "elems_in lo hi elems \<Longrightarrow> lo \<le> q \<Longrightarrow> q + unat l \<le> hi \<Longrightarrow> elems_in lo hi (elems(f \<mapsto> (q, l)))"
  by (simp add: elems_in_def)

lemma parse_elems_loop_safe:
  assumes "lo \<le> pos" "pos + left = hi" "hi \<le> length m" "elems_in lo hi elems"
  shows "\<exists>r el. parse_elems_loop m left pos unknown elems = Some (r, el) \<and> elems_in lo hi el"
  using assms
proof (induction left arbitrary: pos unknown elems rule: less_induct)
  case (less left)
  show ?case
  proof (cases "2 \<le> left")
    case False
    with less.prems show ?thesis by (subst parse_elems_loop.simps) auto
  next
    case True
    define l where "l = m ! (pos + 1)"
    have rds: "rd m pos = Some (m ! pos)" "rd m (pos + 1) = Some l"
      using True less.prems by (simp_all add: rd_in l_def)
    show ?thesis
    proof (cases "unat l > left - 2")
      case True
      with rds \<open>2 \<le> left\<close> less.prems(4) show ?thesis by (subst parse_elems_loop.simps) simp
    next
      case False
      let ?d = "take (unat l) (drop (pos + 2) m)"
      have fit: "lo \<le> pos + 2" "pos + 2 + unat l \<le> hi" using False True less.prems by linarith+
      have "drop (pos + 2) m = ?d @ drop (unat l) (drop (pos + 2) m)"
        by (rule append_take_drop_id [symmetric])
      moreover have "unat l = length ?d" using fit less.prems(3) by simp
      ultimately have "drop (pos + 2) m = ?d @ drop (unat l) (drop (pos + 2) m)" "unat l = length ?d" .
      note vs = vendor_specific_class [OF this]
      have "\<exists>known el. (if m ! pos = 221 then rtw_ieee802_11_parse_vendor_specific m (pos + 2) l elems
          else case elem_case (m ! pos) of Some f \<Rightarrow> Some (True, elems(f \<mapsto> (pos + 2, l)))
            | None \<Rightarrow> Some (False, elems)) = Some (known, el) \<and> elems_in lo hi el"
        using vs elems_in_upd [OF less.prems(4) fit] less.prems(4) by (auto split: option.split)
      then obtain known el where step: "(if m ! pos = 221 then rtw_ieee802_11_parse_vendor_specific m (pos + 2) l elems
          else case elem_case (m ! pos) of Some f \<Rightarrow> Some (True, elems(f \<mapsto> (pos + 2, l)))
            | None \<Rightarrow> Some (False, elems)) = Some (known, el)" and el: "elems_in lo hi el" by blast
      have "\<exists>r el'. parse_elems_loop m (left - 2 - unat l) (pos + 2 + unat l) u el = Some (r, el') \<and>
          elems_in lo hi el'" for u
        using True False less.prems el fit by (intro less.IH) linarith+
      with rds step True False show ?thesis
        by (subst parse_elems_loop.simps) (simp split del: if_split)
    qed
  qed
qed

text \<open>On arbitrary bytes \<open>rtw_ieee802_11_parse_elems\<close> returns without an access outside the given
  range, and every member it sets lies inside the range.\<close>

theorem rtw_ieee802_11_parse_elems_safe:
  assumes "start + len \<le> length m"
  shows "\<exists>r el. rtw_ieee802_11_parse_elems m start len = Some (r, el) \<and> elems_in start (start + len) el"
  using parse_elems_loop_safe [of start start len "start + len" m "\<lambda>_. None" 0] assms
  by (simp add: rtw_ieee802_11_parse_elems_def elems_in_def)

theorem rtw_ieee802_11_parse_elems_safe_witness:
  "\<exists>r el. rtw_ieee802_11_parse_elems [221, 9, 0] 0 3 = Some (r, el) \<and> elems_in 0 3 el"
  using rtw_ieee802_11_parse_elems_safe [of 0 3 "[221, 9, 0]"] by simp

end
