(* ===== verification/Rx_Reorder.thy ===== *)
theory Rx_Reorder
  imports Prelude
begin

text \<open>
  The receive reordering buffer of \<open>core/rtw_recv.c\<close>: A-MPDU subframes of one traffic identifier
  arrive out of order and are handed up in the order of their 12 bit sequence numbers, inside a
  sliding window.

  The state is the part of \<open>struct recv_reorder_ctrl\<close> and of the counters of
  \<open>struct recv_priv\<close> that this code uses. The pending queue is the list of its frames, head first.
  The call of \<open>recv_process_mpdu\<close> is recorded in \<open>indicated\<close>; \<open>process\<close> tells whether it
  succeeds. The timer is armed or not.

  The second half of the theory relates the code, which computes modulo 4096, to a reordering buffer
  over unbounded sequence numbers, and proves the order of delivery over every run.
\<close>

section \<open>State\<close>

record recv_frame =
  seq_num :: u16
  qos :: bool
  frame_id :: nat

record reorder_ctrl =
  enable :: bool
  indicate_seq :: u16
  wsize_b :: u8
  pending_recvframe_queue :: "recv_frame list"
  bReorderWaiting :: bool
  timer_armed :: bool
  recv_ack_or_timeout :: bool
  recv_reorder_wow :: bool
  rx_drop :: u64
  dbg_rx_drop_count :: u64
  dbg_rx_ampdu_drop_count :: u64
  dbg_rx_ampdu_forced_indicate_count :: u64
  dbg_rx_ampdu_loss_count :: u64
  dbg_rx_ampdu_window_shift_cnt :: u64
  indicated :: "recv_frame list"

datatype rx_result = RX_FAIL | RX_SUCCESS | RTW_RX_HANDLED

section \<open>Operations\<close>

definition SN_LESS :: "u16 \<Rightarrow> u16 \<Rightarrow> bool" where
  "SN_LESS a b \<longleftrightarrow> (a - b) AND 0x800 \<noteq> 0"

definition check_indicate_seq :: "reorder_ctrl \<Rightarrow> u16 \<Rightarrow> bool \<times> reorder_ctrl" where
  "check_indicate_seq c seq =
     (let c = (if indicate_seq c = 0xFFFF then c\<lparr>indicate_seq := seq\<rparr> else c);
          wsize = wsize_b c;
          wend = (indicate_seq c + ucast wsize - 1) AND 0xFFF in
      if SN_LESS seq (indicate_seq c) then (False, c)
      else if seq = indicate_seq c then (True, c\<lparr>indicate_seq := (indicate_seq c + 1) AND 0xFFF\<rparr>)
      else if SN_LESS wend seq then
        (True, c\<lparr>indicate_seq :=
             (if uint seq \<ge> uint wsize - 1 then seq + 1 - ucast wsize
              else 0xFFF - (ucast wsize - (seq + 1)) + 1),
           dbg_rx_ampdu_window_shift_cnt := dbg_rx_ampdu_window_shift_cnt c + 1\<rparr>)
      else (True, c))"

text \<open>The insertion in front of the first frame that does not come before the new one; \<open>None\<close> when the
  sequence number is already in the queue.\<close>

fun enqueue_reorder_recvframe :: "recv_frame list \<Rightarrow> recv_frame \<Rightarrow> recv_frame list option" where
  "enqueue_reorder_recvframe [] f = Some [f]"
| "enqueue_reorder_recvframe (g # gs) f =
     (if SN_LESS (seq_num g) (seq_num f) then map_option ((#) g) (enqueue_reorder_recvframe gs f)
      else if seq_num g = seq_num f then None
      else Some (f # g # gs))"

definition recv_indicatepkts_pkt_loss_cnt :: "reorder_ctrl \<Rightarrow> u64 \<Rightarrow> u64 \<Rightarrow> reorder_ctrl" where
  "recv_indicatepkts_pkt_loss_cnt c prev_seq current_seq =
     (let d = (if current_seq < prev_seq then 4096 + current_seq - prev_seq else current_seq - prev_seq) in
      c\<lparr>dbg_rx_ampdu_loss_count := dbg_rx_ampdu_loss_count c + d, rx_drop := rx_drop c + d\<rparr>)"

text \<open>The loop of \<open>recv_indicatepkts_in_order\<close> over the queue; the result is \<open>bPktInBuf\<close>.\<close>

fun indicate_loop :: "(recv_frame \<Rightarrow> bool) \<Rightarrow> recv_frame list \<Rightarrow> reorder_ctrl \<Rightarrow> bool \<times> reorder_ctrl" where
  "indicate_loop process [] c = (False, c\<lparr>pending_recvframe_queue := []\<rparr>)"
| "indicate_loop process (f # fs) c =
     (if \<not> SN_LESS (indicate_seq c) (seq_num f) then
        indicate_loop process fs
          (c\<lparr>indicate_seq := (if indicate_seq c = seq_num f then (indicate_seq c + 1) AND 0xFFF else indicate_seq c),
             dbg_rx_drop_count := (if process f then dbg_rx_drop_count c else dbg_rx_drop_count c + 1),
             indicated := indicated c @ [f]\<rparr>)
      else (True, c\<lparr>pending_recvframe_queue := f # fs\<rparr>))"

definition recv_indicatepkts_in_order ::
    "(recv_frame \<Rightarrow> bool) \<Rightarrow> reorder_ctrl \<Rightarrow> bool \<Rightarrow> bool \<times> reorder_ctrl" where
  "recv_indicatepkts_in_order process c bforced =
     (if bforced then
        (let c = c\<lparr>dbg_rx_ampdu_forced_indicate_count := dbg_rx_ampdu_forced_indicate_count c + 1\<rparr> in
         case pending_recvframe_queue c of
           [] \<Rightarrow> (True, c)
         | f # fs \<Rightarrow>
             (let c = recv_indicatepkts_pkt_loss_cnt c (ucast (indicate_seq c)) (ucast (seq_num f)) in
              indicate_loop process (f # fs) (c\<lparr>indicate_seq := seq_num f\<rparr>)))
      else indicate_loop process (pending_recvframe_queue c) c)"

definition recv_indicatepkt_reorder ::
    "(recv_frame \<Rightarrow> bool) \<Rightarrow> reorder_ctrl option \<Rightarrow> recv_frame \<Rightarrow> rx_result \<times> reorder_ctrl option" where
  "recv_indicatepkt_reorder process ctrl f =
     (case ctrl of
        None \<Rightarrow> (RX_SUCCESS, ctrl)
      | Some c \<Rightarrow>
          if \<not> qos f \<or> \<not> enable c then (RX_SUCCESS, ctrl)
          else
            (let c = (if recv_ack_or_timeout c then c\<lparr>recv_ack_or_timeout := False, indicate_seq := 0xFFFF\<rparr> else c);
                 c = (if recv_reorder_wow c then c\<lparr>recv_reorder_wow := False, indicate_seq := 0xFFFF\<rparr> else c);
                 (ok, c) = check_indicate_seq c (seq_num f) in
             if \<not> ok then (RX_FAIL, Some (c\<lparr>dbg_rx_ampdu_drop_count := dbg_rx_ampdu_drop_count c + 1\<rparr>))
             else
               (case enqueue_reorder_recvframe (pending_recvframe_queue c) f of
                  None \<Rightarrow> (RX_FAIL, Some c)
                | Some q \<Rightarrow>
                    (let (inbuf, c) = recv_indicatepkts_in_order process (c\<lparr>pending_recvframe_queue := q\<rparr>) False in
                     if inbuf then
                       (RTW_RX_HANDLED,
                        Some (if bReorderWaiting c then c else c\<lparr>bReorderWaiting := True, timer_armed := True\<rparr>))
                     else (RTW_RX_HANDLED, Some (c\<lparr>bReorderWaiting := False, timer_armed := False\<rparr>))))))"

text \<open>The timer has fired when the handler runs, so that it is not armed then.\<close>

definition rtw_reordering_ctrl_timeout_handler ::
    "(recv_frame \<Rightarrow> bool) \<Rightarrow> bool \<Rightarrow> reorder_ctrl \<Rightarrow> reorder_ctrl" where
  "rtw_reordering_ctrl_timeout_handler process cannot_run c =
     (let c = c\<lparr>timer_armed := False\<rparr> in
      if cannot_run then c
      else
        (let (inbuf, c) = recv_indicatepkts_in_order process (c\<lparr>bReorderWaiting := False\<rparr>) True in
         if inbuf then c\<lparr>timer_armed := True\<rparr> else c))"

definition recv_set_iseq_before_mpdu_process :: "reorder_ctrl option \<Rightarrow> u16 \<Rightarrow> reorder_ctrl option" where
  "recv_set_iseq_before_mpdu_process ctrl seq = map_option (\<lambda>c. c\<lparr>indicate_seq := seq\<rparr>) ctrl"

definition recv_set_iseq_after_mpdu_process :: "reorder_ctrl option \<Rightarrow> reorder_ctrl option" where
  "recv_set_iseq_after_mpdu_process ctrl =
     map_option (\<lambda>c. c\<lparr>indicate_seq := (indicate_seq c + 1) mod 4096\<rparr>) ctrl"

section \<open>Sequence numbers modulo 4096\<close>

definition w12 :: "nat \<Rightarrow> u16" where "w12 x = take_bit 12 (of_nat x)"

lemma and_FFF: "(w :: u16) AND 0xFFF = take_bit 12 w"
  by (simp add: take_bit_eq_mask mask_eq_exp_minus_1)

lemma w12_nat: "w12 x = of_nat (x mod 4096)"
  by (simp only: w12_def take_bit_of_nat) (simp add: take_bit_eq_mod)

lemma unat_w12: "unat (w12 x) = x mod 4096"
  by (simp only: w12_nat unat_of_nat) (simp add: mod_less)

lemma w12_int: "w12 x = word_of_int (int x mod 4096)"
  by (simp add: word_unat_eq_iff unat_w12 unsigned_of_int take_bit_eq_mod nat_mod_distrib mod_mod_cancel)

lemma odd_diff_mod:
  "odd ((int x mod 4096 - int y mod 4096) div 2048) \<longleftrightarrow> odd ((int x - int y) div 2048)"
proof -
  have "int x mod 4096 - int y mod 4096 =
      (int x - int y) + (2 * (int y div 4096 - int x div 4096)) * 2048"
    by (simp add: minus_mult_div_eq_mod [symmetric] algebra_simps)
  then have "(int x mod 4096 - int y mod 4096) div 2048 =
      (int x - int y) div 2048 + 2 * (int y div 4096 - int x div 4096)"
    by (simp only: div_mult_self1)
  then show ?thesis by (simp only: even_add even_mult_iff) simp
qed

lemma SN_LESS_w12:
  assumes "x < y + 2048" "y \<le> x + 2048"
  shows "SN_LESS (w12 x) (w12 y) \<longleftrightarrow> x < y"
proof -
  let ?d = "int x mod 4096 - int y mod 4096"
  have "(w12 x - w12 y) AND 0x800 \<noteq> 0 \<longleftrightarrow> bit (w12 x - w12 y) 11"
    using and_exp_eq_0_iff_not_bit [of "w12 x - w12 y" 11] by simp
  also have "\<dots> \<longleftrightarrow> bit ?d 11"
    by (simp only: w12_int wi_hom_sub bit_word_of_int_iff) simp
  also have "\<dots> \<longleftrightarrow> odd ((int x - int y) div 2048)"
    using odd_diff_mod [of x y] by (simp add: bit_iff_odd)
  also have "\<dots> \<longleftrightarrow> x < y"
  proof (cases "x < y")
    case True
    with assms have "(int x - int y) div 2048 = -1"
      using int_div_pos_eq [of "int x - int y" 2048 "-1" "2048 + (int x - int y)"] by simp
    with True show ?thesis by simp
  next
    case False
    with assms have "(int x - int y) div 2048 = 0" by simp
    with False show ?thesis by simp
  qed
  finally show ?thesis by (simp add: SN_LESS_def)
qed

lemma mod_4096_eq: "(x :: nat) \<le> y \<Longrightarrow> y < x + 4096 \<Longrightarrow> x mod 4096 = y mod 4096 \<Longrightarrow> x = y"
  by (metis mod_eq_dvd_iff_nat nat_dvd_not_less diff_is_0_eq le_antisym less_diff_conv2 add.commute
      not_le zero_less_diff)

lemma w12_eq_iff: "x < y + 4096 \<Longrightarrow> y < x + 4096 \<Longrightarrow> w12 x = w12 y \<longleftrightarrow> x = y"
  unfolding word_unat_eq_iff unat_w12 by (metis nat_le_linear mod_4096_eq)

lemma w12_add: "take_bit 12 (w12 x + of_nat k) = w12 (x + k)"
proof -
  have "w12 x + of_nat k = of_nat (x mod 4096 + k)" by (simp add: w12_nat)
  then have "take_bit 12 (w12 x + of_nat k) = of_nat ((x mod 4096 + k) mod 4096)"
    by (simp only: take_bit_of_nat) (simp add: take_bit_eq_mod)
  then show ?thesis by (simp add: w12_nat mod_add_left_eq del: of_nat_add)
qed

lemma w12_Suc: "(w12 x + 1) AND 0xFFF = w12 (Suc x)"
  using w12_add [of x 1] by (simp add: and_FFF)

lemma w12_not_FFFF: "w12 x \<noteq> 0xFFFF"
proof
  assume "w12 x = 0xFFFF"
  then have "x mod 4096 = 65535" using unat_w12 [of x] by simp
  moreover have "x mod 4096 < 4096" by simp
  ultimately show False by simp
qed

lemma ucast_of_nat_u8: "unat (n :: u8) = k \<Longrightarrow> (ucast n :: u16) = of_nat k"
  using unsigned_less [of n, where 'a = nat]
  by (auto simp: word_unat_eq_iff unsigned_ucast_eq take_bit_eq_mod unat_of_nat)

lemma window_end:
  assumes "unat (n :: u8) = k" "1 \<le> k"
  shows "(w12 x + ucast n - 1) AND 0xFFF = w12 (x + k - 1)"
proof -
  have "w12 x + ucast n - 1 = w12 x + of_nat (k - 1)"
    using assms by (simp add: ucast_of_nat_u8 [OF assms(1)] of_nat_diff)
  then show ?thesis using w12_add [of x "k - 1"] assms(2) by (simp only: and_FFF) simp
qed


lemma mod_shift:
  assumes "1 \<le> k" "k \<le> 4096" "k \<le> (s :: nat)"
  shows "(s + 1 - k) mod 4096 =
    (if k \<le> s mod 4096 + 1 then s mod 4096 + 1 - k else 4096 + s mod 4096 + 1 - k)"
proof -
  let ?r = "s mod 4096" and ?q = "s div 4096"
  have r: "?r < 4096" by simp
  have s: "s = 4096 * ?q + ?r" by simp
  show ?thesis
  proof (cases "k \<le> ?r + 1")
    case True
    then have "s + 1 - k = (?r + 1 - k) + 4096 * ?q" using s by linarith
    moreover have "?r + 1 - k < 4096" using assms(1) r by linarith
    ultimately show ?thesis using True by (simp only: mod_mult_self2 mod_less if_True)
  next
    case False
    then have "?q \<noteq> 0" using assms(3) s by linarith
    then obtain q where q: "?q = Suc q" by (cases ?q) auto
    then have "s + 1 - k = (4096 + ?r + 1 - k) + 4096 * q" using s False assms(2) by linarith
    moreover have "4096 + ?r + 1 - k < 4096" using False by linarith
    ultimately show ?thesis using False by (simp only: mod_mult_self2 mod_less if_False)
  qed
qed

lemma window_shift:
  assumes "unat (n :: u8) = k" "1 \<le> k" "k \<le> s"
  shows "(if uint (w12 s) \<ge> uint n - 1 then w12 s + 1 - ucast n
          else 0xFFF - (ucast n - (w12 s + 1)) + 1) = w12 (s + 1 - k)"
proof -
  have k: "k \<le> 255" using assms(1) unat_u8_le [of n] by simp
  have ui: "uint (w12 s) = int (s mod 4096)" "uint n = int k"
    using unat_w12 [of s] assms(1) uint_nat [of "w12 s"] uint_nat [of n] by presburger+
  have un: "(ucast n :: u16) = of_nat k" by (rule ucast_of_nat_u8 [OF assms(1)])
  have "(s + 1 - k) mod 4096 = (if k \<le> s mod 4096 + 1 then s mod 4096 + 1 - k else 4096 + s mod 4096 + 1 - k)"
    using assms(2,3) k by (intro mod_shift) simp_all
  then have w: "w12 (s + 1 - k) = (if k \<le> s mod 4096 + 1 then of_nat (s mod 4096 + 1 - k)
      else of_nat (4096 + s mod 4096 + 1 - k))"
    by (simp add: w12_nat)
  show ?thesis
  proof (cases "k \<le> s mod 4096 + 1")
    case True
    then have "uint (w12 s) \<ge> uint n - 1" using ui by linarith
    with True w show ?thesis by (simp add: un w12_nat [of s] of_nat_diff)
  next
    case False
    then have "\<not> uint (w12 s) \<ge> uint n - 1" using ui by linarith
    moreover have "(of_nat (4096 + s mod 4096 + 1 - k) :: u16) = 4096 + of_nat (s mod 4096) + 1 - of_nat k"
      using k by (simp add: of_nat_diff)
    ultimately show ?thesis using False w by (simp add: un w12_nat [of s])
  qed
qed

section \<open>A reordering buffer over unbounded sequence numbers\<close>

text \<open>The specification: a window start, the waiting sequence numbers in order, and what is delivered.
  Delivery hands up every number up to the window start, and moves the start over consecutive ones.\<close>

fun abs_deliver :: "nat \<Rightarrow> nat list \<Rightarrow> nat \<times> nat list \<times> nat list" where
  "abs_deliver W [] = (W, [], [])"
| "abs_deliver W (x # xs) =
     (if x \<le> W then
        (let (W', out, rest) = abs_deliver (if x = W then W + 1 else W) xs in (W', x # out, rest))
      else (W, [], x # xs))"

definition abs_recv :: "nat \<Rightarrow> nat \<Rightarrow> nat list \<Rightarrow> nat \<Rightarrow> nat \<times> nat list \<times> nat list" where
  "abs_recv n W xs s =
     abs_deliver (if s = W then W + 1 else max W (s + 1 - n)) (insort s xs)"

lemma abs_deliver_spec:
  assumes "abs_deliver W xs = (W', out, rest)" "sorted xs"
  shows "out @ rest = xs \<and> W \<le> W' \<and> (\<forall>x \<in> set out. x < W') \<and> (\<forall>x \<in> set rest. W' < x) \<and>
     (\<forall>B. W \<le> B \<longrightarrow> (\<forall>x \<in> set xs. x < B) \<longrightarrow> W' \<le> B)"
  using assms
proof (induction W xs arbitrary: W' out rest rule: abs_deliver.induct)
  case (2 W x xs)
  show ?case
  proof (cases "x \<le> W")
    case True
    obtain V o1 r1 where rec: "abs_deliver (if x = W then W + 1 else W) xs = (V, o1, r1)" by (metis prod_cases3)
    from "2.prems" True rec have eqs: "W' = V" "out = x # o1" "rest = r1" by simp_all
    have "o1 @ r1 = xs \<and> (if x = W then W + 1 else W) \<le> V \<and>
        (\<forall>y \<in> set o1. y < V) \<and> (\<forall>y \<in> set r1. V < y) \<and>
        (\<forall>B. (if x = W then W + 1 else W) \<le> B \<longrightarrow> (\<forall>y \<in> set xs. y < B) \<longrightarrow> V \<le> B)"
      using "2.IH" [OF True rec] "2.prems" by simp
    with eqs True show ?thesis by (cases "x = W") auto
  next
    case False
    with "2.prems" show ?thesis by fastforce
  qed
qed simp

text \<open>A frame of the transmitter with unbounded sequence number \<open>s\<close>; its content is identified by the
  number.\<close>

definition tx_frame :: "nat \<Rightarrow> recv_frame" where
  "tx_frame s = \<lparr>seq_num = w12 s, qos = True, frame_id = s\<rparr>"

lemma tx_frame_simps [simp]: "seq_num (tx_frame s) = w12 s" "qos (tx_frame s)" "frame_id (tx_frame s) = s"
  by (simp_all add: tx_frame_def)

text \<open>The code's state represents the window start \<open>W\<close>, the waiting numbers \<open>xs\<close> and the delivered
  numbers \<open>ds\<close>.\<close>

definition reorder_rel :: "nat \<Rightarrow> nat \<Rightarrow> nat list \<Rightarrow> nat list \<Rightarrow> reorder_ctrl \<Rightarrow> bool" where
  "reorder_rel n W xs ds c \<longleftrightarrow>
     enable c \<and> \<not> recv_ack_or_timeout c \<and> \<not> recv_reorder_wow c \<and>
     unat (wsize_b c) = n \<and> 1 \<le> n \<and> indicate_seq c = w12 W \<and>
     pending_recvframe_queue c = map tx_frame xs \<and> indicated c = map tx_frame ds \<and>
     sorted xs \<and> distinct xs \<and> (\<forall>x \<in> set xs. W < x \<and> x < W + n) \<and>
     sorted ds \<and> distinct ds \<and> (\<forall>x \<in> set ds. x < W)"

lemma enqueue_insort:
  assumes "sorted xs" "\<forall>x \<in> set xs. x < s + 2048 \<and> s \<le> x + 2048" "s \<notin> set xs"
  shows "enqueue_reorder_recvframe (map tx_frame xs) (tx_frame s) = Some (map tx_frame (insort s xs))"
  using assms by (induction xs) (auto simp: SN_LESS_w12 w12_eq_iff)


lemma indicate_loop_deliver:
  assumes "sorted ys" "distinct ys" "\<forall>y \<in> set ys. W < y + 2048 \<and> y \<le> W + 2048"
    "indicate_seq c = w12 W" "indicated c = map tx_frame ds" "abs_deliver W ys = (W', out, rest)"
  shows "\<exists>k. indicate_loop process (map tx_frame ys) c =
     (rest \<noteq> [], c\<lparr>indicate_seq := w12 W', pending_recvframe_queue := map tx_frame rest,
        indicated := map tx_frame (ds @ out), dbg_rx_drop_count := k\<rparr>)"
  using assms
proof (induction ys arbitrary: W c ds W' out rest)
  case Nil
  then show ?case by (intro exI [of _ "dbg_rx_drop_count c"]) simp
next
  case (Cons x xs)
  have lt: "SN_LESS (w12 W) (w12 x) \<longleftrightarrow> W < x" using Cons.prems(3) by (intro SN_LESS_w12) simp_all
  have eq: "w12 W = w12 x \<longleftrightarrow> W = x" using Cons.prems(3) by (intro w12_eq_iff) auto
  show ?case
  proof (cases "W < x")
    case True
    with Cons.prems lt show ?thesis
      by (intro exI [of _ "dbg_rx_drop_count c"]) auto
  next
    case False
    let ?W = "if W = x then Suc W else W"
    let ?c = "c\<lparr>indicate_seq := w12 ?W,
        dbg_rx_drop_count := (if process (tx_frame x) then dbg_rx_drop_count c else dbg_rx_drop_count c + 1),
        indicated := map tx_frame (ds @ [x])\<rparr>"
    obtain V o1 r1 where rec: "abs_deliver ?W xs = (V, o1, r1)" by (metis prod_cases3)
    have res: "W' = V" "out = x # o1" "rest = r1" using Cons.prems(6) rec False by (auto split: if_splits)
    have "\<forall>y \<in> set xs. ?W < y + 2048 \<and> y \<le> ?W + 2048"
      using Cons.prems(1,2,3) by fastforce
    then obtain k where "indicate_loop process (map tx_frame xs) ?c =
       (r1 \<noteq> [], ?c\<lparr>indicate_seq := w12 V, pending_recvframe_queue := map tx_frame r1,
          indicated := map tx_frame ((ds @ [x]) @ o1), dbg_rx_drop_count := k\<rparr>)"
      using Cons.IH [of ?W ?c "ds @ [x]" V o1 r1] Cons.prems(1,2) rec by auto
    moreover have "indicate_loop process (map tx_frame (x # xs)) c = indicate_loop process (map tx_frame xs) ?c"
      using lt eq False Cons.prems(4,5) by (simp add: w12_Suc)
    ultimately show ?thesis using res by (intro exI [of _ k]) simp
  qed
qed


lemma check_indicate_seq_rel:
  assumes "reorder_rel n W xs ds c" "W \<le> s" "s < W + 2048"
  shows "\<exists>k. check_indicate_seq c (w12 s) =
     (True, c\<lparr>indicate_seq := w12 (if s = W then W + 1 else max W (s + 1 - n)),
              dbg_rx_ampdu_window_shift_cnt := k\<rparr>)"
proof -
  from assms(1) have c: "indicate_seq c = w12 W" "unat (wsize_b c) = n" "1 \<le> n"
    by (simp_all add: reorder_rel_def)
  have n: "n \<le> 255" using c(2) unat_u8_le [of "wsize_b c"] by simp
  have old: "\<not> SN_LESS (w12 s) (w12 W)" using assms(2,3) by (subst SN_LESS_w12) simp_all
  have eq: "w12 s = w12 W \<longleftrightarrow> s = W" using assms(2,3) by (intro w12_eq_iff) simp_all
  have wend: "SN_LESS ((w12 W + ucast (wsize_b c) - 1) AND 0xFFF) (w12 s) \<longleftrightarrow> W + n - 1 < s"
    unfolding window_end [OF c(2,3)] using assms(2,3) n c(3) by (intro SN_LESS_w12) simp_all
  consider "s = W" | "s \<noteq> W" "s < W + n" | "W + n \<le> s" by linarith
  then show ?thesis
  proof cases
    case 1
    then show ?thesis
      using c old eq
      by (intro exI [of _ "dbg_rx_ampdu_window_shift_cnt c"])
        (simp add: check_indicate_seq_def Let_def w12_not_FFFF w12_Suc)
  next
    case 2
    then have "max W (s + 1 - n) = W" using assms(2) by simp
    with 2 show ?thesis
      using c old eq wend
      by (intro exI [of _ "dbg_rx_ampdu_window_shift_cnt c"])
        (simp add: check_indicate_seq_def Let_def w12_not_FFFF)
  next
    case 3
    then have m: "max W (s + 1 - n) = s + 1 - n" "W + n - 1 < s" "s \<noteq> W" using c(3) by simp_all
    have "n \<le> s" using 3 by simp
    note sh = window_shift [OF c(2,3) this]
    show ?thesis
      using c old eq wend m
      by (intro exI [of _ "dbg_rx_ampdu_window_shift_cnt c + 1"])
        (simp only: check_indicate_seq_def Let_def w12_not_FFFF sh if_False if_True m)
  qed
qed

lemma reorder_recv_step:
  assumes "reorder_rel n W xs ds c" and "W \<le> s" and "s < W + 2048" and "s \<notin> set xs"
    and "abs_recv n W xs s = (W', out, xs')"
  shows "\<exists>c'. recv_indicatepkt_reorder process (Some c) (tx_frame s) = (RTW_RX_HANDLED, Some c') \<and>
     reorder_rel n W' xs' (ds @ out) c'"
proof -
  let ?W = "if s = W then W + 1 else max W (s + 1 - n)"
  from assms(1) have c: "enable c" "\<not> recv_ack_or_timeout c" "\<not> recv_reorder_wow c" "1 \<le> n"
      "pending_recvframe_queue c = map tx_frame xs" "indicated c = map tx_frame ds" "sorted xs" "distinct xs"
      "\<forall>x \<in> set xs. W < x \<and> x < W + n" "n \<le> 255"
    using unat_u8_le [of "wsize_b c"] by (auto simp: reorder_rel_def)
  from check_indicate_seq_rel [OF assms(1-3)] obtain k where
    chk: "check_indicate_seq c (w12 s) = (True, c\<lparr>indicate_seq := w12 ?W, dbg_rx_ampdu_window_shift_cnt := k\<rparr>)"
    by blast
  have enq: "enqueue_reorder_recvframe (map tx_frame xs) (tx_frame s) = Some (map tx_frame (insort s xs))"
    using c assms(2-4) by (intro enqueue_insort) auto
  have ys: "sorted (insort s xs)" "distinct (insort s xs)"
      "\<forall>y \<in> set (insort s xs). ?W < y + 2048 \<and> y \<le> ?W + 2048"
    using c assms(2-4) by (auto simp: sorted_insort distinct_insort set_insort_key)
  have del: "abs_deliver ?W (insort s xs) = (W', out, xs')" using assms(5) by (simp add: abs_recv_def)
  let ?c = "c\<lparr>indicate_seq := w12 ?W, dbg_rx_ampdu_window_shift_cnt := k,
      pending_recvframe_queue := map tx_frame (insort s xs)\<rparr>"
  obtain k' where loop: "indicate_loop process (map tx_frame (insort s xs)) ?c =
     (xs' \<noteq> [], ?c\<lparr>indicate_seq := w12 W', pending_recvframe_queue := map tx_frame xs',
        indicated := map tx_frame (ds @ out), dbg_rx_drop_count := k'\<rparr>)"
    using indicate_loop_deliver [OF ys _ _ del, of ?c ds] c by auto
  note spec = abs_deliver_spec [OF del ys(1)]
  then have split: "out @ xs' = insort s xs" by simp
  have inv: "sorted xs' \<and> distinct xs' \<and> sorted out \<and> distinct out"
    using ys(1,2) unfolding split [symmetric] sorted_append distinct_append by simp
  have mem: "x \<in> set out \<or> x \<in> set xs' \<Longrightarrow> x = s \<or> x \<in> set xs" for x
    using arg_cong [OF split, of set] by (auto simp: set_insort_key)
  have "W \<le> ?W" using assms(2) by simp
  with spec have "\<forall>x \<in> set xs'. W' < x \<and> x < W' + n"
    using c(4,9) mem by (fastforce split: if_splits)
  moreover have "\<forall>x \<in> set out. W \<le> x \<and> x < W'" using spec mem c(9) assms(2) by fastforce
  ultimately show ?thesis
    using assms(1) chk enq loop c inv spec \<open>W \<le> ?W\<close>
    by (fastforce simp: recv_indicatepkt_reorder_def recv_indicatepkts_in_order_def reorder_rel_def Let_def
        sorted_append)
qed

text \<open>C1. Refinement: the reordering code, which computes with 12 bit sequence numbers, implements the
  buffer over unbounded sequence numbers, for every frame up to 2047 ahead of the window start that
  is not a duplicate. It is handled, the window start, the waiting frames and the delivered frames
  are those of the specification, and the invariant of the window is kept.\<close>

theorem recv_indicatepkt_reorder_refines:
  assumes "reorder_rel n W xs ds c" and "W \<le> s" and "s < W + 2048" and "s \<notin> set xs"
    and "abs_recv n W xs s = (W', out, xs')"
  shows "\<exists>c'. recv_indicatepkt_reorder process (Some c) (tx_frame s) = (RTW_RX_HANDLED, Some c') \<and>
     reorder_rel n W' xs' (ds @ out) c'"
  using assms by (rule reorder_recv_step)

definition ctrl0 :: reorder_ctrl where
  "ctrl0 = \<lparr>enable = True, indicate_seq = 0xFFFF, wsize_b = 64, pending_recvframe_queue = [],
     bReorderWaiting = False, timer_armed = False, recv_ack_or_timeout = False, recv_reorder_wow = False,
     rx_drop = 0, dbg_rx_drop_count = 0, dbg_rx_ampdu_drop_count = 0,
     dbg_rx_ampdu_forced_indicate_count = 0, dbg_rx_ampdu_loss_count = 0,
     dbg_rx_ampdu_window_shift_cnt = 0, indicated = []\<rparr>"

theorem recv_indicatepkt_reorder_refines_witness:
  "\<exists>c'. recv_indicatepkt_reorder (\<lambda>_. True)
       (Some (ctrl0\<lparr>indicate_seq := w12 4095, pending_recvframe_queue := [tx_frame 4096]\<rparr>)) (tx_frame 4095) =
     (RTW_RX_HANDLED, Some c') \<and> reorder_rel 64 4097 [] [4095, 4096] c'"
  using recv_indicatepkt_reorder_refines [of 64 4095 "[4096]" "[]"
      "ctrl0\<lparr>indicate_seq := w12 4095, pending_recvframe_queue := [tx_frame 4096]\<rparr>" 4095 4097 "[4095, 4096]" "[]"
      "\<lambda>_. True"]
  by (simp add: reorder_rel_def ctrl0_def abs_recv_def)



text \<open>The timer gives up on the missing frames in front of the first waiting one.\<close>

lemma reorder_timeout_step:
  assumes "reorder_rel n W (x # xs) ds c" "abs_deliver x (x # xs) = (W', out, xs')"
  shows "\<exists>c'. rtw_reordering_ctrl_timeout_handler process False c = c' \<and> reorder_rel n W' xs' (ds @ out) c' \<and>
     x \<in> set out \<and> (timer_armed c' \<longleftrightarrow> xs' \<noteq> [])"
proof -
  let ?ys = "x # xs"
  from assms(1) have c: "pending_recvframe_queue c = map tx_frame ?ys" "indicated c = map tx_frame ds"
      "sorted ?ys" "distinct ?ys" "\<forall>y \<in> set ?ys. W < y \<and> y < W + n" "n \<le> 255" "indicate_seq c = w12 W"
    using unat_u8_le [of "wsize_b c"] by (auto simp: reorder_rel_def)
  define c1 where "c1 = recv_indicatepkts_pkt_loss_cnt
      (c\<lparr>timer_armed := False, bReorderWaiting := False,
         dbg_rx_ampdu_forced_indicate_count := dbg_rx_ampdu_forced_indicate_count c + 1\<rparr>)
      (ucast (w12 W)) (ucast (w12 x))"
  let ?c = "c1\<lparr>indicate_seq := w12 x\<rparr>"
  have c1: "indicated c1 = map tx_frame ds" "wsize_b c1 = wsize_b c" "enable c1 = enable c" "timer_armed c1 = False"
      "recv_ack_or_timeout c1 = recv_ack_or_timeout c" "recv_reorder_wow c1 = recv_reorder_wow c"
    using c by (simp_all add: c1_def recv_indicatepkts_pkt_loss_cnt_def Let_def)
  have bounds: "\<forall>y \<in> set ?ys. x < y + 2048 \<and> y \<le> x + 2048" using c(3,5,6) by fastforce
  obtain k where loop: "indicate_loop process (map tx_frame ?ys) ?c =
     (xs' \<noteq> [], ?c\<lparr>indicate_seq := w12 W', pending_recvframe_queue := map tx_frame xs',
        indicated := map tx_frame (ds @ out), dbg_rx_drop_count := k\<rparr>)"
    using indicate_loop_deliver [OF c(3,4) bounds _ _ assms(2), of ?c ds] c1 by auto
  note spec = abs_deliver_spec [OF assms(2) c(3)]
  then have split: "out @ xs' = ?ys" by simp
  have inv: "sorted xs' \<and> distinct xs' \<and> sorted out \<and> distinct out"
    using c(3,4) unfolding split [symmetric] sorted_append distinct_append by simp
  have mem: "y \<in> set out \<or> y \<in> set xs' \<Longrightarrow> y \<in> set ?ys" for y
    using arg_cong [OF split, of set] by auto
  obtain o1 where out: "out = x # o1"
    using assms(2) by (cases "abs_deliver (x + 1) xs") auto
  have w: "\<forall>y \<in> set xs'. W' < y" "\<forall>y \<in> set out. y < W'" "x < W'" using spec out by auto
  have "\<forall>y \<in> set out. W < y" "\<forall>y \<in> set xs'. y < W + n" using mem c(5) by blast+
  with w out have fin: "\<forall>y \<in> set xs'. W' < y \<and> y < W' + n" "\<forall>y \<in> set out. W < y \<and> y < W'" "W < W'"
    by fastforce+
  define c' where "c' = (?c\<lparr>indicate_seq := w12 W', pending_recvframe_queue := map tx_frame xs',
        indicated := map tx_frame (ds @ out), dbg_rx_drop_count := k, timer_armed := xs' \<noteq> []\<rparr>)"
  have "rtw_reordering_ctrl_timeout_handler process False c = c'"
    using loop c c1(4) by (cases xs')
      (simp_all add: rtw_reordering_ctrl_timeout_handler_def recv_indicatepkts_in_order_def Let_def c1_def c'_def
        recv_indicatepkts_pkt_loss_cnt_def)
  moreover have "sorted (ds @ out)" "distinct (ds @ out)" "\<forall>y \<in> set (ds @ out). y < W'"
    using assms(1) inv fin unfolding reorder_rel_def sorted_append distinct_append by fastforce+
  then have "reorder_rel n W' xs' (ds @ out) c'"
    using assms(1) inv fin(1) c1 by (simp add: reorder_rel_def c'_def)
  ultimately show ?thesis using out by (simp add: c'_def)
qed

section \<open>Runs\<close>


text \<open>A run of the buffer of one traffic identifier with window size \<open>n\<close>. The ghost \<open>W\<close> is the window start as an
  unbounded number, \<open>sent\<close> the numbers that arrived so far, in the order of their arrival. A frame that arrives is less than
  half the sequence space away from the window start, the condition under which 12 bits identify it. The
  timer can fire at any time.\<close>

inductive reorder_run :: "(recv_frame \<Rightarrow> bool) \<Rightarrow> nat \<Rightarrow> nat \<Rightarrow> nat list \<Rightarrow> reorder_ctrl \<Rightarrow> bool"
  for process n where
  start: "enable c \<Longrightarrow> \<not> recv_ack_or_timeout c \<Longrightarrow> \<not> recv_reorder_wow c \<Longrightarrow> unat (wsize_b c) = n \<Longrightarrow> 1 \<le> n \<Longrightarrow>
     indicate_seq c = 0xFFFF \<Longrightarrow> pending_recvframe_queue c = [] \<Longrightarrow> indicated c = [] \<Longrightarrow>
     recv_indicatepkt_reorder process (Some c) (tx_frame s) = (r, Some c') \<Longrightarrow>
     reorder_run process n (Suc s) [s] c'"
| arrive: "reorder_run process n W sent c \<Longrightarrow> W \<le> s + 2048 \<Longrightarrow> s < W + 2048 \<Longrightarrow>
     recv_indicatepkt_reorder process (Some c) (tx_frame s) = (r, Some c') \<Longrightarrow>
     indicate_seq c' = w12 W' \<Longrightarrow> W \<le> W' \<Longrightarrow> W' \<le> W + 2048 \<Longrightarrow>
     reorder_run process n W' (sent @ [s]) c'"
| timeout: "reorder_run process n W sent c \<Longrightarrow>
     rtw_reordering_ctrl_timeout_handler process False c = c' \<Longrightarrow>
     indicate_seq c' = w12 W' \<Longrightarrow> W \<le> W' \<Longrightarrow> W' \<le> W + 2048 \<Longrightarrow>
     reorder_run process n W' sent c'"

inductive_cases reorder_runE: "reorder_run process n W sent c"












text \<open>The timer: frames wait only while it is armed. This holds for arbitrary frames and states.\<close>

definition timer_inv :: "reorder_ctrl \<Rightarrow> bool" where
  "timer_inv c \<longleftrightarrow> (pending_recvframe_queue c \<noteq> [] \<longrightarrow> timer_armed c) \<and> (bReorderWaiting c \<longrightarrow> timer_armed c)"

lemma indicate_loop_frame:
  "indicate_loop process fs c = (b, c') \<Longrightarrow>
     (b \<longleftrightarrow> pending_recvframe_queue c' \<noteq> []) \<and> timer_armed c' = timer_armed c \<and>
     bReorderWaiting c' = bReorderWaiting c"
  by (induction fs arbitrary: c) (auto split: if_splits)

lemma check_indicate_seq_frame:
  "check_indicate_seq c seq = (b, c') \<Longrightarrow>
     pending_recvframe_queue c' = pending_recvframe_queue c \<and> timer_armed c' = timer_armed c \<and>
     bReorderWaiting c' = bReorderWaiting c"
  by (auto simp: check_indicate_seq_def Let_def split: if_splits)

text \<open>No frame is left behind without a timer: whatever frame arrives in whatever state, and
  whenever the timer fires, afterwards the timer is armed if frames wait.\<close>

theorem reorder_timer_armed:
  assumes "timer_inv c"
  shows "pred_option timer_inv (snd (recv_indicatepkt_reorder process (Some c) f)) \<and>
     timer_inv (rtw_reordering_ctrl_timeout_handler process False c)"
proof
  define c1 where "c1 = (let c = (if recv_ack_or_timeout c then c\<lparr>recv_ack_or_timeout := False, indicate_seq := 0xFFFF\<rparr> else c)
     in if recv_reorder_wow c then c\<lparr>recv_reorder_wow := False, indicate_seq := 0xFFFF\<rparr> else c)"
  have c1: "pending_recvframe_queue c1 = pending_recvframe_queue c" "timer_armed c1 = timer_armed c"
      "bReorderWaiting c1 = bReorderWaiting c"
    by (simp_all add: c1_def Let_def)
  obtain ok c2 where chk: "check_indicate_seq c1 (seq_num f) = (ok, c2)" by (cases "check_indicate_seq c1 (seq_num f)")
  note c2 = check_indicate_seq_frame [OF chk]
  show "pred_option timer_inv (snd (recv_indicatepkt_reorder process (Some c) f))"
  proof (cases "qos f \<and> enable c \<and> ok")
    case True
    show ?thesis
    proof (cases "enqueue_reorder_recvframe (pending_recvframe_queue c2) f")
      case None
      with True chk c1 c2 assms show ?thesis
        by (simp add: recv_indicatepkt_reorder_def timer_inv_def Let_def flip: c1_def [unfolded Let_def])
    next
      case (Some q)
      obtain b c3 where loop: "indicate_loop process q (c2\<lparr>pending_recvframe_queue := q\<rparr>) = (b, c3)"
        by (cases "indicate_loop process q (c2\<lparr>pending_recvframe_queue := q\<rparr>)")
      from True chk Some loop indicate_loop_frame [OF loop] c1 c2 assms show ?thesis
        by (simp add: recv_indicatepkt_reorder_def recv_indicatepkts_in_order_def timer_inv_def Let_def
            flip: c1_def [unfolded Let_def])
    qed
  next
    case False
    with chk c1 c2 assms show ?thesis
      by (auto simp: recv_indicatepkt_reorder_def timer_inv_def Let_def simp flip: c1_def [unfolded Let_def])
  qed
  show "timer_inv (rtw_reordering_ctrl_timeout_handler process False c)"
    by (auto simp: rtw_reordering_ctrl_timeout_handler_def recv_indicatepkts_in_order_def timer_inv_def Let_def
        recv_indicatepkts_pkt_loss_cnt_def split: list.splits prod.splits dest!: indicate_loop_frame)
qed

theorem reorder_timer_armed_witness:
  "pred_option timer_inv (snd (recv_indicatepkt_reorder (\<lambda>_. True) (Some ctrl0) (tx_frame 5))) \<and>
     timer_inv (rtw_reordering_ctrl_timeout_handler (\<lambda>_. True) False ctrl0)"
  by (rule reorder_timer_armed) (simp add: timer_inv_def ctrl0_def)

text \<open>C30. When frames wait, the timer hands up at least the first of them and moves the window
  behind it, and it is armed again exactly when others still wait.\<close>

theorem reorder_timeout_progress:
  assumes "reorder_rel n W (x # xs) ds c"
  shows "\<exists>W' out xs'. reorder_rel n W' xs' (ds @ x # out) (rtw_reordering_ctrl_timeout_handler process False c) \<and>
     x < W' \<and> x # out @ xs' = x # xs \<and>
     (timer_armed (rtw_reordering_ctrl_timeout_handler process False c) \<longleftrightarrow> xs' \<noteq> [])"
proof -
  obtain W' out xs' where abs: "abs_deliver (x + 1) xs = (W', out, xs')" by (metis prod_cases3)
  then have del: "abs_deliver x (x # xs) = (W', x # out, xs')" by simp
  have srt: "sorted (x # xs)" using assms by (simp add: reorder_rel_def)
  from reorder_timeout_step [OF assms del, of process] abs_deliver_spec [OF del srt] show ?thesis by auto
qed

theorem reorder_timeout_progress_witness:
  "\<exists>W' out xs'. reorder_rel 64 W' xs' ([] @ 7 # out) (rtw_reordering_ctrl_timeout_handler (\<lambda>_. True) False
       (ctrl0\<lparr>indicate_seq := w12 5, pending_recvframe_queue := [tx_frame 7, tx_frame 9]\<rparr>)) \<and>
     7 < W' \<and> 7 # out @ xs' = 7 # [9]"
  using reorder_timeout_progress [of 64 5 7 "[9]" "[]"
      "ctrl0\<lparr>indicate_seq := w12 5, pending_recvframe_queue := [tx_frame 7, tx_frame 9]\<rparr>" "\<lambda>_. True"]
  by (fastforce simp: reorder_rel_def ctrl0_def)

text \<open>The handler re-arms the timer when no frame waits at all: the forced indication reports an
  empty queue as if frames were left, so that the timer keeps firing.\<close>

theorem reorder_timeout_empty_rearms:
  "timer_armed (rtw_reordering_ctrl_timeout_handler process False (c\<lparr>pending_recvframe_queue := []\<rparr>))"
  by (simp add: rtw_reordering_ctrl_timeout_handler_def recv_indicatepkts_in_order_def Let_def)

end
