(* ===== verification/Sec_Wep.thy ===== *)
theory Sec_Wep
  imports Prelude "HOL-Library.Multiset"
begin

text \<open>
  The software WEP of \<open>core/rtw_security.c\<close>: the ARC4 cipher, the CRC-32 of the integrity check
  value, and the encryption and decryption of frames. The interface \<open>stream_cipher\<close> states what a
  byte-wise stream cipher gives its clients; ARC4 is its instance, and the frame theorems of WEP and
  TKIP rest on it.
\<close>

section \<open>ARC4\<close>

record arc4context =
  arc_x :: u32
  arc_y :: u32
  arc_state :: bytes

definition idx :: "u32 \<Rightarrow> nat" where "idx w = unat (w AND 0xff)"

text \<open>The second loop of \<open>arcfour_init\<close>, with \<open>n\<close> turns to go. An access past the key is a memory
  error.\<close>

primrec arcfour_init_loop ::
    "nat \<Rightarrow> bytes \<Rightarrow> nat \<Rightarrow> nat \<Rightarrow> nat \<Rightarrow> u32 \<Rightarrow> bytes \<Rightarrow> bytes option" where
  "arcfour_init_loop 0 key key_len counter keyindex stateindex st = Some st"
| "arcfour_init_loop (Suc n) key key_len counter keyindex stateindex st = do {
     k \<leftarrow> rd key keyindex;
     let t = st ! counter;
     let si = (stateindex + ucast k + ucast t) AND 0xff;
     let u = st ! idx si;
     arcfour_init_loop n key key_len (counter + 1)
       (if keyindex + 1 \<ge> key_len then 0 else keyindex + 1) si
       (st[idx si := t, counter := u]) }"

definition arcfour_init :: "bytes \<Rightarrow> nat \<Rightarrow> arc4context option" where
  "arcfour_init key key_len = do {
     st \<leftarrow> arcfour_init_loop 256 key key_len 0 0 0 (map of_nat [0..<256]);
     Some \<lparr>arc_x = 0, arc_y = 0, arc_state = st\<rparr> }"

definition arcfour_byte :: "arc4context \<Rightarrow> u8 \<times> arc4context" where
  "arcfour_byte c =
     (let x = (arc_x c + 1) AND 0xff;
          sx = arc_state c ! idx x;
          y = (ucast sx + arc_y c) AND 0xff;
          sy = arc_state c ! idx y;
          st = (arc_state c)[idx y := sx, idx x := sy] in
      (st ! idx (ucast sx + ucast sy), \<lparr>arc_x = x, arc_y = y, arc_state = st\<rparr>))"

primrec arcfour_encrypt :: "bytes \<Rightarrow> arc4context \<Rightarrow> bytes \<times> arc4context" where
  "arcfour_encrypt [] c = ([], c)"
| "arcfour_encrypt (b # bs) c =
     (let (k, c1) = arcfour_byte c; (ds, c2) = arcfour_encrypt bs c1 in ((b XOR k) # ds, c2))"

section \<open>CRC-32\<close>

definition crc32_reverseBit :: "u8 \<Rightarrow> u8" where
  "crc32_reverseBit d =
     (push_bit 7 d AND 0x80) OR (push_bit 5 d AND 0x40) OR (push_bit 3 d AND 0x20) OR (push_bit 1 d AND 0x10) OR
     (drop_bit 1 d AND 0x08) OR (drop_bit 3 d AND 0x04) OR (drop_bit 5 d AND 0x02) OR (drop_bit 7 d AND 0x01)"

abbreviation CRC32_POLY :: u32 where "CRC32_POLY \<equiv> 0x04c11db7"

definition crc32_shift :: "u32 \<Rightarrow> u32" where
  "crc32_shift c = (if c AND 0x80000000 \<noteq> 0 then push_bit 1 c XOR CRC32_POLY else push_bit 1 c)"

text \<open>One entry of the table that \<open>crc32_init\<close> fills: the bytes of the shifted word in reverse order,
  each bit-reversed.\<close>

definition crc32_entry :: "nat \<Rightarrow> u32" where
  "crc32_entry i =
     (let k = crc32_reverseBit (of_nat i);
          c = (crc32_shift ^^ 8) (push_bit 24 (ucast k)) in
      ucast (crc32_reverseBit (ucast (drop_bit 24 c))) OR
      push_bit 8 (ucast (crc32_reverseBit (ucast (drop_bit 16 c)))) OR
      push_bit 16 (ucast (crc32_reverseBit (ucast (drop_bit 8 c)))) OR
      push_bit 24 (ucast (crc32_reverseBit (ucast c))))"

definition crc32_table :: "u32 list" where "crc32_table = map crc32_entry [0..<256]"

definition getcrc32 :: "bytes \<Rightarrow> u32" where
  "getcrc32 buf =
     NOT (foldl (\<lambda>crc b. crc32_table ! unat ((crc XOR ucast b) AND 0xff) XOR drop_bit 8 crc) 0xffffffff buf)"

definition le32_bytes :: "u32 \<Rightarrow> bytes" where
  "le32_bytes w = [ucast w, ucast (drop_bit 8 w), ucast (drop_bit 16 w), ucast (drop_bit 24 w)]"

section \<open>Frames\<close>

text \<open>The attributes of a frame that the ciphers use; lengths are those of \<open>struct pkt_attrib\<close> and
  \<open>struct rx_pkt_attrib\<close>.\<close>

datatype security_type =
    NO_PRIVACY | WEP40 | TKIP | TKIP_WTMIC | AES | WEP104 | SMS4 | GCMP | BIP_CMAC_128 | BIP_GMAC_128
  | CCMP_256 | GCMP_256 | BIP_CMAC_256 | BIP_GMAC_256

record frame_attrib =
  encrypt :: security_type
  hdrlen :: nat
  iv_len :: nat
  icv_len :: nat
  nr_frags :: nat
  last_txcmdsz :: nat
  key_index :: nat
  at_ra :: bytes
  at_ta :: bytes

record wep_keys =
  dot11PrivacyKeyIndex :: nat
  dot11DefKey :: "bytes list"
  dot11DefKeylen :: "nat list"

text \<open>The 16 byte buffer \<open>wepkey\<close>: three bytes of the frame's IV, then the default key. A longer key
  does not fit.\<close>

definition wep_key_buf :: "wep_keys \<Rightarrow> nat \<Rightarrow> bytes \<Rightarrow> nat \<Rightarrow> (bytes \<times> nat) option" where
  "wep_key_buf ks i m iv = do {
     if i < length (dot11DefKeylen ks) \<and> i < length (dot11DefKey ks) then do {
       let keylength = dot11DefKeylen ks ! i;
       wepkey \<leftarrow> memcpy (replicate 16 0) 0 m iv 3;
       wepkey \<leftarrow> memcpy wepkey 3 (dot11DefKey ks ! i) 0 keylength;
       Some (wepkey, 3 + keylength) }
     else None }"

text \<open>Encryption of \<open>len\<close> bytes in place, followed by the encrypted CRC. A negative length is a huge
  one for the cipher loop.\<close>

definition arc4_protect :: "bytes \<Rightarrow> nat \<Rightarrow> int \<Rightarrow> bytes \<Rightarrow> nat \<Rightarrow> bytes option" where
  "arc4_protect m payload len key key_len = do {
     if len < 0 then None
     else do {
       plain \<leftarrow> rd_n m payload (nat len);
       ctx \<leftarrow> arcfour_init key key_len;
       let crc = le32_bytes (getcrc32 plain);
       let (body, ctx) = arcfour_encrypt plain ctx;
       m1 \<leftarrow> wr_n m payload body;
       wr_n m1 (payload + nat len) (fst (arcfour_encrypt crc ctx)) } }"

text \<open>The loop over the fragments. \<open>RND4\<close> rounds the address of the next fragment up, so that the
  address of the buffer matters.\<close>

definition RND4 :: "nat \<Rightarrow> nat" where
  "RND4 x = (x div 4 + (if x mod 4 = 0 then 0 else 1)) * 4"

primrec frag_loop ::
    "(bytes \<Rightarrow> nat \<Rightarrow> (bytes \<times> nat) option) \<Rightarrow> nat \<Rightarrow> frame_attrib \<Rightarrow> nat \<Rightarrow> nat \<Rightarrow> bytes \<Rightarrow> nat \<Rightarrow> bytes option" where
  "frag_loop mkkey base a frag_len 0 m pframe = Some m"
| "frag_loop mkkey base a frag_len (Suc n) m pframe = do {
     (key, key_len) \<leftarrow> mkkey m (pframe + hdrlen a);
     let payload = pframe + iv_len a + hdrlen a;
     let cmdsz = (if n = 0 then last_txcmdsz a else frag_len);
     let len = int cmdsz - int (hdrlen a) - int (iv_len a) - int (icv_len a);
     m1 \<leftarrow> arc4_protect m payload len key key_len;
     frag_loop mkkey base a frag_len n m1 (RND4 (base + pframe + frag_len) - base) }"

definition TXDESC_SIZE :: nat where "TXDESC_SIZE = 40"
definition PACKET_OFFSET_SZ :: nat where "PACKET_OFFSET_SZ = 8"

text \<open>The offset of the frame behind the descriptor is kept in a \<open>u8\<close>.\<close>

definition hw_hdr_offset :: "nat \<Rightarrow> nat" where
  "hw_hdr_offset pkt_offset = (TXDESC_SIZE + pkt_offset * PACKET_OFFSET_SZ) mod 256"

definition rtw_wep_encrypt ::
    "wep_keys \<Rightarrow> nat \<Rightarrow> nat \<Rightarrow> nat \<Rightarrow> frame_attrib \<Rightarrow> bytes option \<Rightarrow> bytes option option" where
  "rtw_wep_encrypt ks base frag_len pkt_offset a buf_addr =
     (case buf_addr of
        None \<Rightarrow> Some None
      | Some m \<Rightarrow>
          if encrypt a = WEP40 \<or> encrypt a = WEP104 then
            map_option Some (frag_loop (wep_key_buf ks (dot11PrivacyKeyIndex ks)) base a frag_len (nr_frags a) m
              (hw_hdr_offset pkt_offset))
          else Some (Some m))"

text \<open>Decryption in place of everything behind the IV. The computed CRC is stored in a local variable
  that nothing reads.\<close>

definition rtw_wep_decrypt :: "wep_keys \<Rightarrow> frame_attrib \<Rightarrow> bytes \<Rightarrow> nat \<Rightarrow> bytes option" where
  "rtw_wep_decrypt ks a m len =
     (if encrypt a = WEP40 \<or> encrypt a = WEP104 then do {
        (key, key_len) \<leftarrow> wep_key_buf ks (key_index a) m (hdrlen a);
        if len < hdrlen a + iv_len a then None
        else do {
          let payload = iv_len a + hdrlen a;
          enc \<leftarrow> rd_n m payload (len - hdrlen a - iv_len a);
          ctx \<leftarrow> arcfour_init key key_len;
          wr_n m payload (fst (arcfour_encrypt enc ctx)) } }
      else Some m)"

section \<open>Stream ciphers\<close>

text \<open>A cipher that combines each byte with the next key byte of a generator.\<close>

locale stream_cipher =
  fixes next_key :: "'s \<Rightarrow> u8 \<times> 's"
    and crypt :: "bytes \<Rightarrow> 's \<Rightarrow> bytes \<times> 's"
  assumes crypt_Nil: "crypt [] s = ([], s)"
    and crypt_Cons: "crypt (b # bs) s =
          (let (k, s1) = next_key s; (ds, s2) = crypt bs s1 in ((b XOR k) # ds, s2))"
begin

lemma crypt_length [simp]: "length (fst (crypt bs s)) = length bs"
  by (induction bs arbitrary: s) (simp_all add: crypt_Nil crypt_Cons case_prod_beta)

text \<open>The state after a message depends on its length only.\<close>

lemma crypt_state: "length bs = length cs \<Longrightarrow> snd (crypt bs s) = snd (crypt cs s)"
  by (induction bs cs arbitrary: s rule: list_induct2) (simp_all add: crypt_Nil crypt_Cons case_prod_beta)

lemma crypt_append:
  "crypt (xs @ ys) s =
     (fst (crypt xs s) @ fst (crypt ys (snd (crypt xs s))), snd (crypt ys (snd (crypt xs s))))"
  by (induction xs arbitrary: s) (simp_all add: crypt_Nil crypt_Cons case_prod_beta)

text \<open>Decryption is encryption from the same state.\<close>

lemma crypt_involution: "fst (crypt (fst (crypt bs s)) s) = bs"
  by (induction bs arbitrary: s) (simp_all add: crypt_Nil crypt_Cons case_prod_beta xor.assoc)

lemma crypt_split:
  "fst (crypt (fst (crypt xs s) @ fst (crypt ys (snd (crypt xs s)))) s) = xs @ ys"
  using crypt_involution [of "xs @ ys" s] by (simp add: crypt_append)

end

interpretation arc4: stream_cipher arcfour_byte arcfour_encrypt
  by unfold_locales simp_all

section \<open>The state of ARC4 stays a permutation\<close>

definition all_bytes :: bytes where "all_bytes = map of_nat [0..<256]"

definition arc4_perm :: "bytes \<Rightarrow> bool" where
  "arc4_perm st \<longleftrightarrow> mset st = mset all_bytes"

lemma idx_less [simp]: "idx w < 256"
proof -
  have "w AND 0xff = take_bit 8 w" by (simp add: take_bit_eq_mask mask_eq_exp_minus_1)
  then have "idx w = take_bit 8 (unat w)" by (simp add: idx_def unsigned_take_bit_eq)
  then show ?thesis by (simp add: take_bit_eq_mod)
qed

lemma arc4_perm_length: "arc4_perm st \<Longrightarrow> length st = 256"
  unfolding arc4_perm_def all_bytes_def by (drule mset_eq_length) simp

lemma swap_perm:
  assumes "arc4_perm st" "i < 256" "j < 256"
  shows "arc4_perm (st[j := st ! i, i := st ! j])"
  using assms arc4_perm_length [OF assms(1)] unfolding arc4_perm_def by (simp add: mset_swap)

lemma arcfour_init_loop_perm:
  "arc4_perm st \<Longrightarrow> counter + n \<le> 256 \<Longrightarrow>
     arcfour_init_loop n key key_len counter ki si st = Some st' \<Longrightarrow> arc4_perm st'"
proof (induction n arbitrary: counter ki si st)
  case (Suc n)
  from Suc.prems(3) show ?case
    by (auto simp: Option.bind_eq_Some_conv Let_def intro!: Suc.IH [rotated 2] swap_perm Suc.prems(1))
      (use Suc.prems(2) in auto)
qed simp

lemma arcfour_init_total:
  assumes "0 < key_len" "key_len \<le> length key"
  shows "\<exists>c0. arcfour_init key key_len = Some c0"
proof -
  have "\<exists>st'. arcfour_init_loop n key key_len counter ki si st = Some st'" if "ki < key_len" for n counter ki si st
    using that assms
  proof (induction n arbitrary: counter ki si st)
    case (Suc n)
    have "rd key ki = Some (key ! ki)" using Suc.prems by (simp add: rd_in)
    with Suc show ?case by (simp add: Let_def)
  qed simp
  from this [of 0 256 0 0 "map of_nat [0..<256]"] assms(1) show ?thesis by (auto simp: arcfour_init_def)
qed

text \<open>The ARC4 state is always a permutation of the 256 bytes: key setup makes one for every key
  inside the buffer, and producing a key byte keeps it.\<close>

theorem arcfour_permutation:
  assumes "0 < key_len" and "key_len \<le> length key" and "arc4_perm (arc_state c)"
  shows "(\<exists>c0. arcfour_init key key_len = Some c0 \<and> arc4_perm (arc_state c0)) \<and>
     arc4_perm (arc_state (snd (arcfour_byte c)))"
proof
  obtain c0 where c0: "arcfour_init key key_len = Some c0" using arcfour_init_total assms(1,2) by blast
  moreover have "arc4_perm (map of_nat [0..<256])" by (simp add: arc4_perm_def all_bytes_def)
  ultimately show "\<exists>c0. arcfour_init key key_len = Some c0 \<and> arc4_perm (arc_state c0)"
    using arcfour_init_loop_perm [of "map of_nat [0..<256]" 0 256]
    by (auto simp: arcfour_init_def Option.bind_eq_Some_conv)
  show "arc4_perm (arc_state (snd (arcfour_byte c)))"
    using assms(3) by (simp add: arcfour_byte_def Let_def swap_perm)
qed

theorem arcfour_permutation_witness:
  "\<exists>c0. arcfour_init [1, 2, 3, 4, 5] 5 = Some c0 \<and> arc4_perm (arc_state c0)"
  using arcfour_permutation [of 5 "[1, 2, 3, 4, 5]" "\<lparr>arc_x = 0, arc_y = 0, arc_state = all_bytes\<rparr>"]
  by (simp add: arc4_perm_def)


section \<open>The table-driven CRC is the bit-wise CRC\<close>

text \<open>The reference: CRC-32 with the reflected polynomial, one bit at a time.\<close>

definition crc_bit :: "u32 \<Rightarrow> u32" where
  "crc_bit c = drop_bit 1 c XOR (if bit c 0 then 0xEDB88320 else 0)"

definition crc32_ref :: "bytes \<Rightarrow> u32" where
  "crc32_ref buf = NOT (foldl (\<lambda>c b. (crc_bit ^^ 8) (c XOR ucast b)) 0xffffffff buf)"

lemma crc_bit_xor: "crc_bit (a XOR b) = crc_bit a XOR crc_bit b"
  by (rule bit_word_eqI) (auto simp: crc_bit_def bit_simps)

lemma crc_bits_xor: "(crc_bit ^^ n) (a XOR b) = (crc_bit ^^ n) a XOR (crc_bit ^^ n) b"
  by (induction n) (simp_all add: crc_bit_xor)

lemma crc_bits_high:
  assumes "\<forall>i < n. \<not> bit c i"
  shows "(crc_bit ^^ n) c = drop_bit n c"
  using assms
proof (induction n arbitrary: c)
  case (Suc n)
  then have "crc_bit c = drop_bit 1 c" by (simp add: crc_bit_def)
  moreover have "\<forall>i < n. \<not> bit (drop_bit 1 c) i" using Suc.prems by (simp add: bit_simps)
  ultimately show ?case using Suc.IH [of "drop_bit 1 c"]
    by (simp add: funpow_Suc_right del: funpow.simps)
qed simp

text \<open>The table entries are built with the unreflected polynomial on bit-reversed words.\<close>

definition rev32 :: "u32 \<Rightarrow> u32" where
  "rev32 c =
     ucast (crc32_reverseBit (ucast (drop_bit 24 c))) OR
     push_bit 8 (ucast (crc32_reverseBit (ucast (drop_bit 16 c)))) OR
     push_bit 16 (ucast (crc32_reverseBit (ucast (drop_bit 8 c)))) OR
     push_bit 24 (ucast (crc32_reverseBit (ucast c)))"

lemma less_8: "i < (8 :: nat) \<longleftrightarrow> i = 0 \<or> i = 1 \<or> i = 2 \<or> i = 3 \<or> i = 4 \<or> i = 5 \<or> i = 6 \<or> i = 7"
  by auto

lemma bit_times_2: "bit (c * 2 :: 'a :: len word) n \<longleftrightarrow> 0 < n \<and> n < LENGTH('a) \<and> bit c (n - 1)"
proof -
  have "c * 2 = push_bit 1 c" by simp
  then show ?thesis by (simp only: bit_simps) auto
qed

lemma bit_reverseBit: "bit (crc32_reverseBit d) i \<longleftrightarrow> i < 8 \<and> bit d (7 - i)"
proof (cases "i < 8")
  case True
  then show ?thesis unfolding less_8 crc32_reverseBit_def by (elim disjE) (simp_all add: bit_simps bit_times_2)
next
  case False
  then show ?thesis by (auto dest: bit_imp_le_length)
qed

lemma bit_rev32: "bit (rev32 c) i \<longleftrightarrow> i < 32 \<and> bit c (31 - i)"
proof -
  consider "i < 8" | "8 \<le> i" "i < 16" | "16 \<le> i" "i < 24" | "24 \<le> i" "i < 32" | "32 \<le> i" by linarith
  then show ?thesis
  proof cases
    case 1
    then have "24 + (7 - i) = 31 - i" by simp
    with 1 show ?thesis by (auto simp: rev32_def bit_simps bit_reverseBit)
  next
    case 2
    then have "16 + (7 - (i - 8)) = 31 - i" by simp
    with 2 show ?thesis by (auto simp: rev32_def bit_simps bit_reverseBit)
  next
    case 3
    then have "8 + (7 - (i - 16)) = 31 - i" by simp
    with 3 show ?thesis by (auto simp: rev32_def bit_simps bit_reverseBit)
  next
    case 4
    then have "7 - (i - 24) = 31 - i" by simp
    with 4 show ?thesis by (auto simp: rev32_def bit_simps bit_reverseBit)
  next
    case 5
    then show ?thesis by (auto dest: bit_imp_le_length)
  qed
qed

lemma rev32_xor: "rev32 (a XOR b) = rev32 a XOR rev32 b"
  by (rule bit_word_eqI) (simp add: bit_simps bit_rev32)

lemma rev32_push: "rev32 (c * 2) = drop_bit (Suc 0) (rev32 c)"
  by (rule bit_word_eqI) (auto simp: bit_simps bit_rev32 bit_times_2)

lemma rev32_poly: "rev32 CRC32_POLY = 0xEDB88320"
  by (simp add: rev32_def crc32_reverseBit_def)

lemma crc32_shift_rev: "rev32 (crc32_shift c) = crc_bit (rev32 c)"
proof -
  have "(c AND 0x80000000 \<noteq> 0) = bit c 31"
    using and_exp_eq_0_iff_not_bit [of c 31] by simp
  moreover have "bit (rev32 c) 0 = bit c 31" by (simp add: bit_rev32)
  ultimately show ?thesis by (simp add: crc32_shift_def crc_bit_def rev32_xor rev32_push rev32_poly)
qed

lemma crc32_shifts_rev: "rev32 ((crc32_shift ^^ n) c) = (crc_bit ^^ n) (rev32 c)"
  by (induction n) (simp_all add: crc32_shift_rev)

lemma rev32_start: "rev32 (push_bit 24 (ucast (crc32_reverseBit d))) = ucast d"
proof (rule bit_word_eqI)
  fix n :: nat
  assume n: "n < LENGTH(32)"
  show "bit (rev32 (push_bit 24 (ucast (crc32_reverseBit d)))) n = bit (ucast d :: u32) n"
  proof (cases "n < 8")
    case True
    then have "31 - n - 24 = 7 - n" "7 - (7 - n) = n" by simp_all
    with True show ?thesis by (auto simp: bit_rev32 bit_simps bit_reverseBit)
  next
    case False
    then have "\<not> 24 \<le> 31 - n" by simp
    with False show ?thesis by (auto simp: bit_rev32 bit_simps dest: bit_imp_le_length)
  qed
qed

lemma crc32_table_ref:
  "i < 256 \<Longrightarrow> crc32_table ! i = (crc_bit ^^ 8) (ucast (of_nat i :: u8))"
  by (simp add: crc32_table_def crc32_entry_def Let_def crc32_shifts_rev rev32_start del: funpow.simps
      flip: rev32_def)


lemma and_ff: "(w :: u32) AND 0xff = ucast (ucast w :: u8)"
proof -
  have "w AND 0xff = take_bit 8 w" by (simp add: take_bit_eq_mask mask_eq_exp_minus_1)
  moreover have "take_bit 8 w = ucast (ucast w :: u8)" by (rule bit_word_eqI) (auto simp: bit_simps)
  ultimately show ?thesis by simp
qed

lemma unat_ucast_u8_u32: "unat (ucast (v :: u8) :: u32) = unat v"
  using unsigned_less [of v, where 'a = nat] by (simp add: unsigned_ucast_eq take_bit_eq_mod)

lemma crc_byte_ref:
  "crc32_table ! unat ((crc XOR ucast b) AND 0xff) XOR drop_bit 8 crc = (crc_bit ^^ 8) (crc XOR ucast (b :: u8))"
proof -
  let ?x = "crc XOR ucast b :: u32" and ?hi = "push_bit 8 (drop_bit 8 crc) :: u32"
  let ?i = "ucast ?x :: u8"
  have split: "?x = ucast ?i XOR ?hi"
  proof (rule bit_word_eqI)
    fix n assume "n < LENGTH(32)"
    then show "bit ?x n = bit (ucast ?i XOR ?hi) n"
      by (cases "n < 8") (auto simp: bit_simps dest: bit_imp_le_length)
  qed
  have "(crc_bit ^^ 8) ?hi = drop_bit 8 ?hi" by (rule crc_bits_high) (simp add: bit_simps)
  also have "\<dots> = drop_bit 8 crc" by (rule bit_word_eqI) (auto simp: bit_simps dest: bit_imp_le_length)
  finally have hi: "(crc_bit ^^ 8) ?hi = drop_bit 8 crc" .
  have "unat (?x AND 0xff) = unat ?i" unfolding and_ff by (rule unat_ucast_u8_u32)
  then have "crc32_table ! unat (?x AND 0xff) = (crc_bit ^^ 8) (ucast ?i)"
    using crc32_table_ref [of "unat ?i"] unsigned_less [of ?i, where 'a = nat] by simp
  with hi have "(crc_bit ^^ 8) (ucast ?i XOR ?hi) = crc32_table ! unat (?x AND 0xff) XOR drop_bit 8 crc"
    by (simp only: crc_bits_xor)
  then show ?thesis using split by simp
qed

text \<open>C20. The table-driven checksum \<open>getcrc32\<close>, with the table that \<open>crc32_init\<close> computes, is the
  bit-wise CRC-32 of the reflected polynomial on every input.\<close>

theorem getcrc32_correct: "getcrc32 buf = crc32_ref buf"
  by (simp only: getcrc32_def crc32_ref_def crc_byte_ref)

section \<open>Frames survive the round trip\<close>

lemma le32_length [simp]: "length (le32_bytes w) = 4"
  by (simp add: le32_bytes_def)

lemma arc4_protect_layout:
  assumes "arcfour_init key key_len = Some ctx" "length icv = 4" "payload = length A" "len = int (length plain)"
  shows "arc4_protect (A @ plain @ icv @ post) payload len key key_len =
     Some (A @ fst (arcfour_encrypt (plain @ le32_bytes (getcrc32 plain)) ctx) @ post)"
proof -
  let ?crc = "le32_bytes (getcrc32 plain)"
  let ?e = "fst (arcfour_encrypt plain ctx)" and ?c1 = "snd (arcfour_encrypt plain ctx)"
  have "wr_n ((A @ ?e) @ icv @ post) (length (A @ ?e)) (fst (arcfour_encrypt ?crc ?c1)) =
      Some ((A @ ?e) @ fst (arcfour_encrypt ?crc ?c1) @ post)"
    by (rule wr_n_app) (simp add: assms(2) le32_length del: arcfour_encrypt.simps)
  then show ?thesis
    using assms
    by (simp add: arc4_protect_def mem_simps case_prod_beta Let_def arc4.crypt_append)
qed

definition wep_keys_ok :: "wep_keys \<Rightarrow> nat \<Rightarrow> bool" where
  "wep_keys_ok ks i \<longleftrightarrow> i < length (dot11DefKeylen ks) \<and> i < length (dot11DefKey ks) \<and>
     dot11DefKeylen ks ! i \<le> 13 \<and> dot11DefKeylen ks ! i \<le> length (dot11DefKey ks ! i)"

lemma wep_key_buf_iv:
  assumes "wep_keys_ok ks i" "drop p m = iv @ rest" "3 \<le> length iv" "p \<le> length m"
  shows "\<exists>key. wep_key_buf ks i m p = Some (key, 3 + dot11DefKeylen ks ! i) \<and> length key = 16 \<and>
     (\<forall>m' p' rest'. drop p' m' = iv @ rest' \<longrightarrow> wep_key_buf ks i m' p' = Some (key, 3 + dot11DefKeylen ks ! i))"
proof -
  let ?n = "dot11DefKeylen ks ! i" and ?k = "dot11DefKey ks ! i"
  let ?key = "take 3 iv @ take ?n ?k @ replicate (13 - ?n) 0"
  have "wep_key_buf ks i m' p' = Some (?key, 3 + ?n)" if d: "drop p' m' = iv @ rest'" for m' p' rest'
  proof -
    have "p' + length iv \<le> length m'" using d assms(3) by (intro drop_app_le) auto
    moreover have "take 3 (drop p' m') = take 3 iv" using d assms(3) by simp
    ultimately show ?thesis
      using assms(1,3) by (simp add: wep_key_buf_def wep_keys_ok_def memcpy_def rd_n_def wr_n_def Let_def min_def)
        auto
  qed
  with assms show ?thesis by (intro exI [of _ ?key]) (auto simp: wep_keys_ok_def)
qed

text \<open>C19. WEP round trip: a frame of one fragment that \<open>rtw_wep_encrypt\<close> protects with the default key
  is turned back by \<open>rtw_wep_decrypt\<close>, with the same key, into the plain text followed by its CRC;
  descriptor, header and IV are untouched.\<close>

theorem wep_roundtrip:
  assumes "wep_keys_ok ks (dot11PrivacyKeyIndex ks)" and "encrypt a = WEP40 \<or> encrypt a = WEP104"
    and "nr_frags a = 1" and "icv_len a = 4" and "length hdr = hdrlen a" and "length iv = iv_len a"
    and "3 \<le> iv_len a" and "last_txcmdsz a = hdrlen a + iv_len a + length plain + 4"
    and "length desc = hw_hdr_offset pkt_offset" and "length icv = 4"
    and "key_index a = dot11PrivacyKeyIndex ks"
  shows "\<exists>cipher. length cipher = length plain + 4 \<and>
     rtw_wep_encrypt ks base frag_len pkt_offset a (Some (desc @ hdr @ iv @ plain @ icv @ post)) =
       Some (Some (desc @ hdr @ iv @ cipher @ post)) \<and>
     rtw_wep_decrypt ks a (hdr @ iv @ cipher) (length (hdr @ iv @ cipher)) =
       Some (hdr @ iv @ plain @ le32_bytes (getcrc32 plain))"
proof -
  let ?i = "dot11PrivacyKeyIndex ks"
  let ?m = "desc @ hdr @ iv @ plain @ icv @ post" and ?text = "plain @ le32_bytes (getcrc32 plain)"
  let ?p = "length desc + length hdr"
  have d: "drop ?p ?m = iv @ plain @ icv @ post" by simp
  obtain key where
    k1: "wep_key_buf ks ?i ?m ?p = Some (key, 3 + dot11DefKeylen ks ! ?i)" and len: "length key = 16" and
    k2: "\<And>m' p' rest'. drop p' m' = iv @ rest' \<Longrightarrow> wep_key_buf ks ?i m' p' = Some (key, 3 + dot11DefKeylen ks ! ?i)"
    using wep_key_buf_iv [OF assms(1) d] assms(6,7) by auto
  obtain ctx where ctx: "arcfour_init key (3 + dot11DefKeylen ks ! ?i) = Some ctx"
    using arcfour_init_total [of "3 + dot11DefKeylen ks ! ?i" key] len assms(1) by (auto simp: wep_keys_ok_def)
  let ?cipher = "fst (arcfour_encrypt ?text ctx)"
  have "arc4_protect ((desc @ hdr @ iv) @ plain @ icv @ post) (length (desc @ hdr @ iv)) (int (length plain)) key
      (3 + dot11DefKeylen ks ! ?i) = Some ((desc @ hdr @ iv) @ ?cipher @ post)"
    by (rule arc4_protect_layout [OF ctx assms(10)]) simp_all
  then have enc: "rtw_wep_encrypt ks base frag_len pkt_offset a (Some ?m) = Some (Some (desc @ hdr @ iv @ ?cipher @ post))"
    using assms(2-9) k1 by (auto simp: rtw_wep_encrypt_def Let_def add.commute add.left_commute)
  have "wep_key_buf ks ?i (hdr @ iv @ ?cipher) (length hdr) = Some (key, 3 + dot11DefKeylen ks ! ?i)"
    by (rule k2) simp
  moreover have "rd_n ((hdr @ iv) @ ?cipher @ []) (length (hdr @ iv)) (length ?cipher) = Some ?cipher"
    by (rule rd_n_app) simp
  moreover have "wr_n ((hdr @ iv) @ ?cipher @ []) (length (hdr @ iv)) (fst (arcfour_encrypt ?cipher ctx)) =
      Some ((hdr @ iv) @ ?text @ [])"
    unfolding arc4.crypt_involution by (rule wr_n_app) simp
  ultimately have "rtw_wep_decrypt ks a (hdr @ iv @ ?cipher) (length (hdr @ iv @ ?cipher)) = Some (hdr @ iv @ ?text)"
    using assms(2,5,6,11) ctx by (auto simp: rtw_wep_decrypt_def Let_def add.commute)
  with enc show ?thesis by (intro exI [of _ ?cipher]) simp
qed

theorem wep_roundtrip_witness:
  "\<exists>cipher. rtw_wep_decrypt
       \<lparr>dot11PrivacyKeyIndex = 0, dot11DefKey = [[1, 2, 3, 4, 5]], dot11DefKeylen = [5]\<rparr>
       \<lparr>encrypt = WEP40, hdrlen = 2, iv_len = 4, icv_len = 4, nr_frags = 1, last_txcmdsz = 13, key_index = 0,
        at_ra = [], at_ta = []\<rparr> ([8, 0] @ [9, 9, 9, 0] @ cipher) (length ([8, 0] @ [9, 9, 9, 0] @ cipher)) =
     Some ([8, 0] @ [9, 9, 9, 0] @ [65, 66, 67] @ le32_bytes (getcrc32 [65, 66, 67]))"
  using wep_roundtrip [of "\<lparr>dot11PrivacyKeyIndex = 0, dot11DefKey = [[1, 2, 3, 4, 5]], dot11DefKeylen = [5]\<rparr>"
      "\<lparr>encrypt = WEP40, hdrlen = 2, iv_len = 4, icv_len = 4, nr_frags = 1, last_txcmdsz = 13, key_index = 0,
        at_ra = [], at_ta = []\<rparr>" "[8, 0]" "[9, 9, 9, 0]" "[65, 66, 67]" "replicate (hw_hdr_offset 0) 0" 0
      "[0, 0, 0, 0]" 0 0 "[]"]
  by (auto simp: wep_keys_ok_def)

end
