(* ===== verification/Sec_Tkip.thy ===== *)
theory Sec_Tkip
  imports Sec_Wep
begin

text \<open>
  The software TKIP of \<open>core/rtw_security.c\<close>: the Michael message integrity code, the two phases of
  the key mixing, and the encryption and decryption of frames with the mixed key.
\<close>

section \<open>Michael\<close>

record mic_data =
  K0 :: u32
  K1 :: u32
  mic_L :: u32
  mic_R :: u32
  mic_M :: u32
  nBytesInM :: nat

definition secmicgetuint32 :: "bytes \<Rightarrow> nat \<Rightarrow> u32 option" where
  "secmicgetuint32 m p = do {
     a \<leftarrow> rd m p; b \<leftarrow> rd m (p + 1); c \<leftarrow> rd m (p + 2); d \<leftarrow> rd m (p + 3);
     Some (ucast a OR push_bit 8 (ucast b) OR push_bit 16 (ucast c) OR push_bit 24 (ucast d)) }"

definition secmicputuint32 :: "u32 \<Rightarrow> bytes" where
  "secmicputuint32 v = [ucast v, ucast (drop_bit 8 v), ucast (drop_bit 16 v), ucast (drop_bit 24 v)]"

definition secmicclear :: "mic_data \<Rightarrow> mic_data" where
  "secmicclear d = d\<lparr>mic_L := K0 d, mic_R := K1 d, nBytesInM := 0, mic_M := 0\<rparr>"

definition rtw_secmicsetkey :: "mic_data \<Rightarrow> bytes \<Rightarrow> mic_data option" where
  "rtw_secmicsetkey d key = do {
     k0 \<leftarrow> secmicgetuint32 key 0;
     k1 \<leftarrow> secmicgetuint32 key 4;
     Some (secmicclear (d\<lparr>K0 := k0, K1 := k1\<rparr>)) }"

definition ROL32 :: "u32 \<Rightarrow> nat \<Rightarrow> u32" where
  "ROL32 a n = push_bit n a OR (drop_bit (32 - n) a AND mask n)"

definition ROR32 :: "u32 \<Rightarrow> nat \<Rightarrow> u32" where "ROR32 a n = ROL32 a (32 - n)"

text \<open>What \<open>rtw_secmicappendbyte\<close> does with a full word.\<close>

definition michael_block :: "u32 \<Rightarrow> u32 \<Rightarrow> u32 \<times> u32" where
  "michael_block l r =
     (let r = r XOR ROL32 l 17; l = l + r;
          r = r XOR (drop_bit 8 (l AND 0xff00ff00) OR push_bit 8 (l AND 0x00ff00ff)); l = l + r;
          r = r XOR ROL32 l 3; l = l + r;
          r = r XOR ROR32 l 2; l = l + r in (l, r))"

definition rtw_secmicappendbyte :: "mic_data \<Rightarrow> u8 \<Rightarrow> mic_data" where
  "rtw_secmicappendbyte d b =
     (let m = mic_M d OR push_bit (8 * nBytesInM d) (ucast b); n = nBytesInM d + 1 in
      if n \<ge> 4 then
        (let (l, r) = michael_block (mic_L d XOR m) (mic_R d) in
         d\<lparr>mic_L := l, mic_R := r, mic_M := 0, nBytesInM := 0\<rparr>)
      else d\<lparr>mic_M := m, nBytesInM := n\<rparr>)"

definition rtw_secmicappend :: "mic_data \<Rightarrow> bytes \<Rightarrow> mic_data" where
  "rtw_secmicappend d src = foldl rtw_secmicappendbyte d src"

function secmic_pad_loop :: "mic_data \<Rightarrow> mic_data" where
  "secmic_pad_loop d = (if nBytesInM d \<noteq> 0 then secmic_pad_loop (rtw_secmicappendbyte d 0) else d)"
  by pat_completeness auto
termination
  by (relation "measure (\<lambda>d. if nBytesInM d = 0 then 0 else 6 - min (nBytesInM d) 4)")
    (auto simp: rtw_secmicappendbyte_def Let_def split: prod.split)

declare secmic_pad_loop.simps [simp del]

definition rtw_secgetmic :: "mic_data \<Rightarrow> bytes \<times> mic_data" where
  "rtw_secgetmic d =
     (let d = rtw_secmicappendbyte d 0x5a;
          d = rtw_secmicappendbyte (rtw_secmicappendbyte (rtw_secmicappendbyte (rtw_secmicappendbyte d 0) 0) 0) 0;
          d = secmic_pad_loop d in
      (secmicputuint32 (mic_L d) @ secmicputuint32 (mic_R d), secmicclear d))"

definition mic_data0 :: mic_data where
  "mic_data0 = \<lparr>K0 = 0, K1 = 0, mic_L = 0, mic_R = 0, mic_M = 0, nBytesInM = 0\<rparr>"

definition rtw_seccalctkipmic :: "bytes \<Rightarrow> bytes \<Rightarrow> bytes \<Rightarrow> nat \<Rightarrow> u8 \<Rightarrow> bytes option" where
  "rtw_seccalctkipmic key header data data_len pri = do {
     d \<leftarrow> rtw_secmicsetkey mic_data0 key;
     fc \<leftarrow> rd header 1;
     da \<leftarrow> rd_n header (if fc AND 1 \<noteq> 0 then 16 else 4) 6;
     sa \<leftarrow> rd_n header (if fc AND 1 \<noteq> 0 then (if fc AND 2 \<noteq> 0 then 24 else 10)
                       else (if fc AND 2 \<noteq> 0 then 16 else 10)) 6;
     payload \<leftarrow> rd_n data 0 data_len;
     let d = rtw_secmicappend (rtw_secmicappend d da) sa;
     let d = rtw_secmicappend d [pri, 0, 0, 0];
     let d = rtw_secmicappend d payload;
     Some (fst (rtw_secgetmic d)) }"

section \<open>Key mixing\<close>

definition Sbox1_0 :: "u16 list" where
  "Sbox1_0 = [
      0xC6A5, 0xF884, 0xEE99, 0xF68D, 0xFF0D, 0xD6BD, 0xDEB1, 0x9154,
      0x6050, 0x0203, 0xCEA9, 0x567D, 0xE719, 0xB562, 0x4DE6, 0xEC9A,
      0x8F45, 0x1F9D, 0x8940, 0xFA87, 0xEF15, 0xB2EB, 0x8EC9, 0xFB0B,
      0x41EC, 0xB367, 0x5FFD, 0x45EA, 0x23BF, 0x53F7, 0xE496, 0x9B5B,
      0x75C2, 0xE11C, 0x3DAE, 0x4C6A, 0x6C5A, 0x7E41, 0xF502, 0x834F,
      0x685C, 0x51F4, 0xD134, 0xF908, 0xE293, 0xAB73, 0x6253, 0x2A3F,
      0x080C, 0x9552, 0x4665, 0x9D5E, 0x3028, 0x37A1, 0x0A0F, 0x2FB5,
      0x0E09, 0x2436, 0x1B9B, 0xDF3D, 0xCD26, 0x4E69, 0x7FCD, 0xEA9F,
      0x121B, 0x1D9E, 0x5874, 0x342E, 0x362D, 0xDCB2, 0xB4EE, 0x5BFB,
      0xA4F6, 0x764D, 0xB761, 0x7DCE, 0x527B, 0xDD3E, 0x5E71, 0x1397,
      0xA6F5, 0xB968, 0x0000, 0xC12C, 0x4060, 0xE31F, 0x79C8, 0xB6ED,
      0xD4BE, 0x8D46, 0x67D9, 0x724B, 0x94DE, 0x98D4, 0xB0E8, 0x854A,
      0xBB6B, 0xC52A, 0x4FE5, 0xED16, 0x86C5, 0x9AD7, 0x6655, 0x1194,
      0x8ACF, 0xE910, 0x0406, 0xFE81, 0xA0F0, 0x7844, 0x25BA, 0x4BE3,
      0xA2F3, 0x5DFE, 0x80C0, 0x058A, 0x3FAD, 0x21BC, 0x7048, 0xF104,
      0x63DF, 0x77C1, 0xAF75, 0x4263, 0x2030, 0xE51A, 0xFD0E, 0xBF6D,
      0x814C, 0x1814, 0x2635, 0xC32F, 0xBEE1, 0x35A2, 0x88CC, 0x2E39,
      0x9357, 0x55F2, 0xFC82, 0x7A47, 0xC8AC, 0xBAE7, 0x322B, 0xE695,
      0xC0A0, 0x1998, 0x9ED1, 0xA37F, 0x4466, 0x547E, 0x3BAB, 0x0B83,
      0x8CCA, 0xC729, 0x6BD3, 0x283C, 0xA779, 0xBCE2, 0x161D, 0xAD76,
      0xDB3B, 0x6456, 0x744E, 0x141E, 0x92DB, 0x0C0A, 0x486C, 0xB8E4,
      0x9F5D, 0xBD6E, 0x43EF, 0xC4A6, 0x39A8, 0x31A4, 0xD337, 0xF28B,
      0xD532, 0x8B43, 0x6E59, 0xDAB7, 0x018C, 0xB164, 0x9CD2, 0x49E0,
      0xD8B4, 0xACFA, 0xF307, 0xCF25, 0xCAAF, 0xF48E, 0x47E9, 0x1018,
      0x6FD5, 0xF088, 0x4A6F, 0x5C72, 0x3824, 0x57F1, 0x73C7, 0x9751,
      0xCB23, 0xA17C, 0xE89C, 0x3E21, 0x96DD, 0x61DC, 0x0D86, 0x0F85,
      0xE090, 0x7C42, 0x71C4, 0xCCAA, 0x90D8, 0x0605, 0xF701, 0x1C12,
      0xC2A3, 0x6A5F, 0xAEF9, 0x69D0, 0x1791, 0x9958, 0x3A27, 0x27B9,
      0xD938, 0xEB13, 0x2BB3, 0x2233, 0xD2BB, 0xA970, 0x0789, 0x33A7,
      0x2DB6, 0x3C22, 0x1592, 0xC920, 0x8749, 0xAAFF, 0x5078, 0xA57A,
      0x038F, 0x59F8, 0x0980, 0x1A17, 0x65DA, 0xD731, 0x84C6, 0xD0B8,
      0x82C3, 0x29B0, 0x5A77, 0x1E11, 0x7BCB, 0xA8FC, 0x6DD6, 0x2C3A]"

definition Sbox1_1 :: "u16 list" where
  "Sbox1_1 = [
      0xA5C6, 0x84F8, 0x99EE, 0x8DF6, 0x0DFF, 0xBDD6, 0xB1DE, 0x5491,
      0x5060, 0x0302, 0xA9CE, 0x7D56, 0x19E7, 0x62B5, 0xE64D, 0x9AEC,
      0x458F, 0x9D1F, 0x4089, 0x87FA, 0x15EF, 0xEBB2, 0xC98E, 0x0BFB,
      0xEC41, 0x67B3, 0xFD5F, 0xEA45, 0xBF23, 0xF753, 0x96E4, 0x5B9B,
      0xC275, 0x1CE1, 0xAE3D, 0x6A4C, 0x5A6C, 0x417E, 0x02F5, 0x4F83,
      0x5C68, 0xF451, 0x34D1, 0x08F9, 0x93E2, 0x73AB, 0x5362, 0x3F2A,
      0x0C08, 0x5295, 0x6546, 0x5E9D, 0x2830, 0xA137, 0x0F0A, 0xB52F,
      0x090E, 0x3624, 0x9B1B, 0x3DDF, 0x26CD, 0x694E, 0xCD7F, 0x9FEA,
      0x1B12, 0x9E1D, 0x7458, 0x2E34, 0x2D36, 0xB2DC, 0xEEB4, 0xFB5B,
      0xF6A4, 0x4D76, 0x61B7, 0xCE7D, 0x7B52, 0x3EDD, 0x715E, 0x9713,
      0xF5A6, 0x68B9, 0x0000, 0x2CC1, 0x6040, 0x1FE3, 0xC879, 0xEDB6,
      0xBED4, 0x468D, 0xD967, 0x4B72, 0xDE94, 0xD498, 0xE8B0, 0x4A85,
      0x6BBB, 0x2AC5, 0xE54F, 0x16ED, 0xC586, 0xD79A, 0x5566, 0x9411,
      0xCF8A, 0x10E9, 0x0604, 0x81FE, 0xF0A0, 0x4478, 0xBA25, 0xE34B,
      0xF3A2, 0xFE5D, 0xC080, 0x8A05, 0xAD3F, 0xBC21, 0x4870, 0x04F1,
      0xDF63, 0xC177, 0x75AF, 0x6342, 0x3020, 0x1AE5, 0x0EFD, 0x6DBF,
      0x4C81, 0x1418, 0x3526, 0x2FC3, 0xE1BE, 0xA235, 0xCC88, 0x392E,
      0x5793, 0xF255, 0x82FC, 0x477A, 0xACC8, 0xE7BA, 0x2B32, 0x95E6,
      0xA0C0, 0x9819, 0xD19E, 0x7FA3, 0x6644, 0x7E54, 0xAB3B, 0x830B,
      0xCA8C, 0x29C7, 0xD36B, 0x3C28, 0x79A7, 0xE2BC, 0x1D16, 0x76AD,
      0x3BDB, 0x5664, 0x4E74, 0x1E14, 0xDB92, 0x0A0C, 0x6C48, 0xE4B8,
      0x5D9F, 0x6EBD, 0xEF43, 0xA6C4, 0xA839, 0xA431, 0x37D3, 0x8BF2,
      0x32D5, 0x438B, 0x596E, 0xB7DA, 0x8C01, 0x64B1, 0xD29C, 0xE049,
      0xB4D8, 0xFAAC, 0x07F3, 0x25CF, 0xAFCA, 0x8EF4, 0xE947, 0x1810,
      0xD56F, 0x88F0, 0x6F4A, 0x725C, 0x2438, 0xF157, 0xC773, 0x5197,
      0x23CB, 0x7CA1, 0x9CE8, 0x213E, 0xDD96, 0xDC61, 0x860D, 0x850F,
      0x90E0, 0x427C, 0xC471, 0xAACC, 0xD890, 0x0506, 0x01F7, 0x121C,
      0xA3C2, 0x5F6A, 0xF9AE, 0xD069, 0x9117, 0x5899, 0x273A, 0xB927,
      0x38D9, 0x13EB, 0xB32B, 0x3322, 0xBBD2, 0x70A9, 0x8907, 0xA733,
      0xB62D, 0x223C, 0x9215, 0x20C9, 0x4987, 0xFFAA, 0x7850, 0x7AA5,
      0x8F03, 0xF859, 0x8009, 0x171A, 0xDA65, 0x31D7, 0xC684, 0xB8D0,
      0xC382, 0xB029, 0x775A, 0x111E, 0xCB7B, 0xFCA8, 0xD66D, 0x3A2C]"

definition S16 :: "u16 \<Rightarrow> u16" where
  "S16 v = Sbox1_0 ! unat (lo8 v) XOR Sbox1_1 ! unat (hi8 v)"

definition RotR1 :: "u16 \<Rightarrow> u16" where
  "RotR1 v = (drop_bit 1 v AND 0x7FFF) XOR push_bit 15 (v AND 1)"

definition Mk16 :: "u8 \<Rightarrow> u8 \<Rightarrow> u16" where "Mk16 hi lo = ucast lo XOR push_bit 8 (ucast hi)"

definition TK16 :: "bytes \<Rightarrow> nat \<Rightarrow> u16" where "TK16 tk n = Mk16 (tk ! (2 * n + 1)) (tk ! (2 * n))"

type_synonym p1k = "u16 \<times> u16 \<times> u16 \<times> u16 \<times> u16"

definition phase1_round :: "bytes \<Rightarrow> p1k \<Rightarrow> nat \<Rightarrow> p1k" where
  "phase1_round tk p i =
     (case p of (p0, p1, p2, p3, p4) \<Rightarrow>
        let j = i mod 2;
            p0 = p0 + S16 (p4 XOR TK16 tk (j + 0));
            p1 = p1 + S16 (p0 XOR TK16 tk (j + 2));
            p2 = p2 + S16 (p1 XOR TK16 tk (j + 4));
            p3 = p3 + S16 (p2 XOR TK16 tk (j + 6));
            p4 = p4 + S16 (p3 XOR TK16 tk (j + 0));
            p4 = p4 + of_nat i in
        (p0, p1, p2, p3, p4))"

definition phase1 :: "bytes \<Rightarrow> bytes \<Rightarrow> u32 \<Rightarrow> p1k" where
  "phase1 tk ta iv32 =
     foldl (phase1_round tk)
       (ucast iv32, ucast (drop_bit 16 iv32), Mk16 (ta ! 1) (ta ! 0), Mk16 (ta ! 3) (ta ! 2), Mk16 (ta ! 5) (ta ! 4))
       [0..<8]"

type_synonym ppk = "u16 \<times> u16 \<times> u16 \<times> u16 \<times> u16 \<times> u16"

text \<open>The two sweeps of phase 2 over the six words.\<close>

definition phase2_ppk :: "bytes \<Rightarrow> p1k \<Rightarrow> u16 \<Rightarrow> ppk" where
  "phase2_ppk tk p iv16 =
     (case p of (p0, p1, p2, p3, p4) \<Rightarrow>
        let p5 = p4 + iv16;
            p0 = p0 + S16 (p5 XOR TK16 tk 0);
            p1 = p1 + S16 (p0 XOR TK16 tk 1);
            p2 = p2 + S16 (p1 XOR TK16 tk 2);
            p3 = p3 + S16 (p2 XOR TK16 tk 3);
            p4 = p4 + S16 (p3 XOR TK16 tk 4);
            p5 = p5 + S16 (p4 XOR TK16 tk 5);
            p0 = p0 + RotR1 (p5 XOR TK16 tk 6);
            p1 = p1 + RotR1 (p0 XOR TK16 tk 7);
            p2 = p2 + RotR1 p1;
            p3 = p3 + RotR1 p2;
            p4 = p4 + RotR1 p3;
            p5 = p5 + RotR1 p4 in
        (p0, p1, p2, p3, p4, p5))"

definition phase2 :: "bytes \<Rightarrow> p1k \<Rightarrow> u16 \<Rightarrow> bytes" where
  "phase2 tk p iv16 =
     (case phase2_ppk tk p iv16 of (p0, p1, p2, p3, p4, p5) \<Rightarrow>
        [hi8 iv16, (hi8 iv16 OR 0x20) AND 0x7F, lo8 iv16, lo8 (drop_bit 1 (p5 XOR TK16 tk 0)),
         lo8 p0, hi8 p0, lo8 p1, hi8 p1, lo8 p2, hi8 p2, lo8 p3, hi8 p3, lo8 p4, hi8 p4, lo8 p5, hi8 p5])"

section \<open>Frames\<close>

text \<open>The packet number in the IV: \<open>GET_TKIP_PN\<close>, then the split into 16 and 32 bits.\<close>

definition tkip_pn :: "bytes \<Rightarrow> nat \<Rightarrow> (u16 \<times> u32) option" where
  "tkip_pn m iv = do {
     t1 \<leftarrow> rd m iv; t0 \<leftarrow> rd m (iv + 2);
     t2 \<leftarrow> rd m (iv + 4); t3 \<leftarrow> rd m (iv + 5); t4 \<leftarrow> rd m (iv + 6); t5 \<leftarrow> rd m (iv + 7);
     Some (mk16 t1 t0,
           ucast t2 OR push_bit 8 (ucast t3) OR push_bit 16 (ucast t4) OR push_bit 24 (ucast t5)) }"

definition tkip_rc4key :: "bytes \<Rightarrow> bytes \<Rightarrow> bytes \<Rightarrow> nat \<Rightarrow> (bytes \<times> nat) option" where
  "tkip_rc4key tk ta m iv = do {
     (pnl, pnh) \<leftarrow> tkip_pn m iv;
     Some (phase2 tk (phase1 tk ta pnh) pnl, 16) }"

record tkip_keys =
  grp_keys :: "bytes list"
  grp_keyid :: nat
  binstallGrpkey :: bool

definition rtw_tkip_encrypt ::
    "tkip_keys \<Rightarrow> bytes \<Rightarrow> nat \<Rightarrow> nat \<Rightarrow> nat \<Rightarrow> frame_attrib \<Rightarrow> bytes option \<Rightarrow> (bool \<times> bytes option) option" where
  "rtw_tkip_encrypt ks unicast_key base frag_len pkt_offset a buf_addr =
     (case buf_addr of
        None \<Rightarrow> Some (False, None)
      | Some m \<Rightarrow>
          if encrypt a = TKIP then do {
            let tk = (if IS_MCAST (at_ra a) then grp_keys ks ! grp_keyid ks else unicast_key);
            m' \<leftarrow> frag_loop (tkip_rc4key tk (at_ta a)) base a frag_len (nr_frags a) m (hw_hdr_offset pkt_offset);
            Some (True, Some m') }
          else Some (True, Some m))"

text \<open>\<open>sta\<close> is the unicast key of the station that \<open>rtw_get_stainfo\<close> finds for the transmitter address. The
  result is false where the code returns \<open>_FAIL\<close>; the frame is decrypted in place even when the check
  fails.\<close>

definition rtw_tkip_decrypt ::
    "tkip_keys \<Rightarrow> bytes option \<Rightarrow> frame_attrib \<Rightarrow> bytes \<Rightarrow> nat \<Rightarrow> (bool \<times> bytes) option" where
  "rtw_tkip_decrypt ks sta a m len =
     (if encrypt a \<noteq> TKIP then Some (True, m)
      else case sta of
        None \<Rightarrow> Some (False, m)
      | Some unicast_key \<Rightarrow>
          if IS_MCAST (at_ra a) \<and> \<not> binstallGrpkey ks then Some (False, m)
          else do {
            let tk = (if IS_MCAST (at_ra a) then grp_keys ks ! key_index a else unicast_key);
            (key, key_len) \<leftarrow> tkip_rc4key tk (at_ta a) m (hdrlen a);
            if len < hdrlen a + iv_len a then None
            else do {
              let payload = iv_len a + hdrlen a;
              let n = len - hdrlen a - iv_len a;
              enc \<leftarrow> rd_n m payload n;
              ctx \<leftarrow> arcfour_init key key_len;
              let dec = fst (arcfour_encrypt enc ctx);
              m1 \<leftarrow> wr_n m payload dec;
              icv \<leftarrow> (if payload + n < 4 then None else rd_n m1 (payload + n - 4) 4);
              Some (le32_bytes (getcrc32 (take (n - 4) dec)) = icv, m1) } })"

section \<open>The mixed key is unique per packet\<close>

lemma Mk16_mk16: "Mk16 hi lo = mk16 hi lo"
  by (rule bit_word_eqI) (auto simp: Mk16_def mk16_def bit_simps dest: bit_imp_le_length)

lemma Mk16_inj: "Mk16 h l = Mk16 h' l' \<longleftrightarrow> h = h' \<and> l = l'"
  by (metis Mk16_mk16 hi8_mk16 lo8_mk16)

lemma lo8_hi8_inj: "lo8 v = lo8 w \<and> hi8 v = hi8 w \<longleftrightarrow> v = w"
  by (metis mk16_hi8_lo8)

lemma iv32_inj: "ucast (v :: u32) = (ucast w :: u16) \<Longrightarrow> ucast (drop_bit 16 v) = (ucast (drop_bit 16 w) :: u16) \<Longrightarrow> v = w"
proof (rule bit_word_eqI)
  fix n
  assume lo: "ucast v = (ucast w :: u16)" and hi: "ucast (drop_bit 16 v) = (ucast (drop_bit 16 w) :: u16)"
    and n: "n < LENGTH(32)"
  show "bit v n = bit w n"
  proof (cases "n < 16")
    case True
    with arg_cong [OF lo, of "\<lambda>x. bit x n"] show ?thesis by (simp add: bit_simps)
  next
    case False
    with arg_cong [OF hi, of "\<lambda>x. bit x (n - 16)"] n show ?thesis by (auto simp: bit_simps)
  qed
qed

lemma phase1_round_inj: "phase1_round tk p i = phase1_round tk q i \<Longrightarrow> p = q"
  by (cases p; cases q) (auto simp: phase1_round_def Let_def)

lemma phase1_rounds_inj: "foldl (phase1_round tk) p is = foldl (phase1_round tk) q is \<Longrightarrow> p = q"
proof (induction "is" arbitrary: p q)
  case (Cons i js)
  from Cons.IH [of "phase1_round tk p i" "phase1_round tk q i"] Cons.prems
  have "phase1_round tk p i = phase1_round tk q i" by simp
  then show ?case by (rule phase1_round_inj)
qed simp

lemma phase1_inj:
  assumes "phase1 tk ta v = phase1 tk ta' v'" "length ta = 6" "length ta' = 6"
  shows "ta = ta' \<and> v = v'"
proof -
  from assms(1) have eqs: "ucast v = (ucast v' :: u16)" "ucast (drop_bit 16 v) = (ucast (drop_bit 16 v') :: u16)"
      "ta ! 1 = ta' ! 1" "ta ! 0 = ta' ! 0" "ta ! 3 = ta' ! 3" "ta ! 2 = ta' ! 2" "ta ! 5 = ta' ! 5" "ta ! 4 = ta' ! 4"
    unfolding phase1_def by (auto simp: Mk16_inj dest!: phase1_rounds_inj)
  have "ta = ta'"
  proof (rule nth_equalityI)
    fix i assume "i < length ta"
    with assms(2) have "i = 0 \<or> i = 1 \<or> i = 2 \<or> i = 3 \<or> i = 4 \<or> i = 5" by auto
    with eqs show "ta ! i = ta' ! i" by auto
  qed (simp add: assms)
  with iv32_inj [OF eqs(1,2)] show ?thesis by simp
qed

lemma phase2_ppk_inj: "phase2_ppk tk p v = phase2_ppk tk q v' \<Longrightarrow> p = q \<and> v = v'"
  by (cases p; cases q) (auto simp: phase2_ppk_def Let_def)

lemma phase2_inj: "phase2 tk p v = phase2 tk q v' \<Longrightarrow> p = q \<and> v = v'"
proof -
  assume eq: "phase2 tk p v = phase2 tk q v'"
  obtain a0 a1 a2 a3 a4 a5 where a: "phase2_ppk tk p v = (a0, a1, a2, a3, a4, a5)" by (metis prod_cases6)
  obtain b0 b1 b2 b3 b4 b5 where b: "phase2_ppk tk q v' = (b0, b1, b2, b3, b4, b5)" by (metis prod_cases6)
  from eq a b have "a0 = b0" "a1 = b1" "a2 = b2" "a3 = b3" "a4 = b4" "a5 = b5"
    by (simp_all add: phase2_def) (metis lo8_hi8_inj)+
  with a b have "phase2_ppk tk p v = phase2_ppk tk q v'" by simp
  then show ?thesis by (rule phase2_ppk_inj)
qed

text \<open>C16. Key mixing: for a fixed temporal key the RC4 key determines transmitter address and packet
  number, so that no two packets of one key share an RC4 key.\<close>

theorem tkip_rc4key_unique:
  assumes "phase2 tk (phase1 tk ta iv32) iv16 = phase2 tk (phase1 tk ta' iv32') iv16'"
    and "length ta = 6" and "length ta' = 6"
  shows "ta = ta' \<and> iv32 = iv32' \<and> iv16 = iv16'"
  using phase2_inj [OF assms(1)] phase1_inj assms(2,3) by blast

theorem tkip_rc4key_unique_witness:
  "phase2 (replicate 16 0) (phase1 (replicate 16 0) [1, 2, 3, 4, 5, 6] 7) 8 \<noteq>
   phase2 (replicate 16 0) (phase1 (replicate 16 0) [1, 2, 3, 4, 5, 6] 7) 9"
  using tkip_rc4key_unique [of "replicate 16 0" "[1, 2, 3, 4, 5, 6]" 7 8 "[1, 2, 3, 4, 5, 6]" 7 9]
  by auto

section \<open>Michael\<close>

text \<open>The reference: pad with \<open>0x5a\<close> and zeros to whole words, and run the block function over the
  little-endian words.\<close>

definition le32 :: "u8 \<Rightarrow> u8 \<Rightarrow> u8 \<Rightarrow> u8 \<Rightarrow> u32" where
  "le32 a b c d = ucast a OR push_bit 8 (ucast b) OR push_bit 16 (ucast c) OR push_bit 24 (ucast d)"

fun words32 :: "bytes \<Rightarrow> u32 list" where
  "words32 (a # b # c # d # bs) = le32 a b c d # words32 bs"
| "words32 _ = []"

definition michael_pad :: "bytes \<Rightarrow> bytes" where
  "michael_pad msg = msg @ [0x5a, 0, 0, 0, 0] @ replicate ((3 - length msg mod 4)) 0"

definition michael_run :: "u32 \<times> u32 \<Rightarrow> u32 list \<Rightarrow> u32 \<times> u32" where
  "michael_run s ws = foldl (\<lambda>(l, r) w. michael_block (l XOR w) r) s ws"

definition michael_ref :: "u32 \<Rightarrow> u32 \<Rightarrow> bytes \<Rightarrow> bytes" where
  "michael_ref k0 k1 msg =
     (let (l, r) = michael_run (k0, k1) (words32 (michael_pad msg)) in secmicputuint32 l @ secmicputuint32 r)"

lemma append_word:
  assumes "mic_M d = 0" "nBytesInM d = 0"
  shows "rtw_secmicappend d [a, b, c, e] =
     (let (l, r) = michael_block (mic_L d XOR le32 a b c e) (mic_R d) in d\<lparr>mic_L := l, mic_R := r\<rparr>)"
proof -
  have "d\<lparr>mic_M := 0, nBytesInM := 0\<rparr> = d" using assms by (cases d) simp
  with assms show ?thesis
    by (simp add: rtw_secmicappend_def rtw_secmicappendbyte_def Let_def le32_def or.assoc case_prod_beta)
qed

lemma append_words:
  assumes "mic_M d = 0" "nBytesInM d = 0" "length bs mod 4 = 0"
  shows "rtw_secmicappend d bs =
     (let (l, r) = michael_run (mic_L d, mic_R d) (words32 bs) in d\<lparr>mic_L := l, mic_R := r\<rparr>)"
  using assms
proof (induction bs arbitrary: d rule: words32.induct)
  case (1 a b c e bs)
  obtain l r where lr: "michael_block (mic_L d XOR le32 a b c e) (mic_R d) = (l, r)" by (metis prod.exhaust)
  let ?d = "d\<lparr>mic_L := l, mic_R := r\<rparr>"
  have "rtw_secmicappend d (a # b # c # e # bs) = rtw_secmicappend ?d bs"
    using append_word [OF "1.prems"(1,2), of a b c e] lr by (simp add: rtw_secmicappend_def)
  moreover have "length bs mod 4 = 0" using "1.prems"(3) by simp
  ultimately show ?case
    using "1.IH" [of ?d] "1.prems"(1,2) lr by (simp add: michael_run_def case_prod_beta)
qed (auto simp: rtw_secmicappend_def michael_run_def)


lemma append_app: "rtw_secmicappend d (xs @ ys) = rtw_secmicappend (rtw_secmicappend d xs) ys"
  by (simp add: rtw_secmicappend_def)

lemma appendbyte_count: "nBytesInM d < 4 \<Longrightarrow> nBytesInM (rtw_secmicappendbyte d b) = (nBytesInM d + 1) mod 4"
  by (cases "nBytesInM d = 3") (auto simp: rtw_secmicappendbyte_def Let_def case_prod_beta)

lemma append_count:
  "nBytesInM d < 4 \<Longrightarrow> nBytesInM (rtw_secmicappend d bs) = (nBytesInM d + length bs) mod 4"
proof (induction bs arbitrary: d)
  case (Cons b bs)
  from Cons.IH [of "rtw_secmicappendbyte d b"] Cons.prems show ?case
    by (simp add: rtw_secmicappend_def appendbyte_count mod_simps)
qed (simp add: rtw_secmicappend_def)

text \<open>The padding loop appends the zeros that fill the word.\<close>

lemma secmic_pad_loop_zeros:
  assumes "nBytesInM d + k = 4" "k < 4" "0 < k"
  shows "secmic_pad_loop d = rtw_secmicappend d (replicate k 0)"
  using assms
proof (induction k arbitrary: d)
  case (Suc k)
  note Suc_IH = Suc.IH
  let ?d = "rtw_secmicappendbyte d 0"
  have cnt: "nBytesInM ?d = (nBytesInM d + 1) mod 4" using Suc.prems by (intro appendbyte_count) simp
  have "secmic_pad_loop d = secmic_pad_loop ?d" using Suc.prems by (subst secmic_pad_loop.simps) simp
  also have "\<dots> = rtw_secmicappend ?d (replicate k 0)"
  proof (cases k)
    case 0
    with cnt Suc.prems have "nBytesInM ?d = 0" by simp
    with 0 show ?thesis by (subst secmic_pad_loop.simps) (simp add: rtw_secmicappend_def)
  next
    case (Suc j)
    with cnt \<open>nBytesInM d + Suc k = 4\<close> have "nBytesInM ?d + k = 4" by simp
    then show ?thesis using Suc_IH [of ?d] \<open>Suc k < 4\<close> Suc by simp
  qed
  finally show ?case by (simp add: rtw_secmicappend_def)
qed simp

lemma pad_loop_mod:
  assumes "nBytesInM d < 4"
  shows "secmic_pad_loop d = rtw_secmicappend d (replicate ((4 - nBytesInM d) mod 4) 0)"
proof (cases "nBytesInM d = 0")
  case True
  then show ?thesis by (subst secmic_pad_loop.simps) (simp add: rtw_secmicappend_def)
next
  case False
  with assms show ?thesis by (subst secmic_pad_loop_zeros [of _ "4 - nBytesInM d"]) simp_all
qed

lemma rtw_secgetmic_ref:
  assumes "mic_M d = 0" "nBytesInM d = 0"
  shows "fst (rtw_secgetmic (rtw_secmicappend d msg)) = michael_ref (mic_L d) (mic_R d) msg"
proof -
  let ?d5 = "rtw_secmicappend d (msg @ [0x5a, 0, 0, 0, 0])"
  have n5: "nBytesInM ?d5 = (length msg + 5) mod 4" using append_count [of d] assms(2) by (simp add: add.commute)
  have k: "(4 - (length msg + 5) mod 4) mod 4 = 3 - length msg mod 4"
  proof -
    have "(length msg + 5) mod 4 = (length msg mod 4 + 1) mod 4" 
      by presburger
    moreover have "length msg mod 4 = 0 \<or> length msg mod 4 = 1 \<or> length msg mod 4 = 2 \<or> length msg mod 4 = 3"
      by linarith
    ultimately show ?thesis by auto
  qed
  have "secmic_pad_loop ?d5 = rtw_secmicappend ?d5 (replicate (3 - length msg mod 4) 0)"
    using pad_loop_mod [of ?d5] n5 by (simp only: k)
  also have "\<dots> = rtw_secmicappend d (michael_pad msg)" by (simp add: michael_pad_def rtw_secmicappend_def)
  finally have pad: "secmic_pad_loop ?d5 = rtw_secmicappend d (michael_pad msg)" .
  have "length (michael_pad msg) mod 4 = 0"
  proof -
    have "length (michael_pad msg) = 4 * (length msg div 4 + 2)"
      unfolding michael_pad_def using minus_mod_eq_mult_div [of "length msg" 4] mod_less_eq_dividend [of "length msg" 4]
      by simp
    then show ?thesis by (simp only: mod_mult_self1_is_0)
  qed
  from append_words [OF assms this]
  have "secmic_pad_loop ?d5 =
     (let (l, r) = michael_run (mic_L d, mic_R d) (words32 (michael_pad msg)) in d\<lparr>mic_L := l, mic_R := r\<rparr>)"
    using pad by simp
  then have res: "mic_L (secmic_pad_loop ?d5) = fst (michael_run (mic_L d, mic_R d) (words32 (michael_pad msg)))"
      "mic_R (secmic_pad_loop ?d5) = snd (michael_run (mic_L d, mic_R d) (words32 (michael_pad msg)))"
    by (simp_all only: Let_def case_prod_beta) simp_all
  have "fst (rtw_secgetmic (rtw_secmicappend d msg)) =
      secmicputuint32 (mic_L (secmic_pad_loop ?d5)) @ secmicputuint32 (mic_R (secmic_pad_loop ?d5))"
    by (simp add: rtw_secgetmic_def Let_def rtw_secmicappend_def)
  then show ?thesis by (simp only: res michael_ref_def Let_def case_prod_beta)
qed

definition tkip_mic_header :: "bytes \<Rightarrow> u8 \<Rightarrow> bytes" where
  "tkip_mic_header header pri =
     (let addr = (\<lambda>k. take 6 (drop k header)); to_ds = bit (header ! 1) 0; from_ds = bit (header ! 1) 1 in
      (if to_ds then addr 16 else addr 4) @
      (if from_ds then (if to_ds then addr 24 else addr 16) else addr 10) @ [pri, 0, 0, 0])"

definition mic_header_len :: "bytes \<Rightarrow> nat" where
  "mic_header_len header = (if bit (header ! 1) 0 \<and> bit (header ! 1) 1 then 30 else 22)"

definition key_word :: "bytes \<Rightarrow> nat \<Rightarrow> u32" where
  "key_word key i = le32 (key ! i) (key ! (i + 1)) (key ! (i + 2)) (key ! (i + 3))"

lemma secmicgetuint32_word: "i + 4 \<le> length key \<Longrightarrow> secmicgetuint32 key i = Some (key_word key i)"
  by (simp add: secmicgetuint32_def rd_in le32_def key_word_def or.assoc)

lemma seccalctkipmic_ref:
  assumes "8 \<le> length key" and "mic_header_len header \<le> length header" and "n \<le> length data"
  shows "rtw_seccalctkipmic key header data n pri =
     Some (michael_ref (key_word key 0) (key_word key 4) (tkip_mic_header header pri @ take n data))"
proof -
  have bits: "(header ! 1) AND 1 \<noteq> 0 \<longleftrightarrow> bit (header ! 1) 0" "(header ! 1) AND 2 \<noteq> 0 \<longleftrightarrow> bit (header ! 1) 1"
    using and_exp_eq_0_iff_not_bit [of "header ! 1" 0] and_exp_eq_0_iff_not_bit [of "header ! 1" 1] by simp_all
  have key: "secmicgetuint32 key 0 = Some (key_word key 0)" "secmicgetuint32 key 4 = Some (key_word key 4)"
    using assms(1) by (simp_all add: secmicgetuint32_word)
  have hdr: "22 \<le> length header" "bit (header ! 1) 0 \<and> bit (header ! 1) 1 \<Longrightarrow> 30 \<le> length header"
    using assms(2) by (simp_all add: mic_header_len_def split: if_splits)
  let ?d = "mic_data0\<lparr>K0 := key_word key 0, K1 := key_word key 4\<rparr>"
  have "mic_M (secmicclear ?d) = 0" "nBytesInM (secmicclear ?d) = 0"
      "mic_L (secmicclear ?d) = key_word key 0" "mic_R (secmicclear ?d) = key_word key 4"
    by (simp_all add: secmicclear_def)
  note mic = rtw_secgetmic_ref [OF this(1,2), unfolded this(3,4)]
  show ?thesis
    using assms(3) key hdr
    by (auto simp: rtw_seccalctkipmic_def rtw_secmicsetkey_def rd_in rd_n_def bits Let_def mic tkip_mic_header_def
        simp flip: append_app simp del: One_nat_def)
qed

text \<open>C17. \<open>rtw_seccalctkipmic\<close> is Michael on destination, source, priority and data, for every
  combination of the ToDS and FromDS bits: the byte-wise accumulator, the padding loop and the reset
  compute the same as the block function over the padded message.\<close>

theorem rtw_seccalctkipmic_correct:
  assumes "8 \<le> length key" and "mic_header_len header \<le> length header" and "n \<le> length data"
  shows "rtw_seccalctkipmic key header data n pri =
     Some (michael_ref (key_word key 0) (key_word key 4) (tkip_mic_header header pri @ take n data))"
  using assms by (rule seccalctkipmic_ref)

theorem rtw_seccalctkipmic_correct_witness:
  "rtw_seccalctkipmic (replicate 8 0) (replicate 24 0) [1, 2, 3] 3 0 =
     Some (michael_ref 0 0 (replicate 12 0 @ [0, 0, 0, 0] @ [1, 2, 3]))"
  using rtw_seccalctkipmic_correct [of "replicate 8 0" "replicate 24 0" 3 "[1, 2, 3]" 0]
  by (simp add: key_word_def le32_def Let_def mic_header_len_def tkip_mic_header_def eval_nat_numeral)

section \<open>Frames survive the round trip\<close>

lemma tkip_rc4key_iv:
  assumes "drop p m = iv @ rest" "length iv = 8"
  shows "tkip_rc4key tk ta m p = Some (phase2 tk (phase1 tk ta
     (ucast (iv ! 4) OR push_bit 8 (ucast (iv ! 5)) OR push_bit 16 (ucast (iv ! 6)) OR push_bit 24 (ucast (iv ! 7))))
     (mk16 (iv ! 0) (iv ! 2)), 16)"
proof -
  have "p + length iv \<le> length m" using assms by (intro drop_app_le) auto
  moreover have "m ! (p + k) = iv ! k" if "k < 8" for k
    using arg_cong [OF assms(1), of "\<lambda>l. l ! k"] assms(2) that calculation by (simp add: nth_append)
  ultimately have "rd m (p + k) = Some (iv ! k)" if "k < 8" for k
    using assms(2) that by (simp add: rd_in)
  from this [of 0] this [of 2] this [of 4] this [of 5] this [of 6] this [of 7] show ?thesis
    by (simp add: tkip_rc4key_def tkip_pn_def)
qed

lemma phase2_length: "length (phase2 tk p v) = 16"
  by (simp add: phase2_def split: prod.split)

text \<open>C18. TKIP round trip: a frame of one fragment that \<open>rtw_tkip_encrypt\<close> protects is accepted by
  \<open>rtw_tkip_decrypt\<close> under the same temporal key, pairwise or group, and turned back into the plain text
  followed by its CRC; descriptor, header and IV are untouched.\<close>

theorem tkip_roundtrip:
  assumes "encrypt a = TKIP" and "IS_MCAST (at_ra a) \<longrightarrow> binstallGrpkey ks \<and> key_index a = grp_keyid ks"
    and "nr_frags a = 1" and "icv_len a = 4" and "length hdr = hdrlen a" and "length iv = iv_len a"
    and "iv_len a = 8" and "last_txcmdsz a = hdrlen a + iv_len a + length plain + 4"
    and "length desc = hw_hdr_offset pkt_offset" and "length icv = 4"
  shows "\<exists>cipher. length cipher = length plain + 4 \<and>
     rtw_tkip_encrypt ks uk base frag_len pkt_offset a (Some (desc @ hdr @ iv @ plain @ icv @ post)) =
       Some (True, Some (desc @ hdr @ iv @ cipher @ post)) \<and>
     rtw_tkip_decrypt ks (Some uk) a (hdr @ iv @ cipher) (length (hdr @ iv @ cipher)) =
       Some (True, hdr @ iv @ plain @ le32_bytes (getcrc32 plain))"
proof -
  let ?tk = "if IS_MCAST (at_ra a) then grp_keys ks ! grp_keyid ks else uk"
  let ?crc = "le32_bytes (getcrc32 plain)"
  let ?text = "plain @ ?crc"
  define key where "key = phase2 ?tk (phase1 ?tk (at_ta a)
     (ucast (iv ! 4) OR push_bit 8 (ucast (iv ! 5)) OR push_bit 16 (ucast (iv ! 6)) OR push_bit 24 (ucast (iv ! 7))))
     (mk16 (iv ! 0) (iv ! 2))"
  have k: "tkip_rc4key ?tk (at_ta a) m p = Some (key, 16)" if "drop p m = iv @ rest" for m p rest
    unfolding key_def using that assms(6,7) by (intro tkip_rc4key_iv) simp_all
  obtain ctx where ctx: "arcfour_init key 16 = Some ctx"
    using arcfour_init_total [of 16 key] by (auto simp: key_def phase2_length)
  let ?cipher = "fst (arcfour_encrypt ?text ctx)"
  let ?m = "desc @ hdr @ iv @ plain @ icv @ post"
  have "arc4_protect ((desc @ hdr @ iv) @ plain @ icv @ post) (length (desc @ hdr @ iv)) (int (length plain)) key
      16 = Some ((desc @ hdr @ iv) @ ?cipher @ post)"
    by (rule arc4_protect_layout [OF ctx assms(10)]) simp_all
  moreover have "tkip_rc4key ?tk (at_ta a) ?m (length desc + length hdr) = Some (key, 16)" by (rule k) simp
  ultimately have enc: "rtw_tkip_encrypt ks uk base frag_len pkt_offset a (Some ?m) =
      Some (True, Some (desc @ hdr @ iv @ ?cipher @ post))"
    using assms(1,3-9)
    by (simp add: rtw_tkip_encrypt_def Let_def add.commute add.left_commute)
  have "tkip_rc4key ?tk (at_ta a) (hdr @ iv @ ?cipher) (length hdr) = Some (key, 16)" by (rule k) simp
  moreover have "rd_n ((hdr @ iv) @ ?cipher @ []) (length (hdr @ iv)) (length ?cipher) = Some ?cipher"
    by (rule rd_n_app) simp
  moreover have "wr_n ((hdr @ iv) @ ?cipher @ []) (length (hdr @ iv)) (fst (arcfour_encrypt ?cipher ctx)) =
      Some ((hdr @ iv) @ ?text @ [])"
    unfolding arc4.crypt_involution by (rule wr_n_app) simp
  moreover have "rd_n ((hdr @ iv @ plain) @ ?crc @ []) (length (hdr @ iv @ plain)) (length ?crc) = Some ?crc"
    by (rule rd_n_app) simp
  ultimately have "rtw_tkip_decrypt ks (Some uk) a (hdr @ iv @ ?cipher) (length (hdr @ iv @ ?cipher)) =
      Some (True, hdr @ iv @ ?text)"
    using assms(1,2,5,6,7) ctx by (auto simp: rtw_tkip_decrypt_def Let_def add.commute add.left_commute arc4.crypt_involution)
  with enc show ?thesis by (intro exI [of _ ?cipher]) simp
qed

theorem tkip_roundtrip_witness:
  "\<exists>cipher. rtw_tkip_decrypt
       \<lparr>grp_keys = [], grp_keyid = 0, binstallGrpkey = False\<rparr> (Some (replicate 16 7))
       \<lparr>encrypt = TKIP, hdrlen = 2, iv_len = 8, icv_len = 4, nr_frags = 1, last_txcmdsz = 17, key_index = 0,
        at_ra = [2], at_ta = [1, 2, 3, 4, 5, 6]\<rparr>
       ([8, 0] @ [9, 9, 9, 0, 1, 0, 0, 0] @ cipher) (length ([8, 0] @ [9, 9, 9, 0, 1, 0, 0, 0] @ cipher)) =
     Some (True, [8, 0] @ [9, 9, 9, 0, 1, 0, 0, 0] @ [65, 66, 67] @ le32_bytes (getcrc32 [65, 66, 67]))"
  using tkip_roundtrip [of "\<lparr>encrypt = TKIP, hdrlen = 2, iv_len = 8, icv_len = 4, nr_frags = 1, last_txcmdsz = 17, key_index = 0,
        at_ra = [2], at_ta = [1, 2, 3, 4, 5, 6]\<rparr>"
      "\<lparr>grp_keys = [], grp_keyid = 0, binstallGrpkey = False\<rparr>" "[8, 0]" "[9, 9, 9, 0, 1, 0, 0, 0]" "[65, 66, 67]"
      "replicate (hw_hdr_offset 0) 0" 0 "[0, 0, 0, 0]" "replicate 16 7" 0 0 "[]"]
  by (auto simp: IS_MCAST_def)

end
