(* ===== verification/Sec_Aes.thy ===== *)
theory Sec_Aes
  imports Prelude
begin

text \<open>
  The AES block cipher of \<open>core/crypto/aes-internal.c\<close>, \<open>aes-internal-enc.c\<close> and \<open>aes_i.h\<close> in the configuration
  of the driver (\<open>AES_SMALL_TABLES\<close>, no \<open>FULL_UNROLL\<close>): one table of 32 bit words does the substitution and
  the column mix of a round. It is proved equal to the cipher of FIPS 197, written over bytes with the
  arithmetic of \<open>GF(2^8)\<close>, for keys of 16, 24 and 32 bytes.
\<close>

section \<open>The implementation\<close>

definition Te0 :: "u32 list" where
  "Te0 = [0xc66363a5, 0xf87c7c84, 0xee777799, 0xf67b7b8d, 0xfff2f20d, 0xd66b6bbd, 0xde6f6fb1, 0x91c5c554,
     0x60303050, 0x02010103, 0xce6767a9, 0x562b2b7d, 0xe7fefe19, 0xb5d7d762, 0x4dababe6, 0xec76769a,
     0x8fcaca45, 0x1f82829d, 0x89c9c940, 0xfa7d7d87, 0xeffafa15, 0xb25959eb, 0x8e4747c9, 0xfbf0f00b,
     0x41adadec, 0xb3d4d467, 0x5fa2a2fd, 0x45afafea, 0x239c9cbf, 0x53a4a4f7, 0xe4727296, 0x9bc0c05b,
     0x75b7b7c2, 0xe1fdfd1c, 0x3d9393ae, 0x4c26266a, 0x6c36365a, 0x7e3f3f41, 0xf5f7f702, 0x83cccc4f,
     0x6834345c, 0x51a5a5f4, 0xd1e5e534, 0xf9f1f108, 0xe2717193, 0xabd8d873, 0x62313153, 0x2a15153f,
     0x0804040c, 0x95c7c752, 0x46232365, 0x9dc3c35e, 0x30181828, 0x379696a1, 0x0a05050f, 0x2f9a9ab5,
     0x0e070709, 0x24121236, 0x1b80809b, 0xdfe2e23d, 0xcdebeb26, 0x4e272769, 0x7fb2b2cd, 0xea75759f,
     0x1209091b, 0x1d83839e, 0x582c2c74, 0x341a1a2e, 0x361b1b2d, 0xdc6e6eb2, 0xb45a5aee, 0x5ba0a0fb,
     0xa45252f6, 0x763b3b4d, 0xb7d6d661, 0x7db3b3ce, 0x5229297b, 0xdde3e33e, 0x5e2f2f71, 0x13848497,
     0xa65353f5, 0xb9d1d168, 0x00000000, 0xc1eded2c, 0x40202060, 0xe3fcfc1f, 0x79b1b1c8, 0xb65b5bed,
     0xd46a6abe, 0x8dcbcb46, 0x67bebed9, 0x7239394b, 0x944a4ade, 0x984c4cd4, 0xb05858e8, 0x85cfcf4a,
     0xbbd0d06b, 0xc5efef2a, 0x4faaaae5, 0xedfbfb16, 0x864343c5, 0x9a4d4dd7, 0x66333355, 0x11858594,
     0x8a4545cf, 0xe9f9f910, 0x04020206, 0xfe7f7f81, 0xa05050f0, 0x783c3c44, 0x259f9fba, 0x4ba8a8e3,
     0xa25151f3, 0x5da3a3fe, 0x804040c0, 0x058f8f8a, 0x3f9292ad, 0x219d9dbc, 0x70383848, 0xf1f5f504,
     0x63bcbcdf, 0x77b6b6c1, 0xafdada75, 0x42212163, 0x20101030, 0xe5ffff1a, 0xfdf3f30e, 0xbfd2d26d,
     0x81cdcd4c, 0x180c0c14, 0x26131335, 0xc3ecec2f, 0xbe5f5fe1, 0x359797a2, 0x884444cc, 0x2e171739,
     0x93c4c457, 0x55a7a7f2, 0xfc7e7e82, 0x7a3d3d47, 0xc86464ac, 0xba5d5de7, 0x3219192b, 0xe6737395,
     0xc06060a0, 0x19818198, 0x9e4f4fd1, 0xa3dcdc7f, 0x44222266, 0x542a2a7e, 0x3b9090ab, 0x0b888883,
     0x8c4646ca, 0xc7eeee29, 0x6bb8b8d3, 0x2814143c, 0xa7dede79, 0xbc5e5ee2, 0x160b0b1d, 0xaddbdb76,
     0xdbe0e03b, 0x64323256, 0x743a3a4e, 0x140a0a1e, 0x924949db, 0x0c06060a, 0x4824246c, 0xb85c5ce4,
     0x9fc2c25d, 0xbdd3d36e, 0x43acacef, 0xc46262a6, 0x399191a8, 0x319595a4, 0xd3e4e437, 0xf279798b,
     0xd5e7e732, 0x8bc8c843, 0x6e373759, 0xda6d6db7, 0x018d8d8c, 0xb1d5d564, 0x9c4e4ed2, 0x49a9a9e0,
     0xd86c6cb4, 0xac5656fa, 0xf3f4f407, 0xcfeaea25, 0xca6565af, 0xf47a7a8e, 0x47aeaee9, 0x10080818,
     0x6fbabad5, 0xf0787888, 0x4a25256f, 0x5c2e2e72, 0x381c1c24, 0x57a6a6f1, 0x73b4b4c7, 0x97c6c651,
     0xcbe8e823, 0xa1dddd7c, 0xe874749c, 0x3e1f1f21, 0x964b4bdd, 0x61bdbddc, 0x0d8b8b86, 0x0f8a8a85,
     0xe0707090, 0x7c3e3e42, 0x71b5b5c4, 0xcc6666aa, 0x904848d8, 0x06030305, 0xf7f6f601, 0x1c0e0e12,
     0xc26161a3, 0x6a35355f, 0xae5757f9, 0x69b9b9d0, 0x17868691, 0x99c1c158, 0x3a1d1d27, 0x279e9eb9,
     0xd9e1e138, 0xebf8f813, 0x2b9898b3, 0x22111133, 0xd26969bb, 0xa9d9d970, 0x078e8e89, 0x339494a7,
     0x2d9b9bb6, 0x3c1e1e22, 0x15878792, 0xc9e9e920, 0x87cece49, 0xaa5555ff, 0x50282878, 0xa5dfdf7a,
     0x038c8c8f, 0x59a1a1f8, 0x09898980, 0x1a0d0d17, 0x65bfbfda, 0xd7e6e631, 0x844242c6, 0xd06868b8,
     0x824141c3, 0x299999b0, 0x5a2d2d77, 0x1e0f0f11, 0x7bb0b0cb, 0xa85454fc, 0x6dbbbbd6, 0x2c16163a]"

definition rcons :: "u8 list" where
  "rcons = [0x01, 0x02, 0x04, 0x08, 0x10, 0x20, 0x40, 0x80, 0x1B, 0x36]"

definition RCON :: "nat \<Rightarrow> u32" where "RCON i = push_bit 24 (ucast (rcons ! i))"

definition rotr :: "u32 \<Rightarrow> nat \<Rightarrow> u32" where
  "rotr val bits = drop_bit bits val OR push_bit (32 - bits) val"

definition GETU32 :: "bytes \<Rightarrow> nat \<Rightarrow> u32" where
  "GETU32 pt i = push_bit 24 (ucast (pt ! i)) XOR push_bit 16 (ucast (pt ! (i + 1))) XOR
     push_bit 8 (ucast (pt ! (i + 2))) XOR ucast (pt ! (i + 3))"

definition PUTU32 :: "u32 \<Rightarrow> bytes" where
  "PUTU32 st = [ucast (drop_bit 24 st), ucast (drop_bit 16 st), ucast (drop_bit 8 st), ucast st]"

text \<open>Byte \<open>(i >> k) & 0xff\<close> as an index of the table.\<close>

definition Te0_at :: "nat \<Rightarrow> u32 \<Rightarrow> u32" where
  "Te0_at k i = Te0 ! unat (drop_bit k i AND 0xff)"

definition TE0 :: "u32 \<Rightarrow> u32" where "TE0 i = Te0_at 24 i"
definition TE1 :: "u32 \<Rightarrow> u32" where "TE1 i = rotr (Te0_at 16 i) 8"
definition TE2 :: "u32 \<Rightarrow> u32" where "TE2 i = rotr (Te0_at 8 i) 16"
definition TE3 :: "u32 \<Rightarrow> u32" where "TE3 i = rotr (Te0_at 0 i) 24"
definition TE41 :: "u32 \<Rightarrow> u32" where "TE41 i = push_bit 8 (Te0_at 24 i) AND 0xff000000"
definition TE42 :: "u32 \<Rightarrow> u32" where "TE42 i = Te0_at 16 i AND 0x00ff0000"
definition TE43 :: "u32 \<Rightarrow> u32" where "TE43 i = Te0_at 8 i AND 0x0000ff00"
definition TE44 :: "u32 \<Rightarrow> u32" where "TE44 i = drop_bit 8 (Te0_at 0 i) AND 0x000000ff"
definition TE421 :: "u32 \<Rightarrow> u32" where "TE421 i = push_bit 8 (Te0_at 16 i) AND 0xff000000"
definition TE432 :: "u32 \<Rightarrow> u32" where "TE432 i = Te0_at 8 i AND 0x00ff0000"
definition TE443 :: "u32 \<Rightarrow> u32" where "TE443 i = Te0_at 0 i AND 0x0000ff00"
definition TE414 :: "u32 \<Rightarrow> u32" where "TE414 i = drop_bit 8 (Te0_at 24 i) AND 0x000000ff"
definition TE411 :: "u32 \<Rightarrow> u32" where "TE411 i = push_bit 8 (Te0_at 24 i) AND 0xff000000"
definition TE422 :: "u32 \<Rightarrow> u32" where "TE422 i = Te0_at 16 i AND 0x00ff0000"
definition TE433 :: "u32 \<Rightarrow> u32" where "TE433 i = Te0_at 8 i AND 0x0000ff00"
definition TE444 :: "u32 \<Rightarrow> u32" where "TE444 i = drop_bit 8 (Te0_at 0 i) AND 0x000000ff"

text \<open>The key schedule. \<open>rk\<close> is the part of the array that has been written; the pointer of the code is at its
  last four, six or eight words.\<close>

definition rk_first :: "u32 \<Rightarrow> nat \<Rightarrow> u32" where
  "rk_first temp i = TE421 temp XOR TE432 temp XOR TE443 temp XOR TE414 temp XOR RCON i"

definition setup128_step :: "u32 list \<Rightarrow> nat \<Rightarrow> u32 list" where
  "setup128_step rk i = (let p = length rk - 4;
      r4 = rk ! p XOR rk_first (rk ! (p + 3)) i;
      r5 = rk ! (p + 1) XOR r4; r6 = rk ! (p + 2) XOR r5; r7 = rk ! (p + 3) XOR r6 in
    rk @ [r4, r5, r6, r7])"

definition setup192_step :: "u32 list \<Rightarrow> nat \<Rightarrow> u32 list" where
  "setup192_step rk i = (let p = length rk - 6;
      r6 = rk ! p XOR rk_first (rk ! (p + 5)) i;
      r7 = rk ! (p + 1) XOR r6; r8 = rk ! (p + 2) XOR r7; r9 = rk ! (p + 3) XOR r8 in
    if i = 7 then rk @ [r6, r7, r8, r9]
    else (let r10 = rk ! (p + 4) XOR r9; r11 = rk ! (p + 5) XOR r10 in rk @ [r6, r7, r8, r9, r10, r11]))"

definition setup256_step :: "u32 list \<Rightarrow> nat \<Rightarrow> u32 list" where
  "setup256_step rk i = (let p = length rk - 8;
      r8 = rk ! p XOR rk_first (rk ! (p + 7)) i;
      r9 = rk ! (p + 1) XOR r8; r10 = rk ! (p + 2) XOR r9; r11 = rk ! (p + 3) XOR r10 in
    if i = 6 then rk @ [r8, r9, r10, r11]
    else (let r12 = rk ! (p + 4) XOR (TE411 r11 XOR TE422 r11 XOR TE433 r11 XOR TE444 r11);
              r13 = rk ! (p + 5) XOR r12; r14 = rk ! (p + 6) XOR r13; r15 = rk ! (p + 7) XOR r14 in
          rk @ [r8, r9, r10, r11, r12, r13, r14, r15]))"

text \<open>The result is the schedule and the number of rounds; \<open>None\<close> is the result -1.\<close>

definition rijndaelKeySetupEnc :: "bytes \<Rightarrow> nat \<Rightarrow> (u32 list \<times> nat) option" where
  "rijndaelKeySetupEnc cipherKey keyBits =
     (if keyBits = 128 then Some (foldl setup128_step (map (\<lambda>i. GETU32 cipherKey (4 * i)) [0..<4]) [0..<10], 10)
      else if keyBits = 192 then Some (foldl setup192_step (map (\<lambda>i. GETU32 cipherKey (4 * i)) [0..<6]) [0..<8], 12)
      else if keyBits = 256 then Some (foldl setup256_step (map (\<lambda>i. GETU32 cipherKey (4 * i)) [0..<8]) [0..<7], 14)
      else None)"

type_synonym aes_state = "u32 \<times> u32 \<times> u32 \<times> u32"

text \<open>The macro \<open>ROUND(i,d,s)\<close>; \<open>k\<close> is the index of \<open>rk[4 * i]\<close>.\<close>

definition ROUND :: "u32 list \<Rightarrow> nat \<Rightarrow> aes_state \<Rightarrow> aes_state" where
  "ROUND rk k s = (case s of (s0, s1, s2, s3) \<Rightarrow>
     (TE0 s0 XOR TE1 s1 XOR TE2 s2 XOR TE3 s3 XOR rk ! k,
      TE0 s1 XOR TE1 s2 XOR TE2 s3 XOR TE3 s0 XOR rk ! (k + 1),
      TE0 s2 XOR TE1 s3 XOR TE2 s0 XOR TE3 s1 XOR rk ! (k + 2),
      TE0 s3 XOR TE1 s0 XOR TE2 s1 XOR TE3 s2 XOR rk ! (k + 3)))"

text \<open>The loop over two rounds: the result is the state \<open>t\<close> at the break and the position of \<open>rk\<close>.\<close>

fun rounds_loop :: "nat \<Rightarrow> u32 list \<Rightarrow> nat \<Rightarrow> aes_state \<Rightarrow> aes_state \<times> nat" where
  "rounds_loop r rk k s =
     (let t = ROUND rk (k + 4) s in
      if r \<le> 1 then (t, k + 8) else rounds_loop (r - 1) rk (k + 8) (ROUND rk (k + 8) t))"

declare rounds_loop.simps [simp del]

definition rijndaelEncrypt :: "u32 list \<Rightarrow> nat \<Rightarrow> bytes \<Rightarrow> bytes" where
  "rijndaelEncrypt rk Nr pt =
     (let s = (GETU32 pt 0 XOR rk ! 0, GETU32 pt 4 XOR rk ! 1, GETU32 pt 8 XOR rk ! 2, GETU32 pt 12 XOR rk ! 3) in
      case rounds_loop (Nr div 2) rk 0 s of ((t0, t1, t2, t3), k) \<Rightarrow>
        PUTU32 (TE41 t0 XOR TE42 t1 XOR TE43 t2 XOR TE44 t3 XOR rk ! k) @
        PUTU32 (TE41 t1 XOR TE42 t2 XOR TE43 t3 XOR TE44 t0 XOR rk ! (k + 1)) @
        PUTU32 (TE41 t2 XOR TE42 t3 XOR TE43 t0 XOR TE44 t1 XOR rk ! (k + 2)) @
        PUTU32 (TE41 t3 XOR TE42 t0 XOR TE43 t1 XOR TE44 t2 XOR rk ! (k + 3)))"

text \<open>The context that \<open>aes_encrypt_init\<close> allocates: the schedule, with the number of rounds in its last word.
  \<open>alloc\<close> says whether the allocation succeeds.\<close>

type_synonym aes_ctx = "u32 list \<times> nat"

definition aes_encrypt_init :: "bool \<Rightarrow> bytes \<Rightarrow> nat \<Rightarrow> aes_ctx option" where
  "aes_encrypt_init alloc key len = (if alloc then rijndaelKeySetupEnc key (len * 8) else None)"

definition aes_encrypt :: "aes_ctx \<Rightarrow> bytes \<Rightarrow> bytes" where
  "aes_encrypt ctx plain = rijndaelEncrypt (fst ctx) (snd ctx) plain"

section \<open>FIPS 197\<close>

definition xtime :: "u8 \<Rightarrow> u8" where
  "xtime b = push_bit 1 b XOR (if bit b 7 then 0x1b else 0)"

text \<open>The substitution, in the tabular form of the standard.\<close>

definition sbox_table :: "u8 list" where
  "sbox_table = [0x63, 0x7c, 0x77, 0x7b, 0xf2, 0x6b, 0x6f, 0xc5, 0x30, 0x01, 0x67, 0x2b, 0xfe, 0xd7, 0xab, 0x76,
     0xca, 0x82, 0xc9, 0x7d, 0xfa, 0x59, 0x47, 0xf0, 0xad, 0xd4, 0xa2, 0xaf, 0x9c, 0xa4, 0x72, 0xc0,
     0xb7, 0xfd, 0x93, 0x26, 0x36, 0x3f, 0xf7, 0xcc, 0x34, 0xa5, 0xe5, 0xf1, 0x71, 0xd8, 0x31, 0x15,
     0x04, 0xc7, 0x23, 0xc3, 0x18, 0x96, 0x05, 0x9a, 0x07, 0x12, 0x80, 0xe2, 0xeb, 0x27, 0xb2, 0x75,
     0x09, 0x83, 0x2c, 0x1a, 0x1b, 0x6e, 0x5a, 0xa0, 0x52, 0x3b, 0xd6, 0xb3, 0x29, 0xe3, 0x2f, 0x84,
     0x53, 0xd1, 0x00, 0xed, 0x20, 0xfc, 0xb1, 0x5b, 0x6a, 0xcb, 0xbe, 0x39, 0x4a, 0x4c, 0x58, 0xcf,
     0xd0, 0xef, 0xaa, 0xfb, 0x43, 0x4d, 0x33, 0x85, 0x45, 0xf9, 0x02, 0x7f, 0x50, 0x3c, 0x9f, 0xa8,
     0x51, 0xa3, 0x40, 0x8f, 0x92, 0x9d, 0x38, 0xf5, 0xbc, 0xb6, 0xda, 0x21, 0x10, 0xff, 0xf3, 0xd2,
     0xcd, 0x0c, 0x13, 0xec, 0x5f, 0x97, 0x44, 0x17, 0xc4, 0xa7, 0x7e, 0x3d, 0x64, 0x5d, 0x19, 0x73,
     0x60, 0x81, 0x4f, 0xdc, 0x22, 0x2a, 0x90, 0x88, 0x46, 0xee, 0xb8, 0x14, 0xde, 0x5e, 0x0b, 0xdb,
     0xe0, 0x32, 0x3a, 0x0a, 0x49, 0x06, 0x24, 0x5c, 0xc2, 0xd3, 0xac, 0x62, 0x91, 0x95, 0xe4, 0x79,
     0xe7, 0xc8, 0x37, 0x6d, 0x8d, 0xd5, 0x4e, 0xa9, 0x6c, 0x56, 0xf4, 0xea, 0x65, 0x7a, 0xae, 0x08,
     0xba, 0x78, 0x25, 0x2e, 0x1c, 0xa6, 0xb4, 0xc6, 0xe8, 0xdd, 0x74, 0x1f, 0x4b, 0xbd, 0x8b, 0x8a,
     0x70, 0x3e, 0xb5, 0x66, 0x48, 0x03, 0xf6, 0x0e, 0x61, 0x35, 0x57, 0xb9, 0x86, 0xc1, 0x1d, 0x9e,
     0xe1, 0xf8, 0x98, 0x11, 0x69, 0xd9, 0x8e, 0x94, 0x9b, 0x1e, 0x87, 0xe9, 0xce, 0x55, 0x28, 0xdf,
     0x8c, 0xa1, 0x89, 0x0d, 0xbf, 0xe6, 0x42, 0x68, 0x41, 0x99, 0x2d, 0x0f, 0xb0, 0x54, 0xbb, 0x16]"

definition sbox :: "u8 \<Rightarrow> u8" where "sbox b = sbox_table ! unat b"

text \<open>A state is the list of its 16 bytes, column by column.\<close>

definition sub_bytes :: "bytes \<Rightarrow> bytes" where "sub_bytes st = map sbox st"

definition shift_rows :: "bytes \<Rightarrow> bytes" where
  "shift_rows st = map (\<lambda>i. st ! ((i + 4 * (i mod 4)) mod 16)) [0..<16]"

fun mix_columns :: "bytes \<Rightarrow> bytes" where
  "mix_columns (a # b # c # d # st) =
     [xtime a XOR (xtime b XOR b) XOR c XOR d, a XOR xtime b XOR (xtime c XOR c) XOR d,
      a XOR b XOR xtime c XOR (xtime d XOR d), (xtime a XOR a) XOR b XOR c XOR xtime d] @ mix_columns st"
| "mix_columns _ = []"

definition add_round_key :: "bytes \<Rightarrow> bytes \<Rightarrow> bytes" where "add_round_key st k = map2 (XOR) st k"

text \<open>Key expansion over words of four bytes.\<close>

definition sub_word :: "bytes \<Rightarrow> bytes" where "sub_word w = map sbox w"
definition rot_word :: "bytes \<Rightarrow> bytes" where "rot_word w = rotate1 w"
definition rcon_word :: "nat \<Rightarrow> bytes" where "rcon_word i = [(xtime ^^ (i - 1)) 1, 0, 0, 0]"

definition expand_word :: "nat \<Rightarrow> bytes list \<Rightarrow> bytes" where
  "expand_word Nk ws = (let i = length ws; temp = last ws;
      temp = (if i mod Nk = 0 then map2 (XOR) (sub_word (rot_word temp)) (rcon_word (i div Nk))
              else if 6 < Nk \<and> i mod Nk = 4 then sub_word temp else temp) in
    map2 (XOR) (ws ! (i - Nk)) temp)"

definition key_words :: "bytes \<Rightarrow> bytes list" where
  "key_words key = map (\<lambda>i. take 4 (drop (4 * i) key)) [0..<length key div 4]"

definition key_expansion :: "bytes \<Rightarrow> nat \<Rightarrow> bytes list" where
  "key_expansion key Nr = (((\<lambda>ws. ws @ [expand_word (length key div 4) ws]) ^^ (4 * (Nr + 1) - length key div 4))) (key_words key)"

definition round_key :: "bytes list \<Rightarrow> nat \<Rightarrow> bytes" where
  "round_key ws r = concat (take 4 (drop (4 * r) ws))"

definition aes_round :: "bytes list \<Rightarrow> bytes \<Rightarrow> nat \<Rightarrow> bytes" where
  "aes_round ws st r = add_round_key (mix_columns (shift_rows (sub_bytes st))) (round_key ws r)"

definition aes_cipher :: "bytes \<Rightarrow> bytes \<Rightarrow> bytes" where
  "aes_cipher key block = (let Nr = length key div 4 + 6; ws = key_expansion key Nr;
      st = foldl (aes_round ws) (add_round_key block (round_key ws 0)) [1..<Nr] in
    add_round_key (shift_rows (sub_bytes st)) (round_key ws Nr))"

section \<open>Words and their bytes\<close>

definition word4 :: "u8 \<Rightarrow> u8 \<Rightarrow> u8 \<Rightarrow> u8 \<Rightarrow> u32" where
  "word4 a b c d = push_bit 24 (ucast a) XOR push_bit 16 (ucast b) XOR push_bit 8 (ucast c) XOR ucast d"

lemma u8_bit: "bit (a :: u8) n \<Longrightarrow> n < 8"
  using bit_imp_le_length [of a n] by simp

lemma u8_bit_out [simp]: "8 \<le> n \<Longrightarrow> \<not> bit (a :: u8) n"
  using u8_bit by fastforce

lemma u32_eqI:
  assumes "\<forall>n \<in> {0, 1, 2, 3, 4, 5, 6, 7, 8, 9, 10, 11, 12, 13, 14, 15, 16, 17, 18, 19, 20, 21, 22, 23, 24, 25, 26, 27, 28, 29, 30, 31}.
     bit v n = bit w n"
  shows "v = (w :: u32)"
proof (rule bit_word_eqI)
  fix n assume "n < LENGTH(32)"
  then have "n \<in> {0, 1, 2, 3, 4, 5, 6, 7, 8, 9, 10, 11, 12, 13, 14, 15, 16, 17, 18, 19, 20, 21, 22, 23, 24, 25, 26, 27, 28, 29, 30, 31}"
    by (simp add: numeral_eq_Suc less_Suc_eq)
  with assms show "bit v n = bit w n" by blast
qed

lemma bit_word4:
  "bit (word4 a b c d) n \<longleftrightarrow> (if n < 8 then bit d n else if n < 16 then bit c (n - 8)
     else if n < 24 then bit b (n - 16) else bit a (n - 24))"
  by (auto simp: word4_def bit_simps dest: u8_bit)

lemma word4_xor: "word4 a b c d XOR word4 a' b' c' d' = word4 (a XOR a') (b XOR b') (c XOR c') (d XOR d')"
  by (rule bit_word_eqI) (auto simp: bit_word4 bit_simps)

lemma word4_rotr:
  "rotr (word4 a b c d) 8 = word4 d a b c" "rotr (word4 a b c d) 16 = word4 c d a b" "rotr (word4 a b c d) 24 = word4 b c d a"
  by (rule u32_eqI; simp add: rotr_def bit_word4 bit_simps)+

lemma PUTU32_word4 [simp]: "PUTU32 (word4 a b c d) = [a, b, c, d]"
  by (auto intro!: bit_word_eqI simp: PUTU32_def bit_word4 bit_simps)

lemma word4_PUTU32: "\<exists>a b c d. w = word4 a b c d"
proof (intro exI)
  show "w = word4 (ucast (drop_bit 24 w)) (ucast (drop_bit 16 w)) (ucast (drop_bit 8 w)) (ucast w)"
    by (rule u32_eqI) (simp add: bit_word4 bit_simps)
qed

lemma word4_mask:
  "word4 a b c d AND 0xff000000 = word4 a 0 0 0" "word4 a b c d AND 0x00ff0000 = word4 0 b 0 0"
  "word4 a b c d AND 0x0000ff00 = word4 0 0 c 0" "word4 a b c d AND 0x000000ff = word4 0 0 0 d"
proof -
  have m: "0xff000000 = push_bit 24 (mask 8 :: u32)" "0x00ff0000 = push_bit 16 (mask 8 :: u32)"
      "0x0000ff00 = push_bit 8 (mask 8 :: u32)" "0x000000ff = (mask 8 :: u32)" by (simp_all add: mask_eq_exp_minus_1)
  show "word4 a b c d AND 0xff000000 = word4 a 0 0 0" "word4 a b c d AND 0x00ff0000 = word4 0 b 0 0"
    "word4 a b c d AND 0x0000ff00 = word4 0 0 c 0" "word4 a b c d AND 0x000000ff = word4 0 0 0 d"
    unfolding m by (rule u32_eqI; simp add: bit_word4 bit_simps)+
qed

lemma word4_shift:
  "push_bit 8 (word4 a b c d) = word4 b c d 0" "drop_bit 8 (word4 a b c d) = word4 0 a b c"
  by (rule u32_eqI; simp add: bit_word4 bit_simps)+

lemma word4_byte:
  "drop_bit 24 (word4 a b c d) AND 0xff = ucast a" "drop_bit 16 (word4 a b c d) AND 0xff = ucast b"
  "drop_bit 8 (word4 a b c d) AND 0xff = ucast c" "word4 a b c d AND 0xff = ucast d"
proof -
  have m: "(0xff :: u32) = mask 8" by (simp add: mask_eq_exp_minus_1)
  show "drop_bit 24 (word4 a b c d) AND 0xff = ucast a" "drop_bit 16 (word4 a b c d) AND 0xff = ucast b"
    "drop_bit 8 (word4 a b c d) AND 0xff = ucast c" "word4 a b c d AND 0xff = ucast d"
    unfolding m by (auto intro!: bit_word_eqI simp: bit_word4 bit_simps dest: u8_bit)
qed

lemma GETU32_word4: "GETU32 pt i = word4 (pt ! i) (pt ! (i + 1)) (pt ! (i + 2)) (pt ! (i + 3))"
  by (simp add: GETU32_def word4_def)

section \<open>The table\<close>

lemma Te0_sbox: "Te0 = map (\<lambda>s. word4 (xtime s) s s (xtime s XOR s)) sbox_table"
  by code_simp

lemma Te0_nth: "Te0 ! unat (ucast (b :: u8) :: u32) = word4 (xtime (sbox b)) (sbox b) (sbox b) (xtime (sbox b) XOR sbox b)"
proof -
  have "length sbox_table = 256" by (simp add: sbox_table_def)
  moreover have "unat (ucast b :: u32) = unat b"
    using unsigned_less [of b, where 'a = nat] by (simp add: unsigned_ucast_eq take_bit_eq_mod)
  ultimately show ?thesis
    using unsigned_less [of b, where 'a = nat] by (simp add: Te0_sbox sbox_def)
qed

lemma Te0_at_word4:
  "Te0_at 24 (word4 a b c d) = word4 (xtime (sbox a)) (sbox a) (sbox a) (xtime (sbox a) XOR sbox a)"
  "Te0_at 16 (word4 a b c d) = word4 (xtime (sbox b)) (sbox b) (sbox b) (xtime (sbox b) XOR sbox b)"
  "Te0_at 8 (word4 a b c d) = word4 (xtime (sbox c)) (sbox c) (sbox c) (xtime (sbox c) XOR sbox c)"
  "Te0_at 0 (word4 a b c d) = word4 (xtime (sbox d)) (sbox d) (sbox d) (xtime (sbox d) XOR sbox d)"
  by (simp_all add: Te0_at_def word4_byte Te0_nth)

lemmas TE_word4 = TE0_def TE1_def TE2_def TE3_def TE41_def TE42_def TE43_def TE44_def TE421_def TE432_def TE443_def
  TE414_def TE411_def TE422_def TE433_def TE444_def Te0_at_word4 word4_rotr word4_shift word4_mask

section \<open>One round\<close>

definition state_bytes :: "aes_state \<Rightarrow> bytes" where
  "state_bytes s = (case s of (s0, s1, s2, s3) \<Rightarrow> PUTU32 s0 @ PUTU32 s1 @ PUTU32 s2 @ PUTU32 s3)"

definition rk_bytes :: "u32 list \<Rightarrow> nat \<Rightarrow> bytes" where
  "rk_bytes rk k = PUTU32 (rk ! k) @ PUTU32 (rk ! (k + 1)) @ PUTU32 (rk ! (k + 2)) @ PUTU32 (rk ! (k + 3))"

lemma shift_rows_16:
  "shift_rows [a0, a1, a2, a3, b0, b1, b2, b3, c0, c1, c2, c3, d0, d1, d2, d3] =
     [a0, b1, c2, d3, b0, c1, d2, a3, c0, d1, a2, b3, d0, a1, b2, c3]"
  by (simp add: shift_rows_def upt_rec)

lemma ROUND_bytes:
  "state_bytes (ROUND rk k s) = add_round_key (mix_columns (shift_rows (sub_bytes (state_bytes s)))) (rk_bytes rk k)"
proof -
  obtain s0 s1 s2 s3 where s: "s = (s0, s1, s2, s3)" by (cases s) auto
  obtain a0 a1 a2 a3 where "s0 = word4 a0 a1 a2 a3" using word4_PUTU32 by metis
  moreover obtain b0 b1 b2 b3 where "s1 = word4 b0 b1 b2 b3" using word4_PUTU32 by metis
  moreover obtain c0 c1 c2 c3 where "s2 = word4 c0 c1 c2 c3" using word4_PUTU32 by metis
  moreover obtain d0 d1 d2 d3 where "s3 = word4 d0 d1 d2 d3" using word4_PUTU32 by metis
  moreover obtain k0 k1 k2 k3 where "rk ! k = word4 k0 k1 k2 k3" using word4_PUTU32 by metis
  moreover obtain l0 l1 l2 l3 where "rk ! (k + 1) = word4 l0 l1 l2 l3" using word4_PUTU32 by metis
  moreover obtain m0 m1 m2 m3 where "rk ! (k + 2) = word4 m0 m1 m2 m3" using word4_PUTU32 by metis
  moreover obtain n0 n1 n2 n3 where "rk ! (k + 3) = word4 n0 n1 n2 n3" using word4_PUTU32 by metis
  ultimately show ?thesis
    by (simp add: s ROUND_def state_bytes_def rk_bytes_def TE_word4 word4_xor sub_bytes_def shift_rows_16
        add_round_key_def xor.assoc)
qed

section \<open>The rounds\<close>

definition aes_round_rk :: "u32 list \<Rightarrow> bytes \<Rightarrow> nat \<Rightarrow> bytes" where
  "aes_round_rk rk st r = add_round_key (mix_columns (shift_rows (sub_bytes st))) (rk_bytes rk (4 * r))"

lemma rounds_loop_bytes:
  assumes "0 < r"
  shows "\<exists>t. rounds_loop r rk (4 * j) s = (t, 4 * (j + 2 * r)) \<and>
     state_bytes t = foldl (aes_round_rk rk) (state_bytes s) [Suc j..<j + 2 * r]"
  using assms
proof (induction r arbitrary: j s)
  case (Suc r)
  have one: "state_bytes (ROUND rk (4 * j + 4) s) = aes_round_rk rk (state_bytes s) (Suc j)" for j s
    by (simp add: ROUND_bytes aes_round_rk_def add.commute)
  show ?case
  proof (cases "r = 0")
    case True
    then show ?thesis by (subst rounds_loop.simps) (simp add: one upt_rec)
  next
    case False
    let ?t = "ROUND rk (4 * j + 4) s"
    let ?s = "ROUND rk (4 * j + 8) ?t"
    have s: "state_bytes ?s = aes_round_rk rk (aes_round_rk rk (state_bytes s) (Suc j)) (Suc (Suc j))"
      using one [of "Suc j" ?t] one [of j s] by (simp add: algebra_simps)
    have l: "[Suc j..<j + 2 * Suc r] = Suc j # Suc (Suc j) # [Suc (j + 2)..<j + 2 + 2 * r]"
      using False by (simp add: upt_conv_Cons)
    obtain t where "rounds_loop r rk (4 * (j + 2)) ?s = (t, 4 * (j + 2 + 2 * r))"
        "state_bytes t = foldl (aes_round_rk rk) (state_bytes ?s) [Suc (j + 2)..<j + 2 + 2 * r]"
      using Suc.IH [of "j + 2" ?s] False by blast
    moreover have "rounds_loop (Suc r) rk (4 * j) s = rounds_loop r rk (4 * (j + 2)) ?s"
      using False by (subst rounds_loop.simps) (simp add: Let_def add.commute)
    ultimately show ?thesis by (simp only: l s foldl_Cons) simp
  qed
qed simp

lemma last_round_bytes:
  "state_bytes (t0, t1, t2, t3) = st \<Longrightarrow>
     PUTU32 (TE41 t0 XOR TE42 t1 XOR TE43 t2 XOR TE44 t3 XOR rk ! k) @
     PUTU32 (TE41 t1 XOR TE42 t2 XOR TE43 t3 XOR TE44 t0 XOR rk ! (k + 1)) @
     PUTU32 (TE41 t2 XOR TE42 t3 XOR TE43 t0 XOR TE44 t1 XOR rk ! (k + 2)) @
     PUTU32 (TE41 t3 XOR TE42 t0 XOR TE43 t1 XOR TE44 t2 XOR rk ! (k + 3)) =
     add_round_key (shift_rows (sub_bytes st)) (rk_bytes rk k)"
proof -
  assume st: "state_bytes (t0, t1, t2, t3) = st"
  obtain a0 a1 a2 a3 where "t0 = word4 a0 a1 a2 a3" using word4_PUTU32 by metis
  moreover obtain b0 b1 b2 b3 where "t1 = word4 b0 b1 b2 b3" using word4_PUTU32 by metis
  moreover obtain c0 c1 c2 c3 where "t2 = word4 c0 c1 c2 c3" using word4_PUTU32 by metis
  moreover obtain d0 d1 d2 d3 where "t3 = word4 d0 d1 d2 d3" using word4_PUTU32 by metis
  moreover obtain k0 k1 k2 k3 where "rk ! k = word4 k0 k1 k2 k3" using word4_PUTU32 by metis
  moreover obtain l0 l1 l2 l3 where "rk ! (k + 1) = word4 l0 l1 l2 l3" using word4_PUTU32 by metis
  moreover obtain m0 m1 m2 m3 where "rk ! (k + 2) = word4 m0 m1 m2 m3" using word4_PUTU32 by metis
  moreover obtain n0 n1 n2 n3 where "rk ! (k + 3) = word4 n0 n1 n2 n3" using word4_PUTU32 by metis
  ultimately show ?thesis
    by (simp add: st [symmetric] state_bytes_def rk_bytes_def TE_word4 word4_xor sub_bytes_def shift_rows_16
        add_round_key_def)
qed

lemma first_key_bytes:
  assumes "length pt = 16"
  shows "state_bytes (GETU32 pt 0 XOR rk ! 0, GETU32 pt 4 XOR rk ! 1, GETU32 pt 8 XOR rk ! 2, GETU32 pt 12 XOR rk ! 3) =
     add_round_key pt (rk_bytes rk 0)"
proof -
  obtain k0 k1 k2 k3 where "rk ! 0 = word4 k0 k1 k2 k3" using word4_PUTU32 by metis
  moreover obtain l0 l1 l2 l3 where "rk ! 1 = word4 l0 l1 l2 l3" using word4_PUTU32 by metis
  moreover obtain m0 m1 m2 m3 where "rk ! 2 = word4 m0 m1 m2 m3" using word4_PUTU32 by metis
  moreover obtain n0 n1 n2 n3 where "rk ! 3 = word4 n0 n1 n2 n3" using word4_PUTU32 by metis
  moreover obtain p0 p1 p2 p3 p4 p5 p6 p7 p8 p9 p10 p11 p12 p13 p14 p15
    where "pt = [p0, p1, p2, p3, p4, p5, p6, p7, p8, p9, p10, p11, p12, p13, p14, p15]"
    using assms by (auto simp: numeral_eq_Suc length_Suc_conv)
  ultimately show ?thesis
    by (simp add: state_bytes_def rk_bytes_def GETU32_word4 word4_xor add_round_key_def flip: numeral_2_eq_2)
qed

lemma rijndaelEncrypt_rounds:
  assumes "length pt = 16" "even Nr" "0 < Nr"
  shows "rijndaelEncrypt rk Nr pt = add_round_key (shift_rows (sub_bytes
     (foldl (aes_round_rk rk) (add_round_key pt (rk_bytes rk 0)) [1..<Nr]))) (rk_bytes rk (4 * Nr))"
proof -
  let ?s = "(GETU32 pt 0 XOR rk ! 0, GETU32 pt 4 XOR rk ! 1, GETU32 pt 8 XOR rk ! 2, GETU32 pt 12 XOR rk ! 3)"
  have "0 < Nr div 2" "2 * (Nr div 2) = Nr" using assms(2,3) by (auto elim!: evenE)
  then obtain t where "rounds_loop (Nr div 2) rk 0 ?s = (t, 4 * Nr)"
      "state_bytes t = foldl (aes_round_rk rk) (state_bytes ?s) [1..<Nr]"
    using rounds_loop_bytes [of "Nr div 2" rk 0 ?s] by auto
  moreover obtain t0 t1 t2 t3 where "t = (t0, t1, t2, t3)" by (cases t)
  ultimately show ?thesis
    using last_round_bytes [of t0 t1 t2 t3, OF refl, of rk "4 * Nr"] first_key_bytes [OF assms(1), of rk]
    by (simp add: rijndaelEncrypt_def Let_def)
qed

section \<open>The key schedule\<close>

definition wd :: "bytes \<Rightarrow> u32" where "wd w = word4 (w ! 0) (w ! 1) (w ! 2) (w ! 3)"

definition ext :: "nat \<Rightarrow> bytes list \<Rightarrow> bytes list" where "ext Nk ws = ws @ [expand_word Nk ws]"

text \<open>The extension on words.\<close>

definition ext_w :: "nat \<Rightarrow> u32 list \<Rightarrow> u32 list" where
  "ext_w Nk rk = (let i = length rk; x = last rk in
     rk @ [rk ! (i - Nk) XOR (if i mod Nk = 0 then rk_first x (i div Nk - 1)
       else if 6 < Nk \<and> i mod Nk = 4 then TE411 x XOR TE422 x XOR TE433 x XOR TE444 x else x)])"

lemma len4: "length (w :: bytes) = 4 \<Longrightarrow> \<exists>a b c d. w = [a, b, c, d]"
  by (auto simp: numeral_eq_Suc length_Suc_conv)

lemma wd_xor: "length a = 4 \<Longrightarrow> length b = 4 \<Longrightarrow> wd (map2 (XOR) a b) = wd a XOR wd b"
  using len4 [of a] len4 [of b] by (auto simp: wd_def word4_xor)

lemma wd_sub: "length w = 4 \<Longrightarrow> wd (sub_word w) = TE411 (wd w) XOR TE422 (wd w) XOR TE433 (wd w) XOR TE444 (wd w)"
  using len4 [of w] by (auto simp: wd_def sub_word_def TE_word4 word4_xor)

lemma rcons_xtime: "i < 10 \<Longrightarrow> rcons ! i = (xtime ^^ i) 1"
proof -
  have "\<forall>i \<in> set [0..<10]. rcons ! i = (xtime ^^ i) 1" by code_simp
  then show "i < 10 \<Longrightarrow> rcons ! i = (xtime ^^ i) 1" by simp
qed

lemma wd_first:
  assumes "length w = 4" "i < 10"
  shows "wd (map2 (XOR) (sub_word (rot_word w)) (rcon_word (Suc i))) = rk_first (wd w) i"
proof -
  obtain a b c d where w: "w = [a, b, c, d]" using len4 [OF assms(1)] by blast
  have "RCON i = word4 ((xtime ^^ i) 1) 0 0 0" using assms(2) by (simp add: RCON_def rcons_xtime word4_def)
  then show ?thesis
    by (simp add: w wd_def sub_word_def rot_word_def rcon_word_def rk_first_def TE_word4 word4_xor)
qed

lemma expand_word_len:
  assumes "list_all (\<lambda>w. length w = 4) ws" "0 < Nk" "Nk \<le> length ws"
  shows "length (expand_word Nk ws) = 4"
proof -
  have "ws ! (length ws - Nk) \<in> set ws" "last ws \<in> set ws" using assms(2,3) by (auto intro: last_in_set nth_mem)
  then have "length (ws ! (length ws - Nk)) = 4" "length (last ws) = 4" using assms(1) by (auto simp: list_all_iff)
  then show ?thesis by (simp add: expand_word_def Let_def sub_word_def rot_word_def rcon_word_def)
qed

lemma ext_words:
  assumes "list_all (\<lambda>w. length w = 4) ws" "0 < Nk" "Nk \<le> length ws" "length ws < 11 * Nk"
  shows "map wd (ext Nk ws) = ext_w Nk (map wd ws) \<and> list_all (\<lambda>w. length w = 4) (ext Nk ws)"
proof -
  let ?i = "length ws"
  have ne: "ws \<noteq> []" using assms(2,3) by auto
  have len: "length (ws ! (?i - Nk)) = 4" "length (last ws) = 4"
    using assms(1-3) ne by (auto simp: list_all_iff intro: last_in_set nth_mem)
  have sub: "length (sub_word (last ws)) = 4" "length (map2 (XOR) (sub_word (rot_word (last ws))) (rcon_word k)) = 4" for k
    using len by (simp_all add: sub_word_def rot_word_def rcon_word_def)
  have "1 \<le> ?i div Nk" using assms(2,3) by (simp add: div_greater_zero_iff Suc_le_eq)
  moreover have "?i div Nk < 11" using assms(4) by (rule less_mult_imp_div_less)
  ultimately have "?i div Nk = Suc (?i div Nk - 1)" "?i div Nk - 1 < 10" by linarith+
  then have "wd (map2 (XOR) (sub_word (rot_word (last ws))) (rcon_word (?i div Nk))) = rk_first (wd (last ws)) (?i div Nk - 1)"
    using wd_first [OF len(2), of "?i div Nk - 1"] by simp
  then have "wd (expand_word Nk ws) = map wd ws ! (?i - Nk) XOR
      (if ?i mod Nk = 0 then rk_first (wd (last ws)) (?i div Nk - 1)
       else if 6 < Nk \<and> ?i mod Nk = 4 then TE411 (wd (last ws)) XOR TE422 (wd (last ws)) XOR TE433 (wd (last ws)) XOR TE444 (wd (last ws))
       else wd (last ws))"
    using assms(2,3) len sub by (simp add: expand_word_def Let_def wd_xor wd_sub)
  then show ?thesis
    using assms(1) expand_word_len [OF assms(1-3)] ne by (simp add: ext_def ext_w_def Let_def last_map)
qed

lemma ext_funpow:
  assumes "list_all (\<lambda>w. length w = 4) ws" "0 < Nk" "length ws = Nk" "n \<le> 10 * Nk"
  shows "map wd ((ext Nk ^^ n) ws) = (ext_w Nk ^^ n) (map wd ws) \<and> list_all (\<lambda>w. length w = 4) ((ext Nk ^^ n) ws) \<and>
     length ((ext Nk ^^ n) ws) = Nk + n"
  using assms(4)
proof (induction n)
  case (Suc n)
  let ?ws = "(ext Nk ^^ n) ws"
  from Suc have IH: "map wd ?ws = (ext_w Nk ^^ n) (map wd ws)" "list_all (\<lambda>w. length w = 4) ?ws" "length ?ws = Nk + n" by auto
  then have "map wd (ext Nk ?ws) = ext_w Nk (map wd ?ws) \<and> list_all (\<lambda>w. length w = 4) (ext Nk ?ws)"
    using Suc.prems assms(2) by (intro ext_words) auto
  with IH show ?case by (simp add: ext_def [of Nk ?ws])
qed (use assms in simp)

lemma ext_w_length [simp]: "length (ext_w Nk rk) = Suc (length rk)"
  by (simp add: ext_w_def Let_def)

lemma ext_w_pow_length [simp]: "length ((ext_w Nk ^^ n) rk) = length rk + n"
  by (induction n) auto

text \<open>One word behind the first word of a group.\<close>

lemma ext_w_next:
  assumes "length rk = Nk * Suc m" "0 < length ys" "length ys < Nk" "\<not> (6 < Nk \<and> length ys = 4)"
  shows "ext_w Nk (rk @ ys) = rk @ ys @ [rk ! (Nk * m + length ys) XOR last ys]"
proof -
  have "Nk * Suc m + length ys - Nk = Nk * m + length ys" by simp
  moreover have "Nk * m + length ys < length rk" using assms(1,3) by simp
  moreover have "(Nk * Suc m + length ys) mod Nk = length ys" using assms(3) by (simp only: mod_mult_self4 mod_less)
  ultimately show ?thesis
    using assms by (auto simp: ext_w_def Let_def nth_append)
qed

lemma ext_w_first:
  assumes "length rk = Nk * Suc m" "0 < Nk"
  shows "ext_w Nk rk = rk @ [rk ! (Nk * m) XOR rk_first (rk ! (Nk * m + Nk - 1)) m]"
proof -
  have "last rk = rk ! (Nk * m + Nk - 1)" using assms by (subst last_conv_nth) (auto simp: add.commute)
  then show ?thesis using assms by (simp add: ext_w_def Let_def add.commute)
qed

lemma ext_w_middle:
  assumes "length rk = 8 * Suc m" "length ys = 4"
  shows "ext_w 8 (rk @ ys) = rk @ ys @ [rk ! (8 * m + 4) XOR
     (TE411 (last ys) XOR TE422 (last ys) XOR TE433 (last ys) XOR TE444 (last ys))]"
proof -
  have "(8 * Suc m + 4) mod 8 = (4 :: nat)" by presburger
  moreover have "8 * Suc m + 4 - 8 = 8 * m + 4" "8 * m + 4 < length rk" using assms(1) by simp_all
  moreover have "last (rk @ ys) = last ys" using assms(2) by (cases ys) auto
  ultimately show ?thesis using assms by (simp add: ext_w_def Let_def nth_append add.commute)
qed

lemma setup128_step_ext:
  assumes "length rk = 4 * Suc m"
  shows "setup128_step rk m = (ext_w 4 ^^ 4) rk"
proof -
  have p: "4 * Suc m - 4 = 4 * m" "4 * m + 4 - 1 = 4 * m + 3" by simp_all
  show ?thesis
    using assms ext_w_next [OF assms, of "[_]"] ext_w_next [OF assms, of "[_, _]"] ext_w_next [OF assms, of "[_, _, _]"]
      ext_w_first [OF assms]
    by (simp add: setup128_step_def Let_def numeral_eq_Suc funpow_Suc_right del: funpow.simps)
qed

lemma setup192_step_ext:
  assumes "length rk = 6 * Suc m"
  shows "setup192_step rk m = (ext_w 6 ^^ (if m = 7 then 4 else 6)) rk"
  using assms ext_w_next [OF assms, of "[_]"] ext_w_next [OF assms, of "[_, _]"] ext_w_next [OF assms, of "[_, _, _]"]
    ext_w_next [OF assms, of "[_, _, _, _]"] ext_w_next [OF assms, of "[_, _, _, _, _]"] ext_w_first [OF assms]
  by (simp add: setup192_step_def Let_def numeral_eq_Suc funpow_Suc_right del: funpow.simps)

lemma setup256_step_ext:
  assumes "length rk = 8 * Suc m"
  shows "setup256_step rk m = (ext_w 8 ^^ (if m = 6 then 4 else 8)) rk"
  using assms ext_w_next [OF assms, of "[_]"] ext_w_next [OF assms, of "[_, _]"] ext_w_next [OF assms, of "[_, _, _]"]
    ext_w_middle [OF assms, of "[_, _, _, _]"] ext_w_next [OF assms, of "[_, _, _, _, _]"]
    ext_w_next [OF assms, of "[_, _, _, _, _, _]"] ext_w_next [OF assms, of "[_, _, _, _, _, _, _]"] ext_w_first [OF assms]
  by (simp add: setup256_step_def Let_def numeral_eq_Suc funpow_Suc_right del: funpow.simps)

lemma foldl_setup:
  assumes "\<And>rk m. length rk = Nk * Suc m \<Longrightarrow> m < n \<Longrightarrow> step rk m = (ext_w Nk ^^ Nk) rk" "length rk0 = Nk"
  shows "foldl step rk0 [0..<n] = (ext_w Nk ^^ (Nk * n)) rk0"
  using assms(1)
proof (induction n)
  case (Suc n)
  then have "foldl step rk0 [0..<n] = (ext_w Nk ^^ (Nk * n)) rk0" by simp
  moreover have "length ((ext_w Nk ^^ (Nk * n)) rk0) = Nk * Suc n" using assms(2) by simp
  ultimately show ?case using Suc.prems [of _ n] by (simp add: funpow_add)
qed simp

lemma key_setup_words:
  assumes "length key \<in> {16, 24, 32}" "Nr = length key div 4 + 6"
  shows "rijndaelKeySetupEnc key (length key * 8) = Some (map wd (key_expansion key Nr), Nr) \<and>
     list_all (\<lambda>w. length w = 4) (key_expansion key Nr) \<and> length (key_expansion key Nr) = 4 * (Nr + 1)"
proof -
  define Nk where "Nk = length key div 4"
  have Nk: "Nk \<in> {4, 6, 8}" "length key = 4 * Nk" using assms(1) by (auto simp: Nk_def)
  have words: "map (\<lambda>i. GETU32 key (4 * i)) [0..<Nk] = map wd (key_words key)"
    using Nk by (auto simp: key_words_def wd_def GETU32_word4)
  have kw: "list_all (\<lambda>w. length w = 4) (key_words key)" "length (key_words key) = Nk"
    using Nk by (auto simp: key_words_def list_all_iff)
  have exp: "key_expansion key Nr = (ext Nk ^^ (4 * (Nr + 1) - Nk)) (key_words key)"
    by (simp add: key_expansion_def ext_def [abs_def] Nk_def)
  have n: "4 * (Nr + 1) - Nk \<le> 10 * Nk" "Nk \<le> 4 * (Nr + 1)" using Nk assms(2) by auto
  note pow = ext_funpow [OF kw(1) _ kw(2) n(1), folded exp]
  have "rijndaelKeySetupEnc key (length key * 8) = Some ((ext_w Nk ^^ (4 * (Nr + 1) - Nk)) (map wd (key_words key)), Nr)"
  proof -
    consider "Nk = 4" | "Nk = 6" | "Nk = 8" using Nk(1) by auto
    then show ?thesis
    proof cases
      case 1
      then show ?thesis
        using words kw(2) Nk assms(2) foldl_setup [of 4 10 setup128_step "map wd (key_words key)"]
        by (simp add: rijndaelKeySetupEnc_def setup128_step_ext)
    next
      case 2
      have "[0..<8] = [0..<7] @ [7 :: nat]" by (simp add: upt_rec)
      with 2 show ?thesis
        using words kw(2) Nk assms(2) foldl_setup [of 6 7 setup192_step "map wd (key_words key)"]
          setup192_step_ext [of "(ext_w 6 ^^ 42) (map wd (key_words key))" 7] funpow_add [of 4 42 "ext_w 6"]
        by (simp add: rijndaelKeySetupEnc_def setup192_step_ext)
    next
      case 3
      have "[0..<7] = [0..<6] @ [6 :: nat]" by (simp add: upt_rec)
      with 3 show ?thesis
        using words kw(2) Nk assms(2) foldl_setup [of 8 6 setup256_step "map wd (key_words key)"]
          setup256_step_ext [of "(ext_w 8 ^^ 48) (map wd (key_words key))" 6] funpow_add [of 4 48 "ext_w 8"]
        by (simp add: rijndaelKeySetupEnc_def setup256_step_ext)
    qed
  qed
  with pow Nk n show ?thesis by auto
qed

lemma rk_bytes_words:
  assumes "list_all (\<lambda>w. length w = 4) ws" "4 * r + 3 < length ws"
  shows "rk_bytes (map wd ws) (4 * r) = round_key ws r"
proof -
  have "PUTU32 (wd w) = w" if "length w = 4" for w using len4 [OF that] by (auto simp: wd_def)
  then have "PUTU32 (wd (ws ! i)) = ws ! i" if "i < length ws" for i using assms(1) that by (simp add: list_all_length)
  moreover have "take 4 (drop (4 * r) ws) = [ws ! (4 * r), ws ! (4 * r + 1), ws ! (4 * r + 2), ws ! (4 * r + 3)]"
    using assms(2) by (simp add: numeral_eq_Suc take_Suc_conv_app_nth)
  ultimately show ?thesis using assms(2) by (simp add: rk_bytes_def round_key_def)
qed

lemma aes_correct:
  assumes "length key \<in> {16, 24, 32}" and "length block = 16"
  shows "\<exists>ctx. aes_encrypt_init True key (length key) = Some ctx \<and> aes_encrypt ctx block = aes_cipher key block"
proof -
  define Nr where "Nr = length key div 4 + 6"
  define ws where "ws = key_expansion key Nr"
  have ks: "rijndaelKeySetupEnc key (length key * 8) = Some (map wd ws, Nr)" "list_all (\<lambda>w. length w = 4) ws"
      "length ws = 4 * (Nr + 1)"
    using key_setup_words [OF assms(1) Nr_def] by (auto simp: ws_def)
  have rk: "rk_bytes (map wd ws) (4 * r) = round_key ws r" if "r \<le> Nr" for r
    using that ks by (intro rk_bytes_words) auto
  have "aes_round_rk (map wd ws) st r = aes_round ws st r" if "r \<le> Nr" for r st
    using rk [OF that] by (simp add: aes_round_rk_def aes_round_def)
  then have "foldl (aes_round_rk (map wd ws)) st [1..<Nr] = foldl (aes_round ws) st [1..<Nr]" for st
    by (intro foldl_cong) auto
  moreover have "even Nr" "0 < Nr" using assms(1) by (auto simp: Nr_def)
  ultimately have "aes_encrypt (map wd ws, Nr) block = aes_cipher key block"
    using rijndaelEncrypt_rounds [OF assms(2), of Nr "map wd ws"] rk [of 0] rk [of Nr]
    by (simp add: aes_encrypt_def aes_cipher_def Let_def Nr_def ws_def)
  with ks(1) show ?thesis by (simp add: aes_encrypt_init_def)
qed

text \<open>C11. AES is AES: for keys of 16, 24 and 32 bytes the key schedule succeeds, and encrypting a block with the word
  tables gives the cipher of FIPS 197.\<close>

theorem aes_encrypt_correct:
  assumes "length key \<in> {16, 24, 32}" and "length block = 16"
  shows "\<exists>ctx. aes_encrypt_init True key (length key) = Some ctx \<and> aes_encrypt ctx block = aes_cipher key block"
  using assms by (rule aes_correct)

definition fips_key :: bytes where "fips_key = map of_nat [0..<16]"
definition fips_block :: bytes where "fips_block = map (\<lambda>i. of_nat (17 * i)) [0..<16]"

theorem aes_encrypt_correct_witness:
  "\<exists>ctx. aes_encrypt_init True fips_key (length fips_key) = Some ctx \<and> aes_encrypt ctx fips_block = aes_cipher fips_key fips_block"
  by (rule aes_encrypt_correct) (simp_all add: fips_key_def fips_block_def)

end
