(* ===== verification/Sec_Ccm.thy ===== *)
theory Sec_Ccm
  imports Sec_Aes
begin

text \<open>
  Counter mode with CBC-MAC (\<open>core/crypto/aes-ccm.c\<close>), with the fixed parameter \<open>L = 2\<close>. The reference is the
  construction of RFC 3610: the MAC is the last block of a chain over the formatted blocks, and the text is
  combined with a stream of encrypted counters. Both are stated in a locale over an arbitrary block function,
  which the cipher of \<open>Sec_Aes\<close> interprets.

  Two differences to the code are outside its use. The length \<open>M\<close> of the tag is a \<open>size_t\<close> there, of which
  \<open>aes_ccm_auth_start\<close> takes 2 off; with the natural numbers here this agrees from \<open>M = 2\<close> on, and the callers
  have 8 and 16. For a last block that is not full \<open>aes_ccm_encr\<close> first writes the sixteen bytes of the
  encrypted counter and then combines the bytes of the text; what it leaves behind the text is not part of
  the result here. The callers allocate \<open>AES_BLOCK_SIZE\<close> more bytes for it (\<open>core/crypto/ccmp.c\<close>).
\<close>

section \<open>The implementation\<close>

definition AES_BLOCK_SIZE :: nat where "AES_BLOCK_SIZE = 16"

text \<open>Four words are combined, which is the same as sixteen bytes.\<close>

definition xor_aes_block :: "bytes \<Rightarrow> bytes \<Rightarrow> bytes" where
  "xor_aes_block dst src = map2 (XOR) dst (take 16 src)"

definition aes_ccm_auth_start :: "aes_ctx \<Rightarrow> nat \<Rightarrow> bytes \<Rightarrow> bytes \<Rightarrow> nat \<Rightarrow> bytes" where
  "aes_ccm_auth_start aes M nonce aad plain_len =
     (let aad_len = length aad;
          b0 = (if aad_len \<noteq> 0 then 0x40 else 0) OR push_bit 3 (of_nat ((M - 2) div 2)) OR 1;
          x = aes_encrypt aes (b0 # take 13 nonce @ put_BE16 (of_nat plain_len)) in
      if aad_len = 0 then x
      else (let aad_buf = put_BE16 (of_nat aad_len) @ aad @ replicate (30 - aad_len) 0;
                x = aes_encrypt aes (xor_aes_block (take 16 aad_buf) x) in
            if aad_len > 14 then aes_encrypt aes (xor_aes_block (drop 16 aad_buf) x) else x))"

primrec auth_loop :: "aes_ctx \<Rightarrow> nat \<Rightarrow> bytes \<Rightarrow> bytes \<Rightarrow> bytes \<times> bytes" where
  "auth_loop aes 0 data x = (data, x)"
| "auth_loop aes (Suc n) data x = auth_loop aes n (drop 16 data) (aes_encrypt aes (xor_aes_block x data))"

definition aes_ccm_auth :: "aes_ctx \<Rightarrow> bytes \<Rightarrow> bytes \<Rightarrow> bytes" where
  "aes_ccm_auth aes data x =
     (let last = length data mod 16; (rest, x) = auth_loop aes (length data div 16) data x in
      if last \<noteq> 0 then aes_encrypt aes (map2 (XOR) (take last x) (take last rest) @ drop last x) else x)"

text \<open>The counter block: \<open>aes_ccm_encr_start\<close> fills the first fourteen bytes, and each use puts the counter
  behind them.\<close>

definition aes_ccm_encr_start :: "bytes \<Rightarrow> bytes" where
  "aes_ccm_encr_start nonce = 1 # take 13 nonce"

primrec encr_loop :: "aes_ctx \<Rightarrow> nat \<Rightarrow> nat \<Rightarrow> bytes \<Rightarrow> bytes \<Rightarrow> bytes \<times> bytes \<times> nat" where
  "encr_loop aes 0 i a input = ([], input, i)"
| "encr_loop aes (Suc n) i a input =
     (let out = xor_aes_block (aes_encrypt aes (a @ put_BE16 (of_nat i))) input;
          (outs, rest, j) = encr_loop aes n (i + 1) a (drop 16 input) in
      (out @ outs, rest, j))"

definition aes_ccm_encr :: "aes_ctx \<Rightarrow> bytes \<Rightarrow> bytes \<Rightarrow> bytes" where
  "aes_ccm_encr aes input a =
     (let last = length input mod 16; (out, rest, i) = encr_loop aes (length input div 16) 1 a input in
      if last \<noteq> 0 then out @ map2 (XOR) (take last (aes_encrypt aes (a @ put_BE16 (of_nat i)))) (take last rest) else out)"

definition aes_ccm_encr_auth :: "aes_ctx \<Rightarrow> nat \<Rightarrow> bytes \<Rightarrow> bytes \<Rightarrow> bytes" where
  "aes_ccm_encr_auth aes M x a = map2 (XOR) (take M x) (take M (aes_encrypt aes (a @ put_BE16 0)))"

definition aes_ccm_decr_auth :: "aes_ctx \<Rightarrow> nat \<Rightarrow> bytes \<Rightarrow> bytes \<Rightarrow> bytes" where
  "aes_ccm_decr_auth aes M a auth = map2 (XOR) (take M auth) (take M (aes_encrypt aes (a @ put_BE16 0)))"

text \<open>The comparison in constant time: the differences of all bytes are collected.\<close>

definition os_memcmp_const :: "bytes \<Rightarrow> bytes \<Rightarrow> nat \<Rightarrow> u8" where
  "os_memcmp_const a b len = fold (\<lambda>(x, y) res. res OR (x XOR y)) (zip (take len a) (take len b)) 0"

definition aes_ccm_ae :: "bool \<Rightarrow> bytes \<Rightarrow> nat \<Rightarrow> bytes \<Rightarrow> nat \<Rightarrow> bytes \<Rightarrow> bytes \<Rightarrow> (bytes \<times> bytes) option" where
  "aes_ccm_ae alloc key key_len nonce M plain aad =
     (if length aad > 30 \<or> M > AES_BLOCK_SIZE then None
      else do {
        aes \<leftarrow> aes_encrypt_init alloc key key_len;
        let x = aes_ccm_auth aes plain (aes_ccm_auth_start aes M nonce aad (length plain));
        let a = aes_ccm_encr_start nonce;
        Some (aes_ccm_encr aes plain a, aes_ccm_encr_auth aes M x a) })"

definition aes_ccm_ad :: "bool \<Rightarrow> bytes \<Rightarrow> nat \<Rightarrow> bytes \<Rightarrow> nat \<Rightarrow> bytes \<Rightarrow> bytes \<Rightarrow> bytes \<Rightarrow> bytes option" where
  "aes_ccm_ad alloc key key_len nonce M crypt aad auth =
     (if length aad > 30 \<or> M > AES_BLOCK_SIZE then None
      else do {
        aes \<leftarrow> aes_encrypt_init alloc key key_len;
        let a = aes_ccm_encr_start nonce;
        let t = aes_ccm_decr_auth aes M a auth;
        let plain = aes_ccm_encr aes crypt a;
        let x = aes_ccm_auth aes plain (aes_ccm_auth_start aes M nonce aad (length crypt));
        if os_memcmp_const x t M \<noteq> 0 then None else Some plain })"

section \<open>RFC 3610\<close>

text \<open>Splitting into blocks, the last one padded with zeros.\<close>

fun blocks :: "bytes \<Rightarrow> bytes list" where
  "blocks m = (if m = [] then [] else take 16 (m @ replicate 16 0) # blocks (drop 16 m))"

declare blocks.simps [simp del]

locale block_cipher =
  fixes E :: "bytes \<Rightarrow> bytes"
  assumes E_length: "length (E b) = 16"
begin

definition cbc_mac :: "bytes list \<Rightarrow> bytes" where
  "cbc_mac bs = foldl (\<lambda>x b. E (map2 (XOR) x b)) (replicate 16 0) bs"

definition ctr_stream :: "bytes \<Rightarrow> nat \<Rightarrow> nat \<Rightarrow> bytes" where
  "ctr_stream a i n = concat (map (\<lambda>j. E (a @ put_BE16 (of_nat j))) [i..<i + n])"

lemma cbc_mac_length [simp]: "length (foldl (\<lambda>x b. E (map2 (XOR) x b)) x bs) = (if bs = [] then length x else 16)"
  by (induction bs arbitrary: x) (simp_all add: E_length)

lemma ctr_stream_Suc: "ctr_stream a i (Suc n) = E (a @ put_BE16 (of_nat i)) @ ctr_stream a (i + 1) n"
  by (simp add: ctr_stream_def upt_conv_Cons del: upt_Suc)

lemma ctr_stream_length [simp]: "length (ctr_stream a i n) = 16 * n"
proof (induction n arbitrary: i)
  case 0
  show ?case by (simp add: ctr_stream_def)
next
  case (Suc n)
  then show ?case by (simp add: ctr_stream_Suc E_length)
qed

lemma ctr_stream_add: "ctr_stream a i (m + n) = ctr_stream a i m @ ctr_stream a (i + m) n"
proof -
  have "[i..<i + (m + n)] = [i..<i + m] @ [i + m..<i + m + n]" using upt_add_eq_append [of i "i + m" n] by (simp add: add.assoc)
  then show ?thesis by (simp add: ctr_stream_def)
qed

end

lemma rijndaelEncrypt_length: "length (rijndaelEncrypt rk Nr pt) = 16"
  by (simp add: rijndaelEncrypt_def Let_def PUTU32_def split: prod.split)

interpretation aes: block_cipher "aes_encrypt ctx" for ctx
  by unfold_locales (simp add: aes_encrypt_def rijndaelEncrypt_length)

section \<open>Combining byte strings\<close>

lemma map2_xor_commute: "map2 (XOR) xs ys = map2 (XOR) ys (xs :: bytes)"
  by (subst zip_commute) (simp add: xor.commute comp_def case_prod_beta)

lemma map2_xor_cancel: "length xs \<le> length ks \<Longrightarrow> map2 (XOR) ks (map2 (XOR) ks xs) = (xs :: bytes)"
proof (induction xs arbitrary: ks)
  case (Cons x xs)
  then show ?case by (cases ks) (auto simp flip: xor.assoc)
qed simp

lemma map2_xor_inj:
  "length xs \<le> length ks \<Longrightarrow> length ys \<le> length ks \<Longrightarrow> map2 (XOR) ks xs = map2 (XOR) ks ys \<longleftrightarrow> xs = (ys :: bytes)"
  using map2_xor_cancel by metis

lemma map2_xor_append:
  "length ks = length xs \<Longrightarrow> map2 (XOR) (ks @ ls) (xs @ ys) = map2 (XOR) ks xs @ map2 (XOR) ls (ys :: bytes)"
  by simp

lemma map2_xor_zero: "length xs \<le> n \<Longrightarrow> map2 (XOR) (replicate n 0) xs = (xs :: bytes)"
proof (induction xs arbitrary: n)
  case (Cons x xs)
  then show ?case by (cases n) auto
qed simp

lemma map2_xor_take: "length xs \<le> n \<Longrightarrow> map2 (XOR) (take n ks) xs = map2 (XOR) ks (xs :: bytes)"
proof (induction xs arbitrary: n ks)
  case (Cons x xs)
  then show ?case by (cases n; cases ks) auto
qed simp

lemma memcmp_const_fold: "fold (\<lambda>(x, y) res. res OR (x XOR y)) ps r = 0 \<longleftrightarrow> r = 0 \<and> (\<forall>(x, y) \<in> set ps. x = (y :: u8))"
proof (induction ps arbitrary: r)
  case (Cons p ps)
  have "r OR (x XOR y) = 0 \<longleftrightarrow> r = 0 \<and> x = y" for x y :: u8 by (auto simp: bit_eq_iff bit_simps)
  with Cons show ?case by (cases p) auto
qed simp

lemma memcmp_const_0:
  assumes "length a = len" "length b = len"
  shows "os_memcmp_const a b len = 0 \<longleftrightarrow> a = b"
  unfolding os_memcmp_const_def memcmp_const_fold using assms by (auto simp: set_zip list_eq_iff_nth_eq)

section \<open>The stream\<close>

lemma encr_loop_stream:
  assumes "16 * n \<le> length input"
  shows "encr_loop aes n i a input =
     (map2 (XOR) (aes.ctr_stream aes a i n) (take (16 * n) input), drop (16 * n) input, i + n)"
  using assms
proof (induction n arbitrary: i input)
  case 0
  show ?case by (simp add: aes.ctr_stream_def)
next
  case (Suc n)
  have "encr_loop aes n (i + 1) a (drop 16 input) =
      (map2 (XOR) (aes.ctr_stream aes a (i + 1) n) (take (16 * n) (drop 16 input)), drop (16 * n) (drop 16 input), i + 1 + n)"
    using Suc.prems by (intro Suc.IH) simp
  moreover have "take (16 * Suc n) input = take 16 input @ take (16 * n) (drop 16 input)"
    by (simp add: take_add)
  ultimately show ?case
    using Suc.prems by (simp add: xor_aes_block_def aes.ctr_stream_Suc aes.E_length map2_xor_append add.commute)
qed

lemma aes_ccm_encr_stream:
  "aes_ccm_encr aes input a = map2 (XOR) (aes.ctr_stream aes a 1 (length input div 16 + 1)) input"
proof -
  let ?n = "length input div 16" and ?last = "length input mod 16"
  define hd tl where "hd = take (16 * ?n) input" and "tl = drop (16 * ?n) input"
  have io: "input = hd @ tl" by (simp add: hd_def tl_def)
  have le: "16 * ?n \<le> length input" by simp
  have len: "length hd = 16 * ?n" "length tl = ?last"
    using le by (simp_all add: hd_def tl_def minus_mult_div_eq_mod)
  define S where "S = aes_encrypt aes (a @ put_BE16 (of_nat (1 + ?n)))"
  have "aes.ctr_stream aes a 1 (?n + 1) = aes.ctr_stream aes a 1 ?n @ S"
    by (simp only: aes.ctr_stream_add) (simp add: aes.ctr_stream_def S_def)
  then have all: "map2 (XOR) (aes.ctr_stream aes a 1 (?n + 1)) (hd @ tl) = map2 (XOR) (aes.ctr_stream aes a 1 ?n) hd @ map2 (XOR) S tl"
    using len(1) by (simp only: map2_xor_append aes.ctr_stream_length)
  have part: "map2 (XOR) (take ?last S) (take ?last tl) = map2 (XOR) S tl"
    using map2_xor_take [of tl ?last S] len(2) by simp
  have loop: "encr_loop aes ?n 1 a input = (map2 (XOR) (aes.ctr_stream aes a 1 ?n) hd, tl, 1 + ?n)"
    using encr_loop_stream [OF le, of aes 1 a] by (simp only: hd_def tl_def)
  have "aes_ccm_encr aes input a = map2 (XOR) (aes.ctr_stream aes a 1 ?n) hd @ map2 (XOR) S tl"
  proof (cases "?last = 0")
    case True
    with len(2) have "tl = []" by simp
    with True show ?thesis unfolding aes_ccm_encr_def loop Let_def prod.case by simp
  next
    case False
    then show ?thesis unfolding aes_ccm_encr_def loop Let_def prod.case S_def [symmetric] part by simp
  qed
  with all io show ?thesis by simp
qed

lemma aes_ccm_encr_involution: "aes_ccm_encr aes (aes_ccm_encr aes input a) a = input"
proof -
  let ?s = "aes.ctr_stream aes a 1 (length input div 16 + 1)"
  have "length input \<le> length ?s" by simp
  then show ?thesis by (simp add: aes_ccm_encr_stream map2_xor_cancel del: aes.ctr_stream_length)
qed

section \<open>The MAC\<close>

definition chain :: "aes_ctx \<Rightarrow> bytes \<Rightarrow> bytes list \<Rightarrow> bytes" where
  "chain aes x bs = foldl (\<lambda>x b. aes_encrypt aes (map2 (XOR) x b)) x bs"

lemma chain_simps [simp]: "chain aes x [] = x" "chain aes x (b # bs) = chain aes (aes_encrypt aes (map2 (XOR) x b)) bs"
  "chain aes x (bs @ cs) = chain aes (chain aes x bs) cs"
  by (simp_all add: chain_def)

lemma blocks_full: "16 \<le> length m \<Longrightarrow> blocks m = take 16 m # blocks (drop 16 m)"
  by (subst blocks.simps) auto

lemma blocks_last: "0 < length m \<Longrightarrow> length m \<le> 16 \<Longrightarrow> blocks m = [m @ replicate (16 - length m) 0]"
  by (subst blocks.simps, subst blocks.simps) simp

lemma blocks_Nil [simp]: "blocks [] = []"
  by (subst blocks.simps) simp

lemma auth_loop_chain:
  assumes "16 * n \<le> length data" "length x = 16"
  shows "auth_loop aes n data x = (drop (16 * n) data, chain aes x (map (\<lambda>i. take 16 (drop (16 * i) data)) [0..<n])) \<and>
     length (chain aes x (map (\<lambda>i. take 16 (drop (16 * i) data)) [0..<n])) = 16"
  using assms
proof (induction n arbitrary: data x)
  case (Suc n)
  let ?x = "aes_encrypt aes (xor_aes_block x data)"
  have "auth_loop aes n (drop 16 data) ?x =
      (drop (16 * n) (drop 16 data), chain aes ?x (map (\<lambda>i. take 16 (drop (16 * i) (drop 16 data))) [0..<n])) \<and>
      length (chain aes ?x (map (\<lambda>i. take 16 (drop (16 * i) (drop 16 data))) [0..<n])) = 16"
    using Suc.prems by (intro Suc.IH) (simp_all add: aes.E_length)
  moreover have "[0..<Suc n] = 0 # map Suc [0..<n]" by (simp add: upt_conv_Cons map_Suc_upt del: upt_Suc)
  moreover have "map (\<lambda>i. take 16 (drop (16 * i) data)) (map Suc [0..<n]) = map (\<lambda>i. take 16 (drop (16 * i) (drop 16 data))) [0..<n]"
    by (simp add: add.commute)
  ultimately show ?case by (simp add: xor_aes_block_def add.commute comp_def del: upt_Suc)
qed simp

lemma blocks_split:
  assumes "16 * n \<le> length m"
  shows "blocks m = map (\<lambda>i. take 16 (drop (16 * i) m)) [0..<n] @ blocks (drop (16 * n) m)"
  using assms
proof (induction n arbitrary: m)
  case (Suc n)
  have "blocks m = take 16 m # blocks (drop 16 m)" using Suc.prems by (intro blocks_full) simp
  moreover have "blocks (drop 16 m) = map (\<lambda>i. take 16 (drop (16 * i) (drop 16 m))) [0..<n] @ blocks (drop (16 * n) (drop 16 m))"
    using Suc.prems by (intro Suc.IH) simp
  moreover have "[0..<Suc n] = 0 # map Suc [0..<n]" by (simp add: upt_conv_Cons map_Suc_upt del: upt_Suc)
  ultimately show ?case by (simp add: add.commute del: upt_Suc)
qed simp

lemma aes_ccm_auth_chain:
  assumes "length x = 16"
  shows "aes_ccm_auth aes data x = chain aes x (blocks data)"
proof -
  let ?n = "length data div 16" and ?last = "length data mod 16"
  define rest where "rest = drop (16 * ?n) data"
  define y where "y = chain aes x (map (\<lambda>i. take 16 (drop (16 * i) data)) [0..<?n])"
  have le: "16 * ?n \<le> length data" by simp
  have loop: "auth_loop aes ?n data x = (rest, y)" "length y = 16"
    using auth_loop_chain [OF le assms, of aes] by (simp_all add: rest_def y_def)
  have len: "length rest = ?last" by (simp add: rest_def minus_mult_div_eq_mod)
  have all: "chain aes x (blocks data) = chain aes y (blocks rest)"
    by (simp add: blocks_split [OF le] y_def rest_def)
  show ?thesis
  proof (cases "?last = 0")
    case True
    with len have "rest = []" by simp
    with True all show ?thesis unfolding aes_ccm_auth_def loop Let_def prod.case by simp
  next
    case False
    have lt: "?last \<le> 16" by (simp add: less_imp_le)
    have "map2 (XOR) y (rest @ replicate (16 - ?last) 0) =
        map2 (XOR) (take ?last y @ drop ?last y) (rest @ replicate (16 - ?last) 0)" by simp
    also have "\<dots> = map2 (XOR) (take ?last y) rest @ map2 (XOR) (drop ?last y) (replicate (16 - ?last) 0)"
      using len loop(2) lt by (intro map2_xor_append) simp
    also have "map2 (XOR) (drop ?last y) (replicate (16 - ?last) 0) = drop ?last y"
      using loop(2) by (subst map2_xor_commute) (simp add: map2_xor_zero)
    finally have "blocks rest = [rest @ replicate (16 - ?last) 0]"
        "map2 (XOR) y (rest @ replicate (16 - ?last) 0) = map2 (XOR) (take ?last y) (take ?last rest) @ drop ?last y"
      using len lt False by (simp_all add: blocks_last)
    with False all show ?thesis unfolding aes_ccm_auth_def loop Let_def prod.case by simp
  qed
qed

text \<open>The blocks in front of the text: \<open>B_0\<close>, and the associated data with its length.\<close>

definition ccm_b0 :: "nat \<Rightarrow> bytes \<Rightarrow> bytes \<Rightarrow> nat \<Rightarrow> bytes" where
  "ccm_b0 M nonce aad n =
     ((if aad \<noteq> [] then 0x40 else 0) OR push_bit 3 (of_nat ((M - 2) div 2)) OR 1) # nonce @ put_BE16 (of_nat n)"

definition ccm_adata :: "bytes \<Rightarrow> bytes" where
  "ccm_adata aad = (if aad = [] then [] else put_BE16 (of_nat (length aad)) @ aad)"

lemma auth_start_chain:
  assumes "length nonce = 13" "length aad \<le> 30"
  shows "aes_ccm_auth_start aes M nonce aad n = aes.cbc_mac aes (ccm_b0 M nonce aad n # blocks (ccm_adata aad))"
proof -
  define x where "x = aes_encrypt aes (ccm_b0 M nonce aad n)"
  have x: "length x = 16" by (simp add: x_def aes.E_length)
  have "length (ccm_b0 M nonce aad n) = 16" using assms(1) by (simp add: ccm_b0_def)
  then have ref: "aes.cbc_mac aes (ccm_b0 M nonce aad n # blocks (ccm_adata aad)) = chain aes x (blocks (ccm_adata aad))"
    by (simp add: aes.cbc_mac_def chain_def x_def map2_xor_zero)
  let ?buf = "put_BE16 (of_nat (length aad)) @ aad @ replicate (30 - length aad) 0"
  have b0: "((if length aad \<noteq> 0 then 0x40 else 0) OR push_bit 3 (of_nat ((M - 2) div 2)) OR 1) # take 13 nonce @ put_BE16 (of_nat n) =
      ccm_b0 M nonce aad n" using assms(1) by (simp add: ccm_b0_def)
  consider "aad = []" | "aad \<noteq> []" "length aad \<le> 14" | "14 < length aad" by fastforce
  then show ?thesis
  proof cases
    case 1
    then show ?thesis unfolding aes_ccm_auth_start_def Let_def b0 ref using x by (simp add: ccm_adata_def x_def)
  next
    case 2
    have "blocks (ccm_adata aad) = [take 16 ?buf]" using 2 by (subst blocks_last) (simp_all add: ccm_adata_def)
    then show ?thesis unfolding aes_ccm_auth_start_def Let_def b0 ref using x 2
      by (simp add: x_def [symmetric] xor_aes_block_def map2_xor_commute [of x] del: take_append)
  next
    case 3
    then have ne: "aad \<noteq> []" by auto
    have m: "ccm_adata aad = put_BE16 (of_nat (length aad)) @ aad" using 3 by (auto simp: ccm_adata_def)
    have "blocks (ccm_adata aad) = [take 16 ?buf, drop 16 ?buf]"
      using 3 assms(2) unfolding m by (subst blocks_full, simp, subst blocks_last) simp_all
    then show ?thesis unfolding aes_ccm_auth_start_def Let_def b0 ref using x 3 ne
      by (simp add: x_def [symmetric] xor_aes_block_def map2_xor_commute [of x] aes.E_length
          map2_xor_commute [of "aes_encrypt aes _"] del: take_append drop_append)
  qed
qed

section \<open>Theorems\<close>

lemma auth_length: "length x = 16 \<Longrightarrow> length (aes_ccm_auth aes data x) = 16"
  by (simp add: aes_ccm_auth_chain chain_def)

lemma auth_start_length: "length (aes_ccm_auth_start aes M nonce aad n) = 16"
  by (simp add: aes_ccm_auth_start_def Let_def aes.E_length)

lemma aes_ccm_encr_length: "length (aes_ccm_encr aes input a) = length input"
  by (simp add: aes_ccm_encr_stream)

text \<open>C15. CCM is the construction of RFC 3610: with a nonce of 13 bytes and at most 30 bytes of associated data, the
  ciphertext is the text combined with the stream of encrypted counters from 1 on, and the tag is the chained
  MAC over \<open>B_0\<close>, the associated data and the padded text, combined with the encrypted counter 0.\<close>

theorem aes_ccm_ae_correct:
  assumes "length nonce = 13" and "length aad \<le> 30" and "M \<le> 16" and "aes_encrypt_init True key key_len = Some ctx"
  shows "aes_ccm_ae True key key_len nonce M plain aad = Some
     (map2 (XOR) (block_cipher.ctr_stream (aes_encrypt ctx) (1 # nonce) 1 (length plain div 16 + 1)) plain,
      map2 (XOR) (take M (block_cipher.cbc_mac (aes_encrypt ctx)
          (ccm_b0 M nonce aad (length plain) # blocks (ccm_adata aad) @ blocks plain)))
        (take M (aes_encrypt ctx (1 # nonce @ put_BE16 0))))"
proof -
  let ?x = "aes_ccm_auth_start ctx M nonce aad (length plain)"
  have x: "?x = chain ctx (replicate 16 0) (ccm_b0 M nonce aad (length plain) # blocks (ccm_adata aad))"
    using auth_start_chain [OF assms(1,2)] by (simp add: aes.cbc_mac_def chain_def)
  have "length ?x = 16" by (rule auth_start_length)
  then have "aes_ccm_auth ctx plain ?x = aes.cbc_mac ctx (ccm_b0 M nonce aad (length plain) # blocks (ccm_adata aad) @ blocks plain)"
    using x by (simp add: aes_ccm_auth_chain aes.cbc_mac_def chain_def)
  then show ?thesis
    using assms by (simp add: aes_ccm_ae_def AES_BLOCK_SIZE_def aes_ccm_encr_stream aes_ccm_encr_start_def aes_ccm_encr_auth_def)
qed

lemma ccm_accepts_iff:
  assumes "length auth = M"
  shows "aes_ccm_ad alloc key key_len nonce M crypt aad auth = Some plain \<longleftrightarrow>
     aes_ccm_ae alloc key key_len nonce M plain aad = Some (crypt, auth)"
proof (cases "length aad > 30 \<or> M > AES_BLOCK_SIZE \<or> aes_encrypt_init alloc key key_len = None")
  case True
  then show ?thesis by (auto simp: aes_ccm_ad_def aes_ccm_ae_def)
next
  case False
  then obtain aes where aes: "aes_encrypt_init alloc key key_len = Some aes" "length aad \<le> 30" "M \<le> 16"
    by (auto simp: AES_BLOCK_SIZE_def)
  let ?a = "aes_ccm_encr_start nonce"
  let ?s = "take M (aes_encrypt aes (?a @ put_BE16 0))"
  let ?x = "\<lambda>p. take M (aes_ccm_auth aes p (aes_ccm_auth_start aes M nonce aad (length p)))"
  have len: "length ?s = M" "length (?x p) = M" for p
    using aes(3) by (simp_all add: aes.E_length auth_length auth_start_length)
  have cmp: "os_memcmp_const y t M = os_memcmp_const (take M y) t M" for y t by (simp add: os_memcmp_const_def)
  have tag: "?x plain = map2 (XOR) auth ?s \<longleftrightarrow> map2 (XOR) (?x plain) ?s = auth"
  proof
    assume "?x plain = map2 (XOR) auth ?s"
    then have "?x plain = map2 (XOR) ?s auth" by (simp only: map2_xor_commute [of auth])
    then have "map2 (XOR) ?s (?x plain) = auth" using map2_xor_cancel [of auth ?s] len(1) assms by simp
    then show "map2 (XOR) (?x plain) ?s = auth" by (simp only: map2_xor_commute [of "?x plain"])
  next
    assume "map2 (XOR) (?x plain) ?s = auth"
    then have "auth = map2 (XOR) ?s (?x plain)" by (simp only: map2_xor_commute [of "?x plain"])
    then have "map2 (XOR) ?s auth = ?x plain" using map2_xor_cancel [of "?x plain" ?s] len by simp
    then show "?x plain = map2 (XOR) auth ?s" by (simp only: map2_xor_commute [of auth])
  qed
  define P where "P = aes_ccm_encr aes crypt ?a"
  have lP: "length P = length crypt" by (simp add: P_def aes_ccm_encr_length)
  have ad: "aes_ccm_ad alloc key key_len nonce M crypt aad auth =
      (if os_memcmp_const (?x P) (map2 (XOR) auth ?s) M \<noteq> 0 then None else Some P)"
    using aes assms by (simp add: aes_ccm_ad_def AES_BLOCK_SIZE_def aes_ccm_decr_auth_def lP flip: P_def cmp)
  have "length (map2 (XOR) auth ?s) = M" using len(1) assms by simp
  then have "aes_ccm_ad alloc key key_len nonce M crypt aad auth = Some plain \<longleftrightarrow> plain = P \<and> ?x plain = map2 (XOR) auth ?s"
    unfolding ad by (subst memcmp_const_0 [OF len(2)]) auto
  also have "plain = P \<longleftrightarrow> crypt = aes_ccm_encr aes plain ?a"
    unfolding P_def using aes_ccm_encr_involution [of aes] by metis
  finally show ?thesis
    unfolding tag using aes by (auto simp: aes_ccm_ae_def AES_BLOCK_SIZE_def aes_ccm_encr_auth_def Let_def)
qed

text \<open>C12. Decryption accepts exactly what encryption produces: \<open>aes_ccm_ad\<close> returns a text for a ciphertext and a tag if
  and only if \<open>aes_ccm_ae\<close> gives this ciphertext and tag for the text, under the same key, nonce and associated
  data. A changed byte of any of them is therefore rejected unless it collides in the MAC.\<close>

theorem aes_ccm_ad_accepts:
  assumes "length auth = M"
  shows "aes_ccm_ad alloc key key_len nonce M crypt aad auth = Some plain \<longleftrightarrow>
     aes_ccm_ae alloc key key_len nonce M plain aad = Some (crypt, auth)"
  using assms by (rule ccm_accepts_iff)

theorem aes_ccm_ae_correct_witness:
  "\<exists>ctx. aes_ccm_ae True fips_key 16 (replicate 13 0) 8 fips_block [1] = Some
     (map2 (XOR) (block_cipher.ctr_stream (aes_encrypt ctx) (1 # replicate 13 0) 1 (length fips_block div 16 + 1)) fips_block,
      map2 (XOR) (take 8 (block_cipher.cbc_mac (aes_encrypt ctx)
          (ccm_b0 8 (replicate 13 0) [1] (length fips_block) # blocks (ccm_adata [1]) @ blocks fips_block)))
        (take 8 (aes_encrypt ctx (1 # replicate 13 0 @ put_BE16 0))))"
proof -
  obtain ctx where "aes_encrypt_init True fips_key 16 = Some ctx"
    by (simp add: aes_encrypt_init_def rijndaelKeySetupEnc_def)
  with aes_ccm_ae_correct [of "replicate 13 0" "[1]" 8 fips_key 16 ctx fips_block] show ?thesis
    by (intro exI [of _ ctx]) simp
qed

theorem aes_ccm_ad_accepts_witness:
  "aes_ccm_ad True fips_key 16 (replicate 13 0) 8 fips_block [1] (replicate 8 0) = Some fips_block \<longleftrightarrow>
   aes_ccm_ae True fips_key 16 (replicate 13 0) 8 fips_block [1] = Some (fips_block, replicate 8 0)"
  by (rule aes_ccm_ad_accepts) simp

end
