(* ===== verification/Sec_Ccmp.thy ===== *)
theory Sec_Ccmp
  imports Sec_Ccm Sec_Tkip
begin

text \<open>
  CCMP protection of frames: the construction of nonce and associated data from the header and the frame
  formats of \<open>core/crypto/ccmp.c\<close>, the wrappers of \<open>core/rtw_swcrypto.c\<close>, and \<open>rtw_aes_encrypt\<close> and
  \<open>rtw_aes_decrypt\<close> of \<open>core/rtw_security.c\<close> in the compiled branch (\<open>NEW_CRYPTO\<close>). Whether an allocation
  succeeds is a parameter.
\<close>

section \<open>Nonce and associated data\<close>

definition WLAN_FC_GET_TYPE :: "u16 \<Rightarrow> u16" where "WLAN_FC_GET_TYPE fc = fc AND 0x000c"
definition WLAN_FC_GET_STYPE :: "u16 \<Rightarrow> u16" where "WLAN_FC_GET_STYPE fc = fc AND 0x00f0"

text \<open>\<open>m\<close> is the frame from its header on, and \<open>data\<close> the offset of the packet number. \<open>spp\<close> is the mode
  \<open>RTW_AMSDU_MODE_SPP\<close> of the registry.\<close>

definition ccmp_aad_nonce :: "bool \<Rightarrow> bytes \<Rightarrow> nat \<Rightarrow> (bytes \<times> bytes) option" where
  "ccmp_aad_nonce spp m data = do {
     fc \<leftarrow> RTW_GET_LE16 m 0;
     let addr4 = (if fc AND 0x0300 = 0x0300 then 6 else 0 :: nat);
     let is_data = (WLAN_FC_GET_TYPE fc = 0x0008);
     let qos = (is_data \<and> WLAN_FC_GET_STYPE fc AND 0x0080 \<noteq> 0);
     qc \<leftarrow> (if qos then rd m (24 + addr4) else Some 0);
     let n0 = (if is_data then (if qos then qc AND 0x0f else 0) else if WLAN_FC_GET_TYPE fc = 0 then 0x10 else 0);
     let fc = (if is_data then fc AND NOT 0x0070 else fc);
     let fc = (if qos then fc AND NOT 0x8000 else fc);
     let fc = (fc AND NOT 0x3800) OR 0x4000;
     addrs \<leftarrow> rd_n m 4 18;
     seq \<leftarrow> RTW_GET_LE16 m 22;
     tail \<leftarrow> rd_n m 24 (addr4 + (if qos then 2 else 0));
     let tid = tail ! addr4 AND NOT 0x70;
     let tid = (if spp then tid else tid AND NOT 0x80);
     a2 \<leftarrow> rd_n m 10 6;
     pn \<leftarrow> rd_n m data 8;
     Some (put_LE16 fc @ addrs @ put_LE16 (seq AND NOT 0xfff0) @ take addr4 tail @ (if qos then [tid, 0] else []),
           n0 # a2 @ [pn ! 7, pn ! 6, pn ! 5, pn ! 4, pn ! 1, pn ! 0]) }"

definition ccmp_get_pn :: "bytes \<Rightarrow> nat \<Rightarrow> bytes option" where
  "ccmp_get_pn m data = do { pn \<leftarrow> rd_n m data 8; Some [pn ! 7, pn ! 6, pn ! 5, pn ! 4, pn ! 1, pn ! 0] }"

section \<open>Frames\<close>

text \<open>The protected bit in the frame control field.\<close>

definition set_ISWEP :: "bytes \<Rightarrow> bytes" where "set_ISWEP h = h[1 := h ! 1 OR 0x40]"

text \<open>\<open>ccmp_encrypt\<close> and \<open>ccmp_256_encrypt\<close> differ in the lengths of key and MIC. The inner result is \<open>None\<close> for a
  null pointer. Without \<open>pn\<close> the header of CCMP is already in the frame.\<close>

definition ccmp_encrypt_with ::
    "bool \<Rightarrow> bool \<Rightarrow> nat \<Rightarrow> nat \<Rightarrow> bytes \<Rightarrow> bytes \<Rightarrow> nat \<Rightarrow> nat \<Rightarrow> bytes option \<Rightarrow> u8 \<Rightarrow> bytes option option" where
  "ccmp_encrypt_with spp alloc key_len M tk frame len hl pn keyid =
     (if len < hl \<or> hl < 24 \<or> \<not> alloc then Some None
      else do {
        let plen = len - hl;
        (crypt, pdata) \<leftarrow>
          (case pn of
             None \<Rightarrow> do { h \<leftarrow> rd_n frame 0 (hl + 8); Some (set_ISWEP h, hl + 8) }
           | Some p \<Rightarrow> do {
               h \<leftarrow> rd_n frame 0 hl;
               q \<leftarrow> rd_n p 0 6;
               Some (set_ISWEP h @ [q ! 5, q ! 4, 0, 0x20 OR push_bit 6 keyid, q ! 3, q ! 2, q ! 1, q ! 0], hl) });
        (aad, nonce) \<leftarrow> ccmp_aad_nonce spp crypt hl;
        plain \<leftarrow> rd_n frame pdata plen;
        Some (map_option (\<lambda>(c, auth). crypt @ c @ auth) (aes_ccm_ae alloc tk key_len nonce M plain aad)) })"

definition ccmp_encrypt where "ccmp_encrypt spp alloc = ccmp_encrypt_with spp alloc 16 8"
definition ccmp_256_encrypt where "ccmp_256_encrypt spp alloc = ccmp_encrypt_with spp alloc 32 16"

definition ccmp_decrypt_with :: "bool \<Rightarrow> bool \<Rightarrow> nat \<Rightarrow> nat \<Rightarrow> bytes \<Rightarrow> bytes \<Rightarrow> nat \<Rightarrow> nat \<Rightarrow> bytes option option" where
  "ccmp_decrypt_with spp alloc key_len M tk m data data_len =
     (if data_len < 8 + M \<or> \<not> alloc then Some None
      else do {
        let mlen = data_len - 8 - M;
        (aad, nonce) \<leftarrow> ccmp_aad_nonce spp m data;
        crypt \<leftarrow> rd_n m (data + 8) mlen;
        auth \<leftarrow> rd_n m (data + 8 + mlen) M;
        Some (aes_ccm_ad alloc tk key_len nonce M crypt aad auth) })"

definition ccmp_decrypt where "ccmp_decrypt spp alloc = ccmp_decrypt_with spp alloc 16 8"
definition ccmp_256_decrypt where "ccmp_256_decrypt spp alloc = ccmp_decrypt_with spp alloc 32 16"

text \<open>The wrappers copy the result into the frame; the result is false for \<open>_FAIL\<close>. A negative \<open>plen\<close> makes the
  unsigned length of the frame smaller than its header.\<close>

definition rtw_ccmp_encrypt :: "bool \<Rightarrow> bool \<Rightarrow> bytes \<Rightarrow> nat \<Rightarrow> nat \<Rightarrow> bytes \<Rightarrow> int \<Rightarrow> (bool \<times> bytes) option" where
  "rtw_ccmp_encrypt spp alloc key key_len hl frame plen = do {
     enc \<leftarrow> (if plen < 0 then Some None
            else if key_len = 16 then ccmp_encrypt spp alloc key frame (hl + nat plen) hl None 0
            else if key_len = 32 then ccmp_256_encrypt spp alloc key frame (hl + nat plen) hl None 0
            else Some None);
     case enc of None \<Rightarrow> Some (False, frame)
     | Some e \<Rightarrow> do { frame' \<leftarrow> wr_n frame 0 e; Some (True, frame') } }"

definition rtw_ccmp_decrypt :: "bool \<Rightarrow> bool \<Rightarrow> bytes \<Rightarrow> nat \<Rightarrow> nat \<Rightarrow> bytes \<Rightarrow> nat \<Rightarrow> (bool \<times> bytes) option" where
  "rtw_ccmp_decrypt spp alloc key key_len hl frame plen = do {
     plain \<leftarrow> (if key_len = 16 then ccmp_decrypt spp alloc key frame hl (usub32 plen hl)
              else if key_len = 32 then ccmp_256_decrypt spp alloc key frame hl (usub32 plen hl)
              else Some None);
     case plain of None \<Rightarrow> Some (False, frame)
     | Some p \<Rightarrow> do { frame' \<leftarrow> wr_n frame (hl + 8) p; Some (True, frame') } }"

text \<open>The loop over the fragments ignores whether a fragment was protected.\<close>

primrec aes_frag_loop ::
    "(bytes \<Rightarrow> int \<Rightarrow> (bool \<times> bytes) option) \<Rightarrow> nat \<Rightarrow> frame_attrib \<Rightarrow> nat \<Rightarrow> nat \<Rightarrow> bytes \<Rightarrow> nat \<Rightarrow> bytes option" where
  "aes_frag_loop enc base a frag_len 0 m pframe = Some m"
| "aes_frag_loop enc base a frag_len (Suc n) m pframe = do {
     let cmdsz = (if n = 0 then last_txcmdsz a else frag_len);
     let plen = int cmdsz - int (hdrlen a) - int (iv_len a) - int (icv_len a);
     (_, fr) \<leftarrow> enc (drop pframe m) plen;
     aes_frag_loop enc base a frag_len n (take pframe m @ fr) (RND4 (base + pframe + frag_len) - base) }"

definition rtw_aes_encrypt ::
    "bool \<Rightarrow> bool \<Rightarrow> tkip_keys \<Rightarrow> bytes \<Rightarrow> nat \<Rightarrow> nat \<Rightarrow> nat \<Rightarrow> frame_attrib \<Rightarrow> bytes option \<Rightarrow> (bool \<times> bytes option) option" where
  "rtw_aes_encrypt spp alloc ks unicast_key base frag_len pkt_offset a buf_addr =
     (case buf_addr of
        None \<Rightarrow> Some (False, None)
      | Some m \<Rightarrow>
          if encrypt a = AES \<or> encrypt a = CCMP_256 then do {
            let key = (if IS_MCAST (at_ra a) then grp_keys ks ! grp_keyid ks else unicast_key);
            let key_len = (if encrypt a = CCMP_256 then 32 else 16);
            m' \<leftarrow> aes_frag_loop (rtw_ccmp_encrypt spp alloc key key_len (hdrlen a)) base a frag_len (nr_frags a) m
              (hw_hdr_offset pkt_offset);
            Some (True, Some m') }
          else Some (True, Some m))"

definition rtw_aes_decrypt ::
    "bool \<Rightarrow> bool \<Rightarrow> tkip_keys \<Rightarrow> bytes option \<Rightarrow> frame_attrib \<Rightarrow> bytes \<Rightarrow> nat \<Rightarrow> (bool \<times> bytes) option" where
  "rtw_aes_decrypt spp alloc ks sta a m len =
     (if encrypt a \<noteq> AES \<and> encrypt a \<noteq> CCMP_256 then Some (True, m)
      else case sta of
        None \<Rightarrow> Some (False, m)
      | Some unicast_key \<Rightarrow>
          if IS_MCAST (at_ra a) \<and> (\<not> binstallGrpkey ks \<or> grp_keyid ks \<noteq> key_index a) then Some (False, m)
          else rtw_ccmp_decrypt spp alloc (if IS_MCAST (at_ra a) then grp_keys ks ! key_index a else unicast_key)
                 (if encrypt a = CCMP_256 then 32 else 16) (hdrlen a) m len)"

section \<open>What nonce and associated data depend on\<close>

lemma rd_prefix: "i < length x \<Longrightarrow> rd (x @ y) i = rd x i"
  by (simp add: rd_def nth_append)

lemma rd_n_prefix: "i + n \<le> length x \<Longrightarrow> rd_n (x @ y) i n = rd_n x i n"
  by (simp add: rd_n_def)

lemma aad_nonce_prefix:
  assumes "32 \<le> length x" "data + 8 \<le> length x"
  shows "ccmp_aad_nonce spp (x @ y) data = ccmp_aad_nonce spp x data"
proof -
  have "rd (x @ y) i = rd x i" if "i < 32" for i using that assms(1) by (intro rd_prefix) simp
  then have "RTW_GET_LE16 (x @ y) 0 = RTW_GET_LE16 x 0" "RTW_GET_LE16 (x @ y) 22 = RTW_GET_LE16 x 22"
    by (simp_all add: RTW_GET_LE16_def)
  moreover have "rd (x @ y) (24 + (if P then 6 else 0)) = rd x (24 + (if P then 6 else 0))"
      "rd_n (x @ y) 24 ((if P then 6 else 0) + (if Q then 2 else 0)) = rd_n x 24 ((if P then 6 else 0) + (if Q then 2 else 0))"
      "rd_n (x @ y) 4 18 = rd_n x 4 18" "rd_n (x @ y) 10 6 = rd_n x 10 6" "rd_n (x @ y) data 8 = rd_n x data 8" for P Q
    using assms by (simp_all add: rd_prefix rd_n_prefix)
  ultimately show ?thesis unfolding ccmp_aad_nonce_def Let_def by (simp only:)
qed

lemma aad_nonce_lengths:
  assumes "ccmp_aad_nonce spp m data = Some (aad, nonce)"
  shows "length aad \<le> 30 \<and> length nonce = 13"
  using assms by (auto simp: ccmp_aad_nonce_def Let_def Option.bind_eq_Some_conv rd_n_Some_iff split: if_splits)

lemma aad_nonce_total:
  assumes "32 \<le> length m" "data + 8 \<le> length m"
  shows "\<exists>aad nonce. ccmp_aad_nonce spp m data = Some (aad, nonce)"
  using assms by (auto simp: ccmp_aad_nonce_def Let_def RTW_GET_LE16_def rd_def rd_n_def)

section \<open>One frame\<close>

lemma set_ISWEP_append: "2 \<le> length h \<Longrightarrow> set_ISWEP (h @ t) = set_ISWEP h @ t"
  by (simp add: set_ISWEP_def list_update_append nth_append)

lemma set_ISWEP_length [simp]: "length (set_ISWEP h) = length h"
  by (simp add: set_ISWEP_def)

lemma ccm_ae_total:
  assumes "aes_encrypt_init alloc key kl \<noteq> None" "length aad \<le> 30" "M \<le> 16"
  shows "\<exists>c auth. aes_ccm_ae alloc key kl nonce M plain aad = Some (c, auth) \<and> length c = length plain \<and> length auth = M"
  using assms by (auto simp: aes_ccm_ae_def AES_BLOCK_SIZE_def Let_def aes_ccm_encr_length aes_ccm_encr_auth_def
      auth_length auth_start_length aes.E_length)

text \<open>The lengths of the tag for the two key lengths.\<close>

definition mic_len :: "nat \<Rightarrow> nat" where "mic_len kl = (if kl = 32 then 16 else 8)"

lemma key_ok: "kl = 16 \<or> kl = 32 \<Longrightarrow> aes_encrypt_init True key kl \<noteq> None"
  by (auto simp: aes_encrypt_init_def rijndaelKeySetupEnc_def)

lemma ccmp_encrypt_frame:
  assumes "kl = 16 \<or> kl = 32" "24 \<le> hl" "length h = hl" "length iv = 8" "length room = mic_len kl"
  shows "\<exists>aad nonce c auth. ccmp_aad_nonce spp (set_ISWEP (h @ iv)) hl = Some (aad, nonce) \<and>
     aes_ccm_ae True key kl nonce (mic_len kl) plain aad = Some (c, auth) \<and> length c = length plain \<and> length auth = mic_len kl \<and>
     rtw_ccmp_encrypt spp True key kl hl (h @ iv @ plain @ room @ post) (int (length plain)) =
       Some (True, set_ISWEP (h @ iv) @ c @ auth @ post)"
proof -
  let ?h = "set_ISWEP (h @ iv)"
  obtain aad nonce where an: "ccmp_aad_nonce spp ?h hl = Some (aad, nonce)"
    using aad_nonce_total [of ?h hl spp] assms by auto
  have "mic_len kl \<le> 16" by (simp add: mic_len_def)
  then obtain c auth where c: "aes_ccm_ae True key kl nonce (mic_len kl) plain aad = Some (c, auth)" "length c = length plain"
      "length auth = mic_len kl"
    using ccm_ae_total [OF key_ok [OF assms(1)], of aad] aad_nonce_lengths [OF an] by blast
  have "rd_n (h @ iv @ plain @ room @ post) 0 (hl + 8) = Some (h @ iv)"
      "rd_n (h @ iv @ plain @ room @ post) (hl + 8) (length plain) = Some plain"
    using assms by (simp_all add: rd_n_def)
  then have "ccmp_encrypt_with spp True kl (mic_len kl) key (h @ iv @ plain @ room @ post) (hl + length plain) hl None 0 =
      Some (Some (?h @ c @ auth))"
    using assms(2) an c(1) by (simp add: ccmp_encrypt_with_def)
  moreover have "wr_n (h @ iv @ plain @ room @ post) 0 (?h @ c @ auth) = Some (?h @ c @ auth @ post)"
    using assms c by (simp add: wr_n_def)
  ultimately show ?thesis
    using assms(1) an c by (auto simp: rtw_ccmp_encrypt_def ccmp_encrypt_def ccmp_256_encrypt_def mic_len_def)
qed

lemma ccmp_decrypt_frame:
  assumes "kl = 16 \<or> kl = 32" "24 \<le> hl" "length h = hl + 8" "length auth = mic_len kl"
    and "ccmp_aad_nonce spp h hl = Some (aad, nonce)"
  shows "rtw_ccmp_decrypt spp True key kl hl (h @ c @ auth @ post) (length (h @ c @ auth)) =
     (case aes_ccm_ad True key kl nonce (mic_len kl) c aad auth of
        None \<Rightarrow> Some (False, h @ c @ auth @ post)
      | Some p \<Rightarrow> do { m \<leftarrow> wr_n (h @ c @ auth @ post) (hl + 8) p; Some (True, m) })"
proof -
  let ?m = "h @ c @ auth @ post"
  have "ccmp_aad_nonce spp ?m hl = Some (aad, nonce)"
    using aad_nonce_prefix [of h hl spp "c @ auth @ post"] assms by simp
  moreover have "usub32 (length (h @ c @ auth)) hl = 8 + mic_len kl + length c" using assms by (simp add: usub32_def)
  moreover have "rd_n ?m (hl + 8) (length c) = Some c" "rd_n ?m (hl + 8 + length c) (mic_len kl) = Some auth"
    using assms by (simp_all add: rd_n_def)
  ultimately have "ccmp_decrypt_with spp True kl (mic_len kl) key ?m hl (usub32 (length (h @ c @ auth)) hl) =
      Some (aes_ccm_ad True key kl nonce (mic_len kl) c aad auth)"
    by (simp add: ccmp_decrypt_with_def)
  then show ?thesis
    using assms(1) by (auto simp: rtw_ccmp_decrypt_def ccmp_decrypt_def ccmp_256_decrypt_def mic_len_def)
qed

section \<open>Theorems\<close>

lemma or_set_bit: "bit (b :: u8) n \<Longrightarrow> b OR push_bit n 1 = b"
  by (rule bit_word_eqI) (auto simp: bit_simps)

text \<open>C14. CCMP is invertible over the air: a transmitted frame of one fragment is decrypted by a receiver with the same
  key to the header with the protected bit, the packet number and the plaintext, for both key lengths and for
  unicast and group frames.\<close>

theorem ccmp_roundtrip:
  assumes "encrypt a = AES \<and> kl = 16 \<or> encrypt a = CCMP_256 \<and> kl = 32" and "nr_frags a = 1"
    and "24 \<le> hdrlen a" and "iv_len a = 8" and "icv_len a = mic_len kl"
    and "last_txcmdsz a = hdrlen a + 8 + length plain + mic_len kl"
    and "length pre = hw_hdr_offset off" and "length h = hdrlen a" and "length iv = 8" and "length room = mic_len kl"
    and "IS_MCAST (at_ra a) \<longrightarrow> binstallGrpkey ks \<and> grp_keyid ks = key_index a"
  shows "\<exists>fr auth. rtw_aes_encrypt spp True ks key base frag_len off a (Some (pre @ h @ iv @ plain @ room)) =
       Some (True, Some (pre @ fr)) \<and> length fr = last_txcmdsz a \<and> length auth = mic_len kl \<and>
     rtw_aes_decrypt spp True ks (Some key) a fr (last_txcmdsz a) = Some (True, set_ISWEP (h @ iv) @ plain @ auth)"
proof -
  let ?key = "if IS_MCAST (at_ra a) then grp_keys ks ! key_index a else key"
  have kl: "kl = 16 \<or> kl = 32" "(if encrypt a = CCMP_256 then 32 else 16) = kl" using assms(1) by auto
  obtain aad nonce c auth where e: "ccmp_aad_nonce spp (set_ISWEP (h @ iv)) (hdrlen a) = Some (aad, nonce)"
      "aes_ccm_ae True ?key kl nonce (mic_len kl) plain aad = Some (c, auth)" "length c = length plain" "length auth = mic_len kl"
      "rtw_ccmp_encrypt spp True ?key kl (hdrlen a) (h @ iv @ plain @ room) (int (length plain)) =
         Some (True, set_ISWEP (h @ iv) @ c @ auth)"
    using ccmp_encrypt_frame [OF kl(1) assms(3,8,9,10), of spp ?key plain "[]"] by auto
  let ?fr = "set_ISWEP (h @ iv) @ c @ auth"
  have len: "length ?fr = last_txcmdsz a" using assms e by simp
  have "aes_ccm_ad True ?key kl nonce (mic_len kl) c aad auth = Some plain" using ccm_accepts_iff [OF e(4)] e(2) by simp
  moreover have "wr_n ?fr (hdrlen a + 8) plain = Some (set_ISWEP (h @ iv) @ plain @ auth)"
    using assms(8,9) e(3) by (simp add: wr_n_def)
  ultimately have "rtw_ccmp_decrypt spp True ?key kl (hdrlen a) ?fr (last_txcmdsz a) = Some (True, set_ISWEP (h @ iv) @ plain @ auth)"
    using ccmp_decrypt_frame [OF kl(1) assms(3) _ e(4) e(1), of ?key c "[]"] assms(8,9) len by simp
  then have "rtw_aes_decrypt spp True ks (Some key) a ?fr (last_txcmdsz a) = Some (True, set_ISWEP (h @ iv) @ plain @ auth)"
    using assms(1,11) kl(2) by (auto simp: rtw_aes_decrypt_def)
  moreover have "rtw_aes_encrypt spp True ks key base frag_len off a (Some (pre @ h @ iv @ plain @ room)) = Some (True, Some (pre @ ?fr))"
    using assms e(5) kl by (auto simp: rtw_aes_encrypt_def)
  ultimately show ?thesis using len e(4) by blast
qed

text \<open>C13. Only authentic frames are accepted: if decryption accepts a frame with the protected bit, then encrypting the
  frame it leaves behind, under the same key, gives back the received frame byte by byte.\<close>

theorem ccmp_accepts_only_own:
  assumes "kl = 16 \<or> kl = 32" and "24 \<le> hl" and "hl + 8 + mic_len kl \<le> length fr" and "bit (fr ! 1) 6"
    and "rtw_ccmp_decrypt spp True key kl hl fr (length fr) = Some (True, fr')"
  shows "rtw_ccmp_encrypt spp True key kl hl fr' (int (length fr) - int (hl + 8 + mic_len kl)) = Some (True, fr)"
proof -
  let ?n = "length fr - (hl + 8 + mic_len kl)"
  define h c auth where "h = take (hl + 8) fr" and "c = take ?n (drop (hl + 8) fr)" and "auth = drop (hl + 8 + ?n) fr"
  have fr: "fr = h @ c @ auth" by (simp add: h_def c_def auth_def) (metis add.commute append_take_drop_id drop_drop)
  have len: "length h = hl + 8" "length c = ?n" "length auth = mic_len kl" using assms(3) by (simp_all add: h_def c_def auth_def)
  have "fr ! 1 OR 0x40 = fr ! 1" using or_set_bit [OF assms(4)] by simp
  moreover have "h ! 1 = fr ! 1" using assms(2) by (simp add: h_def)
  ultimately have isw: "set_ISWEP h = h" by (simp add: set_ISWEP_def) (metis list_update_id)
  obtain aad nonce where an: "ccmp_aad_nonce spp h hl = Some (aad, nonce)" using aad_nonce_total [of h hl spp] len assms(2) by auto
  have whole: "h @ c @ auth = fr" by (rule fr [symmetric])
  have d: "rtw_ccmp_decrypt spp True key kl hl fr (length fr) = (case aes_ccm_ad True key kl nonce (mic_len kl) c aad auth of
        None \<Rightarrow> Some (False, fr) | Some p \<Rightarrow> do { m \<leftarrow> wr_n fr (hl + 8) p; Some (True, m) })"
    using ccmp_decrypt_frame [OF assms(1,2) len(1,3) an, of key c "[]"] unfolding append_Nil2 whole .
  obtain p where p: "aes_ccm_ad True key kl nonce (mic_len kl) c aad auth = Some p" "wr_n fr (hl + 8) p = Some fr'"
    using assms(5) [unfolded d] by (auto simp: Option.bind_eq_Some_conv split: option.splits)
  have ae: "aes_ccm_ae True key kl nonce (mic_len kl) p aad = Some (c, auth)" using ccm_accepts_iff [OF len(3)] p(1) by simp
  then have lp: "length p = ?n" using len(2) by (auto simp: aes_ccm_ae_def Let_def aes_ccm_encr_length split: if_splits bind_splits)
  have lc: "length p = length c" using lp len(2) by simp
  have fr': "fr' = take hl h @ drop hl h @ p @ auth @ []"
  proof -
    have "fr' = (take hl h @ drop hl h) @ p @ auth" using p(2) [unfolded fr] len(1,3) lc by (simp add: wr_n_def)
    then show ?thesis by (simp only: append_assoc append_Nil2)
  qed
  obtain aad' nonce' c' auth' where "ccmp_aad_nonce spp (set_ISWEP (take hl h @ drop hl h)) hl = Some (aad', nonce')"
      "aes_ccm_ae True key kl nonce' (mic_len kl) p aad' = Some (c', auth')"
      "rtw_ccmp_encrypt spp True key kl hl fr' (int (length p)) = Some (True, set_ISWEP (take hl h @ drop hl h) @ c' @ auth' @ [])"
    using ccmp_encrypt_frame [OF assms(1,2), of "take hl h" "drop hl h" auth spp key p "[]"] len(1,3) fr' by auto
  then have "rtw_ccmp_encrypt spp True key kl hl fr' (int (length p)) = Some (True, fr)" using an ae isw fr by simp
  moreover have "int (length p) = int (length fr) - int (hl + 8 + mic_len kl)" using lp assms(3) by simp
  ultimately show ?thesis by simp
qed

text \<open>The nonce is a number used once: it determines the transmitter address and the packet number, so that two frames
  of one transmitter with different packet numbers have different nonces.\<close>

theorem ccmp_nonce_unique:
  assumes "ccmp_aad_nonce spp m d = Some (aad, nonce)" and "ccmp_aad_nonce spp' m' d' = Some (aad', nonce)"
  shows "take 6 (drop 10 m) = take 6 (drop 10 m') \<and> ccmp_get_pn m d = ccmp_get_pn m' d'"
proof -
  have "\<exists>n pn. nonce = n # take 6 (drop 10 m) @ pn \<and> ccmp_get_pn m d = Some pn \<and> length (take 6 (drop 10 m)) = 6"
    if "ccmp_aad_nonce spp m d = Some (aad, nonce)" for spp m d aad
    using that by (auto simp: ccmp_aad_nonce_def ccmp_get_pn_def Let_def Option.bind_eq_Some_conv rd_n_Some_iff)
  from this [OF assms(1)] this [OF assms(2)] show ?thesis by auto
qed

text \<open>A failure to encrypt is not reported: when memory is short, \<open>rtw_aes_encrypt\<close> leaves the frame as it is, in
  plaintext, and returns success.\<close>

theorem aes_encrypt_failure_sends_plaintext:
  "rtw_aes_encrypt spp False ks key base frag_len off a (Some m) = Some (True, Some m)"
proof -
  have "rtw_ccmp_encrypt spp False k kl hl fr n = Some (False, fr)" for k kl hl fr n
    by (simp add: rtw_ccmp_encrypt_def ccmp_encrypt_def ccmp_256_encrypt_def ccmp_encrypt_with_def)
  then have "aes_frag_loop (rtw_ccmp_encrypt spp False k kl hl) base a frag_len n m p = Some m" for k kl hl n p
    by (induction n arbitrary: p) simp_all
  then show ?thesis by (simp add: rtw_aes_encrypt_def)
qed

definition sample_attrib :: frame_attrib where
  "sample_attrib = \<lparr>encrypt = AES, hdrlen = 24, iv_len = 8, icv_len = 8, nr_frags = 1, last_txcmdsz = 44, key_index = 0,
     at_ra = replicate 6 0, at_ta = replicate 6 0\<rparr>"

theorem ccmp_roundtrip_witness:
  "\<exists>fr auth. rtw_aes_encrypt False True \<lparr>grp_keys = [], grp_keyid = 0, binstallGrpkey = False\<rparr> fips_key 0 100 0 sample_attrib
       (Some (replicate 40 0 @ replicate 24 0 @ replicate 8 1 @ [1, 2, 3, 4] @ replicate 8 0)) =
       Some (True, Some (replicate 40 0 @ fr)) \<and> length fr = last_txcmdsz sample_attrib \<and> length auth = mic_len 16 \<and>
     rtw_aes_decrypt False True \<lparr>grp_keys = [], grp_keyid = 0, binstallGrpkey = False\<rparr> (Some fips_key) sample_attrib fr
       (last_txcmdsz sample_attrib) = Some (True, set_ISWEP (replicate 24 0 @ replicate 8 1) @ [1, 2, 3, 4] @ auth)"
  by (rule ccmp_roundtrip)
    (simp_all add: sample_attrib_def mic_len_def hw_hdr_offset_def TXDESC_SIZE_def IS_MCAST_def)

theorem ccmp_nonce_unique_witness:
  "fst (the (ccmp_aad_nonce False (replicate 24 0 @ [1, 0, 0, 0, 0, 0, 0, 0]) 24)) \<noteq> [] \<and>
   snd (the (ccmp_aad_nonce False (replicate 24 0 @ [1, 0, 0, 0, 0, 0, 0, 0]) 24)) \<noteq>
   snd (the (ccmp_aad_nonce False (replicate 24 0 @ [2, 0, 0, 0, 0, 0, 0, 0]) 24))"
proof -
  let ?m = "replicate 24 0 @ [1, 0, 0, 0, 0, 0, 0, 0 :: u8]" and ?m' = "replicate 24 0 @ [2, 0, 0, 0, 0, 0, 0, 0 :: u8]"
  obtain aad nonce where m: "ccmp_aad_nonce False ?m 24 = Some (aad, nonce)" using aad_nonce_total [of ?m 24 False] by auto
  obtain aad' nonce' where m': "ccmp_aad_nonce False ?m' 24 = Some (aad', nonce')" using aad_nonce_total [of ?m' 24 False] by auto
  have "ccmp_get_pn ?m 24 \<noteq> ccmp_get_pn ?m' 24" by (simp add: ccmp_get_pn_def rd_n_def)
  then have "nonce \<noteq> nonce'" using ccmp_nonce_unique [OF m] m' by auto
  moreover have "aad \<noteq> []" using m by (auto simp: ccmp_aad_nonce_def Let_def Option.bind_eq_Some_conv put_LE16_def)
  ultimately show ?thesis using m m' by simp
qed

theorem ccmp_accepts_only_own_witness:
  "\<exists>fr fr'. rtw_ccmp_decrypt False True fips_key 16 24 fr (length fr) = Some (True, fr') \<and>
     rtw_ccmp_encrypt False True fips_key 16 24 fr' 4 = Some (True, fr)"
proof -
  let ?h = "replicate 24 0 @ replicate 8 (1 :: u8)"
  obtain aad nonce c auth where e: "ccmp_aad_nonce False (set_ISWEP ?h) 24 = Some (aad, nonce)"
      "aes_ccm_ae True fips_key 16 nonce (mic_len 16) [1, 2, 3, 4] aad = Some (c, auth)" "length c = 4" "length auth = 8"
    using ccmp_encrypt_frame [of 16 24 "replicate 24 0" "replicate 8 1" "replicate 8 0" False fips_key "[1, 2, 3, 4]" "[]"]
    by (auto simp: mic_len_def)
  let ?fr = "set_ISWEP ?h @ c @ auth"
  have ad: "aes_ccm_ad True fips_key 16 nonce (mic_len 16) c aad auth = Some [1, 2, 3, 4]"
    using ccm_accepts_iff [of auth "mic_len 16"] e by (simp add: mic_len_def)
  then have d: "rtw_ccmp_decrypt False True fips_key 16 24 ?fr (length ?fr) = Some (True, set_ISWEP ?h @ [1, 2, 3, 4] @ auth)"
    using ccmp_decrypt_frame [of 16 24 "set_ISWEP ?h" auth False aad nonce fips_key c "[]"] e by (simp add: mic_len_def wr_n_def)
  have "bit (?fr ! 1) 6" by (simp add: nth_append set_ISWEP_def)
  then have "rtw_ccmp_encrypt False True fips_key 16 24 (set_ISWEP ?h @ [1, 2, 3, 4] @ auth)
      (int (length ?fr) - int (24 + 8 + mic_len 16)) = Some (True, ?fr)"
    using e by (intro ccmp_accepts_only_own [OF _ _ _ _ d]) (auto simp: mic_len_def)
  with d e show ?thesis by (intro exI [of _ ?fr] exI [of _ "set_ISWEP ?h @ [1, 2, 3, 4] @ auth"]) (simp add: mic_len_def)
qed

end
