(* ===== verification/Rx_Defrag.thy ===== *)
theory Rx_Defrag
  imports Sec_Tkip "HOL-Library.Multiset"
begin

text \<open>
  Reassembly of fragments in \<open>core/rtw_recv.c\<close>: the buffer operations of \<open>include/rtw_recv.h\<close>, the loop
  \<open>recvframe_defrag\<close> with its checks of fragment numbers, key generation and packet numbers, the Michael
  check with the countermeasures, and the dispatch \<open>recvframe_chk_defrag\<close>.
\<close>

section \<open>Receive frames\<close>

text \<open>A \<open>union recv_frame\<close>: \<open>rx_mem\<close> is the memory from \<open>rx_head\<close> to \<open>rx_end\<close>, the pointers are offsets in
  it. \<open>fr_id\<close> is the identity of the frame, for the free queue.\<close>

record rx_frame =
  fr_id :: nat
  rx_mem :: bytes
  rx_data :: nat
  rx_tail :: nat
  fr_len :: nat
  keytrack :: int
  fr_hdrlen :: nat
  fr_iv_len :: nat
  fr_icv_len :: nat
  fr_frag_num :: nat
  fr_mfrag :: bool
  fr_encrypt :: security_type
  fr_privacy :: bool
  fr_bdecrypted :: bool
  fr_key_index :: nat
  fr_priority :: u8
  fr_seq_num :: u16
  fr_qos :: bool
  fr_ra :: bytes

definition rx_end :: "rx_frame \<Rightarrow> nat" where "rx_end f = length (rx_mem f)"

text \<open>The frame operations; they leave the frame alone where the code returns \<open>NULL\<close>.\<close>

definition recvframe_push :: "rx_frame \<Rightarrow> nat \<Rightarrow> rx_frame" where
  "recvframe_push f sz =
     (if rx_data f < sz then f
      else f\<lparr>rx_data := rx_data f - sz, fr_len := (fr_len f + sz) mod 2 ^ 32\<rparr>)"

definition recvframe_pull :: "rx_frame \<Rightarrow> nat \<Rightarrow> rx_frame" where
  "recvframe_pull f sz =
     (if rx_tail f < rx_data f + sz then f
      else f\<lparr>rx_data := rx_data f + sz, fr_len := usub32 (fr_len f) sz\<rparr>)"

definition recvframe_put :: "rx_frame \<Rightarrow> nat \<Rightarrow> rx_frame" where
  "recvframe_put f sz =
     (if rx_end f < rx_tail f + sz then f
      else f\<lparr>rx_tail := rx_tail f + sz, fr_len := (fr_len f + sz) mod 2 ^ 32\<rparr>)"

definition recvframe_pull_tail :: "rx_frame \<Rightarrow> nat \<Rightarrow> rx_frame" where
  "recvframe_pull_tail f sz =
     (if rx_tail f < rx_data f + sz then f
      else f\<lparr>rx_tail := rx_tail f - sz, fr_len := usub32 (fr_len f) sz\<rparr>)"

section \<open>Defragmentation\<close>

definition le64 :: "bytes \<Rightarrow> u64" where
  "le64 bs = foldr (\<lambda>b v. ucast b OR push_bit 8 v) bs 0"

definition CCMPH_2_PN :: "u64 \<Rightarrow> u64" where
  "CCMPH_2_PN ch = (ch AND 0x000000000000ffff) OR drop_bit 16 (ch AND 0xffffffff00000000)"

definition has_ccmp_pn :: "rx_frame \<Rightarrow> bool" where
  "has_ccmp_pn f \<longleftrightarrow> fr_encrypt f \<in> {AES, CCMP_256, GCMP, GCMP_256}"

definition frame_pn :: "rx_frame \<Rightarrow> u64 option" where
  "frame_pn f = map_option (\<lambda>bs. CCMPH_2_PN (le64 bs)) (rd_n (rx_mem f) (rx_data f + fr_hdrlen f) 8)"

text \<open>The result: the frame handed on, if any, and the frames that go back to the free queue. Every
  path empties the queue.\<close>

type_synonym defrag_result = "rx_frame option \<times> nat list"

text \<open>\<open>all_q\<close> is the queue without its first frame, which a failure frees as a whole. A fragment without a
  packet number passes the test on it. The room \<open>rx_end - rx_tail\<close> is never negative for frames whose
  pointers are in order.\<close>

fun defrag_loop :: "nat list \<Rightarrow> rx_frame \<Rightarrow> u64 \<Rightarrow> nat \<Rightarrow> rx_frame list \<Rightarrow> defrag_result option" where
  "defrag_loop all_q pf cur_pn curfragnum [] = Some (Some pf, all_q)"
| "defrag_loop all_q pf cur_pn curfragnum (nf # q) = do {
     let drop = Some (None, fr_id pf # all_q);
     pkt_pn \<leftarrow> (if has_ccmp_pn nf then frame_pn nf else Some (cur_pn + 1));
     if pkt_pn \<noteq> cur_pn + 1 then drop
     else if keytrack pf \<noteq> keytrack nf then drop
     else if curfragnum \<noteq> fr_frag_num nf then drop
     else do {
       let nf = recvframe_pull nf ((fr_hdrlen nf + fr_iv_len nf) mod 256);
       if rx_end pf - rx_tail pf < fr_len nf then drop
       else do {
         let pf = recvframe_pull_tail pf (fr_icv_len pf);
         mem \<leftarrow> memcpy (rx_mem pf) (rx_tail pf) (rx_mem nf) (rx_data nf) (fr_len nf);
         let pf = recvframe_put (pf\<lparr>rx_mem := mem\<rparr>) (fr_len nf);
         defrag_loop all_q (pf\<lparr>fr_icv_len := fr_icv_len nf\<rparr>)
           (if has_ccmp_pn nf then pkt_pn else cur_pn) ((curfragnum + 1) mod 256) q } } }"

definition recvframe_defrag :: "rx_frame list \<Rightarrow> defrag_result option" where
  "recvframe_defrag defrag_q =
     (case defrag_q of
        [] \<Rightarrow> None
      | pf # q \<Rightarrow> do {
          cur_pn \<leftarrow> (if has_ccmp_pn pf then frame_pn pf else Some 0);
          if fr_frag_num pf \<noteq> 0 then Some (None, map fr_id (pf # q))
          else defrag_loop (map fr_id q) pf cur_pn 1 q })"

section \<open>The Michael check\<close>

text \<open>The part of \<open>struct security_priv\<close> that the check uses. \<open>mic_events\<close> are the wireless events sent,
  with the group flag, newest first. Times are jiffies of a 32 bit machine.\<close>

record mic_sec =
  grprxmickey :: "bytes list"
  grp_installed :: bool
  bcheck_grpkey :: bool
  last_mic_err_time :: u32
  btkip_countermeasure :: bool
  btkip_countermeasure_time :: u32
  mic_events :: "bool list"

definition rtw_handle_tkip_mic_err :: "u32 \<Rightarrow> u32 \<Rightarrow> mic_sec \<Rightarrow> bool \<Rightarrow> mic_sec" where
  "rtw_handle_tkip_mic_err hz now s bgroup =
     (let s = (if last_mic_err_time s = 0 then s\<lparr>last_mic_err_time := now\<rparr>
               else if now - last_mic_err_time s < 60 * hz then
                 s\<lparr>btkip_countermeasure := True, last_mic_err_time := 0, btkip_countermeasure_time := now\<rparr>
               else s\<lparr>last_mic_err_time := now\<rparr>) in
      s\<lparr>mic_events := bgroup # mic_events s\<rparr>)"

text \<open>\<open>sta\<close> is the receive Michael key of the station that \<open>rtw_get_stainfo\<close> finds; \<open>cur_key\<close> is the key index
  of \<open>mlmext_info\<close>. The result is true for \<open>_SUCCESS\<close>.\<close>

definition recvframe_chkmic ::
    "u32 \<Rightarrow> u32 \<Rightarrow> bytes option \<Rightarrow> nat \<Rightarrow> mic_sec \<Rightarrow> rx_frame \<Rightarrow> (bool \<times> mic_sec \<times> rx_frame) option" where
  "recvframe_chkmic hz now sta cur_key s f =
     (if fr_encrypt f \<noteq> TKIP then Some (True, s, f)
      else case sta of
        None \<Rightarrow> Some (True, s, recvframe_pull_tail f 8)
      | Some rxmickey \<Rightarrow>
          let mcast = IS_MCAST (fr_ra f) in
          if mcast \<and> \<not> grp_installed s then Some (False, s, f)
          else if fr_len f \<le> fr_hdrlen f then Some (False, s, f)
          else do {
            let datalen = usub32 (fr_len f) (fr_hdrlen f + fr_iv_len f + fr_icv_len f + 8);
            let payload = rx_data f + fr_hdrlen f + fr_iv_len f;
            if datalen > rx_tail f - rx_data f \<or> datalen > rx_end f - rx_data f then Some (False, s, f)
            else do {
              mickey \<leftarrow> (if \<not> mcast then Some rxmickey
                        else if fr_key_index f < length (grprxmickey s) then Some (grprxmickey s ! fr_key_index f)
                        else None);
              miccode \<leftarrow> rtw_seccalctkipmic mickey (drop (rx_data f) (rx_mem f)) (drop payload (rx_mem f)) datalen
                (fr_priority f);
              framemic \<leftarrow> rd_n (rx_mem f) (payload + datalen) 8;
              if miccode \<noteq> framemic then
                (let brpt_micerror = (\<not> (mcast \<and> fr_key_index f \<noteq> cur_key));
                     s = (if fr_bdecrypted f \<and> brpt_micerror then rtw_handle_tkip_mic_err hz now s mcast else s) in
                 Some (False, s, recvframe_pull_tail f 8))
              else Some (True, (if \<not> bcheck_grpkey s \<and> mcast then s\<lparr>bcheck_grpkey := True\<rparr> else s),
                         recvframe_pull_tail f 8) } })"

section \<open>Dispatch of fragments\<close>

record rx_sta =
  defrag_q :: "rx_frame list"
  sta_keytrack :: int
  sta_rxmickey :: bytes

definition WIFI_DATA_TYPE :: u16 where "WIFI_DATA_TYPE = bit_mask 3"

definition GetFrameType :: "bytes \<Rightarrow> nat \<Rightarrow> u16 option" where
  "GetFrameType m p = map_option (\<lambda>fc. fc AND (bit_mask 3 OR bit_mask 2)) (RTW_GET_LE16 m p)"

text \<open>The station whose queue takes the fragments: the one with the transmitter's address, or the
  broadcast station for a frame that is not data.\<close>

definition defrag_sta :: "rx_sta option \<Rightarrow> rx_sta option \<Rightarrow> rx_frame \<Rightarrow> rx_sta option option" where
  "defrag_sta psta bcmc f =
     (case psta of
        Some s \<Rightarrow> Some (Some s)
      | None \<Rightarrow> do { type \<leftarrow> GetFrameType (rx_mem f) (rx_data f);
                    Some (if type \<noteq> WIFI_DATA_TYPE then bcmc else None) })"

record chk_result =
  out_frame :: "rx_frame option"
  out_freed :: "nat list"
  out_sta :: "rx_sta option"
  out_sec :: mic_sec

text \<open>The end of \<open>recvframe_chk_defrag\<close>: a protected frame must pass the Michael check.\<close>

definition chk_defrag_mic ::
    "u32 \<Rightarrow> u32 \<Rightarrow> nat \<Rightarrow> rx_sta option \<Rightarrow> mic_sec \<Rightarrow> rx_frame option \<Rightarrow> nat list \<Rightarrow> rx_sta option \<Rightarrow> chk_result option" where
  "chk_defrag_mic hz now cur_key psta s rtn freed dsta =
     (case rtn of
         None \<Rightarrow> Some \<lparr>out_frame = None, out_freed = freed, out_sta = dsta, out_sec = s\<rparr>
       | Some r \<Rightarrow>
           if fr_privacy r then do {
             (ok, s', r') \<leftarrow> recvframe_chkmic hz now (map_option sta_rxmickey psta) cur_key s r;
             Some (if ok then \<lparr>out_frame = Some r', out_freed = freed, out_sta = dsta, out_sec = s'\<rparr>
                   else \<lparr>out_frame = None, out_freed = freed @ [fr_id r'], out_sta = dsta, out_sec = s'\<rparr>) }
           else Some \<lparr>out_frame = Some r, out_freed = freed, out_sta = dsta, out_sec = s\<rparr>)"

definition recvframe_chk_defrag ::
    "u32 \<Rightarrow> u32 \<Rightarrow> nat \<Rightarrow> rx_sta option \<Rightarrow> rx_sta option \<Rightarrow> mic_sec \<Rightarrow> rx_frame \<Rightarrow> chk_result option" where
  "recvframe_chk_defrag hz now cur_key psta bcmc s f = do {
     dsta \<leftarrow> defrag_sta psta bcmc f;
     let single = (\<not> fr_mfrag f \<and> fr_frag_num f = 0);
     if \<not> single \<and> IS_MCAST (fr_ra f) then
       Some \<lparr>out_frame = None, out_freed = [fr_id f], out_sta = dsta, out_sec = s\<rparr>
     else do {
       (rtn, freed, dsta) \<leftarrow>
         (if single then Some (Some f, [], dsta)
          else case dsta of
            None \<Rightarrow> Some (None, [fr_id f], None)
          | Some st \<Rightarrow>
              let f = f\<lparr>keytrack := sta_keytrack st\<rparr> in
              if fr_mfrag f then
                (let old = (if fr_frag_num f = 0 then defrag_q st else []);
                     q = (if fr_frag_num f = 0 then [] else defrag_q st) in
                 Some (None, map fr_id old, Some (st\<lparr>defrag_q := q @ [f]\<rparr>)))
              else do {
                (rtn, freed) \<leftarrow> recvframe_defrag (defrag_q st @ [f]);
                Some (rtn, freed, Some (st\<lparr>defrag_q := []\<rparr>)) });
       chk_defrag_mic hz now cur_key psta s rtn freed dsta } }"

section \<open>The frame buffer\<close>

definition rx_ok :: "rx_frame \<Rightarrow> bool" where
  "rx_ok f \<longleftrightarrow> rx_data f \<le> rx_tail f \<and> rx_tail f \<le> rx_end f \<and> fr_len f = rx_tail f - rx_data f \<and> rx_end f < 2 ^ 32"

definition content :: "rx_frame \<Rightarrow> bytes" where
  "content f = take (fr_len f) (drop (rx_data f) (rx_mem f))"

text \<open>Copy \<open>bs\<close> behind the tail, then move the tail.\<close>

definition recvframe_append :: "rx_frame \<Rightarrow> bytes \<Rightarrow> rx_frame option" where
  "recvframe_append f bs = do {
     mem \<leftarrow> wr_n (rx_mem f) (rx_tail f) bs;
     Some (recvframe_put (f\<lparr>rx_mem := mem\<rparr>) (length bs)) }"

definition drop_head :: "nat \<Rightarrow> bytes \<Rightarrow> bytes" where
  "drop_head n bs = (if n \<le> length bs then drop n bs else bs)"

definition cut_tail :: "nat \<Rightarrow> bytes \<Rightarrow> bytes" where
  "cut_tail n bs = (if n \<le> length bs then take (length bs - n) bs else bs)"

text \<open>A buffer with bytes in its middle: \<open>room\<close> is what still fits behind them.\<close>

locale frame_buffer =
  fixes ok :: "'f \<Rightarrow> bool"
    and bytes_of :: "'f \<Rightarrow> bytes"
    and room :: "'f \<Rightarrow> nat"
    and pull :: "'f \<Rightarrow> nat \<Rightarrow> 'f"
    and pull_tail :: "'f \<Rightarrow> nat \<Rightarrow> 'f"
    and append :: "'f \<Rightarrow> bytes \<Rightarrow> 'f option"
  assumes pull_ok: "ok f \<Longrightarrow> ok (pull f n)"
    and pull_bytes: "ok f \<Longrightarrow> bytes_of (pull f n) = drop_head n (bytes_of f)"
    and tail_ok: "ok f \<Longrightarrow> ok (pull_tail f n)"
    and tail_bytes: "ok f \<Longrightarrow> bytes_of (pull_tail f n) = cut_tail n (bytes_of f)"
    and tail_room: "ok f \<Longrightarrow> room f \<le> room (pull_tail f n)"
    and append_law: "ok f \<Longrightarrow> length bs \<le> room f \<Longrightarrow>
          \<exists>g. append f bs = Some g \<and> ok g \<and> bytes_of g = bytes_of f @ bs \<and> room g = room f - length bs"
begin

text \<open>A block that fits behind the tail also fits after the tail is cut.\<close>

lemma cut_append:
  assumes "ok f" "length bs \<le> room f"
  shows "\<exists>g. append (pull_tail f n) bs = Some g \<and> ok g \<and> bytes_of g = cut_tail n (bytes_of f) @ bs"
  using append_law [OF tail_ok [OF assms(1)], of bs n] tail_room [OF assms(1), of n] tail_bytes [OF assms(1), of n] assms(2)
  by auto

end


lemma content_length: "rx_ok f \<Longrightarrow> length (content f) = fr_len f"
  by (auto simp: rx_ok_def content_def rx_end_def)

lemma recvframe_pull_ok: "rx_ok f \<Longrightarrow> rx_ok (recvframe_pull f n)"
  by (auto simp: rx_ok_def recvframe_pull_def usub32_def rx_end_def)

lemma recvframe_pull_content: "rx_ok f \<Longrightarrow> content (recvframe_pull f n) = drop_head n (content f)"
  by (auto simp: rx_ok_def recvframe_pull_def usub32_def rx_end_def content_def drop_head_def drop_take add.commute)

lemma recvframe_pull_tail_ok: "rx_ok f \<Longrightarrow> rx_ok (recvframe_pull_tail f n)"
  by (auto simp: rx_ok_def recvframe_pull_tail_def usub32_def rx_end_def)

lemma recvframe_pull_tail_content: "rx_ok f \<Longrightarrow> content (recvframe_pull_tail f n) = cut_tail n (content f)"
proof -
  assume ok: "rx_ok f"
  have "content (recvframe_pull_tail f n) = take (fr_len f - n) (content f)" if "n \<le> fr_len f"
    using ok that by (auto simp: rx_ok_def recvframe_pull_tail_def usub32_def content_def min_def)
  moreover have "recvframe_pull_tail f n = f" if "\<not> n \<le> fr_len f"
    using ok that by (auto simp: rx_ok_def recvframe_pull_tail_def)
  ultimately show ?thesis by (simp add: cut_tail_def content_length [OF ok])
qed

lemma recvframe_append_law:
  assumes "rx_ok f" "length bs \<le> rx_end f - rx_tail f"
  shows "\<exists>g. recvframe_append f bs = Some g \<and> rx_ok g \<and> content g = content f @ bs \<and>
     rx_end g - rx_tail g = rx_end f - rx_tail f - length bs"
proof -
  let ?mem = "take (rx_tail f) (rx_mem f) @ bs @ drop (rx_tail f + length bs) (rx_mem f)"
  let ?g = "f\<lparr>rx_mem := ?mem, rx_tail := rx_tail f + length bs, fr_len := fr_len f + length bs\<rparr>"
  have fits: "rx_tail f + length bs \<le> length (rx_mem f)" using assms by (auto simp: rx_ok_def rx_end_def)
  moreover have "(fr_len f + length bs) mod 2 ^ 32 = fr_len f + length bs"
    using assms fits by (intro mod_less) (auto simp: rx_ok_def rx_end_def)
  ultimately have "recvframe_append f bs = Some ?g"
    by (simp add: recvframe_append_def wr_n_def recvframe_put_def rx_end_def)
  moreover have "rx_ok ?g" using assms fits by (auto simp: rx_ok_def rx_end_def)
  moreover have "content ?g = content f @ bs"
    using assms fits by (simp add: content_def rx_ok_def rx_end_def drop_take)
  ultimately show ?thesis using fits by (auto simp: rx_end_def)
qed

interpretation rxf: frame_buffer rx_ok content "\<lambda>f. rx_end f - rx_tail f" recvframe_pull recvframe_pull_tail
  recvframe_append
proof unfold_locales
  show "rx_end f - rx_tail f \<le> rx_end (recvframe_pull_tail f n) - rx_tail (recvframe_pull_tail f n)" if "rx_ok f" for f n
    by (auto simp: recvframe_pull_tail_def rx_end_def)
qed (rule recvframe_pull_ok recvframe_pull_content recvframe_pull_tail_ok recvframe_pull_tail_content
    recvframe_append_law; assumption)+

text \<open>The copy of the loop is an append.\<close>

lemma memcpy_append:
  assumes "rx_ok g"
  shows "(memcpy (rx_mem f) (rx_tail f) (rx_mem g) (rx_data g) (fr_len g) \<bind> (\<lambda>mem.
     Some (recvframe_put (f\<lparr>rx_mem := mem\<rparr>) (fr_len g)))) = recvframe_append f (content g)"
proof -
  have "rd_n (rx_mem g) (rx_data g) (fr_len g) = Some (content g)"
    using assms by (auto simp: rd_n_def content_def rx_ok_def rx_end_def)
  then show ?thesis using content_length [OF assms] by (simp add: memcpy_def recvframe_append_def)
qed

section \<open>What reassembly computes\<close>

definition frag_body :: "rx_frame \<Rightarrow> bytes" where
  "frag_body g = drop_head ((fr_hdrlen g + fr_iv_len g) mod 256) (content g)"

text \<open>The bytes of the reassembled frame in a buffer of \<open>cap\<close> bytes: each fragment replaces the ICV of
  the ones before it by its body.\<close>

fun join :: "nat \<Rightarrow> bytes \<Rightarrow> nat \<Rightarrow> rx_frame list \<Rightarrow> bytes option" where
  "join cap acc icv [] = Some acc"
| "join cap acc icv (g # gs) =
     (if cap < length acc + length (frag_body g) then None
      else join cap (cut_tail icv acc @ frag_body g) (fr_icv_len g) gs)"

fun pn_consecutive :: "u64 \<Rightarrow> rx_frame list \<Rightarrow> bool" where
  "pn_consecutive cur [] \<longleftrightarrow> True"
| "pn_consecutive cur (g # gs) \<longleftrightarrow>
     (if has_ccmp_pn g then frame_pn g = Some (cur + 1) \<and> pn_consecutive (cur + 1) gs else pn_consecutive cur gs)"

text \<open>A frame the receive path queues: pointers in order, a fragment number of four bits, and the
  protection header inside the buffer.\<close>

definition frag_ok :: "rx_frame \<Rightarrow> bool" where
  "frag_ok g \<longleftrightarrow> rx_ok g \<and> fr_frag_num g < 16 \<and>
     (has_ccmp_pn g \<longrightarrow> rx_data g + fr_hdrlen g + 8 \<le> rx_end g)"

definition accepted :: "rx_frame list \<Rightarrow> bool" where
  "accepted q \<longleftrightarrow> map fr_frag_num q = [0..<length q] \<and> (\<forall>g \<in> set q. keytrack g = keytrack (hd q)) \<and>
     pn_consecutive (if has_ccmp_pn (hd q) then the (frame_pn (hd q)) else 0) (tl q)"

lemma frag_pn: "frag_ok g \<Longrightarrow> has_ccmp_pn g \<Longrightarrow> \<exists>pn. frame_pn g = Some pn"
  by (auto simp: frag_ok_def frame_pn_def rd_n_def rx_end_def)

text \<open>Reassembly changes only the bytes, the tail and the length of the ICV.\<close>

definition same_attr :: "rx_frame \<Rightarrow> rx_frame \<Rightarrow> bool" where
  "same_attr f f' \<longleftrightarrow>
     f' = f\<lparr>rx_mem := rx_mem f', rx_tail := rx_tail f', fr_len := fr_len f', fr_icv_len := fr_icv_len f'\<rparr> \<and>
     rx_end f' = rx_end f"

lemma same_attr_refl [simp]: "same_attr f f"
  by (simp add: same_attr_def)

lemma same_attr_trans: "same_attr f g \<Longrightarrow> same_attr g h \<Longrightarrow> same_attr f h"
  by (cases f; cases g; cases h) (simp add: same_attr_def rx_end_def)

lemma same_attrD:
  assumes "same_attr f f'"
  shows "fr_id f' = fr_id f" "keytrack f' = keytrack f" "rx_data f' = rx_data f" "rx_end f' = rx_end f"
    "fr_encrypt f' = fr_encrypt f" "fr_key_index f' = fr_key_index f" "fr_ra f' = fr_ra f"
  using assms by (cases f; cases f'; simp add: same_attr_def)+

text \<open>One round that passes the checks.\<close>

lemma defrag_loop_step:
  assumes "rx_ok pf" "frag_ok nf" "keytrack pf = keytrack nf" "fr_frag_num nf = n"
    and "has_ccmp_pn nf \<longrightarrow> frame_pn nf = Some (cur + 1)"
    and "length (frag_body nf) \<le> rx_end pf - rx_tail pf"
  shows "\<exists>pf'. defrag_loop all_q pf cur n (nf # q) =
       defrag_loop all_q pf' (if has_ccmp_pn nf then cur + 1 else cur) ((n + 1) mod 256) q \<and>
     rx_ok pf' \<and> content pf' = cut_tail (fr_icv_len pf) (content pf) @ frag_body nf \<and>
     fr_icv_len pf' = fr_icv_len nf \<and> same_attr pf pf'"
proof -
  let ?nf = "recvframe_pull nf ((fr_hdrlen nf + fr_iv_len nf) mod 256)"
  let ?pf = "recvframe_pull_tail pf (fr_icv_len pf)"
  have nf: "rx_ok ?nf" "content ?nf = frag_body nf"
    using assms(2) by (simp_all add: frag_ok_def frag_body_def recvframe_pull_ok recvframe_pull_content)
  have len: "fr_len ?nf = length (frag_body nf)" using content_length [OF nf(1)] nf(2) by simp
  obtain g where g: "recvframe_append ?pf (frag_body nf) = Some g" "rx_ok g"
      "content g = cut_tail (fr_icv_len pf) (content pf) @ frag_body nf"
    using rxf.cut_append [OF assms(1,6)] by blast
  have fields: "same_attr pf g"
    using g(1) by (auto simp: recvframe_append_def Option.bind_eq_Some_conv recvframe_put_def recvframe_pull_tail_def
        rx_end_def wr_n_Some_iff same_attr_def split: if_splits)
  have kept: "has_ccmp_pn ?nf = has_ccmp_pn nf" "fr_icv_len ?nf = fr_icv_len nf"
    by (simp_all add: recvframe_pull_def has_ccmp_pn_def)
  let ?pf' = "g\<lparr>fr_icv_len := fr_icv_len nf\<rparr>"
  have "defrag_loop all_q pf cur n (nf # q) =
      defrag_loop all_q ?pf' (if has_ccmp_pn nf then cur + 1 else cur) ((n + 1) mod 256) q"
    using assms(3,4,5,6) g(1) memcpy_append [OF nf(1), of ?pf] nf(2) kept len
    by (auto simp: Let_def Option.bind_eq_Some_conv)
  moreover have "rx_ok ?pf'" "content ?pf' = content g" "same_attr g ?pf'"
    using g(2) by (simp_all add: rx_ok_def content_def rx_end_def same_attr_def)
  ultimately show ?thesis using g(3) same_attr_trans [OF fields] by (intro exI [of _ ?pf']) auto
qed

definition chain_ok :: "int \<Rightarrow> u64 \<Rightarrow> nat \<Rightarrow> rx_frame list \<Rightarrow> bool" where
  "chain_ok kt cur n q \<longleftrightarrow> map fr_frag_num q = [n..<n + length q] \<and> (\<forall>g \<in> set q. keytrack g = kt) \<and>
     pn_consecutive cur q"

lemma chain_ok_Cons:
  "chain_ok kt cur n (g # gs) \<longleftrightarrow> fr_frag_num g = n \<and> keytrack g = kt \<and> (has_ccmp_pn g \<longrightarrow> frame_pn g = Some (cur + 1)) \<and>
     chain_ok kt (if has_ccmp_pn g then cur + 1 else cur) (Suc n) gs"
proof -
  have "[n..<n + Suc (length gs)] = n # [Suc n..<Suc n + length gs]" by (simp add: upt_conv_Cons del: upt_Suc)
  then show ?thesis by (auto simp: chain_ok_def simp del: upt_Suc)
qed

definition defrag_outcome :: "nat list \<Rightarrow> rx_frame \<Rightarrow> bytes option \<Rightarrow> defrag_result \<Rightarrow> bool" where
  "defrag_outcome all_q f res r \<longleftrightarrow>
     (case res of
        None \<Rightarrow> r = (None, fr_id f # all_q)
      | Some bs \<Rightarrow> \<exists>f'. r = (Some f', all_q) \<and> rx_ok f' \<and> content f' = bs \<and> same_attr f f')"

lemma defrag_outcome_trans: "same_attr f g \<Longrightarrow> defrag_outcome all_q g res r \<Longrightarrow> defrag_outcome all_q f res r"
  by (auto simp: defrag_outcome_def same_attrD dest: same_attr_trans split: option.splits)

lemma defrag_loop_reject:
  assumes "frag_ok nf"
    and "\<not> (fr_frag_num nf = n \<and> keytrack nf = keytrack pf \<and> (has_ccmp_pn nf \<longrightarrow> frame_pn nf = Some (cur + 1)) \<and>
           length (frag_body nf) \<le> rx_end pf - rx_tail pf)"
  shows "defrag_loop all_q pf cur n (nf # q) = Some (None, fr_id pf # all_q)"
proof -
  let ?nf = "recvframe_pull nf ((fr_hdrlen nf + fr_iv_len nf) mod 256)"
  have nf: "rx_ok ?nf" "content ?nf = frag_body nf"
    using assms(1) by (simp_all add: frag_ok_def frag_body_def recvframe_pull_ok recvframe_pull_content)
  have "fr_len ?nf = length (frag_body nf)" using content_length [OF nf(1)] nf(2) by simp
  with assms(2) frag_pn [OF assms(1)] show ?thesis by (auto simp: Let_def)
qed

lemma defrag_loop_correct:
  assumes "rx_ok pf" "\<forall>g \<in> set q. frag_ok g" "n \<le> 16" "cap = rx_end pf - rx_data pf"
  shows "\<exists>r. defrag_loop all_q pf cur n q = Some r \<and>
     defrag_outcome all_q pf
       (if chain_ok (keytrack pf) cur n q then join cap (content pf) (fr_icv_len pf) q else None) r"
  using assms
proof (induction q arbitrary: pf cur n)
  case Nil
  then show ?case by (simp add: defrag_outcome_def chain_ok_def)
next
  case (Cons nf q)
  have room: "length (frag_body nf) \<le> rx_end pf - rx_tail pf \<longleftrightarrow> \<not> cap < length (content pf) + length (frag_body nf)"
    using Cons.prems(1,4) content_length [OF Cons.prems(1)] by (auto simp: rx_ok_def)
  show ?case
  proof (cases "fr_frag_num nf = n \<and> keytrack nf = keytrack pf \<and> (has_ccmp_pn nf \<longrightarrow> frame_pn nf = Some (cur + 1)) \<and>
           length (frag_body nf) \<le> rx_end pf - rx_tail pf")
    case False
    with defrag_loop_reject [of nf n pf cur all_q q] Cons.prems(2) room show ?thesis
      by (auto simp: defrag_outcome_def chain_ok_Cons simp del: defrag_loop.simps)
  next
    case True
    with Cons.prems obtain pf' where
      eq: "defrag_loop all_q pf cur n (nf # q) =
         defrag_loop all_q pf' (if has_ccmp_pn nf then cur + 1 else cur) ((n + 1) mod 256) q" and
      pf': "rx_ok pf'" "content pf' = cut_tail (fr_icv_len pf) (content pf) @ frag_body nf"
        "fr_icv_len pf' = fr_icv_len nf" and same: "same_attr pf pf'"
      using defrag_loop_step [of pf nf n cur all_q q] by auto
    have n: "n < 16" using True Cons.prems(2) by (auto simp: frag_ok_def)
    let ?c = "if has_ccmp_pn nf then cur + 1 else cur"
    have "chain_ok (keytrack pf) cur n (nf # q) \<longleftrightarrow> chain_ok (keytrack pf') ?c (Suc n) q"
      using True same_attrD(2) [OF same] by (simp add: chain_ok_Cons)
    moreover have "join cap (content pf) (fr_icv_len pf) (nf # q) = join cap (content pf') (fr_icv_len pf') q"
      using True room pf'(2,3) by simp
    moreover have "defrag_loop all_q pf cur n (nf # q) = defrag_loop all_q pf' ?c (Suc n) q"
      using eq n by simp
    moreover have "\<exists>r. defrag_loop all_q pf' ?c (Suc n) q = Some r \<and> defrag_outcome all_q pf'
        (if chain_ok (keytrack pf') ?c (Suc n) q then join cap (content pf') (fr_icv_len pf') q else None) r"
      using pf'(1) same_attrD(3,4) [OF same] Cons.prems(2,4) n by (intro Cons.IH) auto
    ultimately show ?thesis
      by (elim exE conjE) (rule exI, rule conjI, simp only:, simp only: defrag_outcome_trans [OF same])
  qed
qed

lemma defrag_correct:
  assumes "\<forall>g \<in> set (f # q). frag_ok g"
  shows "\<exists>r. recvframe_defrag (f # q) = Some r \<and> defrag_outcome (map fr_id q) f
     (if accepted (f # q) then join (rx_end f - rx_data f) (content f) (fr_icv_len f) q else None) r"
proof -
  define cur where "cur = (if has_ccmp_pn f then the (frame_pn f) else 0)"
  have f: "frag_ok f" "\<forall>g \<in> set q. frag_ok g" using assms by auto
  have pn: "(if has_ccmp_pn f then frame_pn f else Some 0) = Some cur"
    using frag_pn [OF f(1)] by (auto simp: cur_def)
  have acc: "accepted (f # q) \<longleftrightarrow> fr_frag_num f = 0 \<and> chain_ok (keytrack f) cur 1 q"
    using chain_ok_Cons [of "keytrack f" 0 0 f q]
    by (auto simp: accepted_def chain_ok_def cur_def upt_conv_Cons simp del: upt_Suc)
  have "rx_ok f" using f(1) by (simp add: frag_ok_def)
  from defrag_loop_correct [OF this f(2), of 1 _ "map fr_id q" cur]
  obtain r where "defrag_loop (map fr_id q) f cur 1 q = Some r"
      "defrag_outcome (map fr_id q) f
         (if chain_ok (keytrack f) cur 1 q then join (rx_end f - rx_data f) (content f) (fr_icv_len f) q else None) r"
    by auto
  with acc pn show ?thesis
    by (cases "fr_frag_num f = 0") (auto simp: recvframe_defrag_def defrag_outcome_def split: option.splits if_splits)
qed

text \<open>C21. Reassembly: for every queue of fragments, \<open>recvframe_defrag\<close> returns without leaving a buffer. It
  hands on the first frame when the fragment numbers are \<open>0, 1, 2, ...\<close>, all fragments carry the same key
  generation, the packet numbers of protected fragments are consecutive and the bodies fit; the frame
  then holds the first fragment followed by the bodies, each replacing the ICV before it. In every other
  case the whole queue is freed and nothing is handed on; no frame is freed twice or lost.\<close>

theorem recvframe_defrag_correct:
  assumes "\<forall>g \<in> set (f # q). frag_ok g"
  shows "\<exists>r. recvframe_defrag (f # q) = Some r \<and>
     (case (if accepted (f # q) then join (rx_end f - rx_data f) (content f) (fr_icv_len f) q else None) of
        None \<Rightarrow> r = (None, map fr_id (f # q))
      | Some bs \<Rightarrow> \<exists>f'. r = (Some f', map fr_id q) \<and> rx_ok f' \<and> content f' = bs \<and> same_attr f f')"
  using defrag_correct [OF assms] by (simp only: defrag_outcome_def list.map)

definition sample_frag :: "nat \<Rightarrow> bytes \<Rightarrow> rx_frame" where
  "sample_frag n bs = \<lparr>fr_id = n, rx_mem = bs @ replicate 8 0, rx_data = 0, rx_tail = length bs, fr_len = length bs,
     keytrack = 0, fr_hdrlen = 1, fr_iv_len = 0, fr_icv_len = 1, fr_frag_num = n, fr_mfrag = (n = 0),
     fr_encrypt = WEP40, fr_privacy = True, fr_bdecrypted = True, fr_key_index = 0, fr_priority = 0, fr_seq_num = 0, fr_qos = False,
     fr_ra = [2]\<rparr>"

theorem recvframe_defrag_correct_witness:
  "\<exists>f'. recvframe_defrag [sample_frag 0 [1, 2, 9], sample_frag 1 [1, 3, 8]] = Some (Some f', [1]) \<and>
     content f' = [1, 2, 3, 8]"
  using recvframe_defrag_correct [of "sample_frag 0 [1, 2, 9]" "[sample_frag 1 [1, 3, 8]]"]
  by (simp add: sample_frag_def frag_ok_def rx_ok_def rx_end_def has_ccmp_pn_def accepted_def frag_body_def content_def
      drop_head_def cut_tail_def) auto

section \<open>The Michael check\<close>

definition mic_key :: "mic_sec \<Rightarrow> bytes \<Rightarrow> rx_frame \<Rightarrow> bytes" where
  "mic_key s rxkey f = (if IS_MCAST (fr_ra f) then grprxmickey s ! fr_key_index f else rxkey)"

text \<open>The state after the check: a failure is reported unless the hardware did not decrypt the frame or
  a group key was just replaced.\<close>

definition mic_after :: "u32 \<Rightarrow> u32 \<Rightarrow> nat \<Rightarrow> bool \<Rightarrow> mic_sec \<Rightarrow> rx_frame \<Rightarrow> mic_sec" where
  "mic_after hz now cur_key good s f =
     (if good then (if IS_MCAST (fr_ra f) then s\<lparr>bcheck_grpkey := True\<rparr> else s)
      else if fr_bdecrypted f \<and> (IS_MCAST (fr_ra f) \<longrightarrow> fr_key_index f = cur_key)
        then rtw_handle_tkip_mic_err hz now s (IS_MCAST (fr_ra f)) else s)"

lemma mic_header_app:
  assumes "mic_header_len hdr \<le> length hdr"
  shows "mic_header_len (hdr @ r) = mic_header_len hdr" "tkip_mic_header (hdr @ r) pri = tkip_mic_header hdr pri"
proof -
  have h: "22 \<le> length hdr" "bit (hdr ! 1) 0 \<and> bit (hdr ! 1) 1 \<Longrightarrow> 30 \<le> length hdr"
    using assms by (simp_all add: mic_header_len_def split: if_splits)
  from h(1) show "mic_header_len (hdr @ r) = mic_header_len hdr" by (simp add: mic_header_len_def nth_append)
  from h show "tkip_mic_header (hdr @ r) pri = tkip_mic_header hdr pri"
    by (auto simp: tkip_mic_header_def nth_append Let_def simp del: One_nat_def)
qed

lemma chkmic_layout:
  assumes "rx_ok f" "content f = hdr @ iv @ data @ mic @ icv" "fr_encrypt f = TKIP"
    and "length hdr = fr_hdrlen f" "length iv = fr_iv_len f" "length mic = 8" "length icv = fr_icv_len f"
    and "mic_header_len hdr \<le> length hdr"
    and "8 \<le> length (mic_key s rxkey f)"
    and "IS_MCAST (fr_ra f) \<longrightarrow> grp_installed s \<and> fr_key_index f < length (grprxmickey s)"
  shows "\<exists>good. good = (mic = michael_ref (key_word (mic_key s rxkey f) 0) (key_word (mic_key s rxkey f) 4)
            (tkip_mic_header hdr (fr_priority f) @ data)) \<and>
     recvframe_chkmic hz now (Some rxkey) cur_key s f =
       Some (good, mic_after hz now cur_key good s f, recvframe_pull_tail f 8)"
proof -
  let ?m = "drop (rx_data f) (rx_mem f)" and ?key = "mic_key s rxkey f"
  obtain post where m: "?m = hdr @ iv @ data @ mic @ icv @ post"
    using assms(2) append_take_drop_id [of "fr_len f" ?m] unfolding content_def by (metis append.assoc)
  have len: "fr_len f = length hdr + length iv + length data + 8 + length icv"
    using content_length [OF assms(1)] assms(2,6) by simp
  have n: "usub32 (fr_len f) (fr_hdrlen f + fr_iv_len f + fr_icv_len f + 8) = length data"
    using len assms(4,5,7) by (simp add: usub32_def)
  have body: "drop (rx_data f + fr_hdrlen f + fr_iv_len f) (rx_mem f) = data @ mic @ icv @ post"
    using arg_cong [OF m, of "drop (fr_hdrlen f + fr_iv_len f)"] assms(4,5) by (simp add: add.commute add.left_commute)
  have "rtw_seccalctkipmic ?key ?m (data @ mic @ icv @ post) (length data) (fr_priority f) =
      Some (michael_ref (key_word ?key 0) (key_word ?key 4)
        (tkip_mic_header ?m (fr_priority f) @ take (length data) (data @ mic @ icv @ post)))"
    unfolding m using assms(8,9) mic_header_app(1) [OF assms(8)] by (intro seccalctkipmic_ref) auto
  then have mic: "rtw_seccalctkipmic ?key ?m (data @ mic @ icv @ post) (length data) (fr_priority f) =
      Some (michael_ref (key_word ?key 0) (key_word ?key 4) (tkip_mic_header hdr (fr_priority f) @ data))"
    using m mic_header_app(2) [OF assms(8)] by simp
  have "rx_data f + fr_hdrlen f + fr_iv_len f + length data + 8 \<le> length (rx_mem f)"
    using assms(1,4,5) len by (auto simp: rx_ok_def rx_end_def)
  moreover have "drop (rx_data f + fr_hdrlen f + fr_iv_len f + length data) (rx_mem f) = mic @ icv @ post"
    using arg_cong [OF body, of "drop (length data)"] by (simp add: add.commute add.left_commute)
  ultimately have rdmic: "rd_n (rx_mem f) (rx_data f + fr_hdrlen f + fr_iv_len f + length data) 8 = Some mic"
    using assms(6) by (simp add: rd_n_def)
  have "\<not> fr_len f \<le> fr_hdrlen f" "\<not> length data > rx_tail f - rx_data f" "\<not> length data > rx_end f - rx_data f"
    using assms(1,4) len by (auto simp: rx_ok_def)
  then show ?thesis
    using assms(3,10) n mic rdmic body
    by (auto simp: recvframe_chkmic_def Let_def mic_key_def mic_after_def)
qed

text \<open>The Michael check: a TKIP frame of header, IV, data, MIC and ICV passes \<open>recvframe_chkmic\<close> exactly
  when the MIC is Michael of its addresses, priority and data under the pairwise or the group key. The MIC
  is cut off; a failure is reported to the countermeasures unless the frame was not decrypted or a group
  key was just replaced, and a good group frame marks the group key as checked.\<close>

theorem recvframe_chkmic_correct:
  assumes "rx_ok f" and "content f = hdr @ iv @ data @ mic @ icv" and "fr_encrypt f = TKIP"
    and "length hdr = fr_hdrlen f" and "length iv = fr_iv_len f" and "length mic = 8" and "length icv = fr_icv_len f"
    and "mic_header_len hdr \<le> length hdr"
    and "8 \<le> length (mic_key s rxkey f)"
    and "IS_MCAST (fr_ra f) \<longrightarrow> grp_installed s \<and> fr_key_index f < length (grprxmickey s)"
  shows "\<exists>good. good = (mic = michael_ref (key_word (mic_key s rxkey f) 0) (key_word (mic_key s rxkey f) 4)
            (tkip_mic_header hdr (fr_priority f) @ data)) \<and>
     recvframe_chkmic hz now (Some rxkey) cur_key s f =
       Some (good, mic_after hz now cur_key good s f, recvframe_pull_tail f 8)"
  using assms by (rule chkmic_layout)

definition sample_tkip :: rx_frame where
  "sample_tkip = (sample_frag 0 (replicate 48 0))
     \<lparr>fr_hdrlen := 24, fr_iv_len := 8, fr_icv_len := 4, fr_encrypt := TKIP\<rparr>"

definition sample_sec :: mic_sec where
  "sample_sec = \<lparr>grprxmickey = [], grp_installed = False, bcheck_grpkey = False, last_mic_err_time = 0,
     btkip_countermeasure = False, btkip_countermeasure_time = 0, mic_events = []\<rparr>"

theorem recvframe_chkmic_correct_witness:
  "\<exists>good. recvframe_chkmic 100 7 (Some (replicate 8 0)) 0 sample_sec sample_tkip =
     Some (good, mic_after 100 7 0 good sample_sec sample_tkip, recvframe_pull_tail sample_tkip 8)"
  using recvframe_chkmic_correct [of sample_tkip "replicate 24 0" "replicate 8 0" "replicate 4 0" "replicate 8 0"
      "replicate 4 0" sample_sec "replicate 8 0" 100 7 0]
  by (auto simp: sample_tkip_def sample_frag_def rx_ok_def rx_end_def content_def mic_header_len_def mic_key_def
      IS_MCAST_def simp flip: replicate_add)

section \<open>Dispatch\<close>

text \<open>What the check needs to stay in bounds.\<close>

definition mic_ready :: "mic_sec \<Rightarrow> rx_frame \<Rightarrow> bool" where
  "mic_ready s f \<longleftrightarrow> (\<forall>k \<in> set (grprxmickey s). 8 \<le> length k) \<and> fr_key_index f < length (grprxmickey s) \<and>
     rx_data f + 30 \<le> rx_end f \<and> fr_hdrlen f < 256 \<and> fr_iv_len f < 256 \<and> fr_icv_len f < 256"

lemma mic_header_len_le: "30 \<le> n \<Longrightarrow> mic_header_len h \<le> n"
  by (simp add: mic_header_len_def)

lemma chkmic_total:
  assumes "rx_ok f" "mic_ready s f" "\<forall>k. sta = Some k \<longrightarrow> 8 \<le> length k"
  shows "case recvframe_chkmic hz now sta cur_key s f of None \<Rightarrow> False
     | Some (ok, s', f') \<Rightarrow> fr_id f' = fr_id f \<and> rx_ok f' \<and> grprxmickey s' = grprxmickey s"
proof (cases "fr_encrypt f = TKIP")
  case True
  have pull: "fr_id (recvframe_pull_tail f 8) = fr_id f" "rx_ok (recvframe_pull_tail f 8)"
    using recvframe_pull_tail_ok [OF assms(1)] by (simp_all add: recvframe_pull_tail_def)
  show ?thesis
  proof (cases sta)
    case None
    with True pull show ?thesis by (auto simp: recvframe_chkmic_def)
  next
    case (Some k)
    let ?n = "usub32 (fr_len f) (fr_hdrlen f + fr_iv_len f + fr_icv_len f + 8)"
    let ?p = "rx_data f + fr_hdrlen f + fr_iv_len f"
    let ?key = "if IS_MCAST (fr_ra f) then grprxmickey s ! fr_key_index f else k"
    have key: "8 \<le> length ?key" using assms(2,3) Some by (simp add: mic_ready_def)
    have p: "?p + ?n + 8 \<le> length (rx_mem f)" if "?n \<le> rx_tail f - rx_data f"
      using assms(1,2) that by (auto simp: rx_ok_def rx_end_def usub32_def mic_ready_def split: if_splits)
    have h: "mic_header_len (drop (rx_data f) (rx_mem f)) \<le> length (drop (rx_data f) (rx_mem f))"
      using assms(2) by (intro mic_header_len_le) (auto simp: mic_ready_def rx_end_def)
    have "\<exists>mic. rtw_seccalctkipmic ?key (drop (rx_data f) (rx_mem f)) (drop ?p (rx_mem f)) ?n (fr_priority f) = Some mic"
      if "?n \<le> rx_tail f - rx_data f"
      by (rule exI, rule seccalctkipmic_ref [OF key h]) (use p [OF that] in simp)
    moreover have "\<exists>bs. rd_n (rx_mem f) (?p + ?n) 8 = Some bs" if "?n \<le> rx_tail f - rx_data f"
      using p [OF that] by (simp add: rd_n_def)
    ultimately show ?thesis
      using Some True pull assms(1,2)
      by (auto simp: recvframe_chkmic_def Let_def mic_ready_def rtw_handle_tkip_mic_err_def)
  qed
qed (use assms(1) in \<open>auto simp: recvframe_chkmic_def\<close>)

definition held :: "rx_sta option \<Rightarrow> nat list" where
  "held sta = (case sta of None \<Rightarrow> [] | Some st \<Rightarrow> map fr_id (defrag_q st))"

text \<open>The invariant of a station: every queued fragment can be reassembled and checked.\<close>

definition rx_sta_ok :: "mic_sec \<Rightarrow> rx_sta option \<Rightarrow> bool" where
  "rx_sta_ok s sta \<longleftrightarrow> (case sta of None \<Rightarrow> True
     | Some st \<Rightarrow> \<forall>g \<in> set (defrag_q st). frag_ok g \<and> mic_ready s g)"

lemma frag_ok_keytrack: "frag_ok (f\<lparr>keytrack := k\<rparr>) \<longleftrightarrow> frag_ok f"
  by (simp add: frag_ok_def rx_ok_def rx_end_def has_ccmp_pn_def)

lemma mic_ready_keytrack: "mic_ready s (f\<lparr>keytrack := k\<rparr>) \<longleftrightarrow> mic_ready s f"
  by (simp add: mic_ready_def rx_end_def)

lemma mic_ready_same: "same_attr f f' \<Longrightarrow> mic_ready s f \<Longrightarrow> fr_icv_len f' < 256 \<Longrightarrow> mic_ready s f'"
  by (cases f; cases f') (simp add: same_attr_def mic_ready_def rx_end_def)

text \<open>The reassembled frame is as ready for the check as its fragments.\<close>

lemma defrag_loop_icv:
  "defrag_loop all_q pf cur n q = Some (Some pf', fr) \<Longrightarrow> fr_icv_len pf < b \<Longrightarrow> \<forall>g \<in> set q. fr_icv_len g < b \<Longrightarrow>
     fr_icv_len pf' < b"
proof (induction all_q pf cur n q rule: defrag_loop.induct)
  case (2 all_q pf cur n nf q)
  have "fr_icv_len (recvframe_pull nf k) = fr_icv_len nf" for k by (simp add: recvframe_pull_def)
  with 2 show ?case
    by (auto simp: Let_def Option.bind_eq_Some_conv split: if_splits)
qed simp

definition opt_id :: "rx_frame option \<Rightarrow> nat list" where
  "opt_id f = (case f of None \<Rightarrow> [] | Some f \<Rightarrow> [fr_id f])"

text \<open>What a reassembly leaves: the frames of the queue are freed or handed on, each once.\<close>

lemma defrag_conserves:
  assumes "q \<noteq> []" "\<forall>g \<in> set q. frag_ok g \<and> mic_ready s g"
  shows "\<exists>rtn freed. recvframe_defrag q = Some (rtn, freed) \<and> opt_id rtn @ freed = map fr_id q \<and>
     (\<forall>g. rtn = Some g \<longrightarrow> rx_ok g \<and> mic_ready s g)"
proof (cases q)
  case (Cons f gs)
  then obtain r where r: "recvframe_defrag q = Some r" "defrag_outcome (map fr_id gs) f
      (if accepted q then join (rx_end f - rx_data f) (content f) (fr_icv_len f) gs else None) r"
    using defrag_correct [of f gs] assms(2) by auto
  have ready: "mic_ready s f'" if "r = (Some f', map fr_id gs)" "same_attr f f'" for f'
  proof (rule mic_ready_same [OF that(2)])
    show "mic_ready s f" using assms(2) Cons by simp
    have "fr_icv_len f < 256" "\<forall>g \<in> set gs. fr_icv_len g < 256" using assms(2) Cons by (auto simp: mic_ready_def)
    with r(1) that(1) Cons show "fr_icv_len f' < 256"
      by (auto simp: recvframe_defrag_def Option.bind_eq_Some_conv split: if_splits dest: defrag_loop_icv)
  qed
  from r ready Cons show ?thesis
    by (auto simp: defrag_outcome_def same_attrD opt_id_def split: option.splits if_splits)
qed (simp add: assms)

lemma chk_defrag_mic_conserves:
  assumes "\<forall>g. rtn = Some g \<longrightarrow> rx_ok g \<and> mic_ready s g" "\<forall>st. psta = Some st \<longrightarrow> 8 \<le> length (sta_rxmickey st)"
  shows "\<exists>r. chk_defrag_mic hz now cur_key psta s rtn freed dsta = Some r \<and>
     mset (opt_id (out_frame r) @ out_freed r) = mset (opt_id rtn @ freed) \<and> out_sta r = dsta \<and>
     grprxmickey (out_sec r) = grprxmickey s"
proof (cases rtn)
  case (Some g)
  with assms chkmic_total [of g s "map_option sta_rxmickey psta" hz now cur_key]
  have "case recvframe_chkmic hz now (map_option sta_rxmickey psta) cur_key s g of None \<Rightarrow> False
     | Some (ok, s', g') \<Rightarrow> fr_id g' = fr_id g \<and> rx_ok g' \<and> grprxmickey s' = grprxmickey s" by auto
  with Some show ?thesis by (auto simp: chk_defrag_mic_def opt_id_def split: option.splits if_splits)
qed (simp add: chk_defrag_mic_def)

lemma rx_sta_ok_keys: "grprxmickey s' = grprxmickey s \<Longrightarrow> rx_sta_ok s' d = rx_sta_ok s d"
  by (auto simp: rx_sta_ok_def mic_ready_def split: option.splits)

text \<open>The part before the check.\<close>

lemma chk_defrag_split:
  assumes "defrag_sta psta bcmc f = Some dsta" "rx_sta_ok s dsta" "frag_ok f" "mic_ready s f"
  shows "\<exists>rtn freed dsta'. recvframe_chk_defrag hz now cur_key psta bcmc s f =
       chk_defrag_mic hz now cur_key psta s rtn freed dsta' \<and>
     mset (opt_id rtn @ freed @ held dsta') = mset (fr_id f # held dsta) \<and> rx_sta_ok s dsta' \<and>
     (\<forall>g. rtn = Some g \<longrightarrow> rx_ok g \<and> mic_ready s g)"
proof -
  let ?single = "\<not> fr_mfrag f \<and> fr_frag_num f = 0"
  note defs = recvframe_chk_defrag_def Let_def held_def opt_id_def
  consider (single) ?single | (mcast) "\<not> ?single" "IS_MCAST (fr_ra f)"
    | (nosta) "\<not> ?single" "\<not> IS_MCAST (fr_ra f)" "dsta = None"
    | (more) st where "\<not> IS_MCAST (fr_ra f)" "dsta = Some st" "fr_mfrag f"
    | (last) st where "\<not> IS_MCAST (fr_ra f)" "dsta = Some st" "\<not> fr_mfrag f" "fr_frag_num f \<noteq> 0"
    by (cases dsta) auto
  then show ?thesis
  proof cases
    case single
    with assms show ?thesis by (intro exI [of _ "Some f"] exI [of _ "[]"] exI [of _ dsta]) (simp add: defs frag_ok_def)
  next
    case mcast
    with assms show ?thesis
      by (intro exI [of _ None] exI [of _ "[fr_id f]"] exI [of _ dsta]) (auto simp: defs chk_defrag_mic_def)
  next
    case nosta
    with assms show ?thesis
      by (intro exI [of _ None] exI [of _ "[fr_id f]"] exI [of _ dsta]) (auto simp: defs)
  next
    case more
    let ?q = "if fr_frag_num f = 0 then [] else defrag_q st"
    from more assms show ?thesis
      by (intro exI [of _ None] exI [of _ "map fr_id (if fr_frag_num f = 0 then defrag_q st else [])"]
          exI [of _ "Some (st\<lparr>defrag_q := ?q @ [f\<lparr>keytrack := sta_keytrack st\<rparr>]\<rparr>)"])
        (auto simp: defs rx_sta_ok_def frag_ok_keytrack mic_ready_keytrack)
  next
    case last
    let ?f = "f\<lparr>keytrack := sta_keytrack st\<rparr>"
    have "\<forall>g \<in> set (defrag_q st @ [?f]). frag_ok g \<and> mic_ready s g"
      using assms(2-4) last by (auto simp: rx_sta_ok_def frag_ok_keytrack mic_ready_keytrack)
    from defrag_conserves [OF _ this] obtain rtn freed where
      r: "recvframe_defrag (defrag_q st @ [?f]) = Some (rtn, freed)"
        "opt_id rtn @ freed = map fr_id (defrag_q st @ [?f])" "\<forall>g. rtn = Some g \<longrightarrow> rx_ok g \<and> mic_ready s g"
      by auto
    from r(2) have "mset (opt_id rtn @ freed) = mset (map fr_id (defrag_q st @ [?f]))" by (simp only:)
    with r(1,3) last assms(1) show ?thesis
      by (intro exI [of _ rtn] exI [of _ freed] exI [of _ "Some (st\<lparr>defrag_q := []\<rparr>)"])
        (auto simp: recvframe_chk_defrag_def Let_def held_def rx_sta_ok_def)
  qed
qed

text \<open>C22. No frame is lost or freed twice: when the stations' queues hold fragments in order, every call of
  \<open>recvframe_chk_defrag\<close> returns, the new frame together with the queue of its station is afterwards split
  into the frame handed on, the frames freed and the frames queued, and the queue keeps its invariant.\<close>

theorem recvframe_chk_defrag_conserves:
  assumes "defrag_sta psta bcmc f = Some dsta" and "rx_sta_ok s dsta" and "frag_ok f" and "mic_ready s f"
    and "\<forall>st. psta = Some st \<longrightarrow> 8 \<le> length (sta_rxmickey st)"
  shows "\<exists>r. recvframe_chk_defrag hz now cur_key psta bcmc s f = Some r \<and>
     mset (opt_id (out_frame r) @ out_freed r @ held (out_sta r)) = mset (fr_id f # held dsta) \<and> rx_sta_ok (out_sec r) (out_sta r)"
proof -
  from chk_defrag_split [OF assms(1-4)] obtain rtn freed dsta' where
    eq: "recvframe_chk_defrag hz now cur_key psta bcmc s f = chk_defrag_mic hz now cur_key psta s rtn freed dsta'" and
    split: "mset (opt_id rtn @ freed @ held dsta') = mset (fr_id f # held dsta)" "rx_sta_ok s dsta'"
      "\<forall>g. rtn = Some g \<longrightarrow> rx_ok g \<and> mic_ready s g" by blast
  from chk_defrag_mic_conserves [OF split(3) assms(5)] obtain r where
    r: "chk_defrag_mic hz now cur_key psta s rtn freed dsta' = Some r"
      "mset (opt_id (out_frame r) @ out_freed r) = mset (opt_id rtn @ freed)" "out_sta r = dsta'"
      "grprxmickey (out_sec r) = grprxmickey s" by blast
  have "mset (opt_id (out_frame r) @ out_freed r @ held (out_sta r)) = mset (opt_id rtn @ freed) + mset (held dsta')"
    using r(2,3) by (simp flip: append_assoc)
  also have "\<dots> = mset (fr_id f # held dsta)" using split(1) by (simp add: add.assoc)
  finally have "mset (opt_id (out_frame r) @ out_freed r @ held (out_sta r)) = mset (fr_id f # held dsta)" .
  moreover have "rx_sta_ok (out_sec r) (out_sta r)" using split(2) r(3) rx_sta_ok_keys [OF r(4)] by simp
  ultimately show ?thesis using eq r(1) by (intro exI [of _ r]) (simp only: simp_thms)
qed

theorem recvframe_chk_defrag_conserves_witness:
  "\<exists>r. recvframe_chk_defrag 100 7 0 (Some \<lparr>defrag_q = [], sta_keytrack = 3, sta_rxmickey = replicate 8 0\<rparr>) None
       (sample_sec\<lparr>grprxmickey := [replicate 8 0]\<rparr>) (sample_frag 0 (replicate 40 0)) = Some r \<and>
     mset (opt_id (out_frame r) @ out_freed r @ held (out_sta r)) = {#0#}"
  using recvframe_chk_defrag_conserves [of "Some \<lparr>defrag_q = [], sta_keytrack = 3, sta_rxmickey = replicate 8 0\<rparr>" None
      "sample_frag 0 (replicate 40 0)" _ "sample_sec\<lparr>grprxmickey := [replicate 8 0]\<rparr>" 100 7 0]
  by (auto simp: defrag_sta_def rx_sta_ok_def held_def frag_ok_def rx_ok_def rx_end_def has_ccmp_pn_def mic_ready_def
      sample_frag_def)

end
