(* ===== verification/Rx_Replay.thy ===== *)
theory Rx_Replay
  imports Rx_Defrag
begin

text \<open>
  Duplicate and replay detection of \<open>core/rtw_recv.c\<close> with the packet number conversions of
  \<open>core/rtw_security.c\<close>, and the port control that holds back data of an unauthenticated station.
\<close>

section \<open>Packet numbers in protection headers\<close>

text \<open>\<open>rtw_iv_to_pn\<close> writes six bytes of the packet number and reads the key identifier. The outer
  \<open>None\<close> is an access outside the buffer, the inner one the result \<open>_FAIL\<close>.\<close>

definition rtw_iv_to_pn :: "bytes \<Rightarrow> nat \<Rightarrow> security_type \<Rightarrow> (bytes \<times> u8) option option" where
  "rtw_iv_to_pn m iv enc_algo =
     (let low = (if enc_algo = TKIP then Some (2, 0)
                 else if enc_algo \<in> {AES, GCMP, CCMP_256, GCMP_256} then Some (0, 1) else None) in
      case low of
        None \<Rightarrow> Some None
      | Some (i0, i1) \<Rightarrow> do {
          p0 \<leftarrow> rd m (iv + i0); p1 \<leftarrow> rd m (iv + i1);
          p2 \<leftarrow> rd m (iv + 4); p3 \<leftarrow> rd m (iv + 5); p4 \<leftarrow> rd m (iv + 6); p5 \<leftarrow> rd m (iv + 7);
          k \<leftarrow> rd m (iv + 3);
          Some (Some ([p0, p1, p2, p3, p4, p5], drop_bit 6 k)) })"

definition rtw_pn_to_iv :: "bytes \<Rightarrow> u8 \<Rightarrow> security_type \<Rightarrow> bytes option option" where
  "rtw_pn_to_iv pn key_id enc_algo =
     (if enc_algo \<notin> {TKIP, AES, GCMP, CCMP_256, GCMP_256} then Some None
      else do {
        p0 \<leftarrow> rd pn 0; p1 \<leftarrow> rd pn 1; p2 \<leftarrow> rd pn 2; p3 \<leftarrow> rd pn 3; p4 \<leftarrow> rd pn 4; p5 \<leftarrow> rd pn 5;
        let low = (if enc_algo = TKIP then [p1, (p1 OR 0x20) AND 0x7F, p0] else [p0, p1, 0]);
        Some (Some (low @ [bit_mask 5 OR push_bit 6 (key_id AND 0x3), p2, p3, p4, p5])) })"

text \<open>\<open>RTW_GET_LE64\<close> on the eight byte buffer, whose last two bytes are zero.\<close>

definition pn_value :: "bytes \<Rightarrow> u64" where "pn_value pn = le64 (pn @ [0, 0])"

definition PN_LESS_CHK :: "u64 \<Rightarrow> u64 \<Rightarrow> bool" where
  "PN_LESS_CHK a b \<longleftrightarrow> (a - b) AND 0x800000000000 \<noteq> 0"

definition VALID_PN_CHK :: "u64 \<Rightarrow> u64 \<Rightarrow> bool" where
  "VALID_PN_CHK new old \<longleftrightarrow> old = 0 \<or> PN_LESS_CHK old new"

section \<open>Receive caches\<close>

text \<open>\<open>struct stainfo_rxcache\<close> and the sequence caches of \<open>struct sta_recv_priv\<close>.\<close>

record rx_cache =
  tid_rxseq :: "u16 list"
  bmc_tid_rxseq :: "u16 list"
  nonqos_rxseq :: u16
  nonqos_bmc_rxseq :: u16
  cache_iv :: "bytes list"
  last_tid :: nat
  duplicate_cnt :: nat

definition tracks_pn :: "security_type \<Rightarrow> bool" where
  "tracks_pn enc \<longleftrightarrow> enc \<in> {TKIP, AES, GCMP, CCMP_256, GCMP_256}"

text \<open>A unicast frame with an old packet number is not rejected; only the cache stays as it is.\<close>

definition recv_ucast_pn_decache :: "rx_cache \<Rightarrow> rx_frame \<Rightarrow> (bool \<times> rx_cache) option" where
  "recv_ucast_pn_decache c f =
     (let tid = unat (fr_priority f) in
      if tid > 15 then Some (False, c)
      else if tracks_pn (fr_encrypt f) then do {
        if tid < length (cache_iv c) then do {
          new \<leftarrow> rtw_iv_to_pn (rx_mem f) (rx_data f + fr_hdrlen f) (fr_encrypt f);
          old \<leftarrow> rtw_iv_to_pn (cache_iv c ! tid) 0 (fr_encrypt f);
          let pkt_pn = pn_value (fst (the new));
          let curr_pn = pn_value (fst (the old));
          if \<not> VALID_PN_CHK pkt_pn curr_pn then Some (True, c)
          else do {
            iv \<leftarrow> rd_n (rx_mem f) (rx_data f + fr_hdrlen f) 8;
            Some (True, c\<lparr>last_tid := tid, cache_iv := (cache_iv c)[tid := iv]\<rparr>) } }
        else None }
      else Some (True, c))"

text \<open>\<open>iv_seq\<close> holds a packet number per key identifier, as the number that its eight bytes encode.\<close>

definition recv_bcast_pn_decache :: "bool \<Rightarrow> u64 list \<Rightarrow> rx_frame \<Rightarrow> (bool \<times> u64 list) option" where
  "recv_bcast_pn_decache is_sta iv_seq f =
     (if tracks_pn (fr_encrypt f) \<and> is_sta then do {
        new \<leftarrow> rtw_iv_to_pn (rx_mem f) (rx_data f + fr_hdrlen f) (fr_encrypt f);
        let pkt_pn = pn_value (fst (the new));
        let key_id = unat (snd (the new));
        if key_id < length iv_seq then
          (if \<not> VALID_PN_CHK pkt_pn (iv_seq ! key_id) then Some (False, iv_seq)
           else Some (True, iv_seq[key_id := pkt_pn]))
        else None }
      else Some (True, iv_seq))"

definition recv_decache :: "rx_cache \<Rightarrow> rx_frame \<Rightarrow> bool \<times> rx_cache" where
  "recv_decache c f =
     (let tid = unat (fr_priority f);
          seq_ctrl = push_bit 4 (fr_seq_num f) OR (of_nat (fr_frag_num f) AND 0xf);
          mcast = IS_MCAST (fr_ra f) in
      if tid > 15 then (False, c)
      else
        (let rxseq = (if fr_qos f then (if mcast then bmc_tid_rxseq c ! tid else tid_rxseq c ! tid)
                      else (if mcast then nonqos_bmc_rxseq c else nonqos_rxseq c)) in
         if seq_ctrl = rxseq then (False, c\<lparr>duplicate_cnt := duplicate_cnt c + 1\<rparr>)
         else (True,
           if fr_qos f then
             (if mcast then c\<lparr>bmc_tid_rxseq := (bmc_tid_rxseq c)[tid := seq_ctrl]\<rparr>
              else c\<lparr>tid_rxseq := (tid_rxseq c)[tid := seq_ctrl]\<rparr>)
           else (if mcast then c\<lparr>nonqos_bmc_rxseq := seq_ctrl\<rparr> else c\<lparr>nonqos_rxseq := seq_ctrl\<rparr>))))"

section \<open>Port control\<close>

definition LLC_HEADER_SIZE :: nat where "LLC_HEADER_SIZE = 6"

text \<open>\<open>blocked\<close> is \<open>ieee8021x_blocked\<close> of the station with the transmitter's address, if there is one; the
  result is whether the frame is handed on.\<close>

definition portctrl :: "bool \<Rightarrow> bool option \<Rightarrow> rx_frame \<Rightarrow> bool option" where
  "portctrl auth_8021X blocked f =
     (if auth_8021X then
        (if blocked = Some True then do {
           ether_type \<leftarrow> RTW_GET_BE16 (rx_mem f) (rx_data f + fr_hdrlen f + fr_iv_len f + LLC_HEADER_SIZE);
           Some (ether_type = 0x888e) }
         else Some True)
      else Some True)"

section \<open>Packet numbers\<close>

lemma key_id_in_iv: "drop_bit 6 (bit_mask 5 OR push_bit 6 (k AND 0x3)) = (k :: u8) AND 3"
proof (rule bit_word_eqI)
  fix n assume "n < LENGTH(8)"
  have three: "(3 :: u8) = mask 2" by (simp add: mask_eq_exp_minus_1)
  show "bit (drop_bit 6 (bit_mask 5 OR push_bit 6 (k AND 0x3))) n = bit (k AND 3) n"
    unfolding three by (auto simp: bit_simps)
qed

lemma small_key_id: "unat (k :: u8) < 4 \<Longrightarrow> k AND 3 = k"
proof -
  assume "unat k < 4"
  have "k AND 3 = take_bit 2 k" by (simp add: take_bit_eq_mask mask_eq_exp_minus_1)
  moreover have "take_bit 2 k = k"
    using \<open>unat k < 4\<close> by (simp only: word_unat_eq_iff unsigned_take_bit_eq) (simp add: take_bit_eq_mod)
  ultimately show ?thesis by simp
qed

lemma length6: "length xs = 6 \<Longrightarrow> \<exists>a b c d e f. xs = [a, b, c, d, e, f]"
  by (auto simp: numeral_eq_Suc length_Suc_conv)

text \<open>Packet numbers survive the protection header: for every cipher that has one, \<open>rtw_iv_to_pn\<close>
  reads back from the header that \<open>rtw_pn_to_iv\<close> builds the packet number and the key identifier,
  wherever the header lies in a frame.\<close>

theorem pn_iv_roundtrip:
  assumes "tracks_pn enc" and "length pn = 6" and "unat key_id < 4"
  shows "\<exists>iv. rtw_pn_to_iv pn key_id enc = Some (Some iv) \<and> length iv = 8 \<and>
     rtw_iv_to_pn (pre @ iv @ post) (length pre) enc = Some (Some (pn, key_id))"
proof -
  obtain a b c d e f where pn: "pn = [a, b, c, d, e, f]" using length6 [OF assms(2)] by blast
  have rd: "rd (pre @ iv @ post) (length pre + k) = Some (iv ! k)" if "k < length iv" for iv k
    using that by (simp add: rd_def nth_append)
  have k: "drop_bit 6 (bit_mask 5 OR push_bit 6 (key_id AND 0x3)) = key_id"
    using key_id_in_iv [of key_id] small_key_id [OF assms(3)] by simp
  from assms(1) show ?thesis
    using k rd [of 0] by (auto simp: rtw_pn_to_iv_def rtw_iv_to_pn_def tracks_pn_def pn rd rd_in Let_def nth_append
        simp del: drop_bit_push_bit)
qed

theorem pn_iv_roundtrip_witness:
  "\<exists>iv. rtw_pn_to_iv [1, 2, 3, 4, 5, 6] 2 AES = Some (Some iv) \<and>
     rtw_iv_to_pn ([9] @ iv @ [8]) (length [9 :: u8]) AES = Some (Some ([1, 2, 3, 4, 5, 6], 2))"
  using pn_iv_roundtrip [of AES "[1, 2, 3, 4, 5, 6]" 2 "[9]" "[8]"] by (auto simp: tracks_pn_def)

lemma bit47: "(w :: u64) AND 0x800000000000 \<noteq> 0 \<longleftrightarrow> bit w 47"
  using and_exp_eq_0_iff_not_bit [of w 47] by simp

lemma odd_div_iff: "odd (n div 2 ^ k) \<longleftrightarrow> 2 ^ k \<le> n mod (2 ^ Suc k :: nat)"
proof -
  have "n mod 2 ^ Suc k = n mod 2 ^ k + 2 ^ k * (n div 2 ^ k mod 2)"
    using mod_mult2_eq [of n "2 ^ k" 2] by (simp add: mult.commute)
  then show ?thesis by (cases "even (n div 2 ^ k)") (simp_all add: odd_iff_mod_2_eq_one linorder_not_le)
qed
lemma bit47_mod: "bit (w :: u64) 47 \<longleftrightarrow> 2 ^ 47 \<le> unat w mod 2 ^ 48"
proof -
  have "bit w 47 \<longleftrightarrow> bit (unat w) 47" by (simp add: bit_unsigned_iff)
  also have "\<dots> \<longleftrightarrow> 2 ^ 47 \<le> unat w mod 2 ^ 48" using odd_div_iff [of "unat w" 47] by (simp add: bit_iff_odd)
  finally show ?thesis .
qed

lemma valid_pn_iff:
  assumes "unat new < 2 ^ 48" "unat old < 2 ^ 48"
  shows "VALID_PN_CHK new old \<longleftrightarrow> old = 0 \<or> (unat old < unat new \<and> unat new - unat old \<le> 2 ^ 47) \<or>
     unat new + 2 ^ 47 \<le> unat old"
proof -
  have "2 ^ 47 \<le> unat (old - new) mod 2 ^ 48 \<longleftrightarrow>
      (unat old < unat new \<and> unat new - unat old \<le> 2 ^ 47) \<or> unat new + 2 ^ 47 \<le> unat old"
  proof (cases "unat new \<le> unat old")
    case True
    then have "unat (old - new) mod 2 ^ 48 = unat old - unat new" using assms by (simp add: unat_sub_if')
    with True show ?thesis by auto
  next
    case False
    let ?d = "unat new - unat old"
    have "unat (old - new) = 2 ^ 48 * (2 ^ 16 - 1) + (2 ^ 48 - ?d)"
      using False assms by (simp add: unat_sub_if')
    then have "unat (old - new) mod 2 ^ 48 = (2 ^ 48 - ?d) mod 2 ^ 48" by (simp only: mod_mult_self4)
    also have "\<dots> = 2 ^ 48 - ?d" using False by (intro mod_less) simp
    finally have "unat (old - new) mod 2 ^ 48 = 2 ^ 48 - ?d" .
    with False assms show ?thesis by auto
  qed
  then show ?thesis by (simp add: VALID_PN_CHK_def PN_LESS_CHK_def bit47 bit47_mod)
qed

text \<open>The replay test on 48 bit packet numbers is a comparison in a window: a number passes when no
  number was stored, when it is ahead of the stored one by at most \<open>2^47\<close>, or when it lies at least \<open>2^47\<close>
  behind it. It is therefore not the test for a greater number that the comment on it states.\<close>

theorem VALID_PN_CHK_window:
  assumes "unat new < 2 ^ 48" and "unat old < 2 ^ 48"
  shows "VALID_PN_CHK new old \<longleftrightarrow> old = 0 \<or> (unat old < unat new \<and> unat new - unat old \<le> 2 ^ 47) \<or>
     unat new + 2 ^ 47 \<le> unat old"
  using assms by (rule valid_pn_iff)

theorem VALID_PN_CHK_window_witness:
  "VALID_PN_CHK 1 0x800000000001 \<and> \<not> VALID_PN_CHK 0x800000000002 1"
  using VALID_PN_CHK_window [of 1 "0x800000000001"] VALID_PN_CHK_window [of "0x800000000002" 1] by simp

section \<open>Group frames are not replayed\<close>

text \<open>The packet number and key identifier that a frame carries.\<close>

definition frame_key_pn :: "rx_frame \<Rightarrow> nat \<times> u64" where
  "frame_key_pn f = (let p = the (the (rtw_iv_to_pn (rx_mem f) (rx_data f + fr_hdrlen f) (fr_encrypt f))) in
     (unat (snd p), pn_value (fst p)))"

definition pn_frame_ok :: "rx_frame \<Rightarrow> bool" where
  "pn_frame_ok f \<longleftrightarrow> tracks_pn (fr_encrypt f) \<and> rx_data f + fr_hdrlen f + 8 \<le> rx_end f"

text \<open>A run over group frames, on a station or not; the result has the accepted ones.\<close>

fun bcast_run :: "bool \<Rightarrow> u64 list \<Rightarrow> rx_frame list \<Rightarrow> (rx_frame list \<times> u64 list) option" where
  "bcast_run is_sta iv_seq [] = Some ([], iv_seq)"
| "bcast_run is_sta iv_seq (f # fs) = do {
     (ok, iv_seq') \<leftarrow> recv_bcast_pn_decache is_sta iv_seq f;
     (acc, iv_seq'') \<leftarrow> bcast_run is_sta iv_seq' fs;
     Some (if ok then f # acc else acc, iv_seq'') }"

lemma bcast_run_no_sta: "bcast_run False iv_seq fs = Some (fs, iv_seq)"
  by (induction fs) (simp_all add: recv_bcast_pn_decache_def)

lemma key_id_less: "unat (drop_bit 6 (k :: u8)) < 4"
  using unsigned_less [of k, where 'a = nat] by (simp add: drop_bit_eq_div unat_div_distrib)

lemma iv_to_pn_total:
  assumes "pn_frame_ok f"
  shows "\<exists>r. rtw_iv_to_pn (rx_mem f) (rx_data f + fr_hdrlen f) (fr_encrypt f) = Some (Some r) \<and> unat (snd r) < 4"
  using assms by (auto simp: pn_frame_ok_def tracks_pn_def rtw_iv_to_pn_def rd_in rx_end_def key_id_less Let_def)

lemma bcast_step:
  assumes "pn_frame_ok f" "length iv_seq = 4" "frame_key_pn f = (k, pn)"
  shows "k < 4 \<and> recv_bcast_pn_decache True iv_seq f =
     Some (if VALID_PN_CHK pn (iv_seq ! k) then (True, iv_seq[k := pn]) else (False, iv_seq))"
  using iv_to_pn_total [OF assms(1)] assms by (auto simp: recv_bcast_pn_decache_def frame_key_pn_def pn_frame_ok_def Let_def)

definition key_pns :: "nat \<Rightarrow> rx_frame list \<Rightarrow> nat list" where
  "key_pns k fs = map (\<lambda>f. unat (snd (frame_key_pn f))) (filter (\<lambda>f. fst (frame_key_pn f) = k) fs)"

definition pn_small :: "rx_frame \<Rightarrow> bool" where
  "pn_small f \<longleftrightarrow> 0 < unat (snd (frame_key_pn f)) \<and> unat (snd (frame_key_pn f)) < 2 ^ 47"

lemma valid_pn_small:
  assumes "unat new < 2 ^ 47" "unat old < 2 ^ 47" "0 < unat new"
  shows "VALID_PN_CHK new old \<longleftrightarrow> unat old < unat new"
  using valid_pn_iff [of new old] assms by (auto simp: unat_eq_zero)

lemma bcast_run_increasing:
  assumes "length iv_seq = 4" "\<forall>k < 4. unat (iv_seq ! k) < 2 ^ 47" "\<forall>f \<in> set fs. pn_frame_ok f \<and> pn_small f"
  shows "\<exists>acc out. bcast_run True iv_seq fs = Some (acc, out) \<and>
     (\<forall>k < 4. sorted_wrt (<) (unat (iv_seq ! k) # key_pns k acc))"
  using assms
proof (induction fs arbitrary: iv_seq)
  case Nil
  then show ?case by (simp add: key_pns_def)
next
  case (Cons f fs)
  obtain k pn where kp: "frame_key_pn f = (k, pn)" by (metis surj_pair)
  have f: "pn_frame_ok f" "pn_small f" using Cons.prems(3) by simp_all
  have k: "k < 4" using bcast_step [OF f(1) Cons.prems(1) kp] by simp
  have small: "unat pn < 2 ^ 47" "0 < unat pn" using f(2) kp by (simp_all add: pn_small_def)
  have valid: "VALID_PN_CHK pn (iv_seq ! k) \<longleftrightarrow> unat (iv_seq ! k) < unat pn"
    using valid_pn_small [OF small(1) _ small(2)] Cons.prems(2) k by simp
  let ?seq = "if unat (iv_seq ! k) < unat pn then iv_seq[k := pn] else iv_seq"
  have seq: "length ?seq = 4" "\<forall>j < 4. unat (?seq ! j) < 2 ^ 47"
    using Cons.prems(1,2) small(1) k by (auto simp: nth_list_update)
  have "\<forall>g \<in> set fs. pn_frame_ok g \<and> pn_small g" using Cons.prems(3) by simp
  from Cons.IH [OF seq this] obtain acc out where run: "bcast_run True ?seq fs = Some (acc, out)"
      and inc: "\<forall>j < 4. sorted_wrt (<) (unat (?seq ! j) # key_pns j acc)"
    by blast
  let ?acc = "if unat (iv_seq ! k) < unat pn then f # acc else acc"
  have "bcast_run True iv_seq (f # fs) = Some (?acc, out)"
    using bcast_step [OF f(1) Cons.prems(1) kp] valid run by (simp split: if_splits)
  moreover have "sorted_wrt (<) (unat (iv_seq ! j) # key_pns j ?acc)" if "j < 4" for j
  proof -
    have "key_pns j (f # acc) = (if j = k then [unat pn] else []) @ key_pns j acc" using kp by (auto simp: key_pns_def)
    moreover have "sorted_wrt (<) (unat (?seq ! j) # key_pns j acc)" using inc that by blast
    ultimately show ?thesis using k Cons.prems(1) by (auto simp: nth_list_update intro: less_trans split: if_splits)
  qed
  ultimately show ?case by blast
qed

text \<open>C23. On a station group frames are not replayed: over any sequence of group frames under TKIP, CCMP or GCMP
  that have room for the packet number, with numbers from 1 to below \<open>2^47\<close>, starting with no stored number, the
  numbers that \<open>recv_bcast_pn_decache\<close> accepts under one key identifier strictly increase, so none is accepted
  twice. In every other mode (access point, ad hoc) the function accepts all of them, replayed ones included.\<close>

theorem recv_bcast_no_replay:
  assumes "\<forall>f \<in> set fs. pn_frame_ok f \<and> pn_small f"
  shows "\<exists>acc out. bcast_run True (replicate 4 0) fs = Some (acc, out) \<and> (\<forall>k < 4. sorted_wrt (<) (key_pns k acc)) \<and>
     bcast_run False (replicate 4 0) fs = Some (fs, replicate 4 0)"
  using bcast_run_increasing [of "replicate 4 0" fs] assms by (fastforce simp: bcast_run_no_sta)

definition sample_group :: "u8 \<Rightarrow> rx_frame" where
  "sample_group pn = (sample_frag 0 ([0, pn, 0, 0, 0x60, 0, 0, 0, 0]))\<lparr>fr_encrypt := AES\<rparr>"

theorem recv_bcast_no_replay_witness:
  "\<exists>acc out. bcast_run True (replicate 4 0) [sample_group 5, sample_group 5, sample_group 6] = Some (acc, out) \<and>
     (\<forall>k < 4. sorted_wrt (<) (key_pns k acc)) \<and>
     bcast_run False (replicate 4 0) [sample_group 5, sample_group 5, sample_group 6] =
       Some ([sample_group 5, sample_group 5, sample_group 6], replicate 4 0)"
proof (rule recv_bcast_no_replay)
  show "\<forall>f \<in> set [sample_group 5, sample_group 5, sample_group 6]. pn_frame_ok f \<and> pn_small f"
    by (simp add: sample_group_def sample_frag_def pn_frame_ok_def pn_small_def frame_key_pn_def tracks_pn_def
        rx_end_def rtw_iv_to_pn_def rd_def pn_value_def le64_def)
qed

section \<open>Duplicates\<close>

text \<open>The caches as one map from the class of a frame to the last sequence control accepted.\<close>

datatype seq_class = Qos bool nat | Nonqos bool

definition frame_class :: "rx_frame \<Rightarrow> seq_class" where
  "frame_class f = (if fr_qos f then Qos (IS_MCAST (fr_ra f)) (unat (fr_priority f)) else Nonqos (IS_MCAST (fr_ra f)))"

fun last_seq :: "rx_cache \<Rightarrow> seq_class \<Rightarrow> u16" where
  "last_seq c (Qos mc tid) = (if mc then bmc_tid_rxseq c else tid_rxseq c) ! tid"
| "last_seq c (Nonqos mc) = (if mc then nonqos_bmc_rxseq c else nonqos_rxseq c)"

definition cache_ok :: "rx_cache \<Rightarrow> bool" where
  "cache_ok c \<longleftrightarrow> length (tid_rxseq c) = 16 \<and> length (bmc_tid_rxseq c) = 16"

definition seq_control :: "rx_frame \<Rightarrow> nat" where
  "seq_control f = unat (fr_seq_num f) * 16 + fr_frag_num f"

lemma seq_ctrl_word:
  assumes "unat (fr_seq_num f) < 2 ^ 12" "fr_frag_num f < 16"
  shows "unat (push_bit 4 (fr_seq_num f) OR (of_nat (fr_frag_num f) AND 0xf)) = seq_control f"
proof -
  let ?z = "of_nat (fr_frag_num f) :: u16"
  have z: "?z AND 0xf = take_bit 4 ?z" by (simp add: take_bit_eq_mask mask_eq_exp_minus_1)
  have "push_bit 4 (fr_seq_num f) OR take_bit 4 ?z = push_bit 4 (fr_seq_num f) + take_bit 4 ?z"
    by (rule disjunctive_add [symmetric]) (auto simp: bit_simps)
  moreover have "unat (push_bit 4 (fr_seq_num f)) = unat (fr_seq_num f) * 16"
    using assms(1) by (simp add: push_bit_eq_mult unat_word_ariths)
  moreover have "unat (take_bit 4 ?z) = fr_frag_num f"
    using assms(2) by (simp only: unsigned_take_bit_eq) (simp add: unat_of_nat take_bit_eq_mod)
  ultimately show ?thesis using assms unfolding z seq_control_def by (simp add: unat_word_ariths)
qed

lemma seq_ctrl_eq:
  assumes "unat (fr_seq_num f) < 2 ^ 12" "fr_frag_num f < 16"
  shows "push_bit 4 (fr_seq_num f) OR (of_nat (fr_frag_num f) AND 0xf) = of_nat (seq_control f)"
  using arg_cong [OF seq_ctrl_word [OF assms], of "of_nat :: nat \<Rightarrow> u16"] by simp

text \<open>Duplicate detection refines one map from the class of a frame (QoS with its TID or not, group
  addressed or not) to the last sequence and fragment number: \<open>recv_decache\<close> rejects a frame exactly when
  its TID is out of range or its numbers are those stored for its class, stores them when it accepts, and
  leaves every other class alone.\<close>

theorem recv_decache_refines:
  assumes "cache_ok c" and "unat (fr_seq_num f) < 2 ^ 12" and "fr_frag_num f < 16"
  shows "\<exists>ok c'. recv_decache c f = (ok, c') \<and> cache_ok c' \<and>
     ok = (unat (fr_priority f) \<le> 15 \<and> unat (last_seq c (frame_class f)) \<noteq> seq_control f) \<and>
     (if ok then last_seq c' = (last_seq c)(frame_class f := of_nat (seq_control f)) else last_seq c' = last_seq c)"
proof -
  let ?sc = "of_nat (seq_control f) :: u16"
  have sc: "unat ?sc = seq_control f" using seq_ctrl_word [OF assms(2,3)] seq_ctrl_eq [OF assms(2,3)] by simp
  have neq: "?sc = v \<longleftrightarrow> unat v = seq_control f" for v :: u16
    using sc by (metis word_unat_eq_iff)
  obtain ok c' where r: "recv_decache c f = (ok, c')" by fastforce
  have "last_seq c' k = (if ok \<and> k = frame_class f then ?sc else last_seq c k)" for k
    using r assms(1) unfolding recv_decache_def Let_def seq_ctrl_eq [OF assms(2,3)]
    by (cases k) (auto simp: frame_class_def cache_ok_def nth_list_update split: if_splits)
  moreover have "ok = (unat (fr_priority f) \<le> 15 \<and> unat (last_seq c (frame_class f)) \<noteq> seq_control f)" "cache_ok c'"
    using r assms(1) unfolding recv_decache_def Let_def seq_ctrl_eq [OF assms(2,3)] neq
    by (auto simp: frame_class_def cache_ok_def split: if_splits)
  ultimately show ?thesis using r by (intro exI [of _ ok] exI [of _ c']) auto
qed

theorem recv_decache_refines_witness:
  "\<exists>ok c'. recv_decache \<lparr>tid_rxseq = replicate 16 0, bmc_tid_rxseq = replicate 16 0, nonqos_rxseq = 0,
       nonqos_bmc_rxseq = 0, cache_iv = [], last_tid = 0, duplicate_cnt = 0\<rparr> (sample_frag 1 [1]) = (ok, c') \<and> ok"
  using recv_decache_refines [of "\<lparr>tid_rxseq = replicate 16 0, bmc_tid_rxseq = replicate 16 0, nonqos_rxseq = 0,
       nonqos_bmc_rxseq = 0, cache_iv = [], last_tid = 0, duplicate_cnt = 0\<rparr>" "sample_frag 1 [1]"]
  by (auto simp: cache_ok_def sample_frag_def frame_class_def seq_control_def)

section \<open>Port control\<close>

text \<open>Port control: while a station is blocked under 802.1X only its EAPOL frames are handed on; every
  other frame of the policy passes.\<close>

theorem portctrl_only_eapol:
  assumes "rx_data f + fr_hdrlen f + fr_iv_len f + 8 \<le> rx_end f"
  shows "\<exists>pass. portctrl auth blocked f = Some pass \<and>
     (pass \<longleftrightarrow> \<not> (auth \<and> blocked = Some True) \<or>
        take 2 (drop (rx_data f + fr_hdrlen f + fr_iv_len f + 6) (rx_mem f)) = [0x88, 0x8e])"
proof -
  let ?p = "rx_data f + fr_hdrlen f + fr_iv_len f + 6"
  obtain h l where hl: "take 2 (drop ?p (rx_mem f)) = [h, l]" "rd (rx_mem f) ?p = Some h" "rd (rx_mem f) (?p + 1) = Some l"
  proof
    have "?p + 1 < length (rx_mem f)" using assms by (simp add: rx_end_def)
    then show "take 2 (drop ?p (rx_mem f)) = [rx_mem f ! ?p, rx_mem f ! (?p + 1)]"
        "rd (rx_mem f) ?p = Some (rx_mem f ! ?p)" "rd (rx_mem f) (?p + 1) = Some (rx_mem f ! (?p + 1))"
      by (simp_all add: rd_def numeral_2_eq_2 Cons_nth_drop_Suc [symmetric])
  qed
  have "mk16 h l = 0x888e \<longleftrightarrow> h = 0x88 \<and> l = 0x8e"
  proof
    assume "mk16 h l = 0x888e"
    then have "hi8 (mk16 h l) = 0x88" "lo8 (mk16 h l) = 0x8e" by (simp_all add: hi8_def lo8_def)
    then show "h = 0x88 \<and> l = 0x8e" by simp
  qed (simp add: mk16_def)
  with hl show ?thesis by (auto simp: portctrl_def LLC_HEADER_SIZE_def RTW_GET_BE16_def)
qed

theorem portctrl_only_eapol_witness:
  "portctrl True (Some True) (sample_frag 0 ([0] @ replicate 6 0 @ [0x08, 0x00])) = Some False"
  using portctrl_only_eapol [of "sample_frag 0 ([0] @ replicate 6 0 @ [0x08, 0x00])" True "Some True"]
  by (auto simp: sample_frag_def rx_end_def)

end
