(* ===== verification/Sta_Acl.thy ===== *)
theory Sta_Acl
  imports Prelude
begin

text \<open>
  The address lists of the access point (\<open>core/rtw_ap.c\<close>, \<open>core/rtw_sta_mgt.c\<close>): for each of two periods a
  mode and a pool of sixteen nodes, of which the nodes in use are linked in a queue. The theory has the
  operations of a pool, its invariant, and the refinement of the two pools by two bounded sets of addresses.

  A node is its index in the pool and a queue is the list of the nodes on it, so that \<open>rtw_list_delete\<close> of a
  node removes its index. An address is the list of its six bytes.
\<close>

section \<open>State\<close>

definition NUM_ACL :: nat where "NUM_ACL = 16"
definition RTW_ACL_PERIOD_NUM :: nat where "RTW_ACL_PERIOD_NUM = 2"

definition RTW_ACL_MODE_DISABLED :: int where "RTW_ACL_MODE_DISABLED = 0"
definition RTW_ACL_MODE_ACCEPT_UNLESS_LISTED :: int where "RTW_ACL_MODE_ACCEPT_UNLESS_LISTED = 1"
definition RTW_ACL_MODE_DENY_UNLESS_LISTED :: int where "RTW_ACL_MODE_DENY_UNLESS_LISTED = 2"

lemmas acl_consts = NUM_ACL_def RTW_ACL_PERIOD_NUM_def RTW_ACL_MODE_DISABLED_def
  RTW_ACL_MODE_ACCEPT_UNLESS_LISTED_def RTW_ACL_MODE_DENY_UNLESS_LISTED_def

record rtw_wlan_acl_node =
  node_addr :: bytes
  node_valid :: bool

record wlan_acl_pool =
  acl_mode :: int
  acl_num :: int
  aclnode :: "rtw_wlan_acl_node list"
  acl_node_q :: "nat list"

section \<open>Operations\<close>

definition is_broadcast_mac_addr :: "bytes \<Rightarrow> bool" where
  "is_broadcast_mac_addr a \<longleftrightarrow>
     a ! 0 = 0xff \<and> a ! 1 = 0xff \<and> a ! 2 = 0xff \<and> a ! 3 = 0xff \<and> a ! 4 = 0xff \<and> a ! 5 = 0xff"

definition macaddr_acl_init :: "wlan_acl_pool \<Rightarrow> wlan_acl_pool" where
  "macaddr_acl_init p =
     p\<lparr>acl_node_q := [], acl_num := 0, acl_mode := RTW_ACL_MODE_DISABLED,
       aclnode := map (\<lambda>n. n\<lparr>node_valid := False\<rparr>) (aclnode p)\<rparr>"

text \<open>The search that \<open>_rtw_access_ctrl\<close> and \<open>rtw_acl_add_sta\<close> share: a valid node of the queue with the address.\<close>

fun acl_search :: "rtw_wlan_acl_node list \<Rightarrow> nat list \<Rightarrow> bytes \<Rightarrow> bool" where
  "acl_search nodes [] addr = False"
| "acl_search nodes (i # q) addr =
     (if node_addr (nodes ! i) = addr \<and> node_valid (nodes ! i) then True else acl_search nodes q addr)"

text \<open>One turn of the loops that empty a queue: a valid node leaves it.\<close>

definition acl_release :: "nat \<Rightarrow> wlan_acl_pool \<Rightarrow> wlan_acl_pool" where
  "acl_release i p =
     p\<lparr>aclnode := (aclnode p)[i := (aclnode p ! i)\<lparr>node_valid := False\<rparr>],
       acl_node_q := remove1 i (acl_node_q p), acl_num := acl_num p - 1\<rparr>"

fun acl_release_all :: "(rtw_wlan_acl_node \<Rightarrow> bool) \<Rightarrow> nat list \<Rightarrow> wlan_acl_pool \<Rightarrow> wlan_acl_pool" where
  "acl_release_all sel [] p = p"
| "acl_release_all sel (i # q) p =
     acl_release_all sel q
       (if sel (aclnode p ! i) \<and> node_valid (aclnode p ! i) then acl_release i p else p)"

definition macaddr_acl_deinit :: "wlan_acl_pool \<Rightarrow> wlan_acl_pool" where
  "macaddr_acl_deinit p =
     (acl_release_all (\<lambda>n. True) (acl_node_q p) p)\<lparr>acl_mode := RTW_ACL_MODE_DISABLED\<rparr>"

text \<open>The first node that is not valid, or the end of the pool.\<close>

fun acl_free_node :: "rtw_wlan_acl_node list \<Rightarrow> nat" where
  "acl_free_node [] = 0"
| "acl_free_node (n # nodes) = (if \<not> node_valid n then 0 else Suc (acl_free_node nodes))"

definition acl_add :: "wlan_acl_pool \<Rightarrow> bytes \<Rightarrow> int \<times> wlan_acl_pool" where
  "acl_add p addr =
     (if acl_search (aclnode p) (acl_node_q p) addr then (0, p)
      else if acl_num p \<ge> int NUM_ACL then (-1, p)
      else let i = acl_free_node (aclnode p) in
        if i < NUM_ACL then
          (0, p\<lparr>aclnode := (aclnode p)[i := \<lparr>node_addr = addr, node_valid = True\<rparr>],
                acl_node_q := acl_node_q p @ [i], acl_num := acl_num p + 1\<rparr>)
        else (-1, p))"

definition acl_remove :: "wlan_acl_pool \<Rightarrow> bytes \<Rightarrow> wlan_acl_pool" where
  "acl_remove p addr =
     acl_release_all (\<lambda>n. is_broadcast_mac_addr addr \<or> node_addr n = addr) (acl_node_q p) p"

definition acl_decide :: "wlan_acl_pool \<Rightarrow> bytes \<Rightarrow> bool" where
  "acl_decide p addr =
     (if acl_mode p \<noteq> RTW_ACL_MODE_ACCEPT_UNLESS_LISTED \<and> acl_mode p \<noteq> RTW_ACL_MODE_DENY_UNLESS_LISTED then True
      else let match = acl_search (aclnode p) (acl_node_q p) addr in
        if acl_mode p = RTW_ACL_MODE_ACCEPT_UNLESS_LISTED then \<not> match else match)"

text \<open>The functions that the rest of the driver calls select the pool of a period, and ignore a period that
  does not exist.\<close>

definition rtw_macaddr_acl_init :: "wlan_acl_pool list \<Rightarrow> nat \<Rightarrow> wlan_acl_pool list" where
  "rtw_macaddr_acl_init ps period =
     (if period \<ge> RTW_ACL_PERIOD_NUM then ps else ps[period := macaddr_acl_init (ps ! period)])"

definition rtw_macaddr_acl_clear :: "wlan_acl_pool list \<Rightarrow> nat \<Rightarrow> wlan_acl_pool list" where
  "rtw_macaddr_acl_clear ps period =
     (if period \<ge> RTW_ACL_PERIOD_NUM then ps else ps[period := macaddr_acl_deinit (ps ! period)])"

definition rtw_set_macaddr_acl :: "wlan_acl_pool list \<Rightarrow> nat \<Rightarrow> int \<Rightarrow> wlan_acl_pool list" where
  "rtw_set_macaddr_acl ps period mode =
     (if period \<ge> RTW_ACL_PERIOD_NUM then ps else ps[period := (ps ! period)\<lparr>acl_mode := mode\<rparr>])"

definition rtw_acl_add_sta :: "wlan_acl_pool list \<Rightarrow> nat \<Rightarrow> bytes \<Rightarrow> int \<times> wlan_acl_pool list" where
  "rtw_acl_add_sta ps period addr =
     (if period \<ge> RTW_ACL_PERIOD_NUM then (-1, ps)
      else case acl_add (ps ! period) addr of (ret, p) \<Rightarrow> (ret, ps[period := p]))"

definition rtw_acl_remove_sta :: "wlan_acl_pool list \<Rightarrow> nat \<Rightarrow> bytes \<Rightarrow> int \<times> wlan_acl_pool list" where
  "rtw_acl_remove_sta ps period addr =
     (if period \<ge> RTW_ACL_PERIOD_NUM then (0, ps) else (0, ps[period := acl_remove (ps ! period) addr]))"

definition access_ctrl_period :: "wlan_acl_pool list \<Rightarrow> nat \<Rightarrow> bytes \<Rightarrow> bool" where
  "access_ctrl_period ps period addr =
     (if period \<ge> RTW_ACL_PERIOD_NUM then True else acl_decide (ps ! period) addr)"

definition rtw_access_ctrl :: "wlan_acl_pool list \<Rightarrow> bytes \<Rightarrow> bool" where
  "rtw_access_ctrl ps addr = (\<forall>i \<in> set [0..<RTW_ACL_PERIOD_NUM]. access_ctrl_period ps i addr)"

section \<open>Invariant\<close>

text \<open>The queue holds exactly the valid nodes, each once, with distinct addresses, and the counter counts them.\<close>

definition acl_nodes :: "wlan_acl_pool \<Rightarrow> nat set" where
  "acl_nodes p = {i. i < NUM_ACL \<and> node_valid (aclnode p ! i)}"

definition acl_inv :: "wlan_acl_pool \<Rightarrow> bool" where
  "acl_inv p \<longleftrightarrow>
     length (aclnode p) = NUM_ACL \<and> distinct (acl_node_q p) \<and> set (acl_node_q p) = acl_nodes p \<and>
     inj_on (\<lambda>i. node_addr (aclnode p ! i)) (acl_nodes p) \<and> acl_num p = int (length (acl_node_q p))"

definition acl_set :: "wlan_acl_pool \<Rightarrow> bytes set" where
  "acl_set p = (\<lambda>i. node_addr (aclnode p ! i)) ` acl_nodes p"

lemma finite_acl_nodes [simp]: "finite (acl_nodes p)"
  by (simp add: acl_nodes_def)

lemma acl_search_iff:
  "acl_search nodes q addr \<longleftrightarrow> (\<exists>i \<in> set q. node_addr (nodes ! i) = addr \<and> node_valid (nodes ! i))"
  by (induction q) auto

lemma acl_search_set: "acl_inv p \<Longrightarrow> acl_search (aclnode p) (acl_node_q p) addr \<longleftrightarrow> addr \<in> acl_set p"
  by (auto simp: acl_search_iff acl_inv_def acl_set_def acl_nodes_def)

lemma card_acl_set: "acl_inv p \<Longrightarrow> acl_num p = int (card (acl_set p))"
  unfolding acl_inv_def acl_set_def by (metis card_image distinct_card)

lemma acl_free_node_le: "acl_free_node nodes \<le> length nodes"
  by (induction nodes) auto

lemma acl_free_node_invalid:
  "acl_free_node nodes < length nodes \<Longrightarrow> \<not> node_valid (nodes ! acl_free_node nodes)"
  by (induction nodes) auto

lemma acl_free_node_full: "acl_free_node nodes = length nodes \<Longrightarrow> i < length nodes \<Longrightarrow> node_valid (nodes ! i)"
  by (induction nodes arbitrary: i) (auto simp: nth_Cons split: if_splits nat.splits)

text \<open>A pool whose counter is below its size has a free node.\<close>

lemma acl_room:
  assumes "acl_inv p" "acl_num p < int NUM_ACL"
  shows "acl_free_node (aclnode p) < NUM_ACL"
proof (rule ccontr)
  assume "\<not> ?thesis"
  then have "acl_nodes p = {..<NUM_ACL}"
    using acl_free_node_full [of "aclnode p"] acl_free_node_le [of "aclnode p"] assms
    by (auto simp: acl_nodes_def acl_inv_def)
  then have "acl_num p = int NUM_ACL"
    using assms(1) by (metis acl_inv_def card_lessThan distinct_card)
  with assms(2) show False by simp
qed

lemma acl_release_inv:
  assumes "acl_inv p" "i \<in> acl_nodes p"
  shows "acl_inv (acl_release i p)" "acl_nodes (acl_release i p) = acl_nodes p - {i}"
    "acl_set (acl_release i p) = acl_set p - {node_addr (aclnode p ! i)}"
proof -
  let ?p = "acl_release i p"
  have i: "i < length (aclnode p)" "i \<in> set (acl_node_q p)"
    using assms by (auto simp: acl_inv_def acl_nodes_def)
  have addr: "node_addr (aclnode ?p ! j) = node_addr (aclnode p ! j)" for j
    using i by (cases "j = i") (auto simp: acl_release_def)
  show nodes: "acl_nodes ?p = acl_nodes p - {i}"
    using i by (auto simp: acl_nodes_def acl_release_def nth_list_update)
  have inj: "inj_on (\<lambda>i. node_addr (aclnode p ! i)) (acl_nodes p)"
    using assms by (simp add: acl_inv_def)
  show "acl_set ?p = acl_set p - {node_addr (aclnode p ! i)}"
    unfolding acl_set_def addr nodes
    using inj_on_image_set_diff [OF inj, of "acl_nodes p" "{i}"] assms(2) by simp
  have sel: "length (aclnode ?p) = length (aclnode p)" "acl_node_q ?p = remove1 i (acl_node_q p)"
    "acl_num ?p = acl_num p - 1"
    by (simp_all add: acl_release_def)
  have "int (length (acl_node_q p) - 1) = int (length (acl_node_q p)) - 1"
    using i(2) by (cases "acl_node_q p") auto
  then show "acl_inv ?p"
    using assms(1) i(2) inj_on_subset [OF inj, of "acl_nodes p - {i}"]
    unfolding acl_inv_def nodes addr sel by (simp add: length_remove1)
qed

lemma acl_release_addr [simp]:
  "i \<in> acl_nodes p \<Longrightarrow> acl_inv p \<Longrightarrow> node_addr (aclnode (acl_release i p) ! j) = node_addr (aclnode p ! j)"
  by (cases "j = i") (auto simp: acl_release_def acl_nodes_def acl_inv_def)

text \<open>A loop over queued nodes releases the valid ones that it selects, and no others.\<close>

lemma acl_release_all_inv:
  assumes "acl_inv p" "distinct q" "set q \<subseteq> acl_nodes p"
    and "\<And>n n'. node_addr n = node_addr n' \<Longrightarrow> sel n = sel n'"
  shows "acl_inv (acl_release_all sel q p) \<and>
    acl_nodes (acl_release_all sel q p) = acl_nodes p - {i \<in> set q. sel (aclnode p ! i)} \<and>
    acl_set (acl_release_all sel q p) =
      acl_set p - (\<lambda>i. node_addr (aclnode p ! i)) ` {i \<in> set q. sel (aclnode p ! i)} \<and>
    acl_mode (acl_release_all sel q p) = acl_mode p"
  using assms
proof (induction q arbitrary: p)
  case Nil
  show ?case using Nil.prems(1) by simp
next
  case (Cons i q)
  have valid: "i \<in> acl_nodes p" "node_valid (aclnode p ! i)"
    using Cons.prems(3) by (auto simp: acl_nodes_def)
  show ?case
  proof (cases "sel (aclnode p ! i)")
    case True
    let ?p = "acl_release i p"
    note rel = acl_release_inv [OF Cons.prems(1) valid(1)]
    have sel: "sel (aclnode ?p ! j) = sel (aclnode p ! j)" for j
      by (rule Cons.prems(4)) (simp add: valid Cons.prems(1))
    have addr: "node_addr (aclnode ?p ! j) = node_addr (aclnode p ! j)" for j
      by (simp add: valid Cons.prems(1))
    have mode: "acl_mode ?p = acl_mode p"
      by (simp add: acl_release_def)
    have sub: "distinct q" "set q \<subseteq> acl_nodes ?p"
      using Cons.prems(2,3) rel(2) by auto
    have split: "{j \<in> set (i # q). sel (aclnode p ! j)} = insert i {j \<in> set q. sel (aclnode p ! j)}"
      using True by auto
    have step: "acl_release_all sel (i # q) p = acl_release_all sel q ?p"
      using True valid by simp
    note IH = Cons.IH [OF rel(1) sub Cons.prems(4)]
    have diff: "A - {x} - B = A - insert x B" for A B :: "'x set" and x
      by blast
    show ?thesis
      unfolding step split image_insert
      using IH unfolding rel(2,3) sel addr mode diff .
  next
    case False
    then have split: "{j \<in> set (i # q). sel (aclnode p ! j)} = {j \<in> set q. sel (aclnode p ! j)}"
      by auto
    have sub: "distinct q" "set q \<subseteq> acl_nodes p"
      using Cons.prems(2,3) by auto
    have step: "acl_release_all sel (i # q) p = acl_release_all sel q p"
      using False by simp
    show ?thesis
      unfolding step split by (rule Cons.IH [OF Cons.prems(1) sub Cons.prems(4)])
  qed
qed

lemma acl_init_inv:
  assumes "length (aclnode p) = NUM_ACL"
  shows "acl_inv (macaddr_acl_init p)" "acl_set (macaddr_acl_init p) = {}"
  using assms by (auto simp: acl_inv_def macaddr_acl_init_def acl_nodes_def acl_set_def inj_on_def)

lemma acl_init_mode [simp]: "acl_mode (macaddr_acl_init p) = RTW_ACL_MODE_DISABLED"
  by (simp add: macaddr_acl_init_def)

lemma acl_deinit_inv:
  assumes "acl_inv p"
  shows "acl_inv (macaddr_acl_deinit p)" "acl_set (macaddr_acl_deinit p) = {}"
proof -
  let ?q = "acl_release_all (\<lambda>n. True) (acl_node_q p) p"
  have "acl_inv ?q \<and> acl_nodes ?q = {}"
    using assms acl_release_all_inv [of p "acl_node_q p" "\<lambda>n. True"] by (simp add: acl_inv_def)
  then show "acl_inv (macaddr_acl_deinit p)" "acl_set (macaddr_acl_deinit p) = {}"
    by (auto simp: macaddr_acl_deinit_def acl_inv_def acl_nodes_def acl_set_def)
qed

lemma acl_remove_inv:
  assumes "acl_inv p"
  shows "acl_inv (acl_remove p addr)" "acl_mode (acl_remove p addr) = acl_mode p"
    "acl_set (acl_remove p addr) = (if is_broadcast_mac_addr addr then {} else acl_set p - {addr})"
proof -
  let ?sel = "\<lambda>n. is_broadcast_mac_addr addr \<or> node_addr n = addr"
  have q: "distinct (acl_node_q p)" "set (acl_node_q p) = acl_nodes p"
    using assms by (simp_all add: acl_inv_def)
  note all = acl_release_all_inv [of p "acl_node_q p" ?sel, OF assms q(1), folded acl_remove_def]
  show "acl_inv (acl_remove p addr)" "acl_mode (acl_remove p addr) = acl_mode p"
    using all q by simp_all
  have "acl_set (acl_remove p addr) =
      acl_set p - (\<lambda>i. node_addr (aclnode p ! i)) ` {i \<in> acl_nodes p. ?sel (aclnode p ! i)}"
    using all q by simp
  also have "\<dots> = (if is_broadcast_mac_addr addr then {} else acl_set p - {addr})"
    by (auto simp: acl_set_def)
  finally show "acl_set (acl_remove p addr) = \<dots>" .
qed

lemma acl_add_full:
  "acl_inv p \<Longrightarrow> addr \<notin> acl_set p \<Longrightarrow> card (acl_set p) \<ge> NUM_ACL \<Longrightarrow> acl_add p addr = (-1, p)"
  by (simp add: acl_add_def acl_search_set card_acl_set)

lemma acl_add_known: "acl_inv p \<Longrightarrow> addr \<in> acl_set p \<Longrightarrow> acl_add p addr = (0, p)"
  by (simp add: acl_add_def acl_search_set)

lemma acl_add_new:
  assumes "acl_inv p" "addr \<notin> acl_set p" "card (acl_set p) < NUM_ACL"
  shows "\<exists>p'. acl_add p addr = (0, p') \<and> acl_inv p' \<and> acl_set p' = insert addr (acl_set p) \<and>
    acl_mode p' = acl_mode p"
proof -
  let ?i = "acl_free_node (aclnode p)"
  let ?p = "p\<lparr>aclnode := (aclnode p)[?i := \<lparr>node_addr = addr, node_valid = True\<rparr>],
    acl_node_q := acl_node_q p @ [?i], acl_num := acl_num p + 1\<rparr>"
  have room: "?i < NUM_ACL"
    using assms by (intro acl_room) (simp_all add: card_acl_set)
  have len: "length (aclnode p) = NUM_ACL"
    using assms by (simp add: acl_inv_def)
  have new: "?i \<notin> acl_nodes p"
    using acl_free_node_invalid [of "aclnode p"] room len by (simp add: acl_nodes_def)
  have nodes: "acl_nodes ?p = insert ?i (acl_nodes p)"
    using room len by (auto simp: acl_nodes_def nth_list_update)
  have addr: "node_addr (aclnode ?p ! j) = (if j = ?i then addr else node_addr (aclnode p ! j))" for j
    using room len by simp
  have "acl_set ?p = insert addr (acl_set p)"
    unfolding acl_set_def nodes addr using new by auto
  moreover have "acl_inv ?p"
    using assms(1,2) new len
    unfolding acl_inv_def nodes addr
    by (auto simp: inj_on_def acl_set_def)
  moreover have "acl_add p addr = (0, ?p)"
    using assms room by (simp add: acl_add_def acl_search_set card_acl_set Let_def)
  ultimately show ?thesis by auto
qed

section \<open>Refinement\<close>

text \<open>The specification: for each period a mode and a set of at most sixteen addresses.\<close>

type_synonym acl_abs = "nat \<Rightarrow> int \<times> bytes set"

datatype acl_op =
    Acl_mode nat int
  | Acl_add nat bytes
  | Acl_remove nat bytes
  | Acl_clear nat

fun acl_exec :: "acl_op \<Rightarrow> wlan_acl_pool list \<Rightarrow> wlan_acl_pool list" where
  "acl_exec (Acl_mode period mode) ps = rtw_set_macaddr_acl ps period mode"
| "acl_exec (Acl_add period addr) ps = snd (rtw_acl_add_sta ps period addr)"
| "acl_exec (Acl_remove period addr) ps = snd (rtw_acl_remove_sta ps period addr)"
| "acl_exec (Acl_clear period) ps = rtw_macaddr_acl_clear ps period"

definition spec_add :: "bytes \<Rightarrow> bytes set \<Rightarrow> bytes set" where
  "spec_add a s = (if a \<in> s \<or> card s < NUM_ACL then insert a s else s)"

definition spec_remove :: "bytes \<Rightarrow> bytes set \<Rightarrow> bytes set" where
  "spec_remove a s = (if a = replicate 6 0xff then {} else s - {a})"

fun acl_spec :: "acl_op \<Rightarrow> acl_abs \<Rightarrow> acl_abs" where
  "acl_spec (Acl_mode period mode) a = a(period := (mode, snd (a period)))"
| "acl_spec (Acl_add period addr) a = a(period := map_prod id (spec_add addr) (a period))"
| "acl_spec (Acl_remove period addr) a = a(period := map_prod id (spec_remove addr) (a period))"
| "acl_spec (Acl_clear period) a = a(period := (RTW_ACL_MODE_DISABLED, {}))"

fun acl_allows :: "int \<times> bytes set \<Rightarrow> bytes \<Rightarrow> bool" where
  "acl_allows (mode, s) addr =
     ((mode = RTW_ACL_MODE_ACCEPT_UNLESS_LISTED \<longrightarrow> addr \<notin> s) \<and>
      (mode = RTW_ACL_MODE_DENY_UNLESS_LISTED \<longrightarrow> addr \<in> s))"

fun acl_op_ok :: "acl_op \<Rightarrow> bool" where
  "acl_op_ok (Acl_remove period addr) \<longleftrightarrow> length addr = 6"
| "acl_op_ok _ \<longleftrightarrow> True"

definition acl_rel :: "wlan_acl_pool list \<Rightarrow> acl_abs \<Rightarrow> bool" where
  "acl_rel ps a \<longleftrightarrow> length ps = RTW_ACL_PERIOD_NUM \<and>
     (\<forall>i < RTW_ACL_PERIOD_NUM. acl_inv (ps ! i) \<and> a i = (acl_mode (ps ! i), acl_set (ps ! i)))"

lemma is_broadcast_iff: "length a = 6 \<Longrightarrow> is_broadcast_mac_addr a \<longleftrightarrow> a = replicate 6 0xff"
  by (auto simp: is_broadcast_mac_addr_def length_Suc_conv eval_nat_numeral)

lemma acl_add_refines:
  assumes "acl_inv p"
  shows "acl_inv (snd (acl_add p addr)) \<and> acl_mode (snd (acl_add p addr)) = acl_mode p \<and>
    acl_set (snd (acl_add p addr)) = spec_add addr (acl_set p)"
proof (cases "addr \<in> acl_set p \<or> card (acl_set p) \<ge> NUM_ACL")
  case True
  then have "snd (acl_add p addr) = p"
    using assms acl_add_full [of p addr] acl_add_known [of p addr]
    by (cases "addr \<in> acl_set p") simp_all
  moreover have "spec_add addr (acl_set p) = acl_set p"
    using True by (auto simp: spec_add_def)
  ultimately show ?thesis using assms by simp
next
  case False
  with acl_add_new [OF assms, of addr] obtain p' where
    "acl_add p addr = (0, p')" "acl_inv p'" "acl_set p' = insert addr (acl_set p)" "acl_mode p' = acl_mode p"
    by (meson not_le)
  with False show ?thesis by (simp add: spec_add_def)
qed

text \<open>An operation that touches the pool of one period keeps the relation when it does so on that pool.\<close>

lemma acl_rel_upd:
  assumes "acl_rel ps a"
    and "\<lbrakk>period < RTW_ACL_PERIOD_NUM; acl_inv (ps ! period); a period = (acl_mode (ps ! period), acl_set (ps ! period))\<rbrakk>
      \<Longrightarrow> acl_inv p \<and> x = (acl_mode p, acl_set p)"
  shows "acl_rel (if period \<ge> RTW_ACL_PERIOD_NUM then ps else ps[period := p]) (a(period := x))"
  using assms by (auto simp: acl_rel_def nth_list_update)

lemma acl_mode_inv [simp]: "acl_inv (p\<lparr>acl_mode := m\<rparr>) = acl_inv p" "acl_set (p\<lparr>acl_mode := m\<rparr>) = acl_set p"
  by (simp_all add: acl_inv_def acl_set_def acl_nodes_def)

text \<open>Every operation of the driver does to the pools what the specification does to the sets.\<close>

lemma acl_exec_refines:
  assumes rel: "acl_rel ps a" and ok: "acl_op_ok opn"
  shows "acl_rel (acl_exec opn ps) (acl_spec opn a)"
proof (cases opn)
  case (Acl_mode period mode)
  show ?thesis
    unfolding Acl_mode acl_exec.simps acl_spec.simps rtw_set_macaddr_acl_def
    by (rule acl_rel_upd [OF rel]) simp
next
  case (Acl_add period addr)
  have exec: "acl_exec opn ps = (if period \<ge> RTW_ACL_PERIOD_NUM then ps else ps[period := snd (acl_add (ps ! period) addr)])"
    by (simp add: Acl_add rtw_acl_add_sta_def split: prod.split)
  show ?thesis
    unfolding exec unfolding Acl_add acl_spec.simps
    by (rule acl_rel_upd [OF rel]) (simp add: acl_add_refines)
next
  case (Acl_remove period addr)
  have exec: "acl_exec opn ps = (if period \<ge> RTW_ACL_PERIOD_NUM then ps else ps[period := acl_remove (ps ! period) addr])"
    by (simp add: Acl_remove rtw_acl_remove_sta_def)
  show ?thesis
    unfolding exec using ok is_broadcast_iff [of addr] unfolding Acl_remove acl_spec.simps
    by (intro acl_rel_upd [OF rel]) (simp add: acl_remove_inv spec_remove_def)
next
  case (Acl_clear period)
  show ?thesis
    unfolding Acl_clear acl_exec.simps acl_spec.simps rtw_macaddr_acl_clear_def
    by (rule acl_rel_upd [OF rel]) (simp add: acl_deinit_inv, simp add: macaddr_acl_deinit_def)
qed

lemma acl_decide_allows:
  "acl_inv p \<Longrightarrow> acl_decide p addr = acl_allows (acl_mode p, acl_set p) addr"
  by (auto simp: acl_decide_def acl_search_set acl_consts)

lemma acl_run_refines:
  "acl_rel ps a \<Longrightarrow> list_all acl_op_ok ops \<Longrightarrow> acl_rel (fold acl_exec ops ps) (fold acl_spec ops a)"
  by (induction ops arbitrary: ps a) (auto intro: acl_exec_refines)

definition acl_start :: "wlan_acl_pool list \<Rightarrow> wlan_acl_pool list" where
  "acl_start ps = fold (\<lambda>i ps. rtw_macaddr_acl_init ps i) [0..<RTW_ACL_PERIOD_NUM] ps"

lemma acl_start_rel:
  assumes "length ps = RTW_ACL_PERIOD_NUM" "list_all (\<lambda>p. length (aclnode p) = NUM_ACL) ps"
  shows "acl_rel (acl_start ps) (\<lambda>_. (RTW_ACL_MODE_DISABLED, {}))"
proof -
  have "acl_start ps = map macaddr_acl_init ps"
    using assms(1) by (auto simp: acl_start_def rtw_macaddr_acl_init_def acl_consts length_Suc_conv numeral_eq_Suc)
  with assms show ?thesis
    by (auto simp: acl_rel_def acl_init_inv list_all_length)
qed

text \<open>C27. After any sequence of operations on freshly initialised pools, the driver lets a station in exactly when
  the specification does: not listed in a period whose mode accepts all but the listed, listed in a period
  whose mode denies all but the listed.\<close>

theorem rtw_access_ctrl_refines:
  assumes "length ps = RTW_ACL_PERIOD_NUM" "list_all (\<lambda>p. length (aclnode p) = NUM_ACL) ps"
    and "list_all acl_op_ok ops"
  shows "rtw_access_ctrl (fold acl_exec ops (acl_start ps)) addr =
    (\<forall>i < RTW_ACL_PERIOD_NUM. acl_allows (fold acl_spec ops (\<lambda>_. (RTW_ACL_MODE_DISABLED, {})) i) addr)"
  using acl_run_refines [OF acl_start_rel [OF assms(1,2)] assms(3)]
  by (auto simp: rtw_access_ctrl_def access_ctrl_period_def acl_rel_def acl_decide_allows)

lemma replicate_Suc_6: "replicate 6 x = [x, x, x, x, x, x]"
  by (simp add: eval_nat_numeral)

text \<open>A pool after a mode, two additions and a removal.\<close>

definition acl_demo :: "wlan_acl_pool list" where
  "acl_demo = replicate 2 \<lparr>acl_mode = 7, acl_num = 3,
     aclnode = replicate 16 \<lparr>node_addr = replicate 6 0, node_valid = True\<rparr>, acl_node_q = [2]\<rparr>"

theorem rtw_access_ctrl_refines_witness:
  "rtw_access_ctrl (fold acl_exec [Acl_mode 1 2, Acl_add 1 [1, 2, 3, 4, 5, 6], Acl_add 1 [0, 0, 0, 0, 0, 9],
     Acl_remove 1 [0, 0, 0, 0, 0, 9]] (acl_start acl_demo)) [1, 2, 3, 4, 5, 6] \<and>
   \<not> rtw_access_ctrl (fold acl_exec [Acl_mode 1 2, Acl_add 1 [1, 2, 3, 4, 5, 6], Acl_add 1 [0, 0, 0, 0, 0, 9],
     Acl_remove 1 [0, 0, 0, 0, 0, 9]] (acl_start acl_demo)) [0, 0, 0, 0, 0, 9]"
  by (subst (1 2) rtw_access_ctrl_refines)
    (auto simp: acl_demo_def acl_consts spec_add_def spec_remove_def less_2_cases_iff replicate_Suc_6 list_all_iff)

end
