(* ===== verification/Sta_Macid.thy ===== *)
theory Sta_Macid
  imports Prelude
begin

text \<open>
  The identifiers that the chip has in short supply (\<open>core/rtw_wlan_util.c\<close>): the MAC ids, one for each peer, and
  the entries of the security CAM, one for each key. Both are allocated from bitmaps by a linear search.

  A bitmap is a locale, \<open>id_map\<close>, with the three operations of the code as parameters; the search for a free
  identifier is proved in it once, and both bitmaps of the code interpret it. Above it stand the invariant of
  the MAC ids under allocation and release, and the contents of the CAM under key installation and swaps.
\<close>

section \<open>Bitmaps\<close>

text \<open>The loop \<open>for (; i < n; i++) if (P i) break;\<close>\<close>

function for_find :: "(nat \<Rightarrow> bool) \<Rightarrow> nat \<Rightarrow> nat \<Rightarrow> nat" where
  "for_find P i n = (if i < n then (if P i then i else for_find P (Suc i) n) else i)"
  by auto
termination by (relation "measure (\<lambda>(P, i, n). n - i)") auto

declare for_find.simps [simp del]

lemma for_find_bounds: "i \<le> n \<Longrightarrow> i \<le> for_find P i n \<and> for_find P i n \<le> n"
  by (induction P i n rule: for_find.induct) (subst (1 2) for_find.simps; force)

lemma for_find_hit: "for_find P i n < n \<Longrightarrow> P (for_find P i n)"
  by (induction P i n rule: for_find.induct) (metis for_find.simps)

lemma for_find_least: "i \<le> j \<Longrightarrow> j < for_find P i n \<Longrightarrow> j < n \<Longrightarrow> \<not> P j"
proof (induction P i n rule: for_find.induct)
  case (1 P i n)
  then show ?case
    by (cases "j = i") (auto simp: for_find.simps [of P i n] split: if_splits)
qed

lemma for_find_none: "i \<le> n \<Longrightarrow> for_find P i n = n \<longleftrightarrow> (\<forall>j. i \<le> j \<and> j < n \<longrightarrow> \<not> P j)"
  using for_find_hit [of P i n] for_find_bounds [of i n P] for_find_least [of i _ P n] by (metis le_neq_implies_less)

locale id_map =
  fixes is_set :: "'m \<Rightarrow> nat \<Rightarrow> bool"
    and put :: "'m \<Rightarrow> nat \<Rightarrow> 'm"
    and clr :: "'m \<Rightarrow> nat \<Rightarrow> 'm"
    and limit :: "'m \<Rightarrow> nat"
  assumes set_put: "i < limit m \<Longrightarrow> is_set (put m i) j \<longleftrightarrow> j = i \<or> is_set m j"
    and set_clr: "i < limit m \<Longrightarrow> is_set (clr m i) j \<longleftrightarrow> j \<noteq> i \<and> is_set m j"
    and set_limit: "is_set m j \<Longrightarrow> j < limit m"
    and limit_put: "limit (put m i) = limit m"
    and limit_clr: "limit (clr m i) = limit m"
begin

lemma finite_set: "finite {i. is_set m i}"
  by (rule finite_subset [of _ "{..<limit m}"]) (auto dest: set_limit)

text \<open>A search that breaks at the first free identifier finds one if there is one; taking it adds one
  identifier to the map, and giving it back restores the map.\<close>

lemma take_free:
  assumes "for_find (\<lambda>i. ok i \<and> \<not> is_set m i) s n < n" "n \<le> limit m"
  defines "i \<equiv> for_find (\<lambda>i. ok i \<and> \<not> is_set m i) s n"
  shows "\<not> is_set m i" "ok i" "{j. is_set (put m i) j} = insert i {j. is_set m j}"
    "card {j. is_set (put m i) j} = Suc (card {j. is_set m j})"
    "{j. is_set (clr (put m i) i) j} = {j. is_set m j}"
proof -
  have i: "ok i \<and> \<not> is_set m i" "i < limit m"
    using for_find_hit [OF assms(1)] assms by (auto simp: i_def)
  then show "\<not> is_set m i" "ok i" by simp_all
  show new: "{j. is_set (put m i) j} = insert i {j. is_set m j}"
    using i by (auto simp: set_put)
  show "card {j. is_set (put m i) j} = Suc (card {j. is_set m j})"
    unfolding new using i finite_set by simp
  show "{j. is_set (clr (put m i) i) j} = {j. is_set m j}"
    using i by (auto simp: set_put set_clr limit_put)
qed

lemma search_full:
  "s \<le> n \<Longrightarrow> for_find (\<lambda>i. \<not> is_set m i) s n = n \<longleftrightarrow> {s..<n} \<subseteq> {j. is_set m j}"
  by (auto simp: for_find_none)

end

text \<open>The bitmaps of the code are one word, since \<open>MACID_NUM_SW_LIMIT\<close> and \<open>SEC_CAM_ENT_NUM_SW_LIMIT\<close> are 32.\<close>

definition rtw_macid_is_set :: "u32 \<Rightarrow> nat \<Rightarrow> bool" where
  "rtw_macid_is_set m0 i = (if i < 32 then m0 AND bit_mask i \<noteq> 0 else False)"

definition rtw_macid_map_set :: "u32 \<Rightarrow> nat \<Rightarrow> u32" where
  "rtw_macid_map_set m0 i = (if i < 32 then m0 OR bit_mask i else m0)"

definition rtw_macid_map_clr :: "u32 \<Rightarrow> nat \<Rightarrow> u32" where
  "rtw_macid_map_clr m0 i = (if i < 32 then m0 AND NOT (bit_mask i) else m0)"

definition rtw_sec_camid_is_set :: "u32 \<Rightarrow> nat \<Rightarrow> bool" where
  "rtw_sec_camid_is_set m0 i = (if i < 32 then m0 AND bit_mask i \<noteq> 0 else False)"

definition rtw_sec_cam_map_set :: "u32 \<Rightarrow> nat \<Rightarrow> u32" where
  "rtw_sec_cam_map_set m0 i = (if i < 32 then m0 OR bit_mask i else m0)"

definition rtw_sec_cam_map_clr :: "u32 \<Rightarrow> nat \<Rightarrow> u32" where
  "rtw_sec_cam_map_clr m0 i = (if i < 32 then m0 AND NOT (bit_mask i) else m0)"

lemma and_bit_mask_iff: "i < LENGTH('a) \<Longrightarrow> (m :: 'a :: len word) AND bit_mask i \<noteq> 0 \<longleftrightarrow> bit m i"
  by (simp add: bit_iff_and_push_bit_not_eq_0)

lemma macid_is_set_bit: "rtw_macid_is_set m i = bit m i"
  using and_bit_mask_iff [where 'a = 32] bit_imp_le_length [of m i] by (auto simp: rtw_macid_is_set_def)

lemma cam_is_set_bit: "rtw_sec_camid_is_set m i = bit m i"
  using and_bit_mask_iff [where 'a = 32] bit_imp_le_length [of m i] by (auto simp: rtw_sec_camid_is_set_def)

interpretation macmap: id_map rtw_macid_is_set rtw_macid_map_set rtw_macid_map_clr "\<lambda>_. 32"
  by unfold_locales
    (auto simp: macid_is_set_bit rtw_macid_map_set_def rtw_macid_map_clr_def bit_simps dest: bit_imp_le_length)

interpretation cammap: id_map rtw_sec_camid_is_set rtw_sec_cam_map_set rtw_sec_cam_map_clr "\<lambda>_. 32"
  by unfold_locales
    (auto simp: cam_is_set_bit rtw_sec_cam_map_set_def rtw_sec_cam_map_clr_def bit_simps dest: bit_imp_le_length)

text \<open>Byte bitmaps of any length, which ignore identifiers beyond their end.\<close>

definition rtw_bmp_is_set :: "bytes \<Rightarrow> nat \<Rightarrow> bool" where
  "rtw_bmp_is_set bmp i = (if i div 8 \<ge> length bmp then False else bmp ! (i div 8) AND bit_mask (i mod 8) \<noteq> 0)"

definition rtw_bmp_set :: "bytes \<Rightarrow> nat \<Rightarrow> bytes" where
  "rtw_bmp_set bmp i = (if i div 8 < length bmp then bmp[i div 8 := bmp ! (i div 8) OR bit_mask (i mod 8)] else bmp)"

definition rtw_bmp_clear :: "bytes \<Rightarrow> nat \<Rightarrow> bytes" where
  "rtw_bmp_clear bmp i =
     (if i div 8 < length bmp then bmp[i div 8 := bmp ! (i div 8) AND NOT (bit_mask (i mod 8))] else bmp)"

lemma bmp_is_set_bit: "rtw_bmp_is_set bmp i \<longleftrightarrow> i div 8 < length bmp \<and> bit (bmp ! (i div 8)) (i mod 8)"
  using and_bit_mask_iff [where 'a = 8, of "i mod 8"] by (auto simp: rtw_bmp_is_set_def)

lemma div_mod_8_eq: "i div 8 = j div 8 \<Longrightarrow> i mod 8 = j mod 8 \<Longrightarrow> i = (j :: nat)"
  by (metis div_mult_mod_eq)

interpretation bytemap: id_map rtw_bmp_is_set rtw_bmp_set rtw_bmp_clear "\<lambda>bmp. 8 * length bmp"
proof
  fix bmp :: bytes and i j :: nat
  assume "i < 8 * length bmp"
  then have "i div 8 < length bmp" by simp
  then show "rtw_bmp_is_set (rtw_bmp_set bmp i) j \<longleftrightarrow> j = i \<or> rtw_bmp_is_set bmp j"
    "rtw_bmp_is_set (rtw_bmp_clear bmp i) j \<longleftrightarrow> j \<noteq> i \<and> rtw_bmp_is_set bmp j"
    by (auto simp: bmp_is_set_bit rtw_bmp_set_def rtw_bmp_clear_def nth_list_update bit_simps dest: div_mod_8_eq)
qed (auto simp: bmp_is_set_bit rtw_bmp_set_def rtw_bmp_clear_def)

section \<open>MAC ids\<close>

definition MACID_NUM_SW_LIMIT :: nat where "MACID_NUM_SW_LIMIT = 32"
definition RTW_DEFAULT_MGMT_MACID :: nat where "RTW_DEFAULT_MGMT_MACID = 1"
definition INVALID_SEC_MAC_CAM_ID :: nat where "INVALID_SEC_MAC_CAM_ID = 255"
definition SEC_CAP_CHK_BMC :: u8 where "SEC_CAP_CHK_BMC = bit_mask 0"
definition SEC_CAP_CHK_EXTRA_SEC :: u8 where "SEC_CAP_CHK_EXTRA_SEC = bit_mask 1"

abbreviation bc_addr :: bytes where "bc_addr \<equiv> [0xff, 0xff, 0xff, 0xff, 0xff, 0xff]"

text \<open>A station is named by its index in the table of stations.\<close>

record macid_ctl_t =
  mac_num :: nat
  mac_used :: u32
  mac_bmc :: u32
  if_g :: "u32 list"
  ch_g :: "u32 list"
  iface_bmc :: "nat list"
  mac_sta :: "nat option list"

record sec_cam_ent =
  ent_ctrl :: u16
  ent_mac :: bytes
  ent_key :: bytes

record cam_ctl_t =
  sec_cap :: u8
  cam_num :: nat
  cam_used :: u32
  cam_cache :: "sec_cam_ent list"

record dvobj_ids =
  macid_ctl :: macid_ctl_t
  cam_ctl :: cam_ctl_t

text \<open>The interface a station belongs to: its number, its own address, and whether it is in station mode or has
  no mode yet.\<close>

record iface =
  iface_id :: nat
  iface_mac :: bytes
  sta_or_null :: bool

definition camctl_chk_cap :: "cam_ctl_t \<Rightarrow> u8 \<Rightarrow> bool" where
  "camctl_chk_cap c cap \<longleftrightarrow> sec_cap c AND cap \<noteq> 0"

definition rtw_sec_camid_is_used :: "cam_ctl_t \<Rightarrow> nat \<Rightarrow> bool" where
  "rtw_sec_camid_is_used c i = (if i \<ge> cam_num c then False else rtw_sec_camid_is_set (cam_used c) i)"

definition rtw_macid_is_used :: "macid_ctl_t \<Rightarrow> nat \<Rightarrow> bool" where
  "rtw_macid_is_used m i = rtw_macid_is_set (mac_used m) i"

definition rtw_macid_ctl_init :: "macid_ctl_t \<Rightarrow> macid_ctl_t" where
  "rtw_macid_ctl_init m =
     m\<lparr>mac_used := rtw_macid_map_set (mac_used m) RTW_DEFAULT_MGMT_MACID,
       mac_bmc := rtw_macid_map_set (mac_bmc m) RTW_DEFAULT_MGMT_MACID,
       if_g := map (\<lambda>g. rtw_macid_map_set g RTW_DEFAULT_MGMT_MACID) (if_g m),
       mac_sta := (mac_sta m)[RTW_DEFAULT_MGMT_MACID := None]\<rparr>"

text \<open>The part of the CAM bitmap that a broadcast station reserves, and gives back.\<close>

definition cam_reserve :: "cam_ctl_t \<Rightarrow> nat \<Rightarrow> cam_ctl_t" where
  "cam_reserve c i =
     (let c = c\<lparr>cam_used := rtw_sec_cam_map_set (cam_used c) i\<rparr> in
      if camctl_chk_cap c SEC_CAP_CHK_EXTRA_SEC then c\<lparr>cam_used := rtw_sec_cam_map_set (cam_used c) (i + 1)\<rparr> else c)"

definition cam_unreserve :: "cam_ctl_t \<Rightarrow> nat \<Rightarrow> cam_ctl_t" where
  "cam_unreserve c i =
     (if i \<noteq> INVALID_SEC_MAC_CAM_ID \<and> i < cam_num c then
        let c = c\<lparr>cam_used := rtw_sec_cam_map_clr (cam_used c) i\<rparr> in
        if camctl_chk_cap c SEC_CAP_CHK_EXTRA_SEC then c\<lparr>cam_used := rtw_sec_cam_map_clr (cam_used c) (i + 1)\<rparr> else c
      else c)"

text \<open>The result is the id that the station gets; \<open>mac_num\<close>, which is no id, when it gets none.\<close>

definition rtw_alloc_macid :: "iface \<Rightarrow> nat \<Rightarrow> bytes \<Rightarrow> dvobj_ids \<Rightarrow> nat \<times> dvobj_ids" where
  "rtw_alloc_macid f psta mac d =
     (if mac = iface_mac f then (mac_num (macid_ctl d), d)
      else
        let is_bc = (mac = bc_addr);
            d = (if is_bc then d\<lparr>macid_ctl := (macid_ctl d)\<lparr>iface_bmc :=
                   (iface_bmc (macid_ctl d))[iface_id f := INVALID_SEC_MAC_CAM_ID]\<rparr>\<rparr> else d);
            m = macid_ctl d; c = cam_ctl d in
        if is_bc \<and> sta_or_null f then (RTW_DEFAULT_MGMT_MACID, d)
        else
          let i = for_find (\<lambda>i. \<not> (is_bc \<and> rtw_sec_camid_is_used c i) \<and> \<not> rtw_macid_is_used m i) 0 (mac_num m) in
          if i < mac_num m then
            let m = m\<lparr>mac_used := rtw_macid_map_set (mac_used m) i\<rparr>;
                m = (if is_bc then m\<lparr>mac_bmc := rtw_macid_map_set (mac_bmc m) i, iface_bmc := (iface_bmc m)[iface_id f := i]\<rparr>
                     else m);
                c = (if is_bc then cam_reserve c i else c);
                m = m\<lparr>if_g := (if_g m)[iface_id f := rtw_macid_map_set (if_g m ! iface_id f) i],
                      mac_sta := (mac_sta m)[i := Some psta]\<rparr> in
            (i, d\<lparr>macid_ctl := m, cam_ctl := c\<rparr>)
          else (mac_num m, d))"

definition rtw_macid_get_iface_bmp :: "macid_ctl_t \<Rightarrow> nat \<Rightarrow> nat set" where
  "rtw_macid_get_iface_bmp m i = set (filter (\<lambda>k. rtw_macid_is_set (if_g m ! k) i) [0..<length (if_g m)])"

text \<open>The result is the id of the station afterwards, which is always \<open>mac_num\<close>.\<close>

definition rtw_release_macid :: "iface \<Rightarrow> bytes \<Rightarrow> nat \<Rightarrow> dvobj_ids \<Rightarrow> nat \<times> dvobj_ids" where
  "rtw_release_macid f mac mac_id d =
     (let m = macid_ctl d; num = mac_num m in
      if mac = iface_mac f then (num, d)
      else if mac_id \<ge> num then (num, d)
      else if mac_id = RTW_DEFAULT_MGMT_MACID then (num, d)
      else if \<not> rtw_macid_is_used m mac_id then (num, d)
      else if iface_id f \<notin> rtw_macid_get_iface_bmp m mac_id then (num, d)
      else
        let ifbmp = rtw_macid_get_iface_bmp m mac_id;
            (m, c) = (if mac = bc_addr then
                        (m\<lparr>iface_bmc := (iface_bmc m)[iface_id f := INVALID_SEC_MAC_CAM_ID]\<rparr>,
                         cam_unreserve (cam_ctl d) (iface_bmc m ! iface_id f))
                      else (m, cam_ctl d));
            m = m\<lparr>if_g := (if_g m)[iface_id f := rtw_macid_map_clr (if_g m ! iface_id f) mac_id]\<rparr>;
            m = (if ifbmp - {iface_id f} = {} then
                   m\<lparr>mac_used := rtw_macid_map_clr (mac_used m) mac_id,
                     mac_bmc := rtw_macid_map_clr (mac_bmc m) mac_id,
                     ch_g := map (\<lambda>g. rtw_macid_map_clr g mac_id) (ch_g m),
                     mac_sta := (mac_sta m)[mac_id := None]\<rparr>
                 else m) in
        (num, d\<lparr>macid_ctl := m, cam_ctl := c\<rparr>))"

definition rtw_search_max_mac_id :: "macid_ctl_t \<Rightarrow> nat" where
  "rtw_search_max_mac_id m =
     (case find (rtw_macid_is_used m) (rev [1..<mac_num m]) of Some i \<Rightarrow> i | None \<Rightarrow> 0)"

subsection \<open>Who holds which id\<close>

text \<open>The stations that exist, each with its interface, its address and the id it got.\<close>

type_synonym holders = "nat \<rightharpoonup> iface \<times> bytes \<times> nat"

text \<open>The station \<open>s\<close> holds an id of the pool.\<close>

definition holds :: "holders \<Rightarrow> nat \<Rightarrow> nat \<Rightarrow> nat \<Rightarrow> nat \<Rightarrow> bool" where
  "holds h num s k i \<longleftrightarrow>
     (\<exists>f mac. h s = Some (f, mac, i) \<and> iface_id f = k \<and> mac \<noteq> iface_mac f \<and> i < num \<and> i \<noteq> RTW_DEFAULT_MGMT_MACID)"

definition macid_inv :: "macid_ctl_t \<Rightarrow> holders \<Rightarrow> bool" where
  "macid_inv m h \<longleftrightarrow>
     RTW_DEFAULT_MGMT_MACID < mac_num m \<and> mac_num m \<le> MACID_NUM_SW_LIMIT \<and> length (mac_sta m) = MACID_NUM_SW_LIMIT \<and>
     rtw_macid_is_set (mac_used m) RTW_DEFAULT_MGMT_MACID \<and>
     (\<forall>i. i \<noteq> RTW_DEFAULT_MGMT_MACID \<longrightarrow>
        (rtw_macid_is_set (mac_used m) i \<longleftrightarrow> (\<exists>s k. holds h (mac_num m) s k i)) \<and>
        (\<forall>k < length (if_g m). rtw_macid_is_set (if_g m ! k) i \<longleftrightarrow> (\<exists>s. holds h (mac_num m) s k i))) \<and>
     (\<forall>s k i. holds h (mac_num m) s k i \<longrightarrow> mac_sta m ! i = Some s \<and> k < length (if_g m))"

text \<open>Stations come and go on the interfaces of the device; an interface keeps its number and its address.\<close>

inductive macid_reach :: "dvobj_ids \<Rightarrow> holders \<Rightarrow> bool" where
  init: "macid_reach d Map.empty"
    if "macid_ctl d = rtw_macid_ctl_init mc" and "mac_used mc = 0" and "set (if_g mc) \<subseteq> {0}"
      and "RTW_DEFAULT_MGMT_MACID < mac_num mc" and "mac_num mc \<le> MACID_NUM_SW_LIMIT"
      and "length (mac_sta mc) = MACID_NUM_SW_LIMIT"
| alloc: "macid_reach d' (h(s \<mapsto> (f, mac, i)))"
    if "macid_reach d h" and "h s = None" and "iface_id f < length (if_g (macid_ctl d))"
      and "rtw_alloc_macid f s mac d = (i, d')"
| release: "macid_reach d' (h(s := None))"
    if "macid_reach d h" and "h s = Some (f, mac, i)"
      and "rtw_release_macid (f\<lparr>sta_or_null := b\<rparr>) mac i d = (i', d')"

text \<open>The components of the allocator that say who owns an id.\<close>

definition macid_view :: "macid_ctl_t \<Rightarrow> nat \<times> u32 \<times> u32 list \<times> nat option list" where
  "macid_view m = (mac_num m, mac_used m, if_g m, mac_sta m)"

definition macid_take :: "macid_ctl_t \<Rightarrow> nat \<Rightarrow> nat \<Rightarrow> nat \<Rightarrow> nat \<times> u32 \<times> u32 list \<times> nat option list" where
  "macid_take m k i s =
     (mac_num m, rtw_macid_map_set (mac_used m) i, (if_g m)[k := rtw_macid_map_set (if_g m ! k) i], (mac_sta m)[i := Some s])"

definition macid_drop :: "macid_ctl_t \<Rightarrow> nat \<Rightarrow> nat \<Rightarrow> nat \<times> u32 \<times> u32 list \<times> nat option list" where
  "macid_drop m k i =
     (mac_num m, rtw_macid_map_clr (mac_used m) i, (if_g m)[k := rtw_macid_map_clr (if_g m ! k) i], (mac_sta m)[i := None])"

lemma macid_inv_view: "macid_view m = macid_view m' \<Longrightarrow> macid_inv m h \<longleftrightarrow> macid_inv m' h"
  by (simp add: macid_view_def macid_inv_def)

lemma alloc_macid_cases:
  assumes "rtw_alloc_macid f s mac d = (i, d')"
  shows "(mac = iface_mac f \<or> i = RTW_DEFAULT_MGMT_MACID \<or> i \<ge> mac_num (macid_ctl d)) \<and>
      macid_view (macid_ctl d') = macid_view (macid_ctl d) \<or>
    mac \<noteq> iface_mac f \<and> i < mac_num (macid_ctl d) \<and> \<not> rtw_macid_is_set (mac_used (macid_ctl d)) i \<and>
      macid_view (macid_ctl d') = macid_take (macid_ctl d) (iface_id f) i s"
proof (cases "mac = iface_mac f \<or> mac = bc_addr \<and> sta_or_null f")
  case True
  then show ?thesis
    using assms by (auto simp: rtw_alloc_macid_def macid_view_def Let_def split: if_splits)
next
  case False
  let ?m = "macid_ctl d"
  let ?P = "\<lambda>i. \<not> (mac = bc_addr \<and> rtw_sec_camid_is_used (cam_ctl d) i) \<and> \<not> rtw_macid_is_used ?m i"
  let ?i = "for_find ?P 0 (mac_num ?m)"
  show ?thesis
  proof (cases "?i < mac_num ?m")
    case hit: True
    then have "\<not> rtw_macid_is_set (mac_used ?m) ?i"
      using for_find_hit [OF hit] by (simp add: rtw_macid_is_used_def)
    then show ?thesis
      using assms False hit
      by (auto simp: rtw_alloc_macid_def rtw_macid_is_used_def Let_def macid_view_def macid_take_def split: if_splits)
  next
    case full: False
    then show ?thesis
      using assms False
      by (auto simp: rtw_alloc_macid_def rtw_macid_is_used_def Let_def macid_view_def split: if_splits)
  qed
qed

lemma iface_bmp_iff: "k \<in> rtw_macid_get_iface_bmp m i \<longleftrightarrow> k < length (if_g m) \<and> rtw_macid_is_set (if_g m ! k) i"
  by (auto simp: rtw_macid_get_iface_bmp_def)

lemma release_macid_num: "fst (rtw_release_macid f mac i d) = mac_num (macid_ctl d)"
  by (simp add: rtw_release_macid_def Let_def split: prod.split)

lemma release_macid_idle:
  assumes "mac = iface_mac f \<or> i \<ge> mac_num (macid_ctl d) \<or> i = RTW_DEFAULT_MGMT_MACID"
  shows "snd (rtw_release_macid f mac i d) = d"
  using assms by (auto simp: rtw_release_macid_def Let_def)

lemma release_macid_used:
  assumes "mac \<noteq> iface_mac f" "i < mac_num (macid_ctl d)" "i \<noteq> RTW_DEFAULT_MGMT_MACID"
    and "rtw_macid_is_set (mac_used (macid_ctl d)) i" "rtw_macid_get_iface_bmp (macid_ctl d) i = {iface_id f}"
  shows "macid_view (macid_ctl (snd (rtw_release_macid f mac i d))) = macid_drop (macid_ctl d) (iface_id f) i"
  using assms
  by (simp add: rtw_release_macid_def rtw_macid_is_used_def Let_def macid_view_def macid_drop_def)

lemma macid_invD:
  assumes "macid_inv m h"
  shows "holds h (mac_num m) s k i \<Longrightarrow> mac_sta m ! i = Some s"
    and "holds h (mac_num m) s k i \<Longrightarrow> k < length (if_g m)"
    and "i \<noteq> RTW_DEFAULT_MGMT_MACID \<Longrightarrow>
      rtw_macid_is_set (mac_used m) i \<longleftrightarrow> (\<exists>s k. holds h (mac_num m) s k i)"
    and "i \<noteq> RTW_DEFAULT_MGMT_MACID \<Longrightarrow> k < length (if_g m) \<Longrightarrow>
      rtw_macid_is_set (if_g m ! k) i \<longleftrightarrow> (\<exists>s. holds h (mac_num m) s k i)"
  using assms unfolding macid_inv_def by blast+

text \<open>No id is held twice, and a station holds at most one.\<close>

lemma holds_unique:
  assumes "macid_inv m h" "holds h (mac_num m) s k i" "holds h (mac_num m) s' k' i"
  shows "s' = s \<and> k' = k"
proof -
  have "mac_sta m ! i = Some s" "mac_sta m ! i = Some s'"
    using macid_invD(1) [OF assms(1)] assms(2,3) by blast+
  then have "s' = s" by simp
  with assms(2,3) show ?thesis by (auto simp: holds_def)
qed

lemma holds_upd:
  "h s = None \<Longrightarrow> holds (h(s \<mapsto> (f, mac, i))) num s' k j \<longleftrightarrow>
     holds h num s' k j \<or>
     s' = s \<and> k = iface_id f \<and> j = i \<and> mac \<noteq> iface_mac f \<and> i < num \<and> i \<noteq> RTW_DEFAULT_MGMT_MACID"
  by (auto simp: holds_def)

lemma holds_del: "holds (h(s := None)) num s' k j \<longleftrightarrow> s' \<noteq> s \<and> holds h num s' k j"
  by (auto simp: holds_def)

lemma group_put:
  assumes "i < 32" "k' < length g"
  shows "rtw_macid_is_set (g[k := rtw_macid_map_set (g ! k) i] ! k') j \<longleftrightarrow>
    k' = k \<and> j = i \<or> rtw_macid_is_set (g ! k') j"
  using assms by (cases "k' = k") (auto simp: macmap.set_put)

lemma group_clr:
  assumes "i < 32" "k' < length g"
  shows "rtw_macid_is_set (g[k := rtw_macid_map_clr (g ! k) i] ! k') j \<longleftrightarrow>
    \<not> (k' = k \<and> j = i) \<and> rtw_macid_is_set (g ! k') j"
  using assms by (cases "k' = k") (auto simp: macmap.set_clr)

lemma macid_inv_take:
  assumes inv: "macid_inv m h" and new: "h s = None" "mac \<noteq> iface_mac f" "i < mac_num m"
    and k: "iface_id f < length (if_g m)" and free: "\<not> rtw_macid_is_set (mac_used m) i"
    and view: "macid_view m' = macid_take m (iface_id f) i s"
  shows "macid_inv m' (h(s \<mapsto> (f, mac, i)))"
proof -
  have sel: "mac_num m' = mac_num m" "mac_used m' = rtw_macid_map_set (mac_used m) i"
    "if_g m' = (if_g m)[iface_id f := rtw_macid_map_set (if_g m ! iface_id f) i]"
    "mac_sta m' = (mac_sta m)[i := Some s]"
    using view by (simp_all add: macid_view_def macid_take_def)
  have i: "i < 32" "i \<noteq> RTW_DEFAULT_MGMT_MACID"
    using inv new free by (auto simp: macid_inv_def MACID_NUM_SW_LIMIT_def)
  have none: "\<not> holds h (mac_num m) s' k' i" for s' k'
    using inv free i by (auto simp: macid_inv_def)
  have upd: "holds (h(s \<mapsto> (f, mac, i))) (mac_num m) s' k' j \<longleftrightarrow>
      holds h (mac_num m) s' k' j \<or> s' = s \<and> k' = iface_id f \<and> j = i" for s' k' j
    using holds_upd [of h s f mac i "mac_num m" s' k' j] new i by simp
  have len: "length (mac_sta m) = 32"
    using inv by (simp add: macid_inv_def MACID_NUM_SW_LIMIT_def)
  show ?thesis
    unfolding macid_inv_def sel upd
  proof (intro conjI allI impI)
    fix j k'
    assume j: "j \<noteq> RTW_DEFAULT_MGMT_MACID"
      and "k' < length ((if_g m)[iface_id f := rtw_macid_map_set (if_g m ! iface_id f) i])"
    then have k': "k' < length (if_g m)" by simp
    show "rtw_macid_is_set ((if_g m)[iface_id f := rtw_macid_map_set (if_g m ! iface_id f) i] ! k') j \<longleftrightarrow>
        (\<exists>s'. holds h (mac_num m) s' k' j \<or> s' = s \<and> k' = iface_id f \<and> j = i)"
      unfolding group_put [OF i(1) k'] macid_invD(4) [OF inv j k'] by blast
  next
    fix s' k' j
    assume "holds h (mac_num m) s' k' j \<or> s' = s \<and> k' = iface_id f \<and> j = i"
    then show "(mac_sta m)[i := Some s] ! j = Some s'"
      "k' < length ((if_g m)[iface_id f := rtw_macid_map_set (if_g m ! iface_id f) i])"
      using inv i k none len by (auto simp: macid_inv_def nth_list_update)
  qed (use inv i in \<open>auto simp: macid_inv_def macmap.set_put\<close>)
qed

lemma macid_inv_drop:
  assumes inv: "macid_inv m h" and old: "holds h (mac_num m) s k i"
    and view: "macid_view m' = macid_drop m k i"
  shows "macid_inv m' (h(s := None))"
proof -
  have sel: "mac_num m' = mac_num m" "mac_used m' = rtw_macid_map_clr (mac_used m) i"
    "if_g m' = (if_g m)[k := rtw_macid_map_clr (if_g m ! k) i]" "mac_sta m' = (mac_sta m)[i := None]"
    using view by (simp_all add: macid_view_def macid_drop_def)
  have i: "i < 32" "i \<noteq> RTW_DEFAULT_MGMT_MACID"
    using inv old by (auto simp: macid_inv_def MACID_NUM_SW_LIMIT_def holds_def)
  have only: "holds h (mac_num m) s' k' i \<longleftrightarrow> s' = s \<and> k' = k" for s' k'
    using holds_unique [OF inv old] old by blast
  have one: "holds h (mac_num m) s k' j \<longleftrightarrow> k' = k \<and> j = i" for k' j
    using old by (auto simp: holds_def)
  have del: "s' \<noteq> s \<and> holds h (mac_num m) s' k' j \<longleftrightarrow> j \<noteq> i \<and> holds h (mac_num m) s' k' j"
    and del': "\<not> (k' = k \<and> j = i) \<and> holds h (mac_num m) s' k' j \<longleftrightarrow> j \<noteq> i \<and> holds h (mac_num m) s' k' j"
    for s' k' j
    using only [of s' k'] one [of k' j] by auto
  show ?thesis
    unfolding macid_inv_def sel holds_del del
  proof (intro conjI allI impI)
    fix j k'
    assume j: "j \<noteq> RTW_DEFAULT_MGMT_MACID" and "k' < length ((if_g m)[k := rtw_macid_map_clr (if_g m ! k) i])"
    then have k': "k' < length (if_g m)" by simp
    have "rtw_macid_is_set ((if_g m)[k := rtw_macid_map_clr (if_g m ! k) i] ! k') j \<longleftrightarrow>
        \<not> (k' = k \<and> j = i) \<and> rtw_macid_is_set (if_g m ! k') j"
      by (rule group_clr [OF i(1) k'])
    also have "\<dots> \<longleftrightarrow> (\<exists>s'. j \<noteq> i \<and> holds h (mac_num m) s' k' j)"
      unfolding macid_invD(4) [OF inv j k'] del' [symmetric] by simp
    finally show "rtw_macid_is_set ((if_g m)[k := rtw_macid_map_clr (if_g m ! k) i] ! k') j \<longleftrightarrow> \<dots>" .
  next
    fix j
    assume j: "j \<noteq> RTW_DEFAULT_MGMT_MACID"
    have "rtw_macid_is_set (rtw_macid_map_clr (mac_used m) i) j \<longleftrightarrow> j \<noteq> i \<and> rtw_macid_is_set (mac_used m) j"
      using i by (simp add: macmap.set_clr)
    also have "\<dots> \<longleftrightarrow> (\<exists>s' k'. j \<noteq> i \<and> holds h (mac_num m) s' k' j)"
      unfolding macid_invD(3) [OF inv j] by simp
    finally show "rtw_macid_is_set (rtw_macid_map_clr (mac_used m) i) j \<longleftrightarrow> \<dots>" .
  next
    fix s' k' j
    assume "j \<noteq> i \<and> holds h (mac_num m) s' k' j"
    then show "(mac_sta m)[i := None] ! j = Some s'" "k' < length ((if_g m)[k := rtw_macid_map_clr (if_g m ! k) i])"
      using macid_invD(1,2) [OF inv] by auto
  qed (use inv i in \<open>simp_all add: macid_inv_def macmap.set_clr\<close>)
qed

lemma macid_inv_init:
  assumes "mac_used m0 = 0" "set (if_g m0) \<subseteq> {0}" "RTW_DEFAULT_MGMT_MACID < mac_num m0"
    and "mac_num m0 \<le> MACID_NUM_SW_LIMIT" "length (mac_sta m0) = MACID_NUM_SW_LIMIT"
  shows "macid_inv (rtw_macid_ctl_init m0) Map.empty"
proof -
  have "if_g m0 ! k = 0" if "k < length (if_g m0)" for k
    using assms(2) that nth_mem by blast
  then show ?thesis
    using assms
    by (auto simp: macid_inv_def rtw_macid_ctl_init_def holds_def macmap.set_put macid_is_set_bit [of 0]
        RTW_DEFAULT_MGMT_MACID_def)
qed

lemma macid_inv_skip:
  assumes "macid_inv m h" "h s = None" "mac = iface_mac f \<or> i = RTW_DEFAULT_MGMT_MACID \<or> i \<ge> mac_num m"
  shows "macid_inv m (h(s \<mapsto> (f, mac, i)))"
proof -
  have "holds (h(s \<mapsto> (f, mac, i))) (mac_num m) = holds h (mac_num m)"
    using assms(2,3) by (intro ext) (auto simp: holds_def)
  with assms(1) show ?thesis by (simp add: macid_inv_def)
qed

lemma macid_inv_forget:
  assumes "macid_inv m h" "h s = Some (f, mac, i)" "mac = iface_mac f \<or> i = RTW_DEFAULT_MGMT_MACID \<or> i \<ge> mac_num m"
  shows "macid_inv m (h(s := None))"
proof -
  have "holds (h(s := None)) (mac_num m) = holds h (mac_num m)"
    using assms(2,3) by (intro ext) (auto simp: holds_def)
  with assms(1) show ?thesis by (simp add: macid_inv_def)
qed

lemma macid_inv_alloc:
  assumes "macid_inv (macid_ctl d) h" "h s = None" "iface_id f < length (if_g (macid_ctl d))"
    and "rtw_alloc_macid f s mac d = (i, d')"
  shows "macid_inv (macid_ctl d') (h(s \<mapsto> (f, mac, i)))"
  using alloc_macid_cases [OF assms(4)]
proof (elim disjE conjE)
  assume "macid_view (macid_ctl d') = macid_take (macid_ctl d) (iface_id f) i s" "mac \<noteq> iface_mac f"
    "i < mac_num (macid_ctl d)" "\<not> rtw_macid_is_set (mac_used (macid_ctl d)) i"
  with assms show ?thesis by (intro macid_inv_take)
qed (use assms macid_inv_skip macid_inv_view in blast)+

lemma macid_inv_release:
  assumes inv: "macid_inv (macid_ctl d) h" and s: "h s = Some (f, mac, i)"
    and rel: "rtw_release_macid (f\<lparr>sta_or_null := b\<rparr>) mac i d = (i', d')"
  shows "macid_inv (macid_ctl d') (h(s := None))"
proof (cases "mac = iface_mac f \<or> i = RTW_DEFAULT_MGMT_MACID \<or> i \<ge> mac_num (macid_ctl d)")
  case True
  then have "d' = d"
    using release_macid_idle [where f = "f\<lparr>sta_or_null := b\<rparr>" and mac = mac and i = i and d = d] rel by auto
  with macid_inv_forget [OF inv s True] show ?thesis by simp
next
  case False
  let ?m = "macid_ctl d"
  have old: "holds h (mac_num ?m) s (iface_id f) i"
    using False s by (auto simp: holds_def)
  have i: "i \<noteq> RTW_DEFAULT_MGMT_MACID" using False by simp
  have "k \<in> rtw_macid_get_iface_bmp ?m i \<longleftrightarrow> k = iface_id f" for k
    using macid_invD(2) [OF inv old] macid_invD(4) [OF inv i, of k] old holds_unique [OF inv old, of _ k]
    by (auto simp: iface_bmp_iff)
  then have "rtw_macid_get_iface_bmp ?m i = {iface_id f}" by blast
  moreover have "rtw_macid_is_set (mac_used ?m) i"
    using macid_invD(3) [OF inv i] old by blast
  ultimately have "macid_view (macid_ctl d') = macid_drop ?m (iface_id f) i"
    using release_macid_used [where f = "f\<lparr>sta_or_null := b\<rparr>" and mac = mac and i = i and d = d] False rel by auto
  with inv old show ?thesis by (rule macid_inv_drop)
qed

lemma macid_reach_inv: "macid_reach d h \<Longrightarrow> macid_inv (macid_ctl d) h"
proof (induction rule: macid_reach.induct)
  case (init d m0)
  then have "macid_inv (rtw_macid_ctl_init m0) Map.empty"
    by (intro macid_inv_init)
  with init show ?case by simp
qed (rule macid_inv_alloc macid_inv_release; assumption)+

text \<open>C24. MAC ids are exclusive and none leaks: at every moment the ids marked in the bitmap are the management id
  and the ids of the stations that exist, and no two stations have the same one.\<close>

theorem macid_exclusive:
  assumes "macid_reach d h"
  shows "{i. rtw_macid_is_used (macid_ctl d) i} =
      insert RTW_DEFAULT_MGMT_MACID {i. \<exists>s k. holds h (mac_num (macid_ctl d)) s k i} \<and>
    (\<forall>s s' k k' i. holds h (mac_num (macid_ctl d)) s k i \<and> holds h (mac_num (macid_ctl d)) s' k' i \<longrightarrow> s = s')"
proof -
  note inv = macid_reach_inv [OF assms]
  have "rtw_macid_is_used (macid_ctl d) i \<longleftrightarrow>
      i = RTW_DEFAULT_MGMT_MACID \<or> (\<exists>s k. holds h (mac_num (macid_ctl d)) s k i)" for i
    using macid_invD(3) [OF inv, of i] inv
    by (cases "i = RTW_DEFAULT_MGMT_MACID") (simp_all add: rtw_macid_is_used_def macid_inv_def)
  then show ?thesis
    using holds_unique [OF inv] by auto
qed

text \<open>An allocation for a unicast peer succeeds as long as some id is free.\<close>

theorem rtw_alloc_macid_available:
  assumes "macid_reach d h" "mac \<noteq> iface_mac f" "mac \<noteq> bc_addr"
    and "j < mac_num (macid_ctl d)" "j \<noteq> RTW_DEFAULT_MGMT_MACID"
    and "\<forall>s k. \<not> holds h (mac_num (macid_ctl d)) s k j"
  shows "\<exists>i d'. rtw_alloc_macid f s mac d = (i, d') \<and> i \<le> j \<and> i < mac_num (macid_ctl d) \<and>
    \<not> rtw_macid_is_used (macid_ctl d) i \<and> mac_sta (macid_ctl d') ! i = Some s"
proof -
  let ?m = "macid_ctl d"
  let ?i = "for_find (\<lambda>i. \<not> rtw_macid_is_used ?m i) 0 (mac_num ?m)"
  note inv = macid_reach_inv [OF assms(1)]
  have j: "\<not> rtw_macid_is_used ?m j"
    using macid_invD(3) [OF inv, of j] assms by (simp add: rtw_macid_is_used_def)
  have le: "?i \<le> j"
    using for_find_least [of 0 j "\<lambda>i. \<not> rtw_macid_is_used ?m i" "mac_num ?m"] assms(4) j by fastforce
  then have lt: "?i < mac_num ?m"
    using assms(4) by simp
  have free: "\<not> rtw_macid_is_used ?m ?i"
    using for_find_hit [OF lt] .
  have len: "?i < length (mac_sta ?m)"
    using lt inv by (simp add: macid_inv_def)
  obtain i d' where alloc: "rtw_alloc_macid f s mac d = (i, d')"
    by fastforce
  then have "i = ?i" "mac_sta (macid_ctl d') = (mac_sta ?m)[?i := Some s]"
    using lt assms(2,3) by (auto simp: rtw_alloc_macid_def Let_def)
  with le lt free len alloc show ?thesis by auto
qed

text \<open>A device with sixteen ids and one interface, on which one peer has appeared.\<close>

definition macid_demo0 :: macid_ctl_t where
  "macid_demo0 = \<lparr>mac_num = 16, mac_used = 0, mac_bmc = 0, if_g = [0], ch_g = [0, 0], iface_bmc = [255],
     mac_sta = replicate 32 None\<rparr>"

definition dvobj_demo :: dvobj_ids where
  "dvobj_demo = \<lparr>macid_ctl = rtw_macid_ctl_init macid_demo0,
     cam_ctl = \<lparr>sec_cap = 0, cam_num = 32, cam_used = 0,
       cam_cache = replicate 32 \<lparr>ent_ctrl = 0, ent_mac = replicate 6 0, ent_key = replicate 16 0\<rparr>\<rparr>\<rparr>"

definition iface_demo :: iface where
  "iface_demo = \<lparr>iface_id = 0, iface_mac = [2, 0, 0, 0, 0, 1], sta_or_null = False\<rparr>"

definition peer_demo :: bytes where "peer_demo = [2, 0, 0, 0, 0, 9]"

definition dvobj_demo1 :: dvobj_ids where
  "dvobj_demo1 = snd (rtw_alloc_macid iface_demo 5 peer_demo dvobj_demo)"

lemma macid_demo_alloc: "rtw_alloc_macid iface_demo 5 peer_demo dvobj_demo = (0, dvobj_demo1)"
proof -
  have "fst (rtw_alloc_macid iface_demo 5 peer_demo dvobj_demo) = 0"
    by code_simp
  then show ?thesis by (simp add: dvobj_demo1_def prod_eq_iff)
qed

lemma macid_demo_reach: "macid_reach dvobj_demo1 [5 \<mapsto> (iface_demo, peer_demo, 0)]"
proof (rule macid_reach.alloc [OF _ _ _ macid_demo_alloc])
  show "macid_reach dvobj_demo Map.empty"
    by (rule macid_reach.init [where mc = macid_demo0])
      (simp add: dvobj_demo_def, simp_all add: macid_demo0_def RTW_DEFAULT_MGMT_MACID_def MACID_NUM_SW_LIMIT_def)
qed (simp_all add: iface_demo_def dvobj_demo_def macid_demo0_def rtw_macid_ctl_init_def)

lemma macid_demo_num: "mac_num (macid_ctl dvobj_demo1) = 16"
  by code_simp

lemma macid_demo_holds: "holds [5 \<mapsto> (iface_demo, peer_demo, 0)] 16 s k i \<longleftrightarrow> s = 5 \<and> k = 0 \<and> i = 0"
  by (auto simp: holds_def iface_demo_def peer_demo_def RTW_DEFAULT_MGMT_MACID_def)

lemma iface_demo_mac: "iface_mac iface_demo = [2, 0, 0, 0, 0, 1]"
  by (simp add: iface_demo_def)

theorem macid_exclusive_witness: "{i. rtw_macid_is_used (macid_ctl dvobj_demo1) i} = {0, 1}"
  using macid_exclusive [OF macid_demo_reach]
  by (auto simp: macid_demo_num macid_demo_holds RTW_DEFAULT_MGMT_MACID_def)

theorem rtw_alloc_macid_available_witness:
  "\<exists>i d'. rtw_alloc_macid iface_demo 7 [2, 0, 0, 0, 0, 8] dvobj_demo1 = (i, d') \<and> i \<le> 2 \<and> mac_sta (macid_ctl d') ! i = Some 7"
  using rtw_alloc_macid_available [OF macid_demo_reach, of "[2, 0, 0, 0, 0, 8]" iface_demo 2 7]
  by (auto simp: macid_demo_num macid_demo_holds RTW_DEFAULT_MGMT_MACID_def iface_demo_mac)

section \<open>The security CAM\<close>

definition camid_is_gk :: "cam_ctl_t \<Rightarrow> nat \<Rightarrow> bool" where
  "camid_is_gk c i =
     (if i \<ge> cam_num c then False
      else if \<not> rtw_sec_camid_is_used c i then False
      else ent_ctrl (cam_cache c ! i) AND bit_mask 6 \<noteq> 0)"

text \<open>A negative key id and a group flag of \<open>-1\<close> match every entry, and so does a null address.\<close>

definition cam_cache_chk :: "cam_ctl_t \<Rightarrow> nat \<Rightarrow> bytes option \<Rightarrow> int \<Rightarrow> int \<Rightarrow> bool" where
  "cam_cache_chk c i addr kid gk =
     (if (case addr of Some a \<Rightarrow> ent_mac (cam_cache c ! i) \<noteq> a | None \<Rightarrow> False) then False
      else if kid \<ge> 0 \<and> kid \<noteq> uint (ent_ctrl (cam_cache c ! i) AND 0x03) then False
      else if gk \<noteq> -1 \<and> (gk \<noteq> 0) \<noteq> camid_is_gk c i then False
      else True)"

definition rtw_camid_search :: "cam_ctl_t \<Rightarrow> bytes option \<Rightarrow> int \<Rightarrow> int \<Rightarrow> nat option" where
  "rtw_camid_search c addr kid gk =
     (let i = for_find (\<lambda>i. cam_cache_chk c i addr kid gk) 0 (cam_num c) in if i < cam_num c then Some i else None)"

text \<open>The start of the search, \<open>start_id\<close>, is always zero.\<close>

definition rtw_get_camid :: "cam_ctl_t \<Rightarrow> bytes option \<Rightarrow> int \<Rightarrow> int \<Rightarrow> bool \<Rightarrow> nat option" where
  "rtw_get_camid c addr kid gk ext_sec =
     (case addr of None \<Rightarrow> None | Some a \<Rightarrow>
        (case rtw_camid_search c (Some a) kid (if camctl_chk_cap c SEC_CAP_CHK_BMC then gk else -1) of
           Some i \<Rightarrow> Some i
         | None \<Rightarrow>
             let i = for_find (\<lambda>i. \<not> rtw_sec_camid_is_used c (i mod cam_num c) \<and>
                       (ext_sec \<longrightarrow> i + 1 < cam_num c \<and> \<not> rtw_sec_camid_is_used c ((i + 1) mod cam_num c)))
                     0 (cam_num c) in
             if i = cam_num c then None else Some (i mod cam_num c)))"

text \<open>\<open>ap\<close>: the interface is an access point or in an ad hoc network; \<open>joined\<close>: the association succeeded.\<close>

definition rtw_camid_alloc ::
    "cam_ctl_t \<Rightarrow> iface \<Rightarrow> bool \<Rightarrow> bool \<Rightarrow> bytes \<Rightarrow> bytes option \<Rightarrow> int \<Rightarrow> int \<Rightarrow> bool \<Rightarrow> nat option \<times> bool \<times> cam_ctl_t" where
  "rtw_camid_alloc c f ap joined bssid sta kid gk ext_sec =
     (let cam_id = (if ap \<and> sta = None then rtw_get_camid c (Some (iface_mac f)) kid gk ext_sec
                    else if sta = None then (if \<not> joined then None else rtw_get_camid c (Some bssid) kid gk ext_sec)
                    else rtw_get_camid c sta kid gk ext_sec) in
      case cam_id of
        None \<Rightarrow> (None, False, c)
      | Some i \<Rightarrow>
          let used = rtw_sec_camid_is_used c i;
              c = c\<lparr>cam_used := rtw_sec_cam_map_set (cam_used c) i\<rparr>;
              c = (if ext_sec then c\<lparr>cam_used := rtw_sec_cam_map_set (cam_used c) (i + 1)\<rparr> else c) in
          (Some i, used, c))"

definition rtw_camid_set :: "cam_ctl_t \<Rightarrow> nat \<Rightarrow> cam_ctl_t" where
  "rtw_camid_set c i = (if i < cam_num c then c\<lparr>cam_used := rtw_sec_cam_map_set (cam_used c) i\<rparr> else c)"

definition rtw_camid_free :: "cam_ctl_t \<Rightarrow> nat \<Rightarrow> cam_ctl_t" where
  "rtw_camid_free c i = (if i < cam_num c then c\<lparr>cam_used := rtw_sec_cam_map_clr (cam_used c) i\<rparr> else c)"

text \<open>The copy of an entry that the driver keeps; the write to the chip is not part of the model. The result is
  \<open>None\<close> when the key or the cache is left.\<close>

definition write_cam_cache :: "cam_ctl_t \<Rightarrow> nat \<Rightarrow> u16 \<Rightarrow> bytes \<Rightarrow> bytes \<Rightarrow> nat \<Rightarrow> cam_ctl_t option" where
  "write_cam_cache c i ctrl mac key off =
     (if i < length (cam_cache c) then do {
        k \<leftarrow> rd_n key off 16;
        Some (c\<lparr>cam_cache := (cam_cache c)[i := \<lparr>ent_ctrl = ctrl, ent_mac = mac, ent_key = k\<rparr>]\<rparr>) }
      else None)"

definition write_cam :: "cam_ctl_t \<Rightarrow> nat \<Rightarrow> u16 \<Rightarrow> bytes \<Rightarrow> bytes \<Rightarrow> cam_ctl_t option" where
  "write_cam c i ctrl mac key =
     (if ctrl AND bit_mask 9 \<noteq> 0 then do {
        c \<leftarrow> write_cam_cache c i ctrl mac key 0;
        write_cam_cache c (i + 1) (ctrl OR bit_mask 5) mac key 16 }
      else write_cam_cache c i ctrl mac key 0)"

definition null_ent :: sec_cam_ent where
  "null_ent = \<lparr>ent_ctrl = 0, ent_mac = replicate 6 0, ent_key = replicate 16 0\<rparr>"

definition clear_cam_entry :: "cam_ctl_t \<Rightarrow> nat \<Rightarrow> cam_ctl_t option" where
  "clear_cam_entry c i =
     (if i < length (cam_cache c) then Some (c\<lparr>cam_cache := (cam_cache c)[i := null_ent]\<rparr>) else None)"

text \<open>The key of a cached entry has sixteen bytes, which \<open>write_cam\<close> then reads.\<close>

definition rtw_sec_cam_swap :: "cam_ctl_t \<Rightarrow> nat \<Rightarrow> nat \<Rightarrow> cam_ctl_t option" where
  "rtw_sec_cam_swap c a b =
     (if a = b then Some c
      else do {
        let a_used = rtw_sec_camid_is_used c a;
        let b_used = rtw_sec_camid_is_used c b;
        let cache_a = cam_cache c ! a;
        let cache_b = cam_cache c ! b;
        c \<leftarrow> (if a_used then clear_cam_entry (rtw_camid_free c a) a else Some c);
        c \<leftarrow> (if b_used then clear_cam_entry (rtw_camid_free c b) b else Some c);
        c \<leftarrow> (if a_used then map_option (\<lambda>c. rtw_camid_set c b)
                (write_cam c b (ent_ctrl cache_a) (ent_mac cache_a) (ent_key cache_a)) else Some c);
        (if b_used then map_option (\<lambda>c. rtw_camid_set c a)
           (write_cam c a (ent_ctrl cache_b) (ent_mac cache_b) (ent_key cache_b)) else Some c) })"

definition rtw_get_empty_cam_entry :: "cam_ctl_t \<Rightarrow> nat \<Rightarrow> nat option" where
  "rtw_get_empty_cam_entry c start =
     (let i = for_find (\<lambda>i. \<not> rtw_sec_camid_is_used c i) start (cam_num c) in if i < cam_num c then Some i else None)"

fun clean_dk_loop :: "nat list \<Rightarrow> cam_ctl_t \<Rightarrow> cam_ctl_t option" where
  "clean_dk_loop [] c = Some c"
| "clean_dk_loop (i # is) c =
     (if rtw_sec_camid_is_used c i then
        (case rtw_get_empty_cam_entry c 4 of
           Some e \<Rightarrow> if e > 0 then do { c \<leftarrow> rtw_sec_cam_swap c i e; clean_dk_loop is c } else clean_dk_loop is c
         | None \<Rightarrow> clean_dk_loop is c)
      else clean_dk_loop is c)"

definition rtw_clean_dk_section :: "cam_ctl_t \<Rightarrow> cam_ctl_t option" where
  "rtw_clean_dk_section c = clean_dk_loop [0, 1, 2, 3] c"

definition invalidate_cam_all :: "cam_ctl_t \<Rightarrow> nat \<Rightarrow> cam_ctl_t" where
  "invalidate_cam_all c bmc_id =
     (let c = c\<lparr>cam_used := 0\<rparr>;
          c = (if bmc_id \<noteq> INVALID_SEC_MAC_CAM_ID then cam_reserve c bmc_id else c) in
      c\<lparr>cam_cache := map (\<lambda>_. null_ent) (cam_cache c)\<rparr>)"

subsection \<open>Keys in the CAM\<close>

definition cam_inv :: "cam_ctl_t \<Rightarrow> bool" where
  "cam_inv c \<longleftrightarrow> cam_num c \<le> 32 \<and> length (cam_cache c) = 32 \<and> (\<forall>e \<in> set (cam_cache c). length (ent_key e) = 16)"

text \<open>What the CAM holds: a key at each entry in use.\<close>

definition cam_map :: "cam_ctl_t \<Rightarrow> nat \<Rightarrow> sec_cam_ent option" where
  "cam_map c i = (if rtw_sec_camid_is_used c i then Some (cam_cache c ! i) else None)"

lemma cam_used_bit: "rtw_sec_camid_is_used c i \<longleftrightarrow> i < cam_num c \<and> bit (cam_used c) i"
  by (auto simp: rtw_sec_camid_is_used_def cam_is_set_bit)

lemma for_find_eqI:
  assumes "i < n" "P i" "\<forall>j < i. \<not> P j"
  shows "for_find P 0 n = i"
proof (rule ccontr)
  let ?j = "for_find P 0 n"
  assume "?j \<noteq> i"
  then consider "?j < i" | "i < ?j" by linarith
  then show False
  proof cases
    case 1
    with for_find_hit [of P 0 n] assms show False by (meson order.strict_trans)
  next
    case 2
    with for_find_least [of 0 i P n] assms show False by simp
  qed
qed

lemma rtw_camid_search_Some:
  "rtw_camid_search c addr kid gk = Some i \<longleftrightarrow>
     i < cam_num c \<and> cam_cache_chk c i addr kid gk \<and> (\<forall>j < i. \<not> cam_cache_chk c j addr kid gk)"
proof -
  let ?P = "\<lambda>i. cam_cache_chk c i addr kid gk"
  show ?thesis
  proof
    assume "rtw_camid_search c addr kid gk = Some i"
    then have i: "for_find ?P 0 (cam_num c) = i" "i < cam_num c"
      by (auto simp: rtw_camid_search_def Let_def split: if_splits)
    have "?P i"
      using for_find_hit [of ?P 0 "cam_num c"] i by simp
    moreover have "\<not> ?P j" if "j < i" for j
      using for_find_least [of 0 j ?P "cam_num c"] i that by simp
    ultimately show "i < cam_num c \<and> ?P i \<and> (\<forall>j < i. \<not> ?P j)"
      using i by simp
  next
    assume "i < cam_num c \<and> ?P i \<and> (\<forall>j < i. \<not> ?P j)"
    with for_find_eqI [of i "cam_num c" ?P] show "rtw_camid_search c addr kid gk = Some i"
      by (simp add: rtw_camid_search_def)
  qed
qed

lemma rtw_camid_search_None:
  "rtw_camid_search c addr kid gk = None \<longleftrightarrow> (\<forall>j < cam_num c. \<not> cam_cache_chk c j addr kid gk)"
  using for_find_none [of 0 "cam_num c" "\<lambda>i. cam_cache_chk c i addr kid gk"]
    for_find_bounds [of 0 "cam_num c" "\<lambda>i. cam_cache_chk c i addr kid gk"]
  by (auto simp: rtw_camid_search_def Let_def)

text \<open>The entry for a key is the one that already has the address and the key id, else one that is not in use.\<close>

lemma rtw_get_camid_cases:
  assumes "rtw_get_camid c (Some a) kid gk False = Some i" "\<not> camctl_chk_cap c SEC_CAP_CHK_BMC"
  shows "i < cam_num c"
    and "rtw_camid_search c (Some a) kid (-1) = Some i \<or>
      rtw_camid_search c (Some a) kid (-1) = None \<and> \<not> rtw_sec_camid_is_used c i"
proof -
  let ?P = "\<lambda>i. \<not> rtw_sec_camid_is_used c (i mod cam_num c)"
  let ?i = "for_find ?P 0 (cam_num c)"
  have "i < cam_num c \<and> (rtw_camid_search c (Some a) kid (-1) = Some i \<or>
      rtw_camid_search c (Some a) kid (-1) = None \<and> \<not> rtw_sec_camid_is_used c i)"
  proof (cases "rtw_camid_search c (Some a) kid (-1)")
    case None
    then have i: "?i \<noteq> cam_num c" "i = ?i mod cam_num c"
      using assms by (auto simp: rtw_get_camid_def Let_def split: if_splits)
    then have "?i < cam_num c"
      using for_find_bounds [of 0 "cam_num c" ?P] by simp
    with for_find_hit [OF this] i None show ?thesis by simp
  next
    case (Some j)
    with assms show ?thesis
      using rtw_camid_search_Some [of c "Some a" kid "-1" j] by (simp add: rtw_get_camid_def)
  qed
  then show "i < cam_num c"
    "rtw_camid_search c (Some a) kid (-1) = Some i \<or>
      rtw_camid_search c (Some a) kid (-1) = None \<and> \<not> rtw_sec_camid_is_used c i"
    by blast+
qed

text \<open>C28. Installing a pairwise key of one entry (16 bytes: no 256 bit suite, so \<open>ext_sec\<close> is off and bit 9 of the
  control word is clear) on a chip that does not tell broadcast entries apart (no \<open>SEC_CAP_CHK_BMC\<close>), under
  the invariant of the key cache and for a key id from 0 to 3 that the control word repeats:
  \<open>rtw_camid_alloc\<close> chooses an entry and \<open>write_cam\<close> fills it. A later search for the address and the key id
  returns that entry; an entry in use is only reused for the same address and key id, so no other key is
  overwritten. (With \<open>ext_sec\<close> on, a reused entry is taken without a look at the one behind it, which the key
  then also fills.)\<close>

theorem rtw_camid_alloc_installs:
  assumes inv: "cam_inv c" and cap: "\<not> camctl_chk_cap c SEC_CAP_CHK_BMC" and kid: "0 \<le> kid" "kid < 4"
    and alloc: "rtw_camid_alloc c f ap joined bssid (Some a) kid gk False = (Some i, used, c')"
    and key: "length key = 16" and ctrl: "uint (ctrl AND 3) = kid" "ctrl AND bit_mask 9 = 0"
  shows "\<exists>c''. write_cam c' i ctrl a key = Some c'' \<and> cam_inv c'' \<and>
    rtw_camid_search c'' (Some a) kid (-1) = Some i \<and>
    cam_map c'' = (cam_map c)(i := Some \<lparr>ent_ctrl = ctrl, ent_mac = a, ent_key = key\<rparr>) \<and>
    (used \<longrightarrow> ent_mac (cam_cache c ! i) = a \<and> uint (ent_ctrl (cam_cache c ! i) AND 3) = kid)"
proof -
  let ?e = "\<lparr>ent_ctrl = ctrl, ent_mac = a, ent_key = key\<rparr>"
  have get: "rtw_get_camid c (Some a) kid gk False = Some i" and was: "used = rtw_sec_camid_is_used c i"
    and c': "c' = c\<lparr>cam_used := rtw_sec_cam_map_set (cam_used c) i\<rparr>"
    using alloc by (auto simp: rtw_camid_alloc_def Let_def split: option.splits)
  note got = rtw_get_camid_cases [OF get cap]
  have i: "i < 32" "i < length (cam_cache c)"
    using got(1) inv by (auto simp: cam_inv_def)
  let ?c = "c'\<lparr>cam_cache := (cam_cache c')[i := ?e]\<rparr>"
  have wrote: "write_cam c' i ctrl a key = Some ?c"
    using i key ctrl(2) by (simp add: write_cam_def write_cam_cache_def c' rd_n_def)
  have chk: "cam_cache_chk ?c j (Some a) kid (-1) \<longleftrightarrow> j = i \<or> cam_cache_chk c j (Some a) kid (-1)" for j
    using i ctrl(1) kid by (cases "j = i") (auto simp: cam_cache_chk_def c')
  have found: "rtw_camid_search ?c (Some a) kid (-1) = Some i"
    using got chk by (auto simp: rtw_camid_search_Some rtw_camid_search_None c')
  have map: "cam_map ?c = (cam_map c)(i := Some ?e)"
    using i got(1)
    by (auto simp: cam_map_def cam_used_bit c' rtw_sec_cam_map_set_def bit_simps fun_eq_iff)
  have old: "ent_mac (cam_cache c ! i) = a \<and> uint (ent_ctrl (cam_cache c ! i) AND 3) = kid" if used
    using that got(2) kid unfolding was
    by (auto simp: rtw_camid_search_Some cam_cache_chk_def split: if_splits)
  have "cam_inv ?c"
    using inv key by (auto simp: cam_inv_def c' dest!: set_update_subset_insert [THEN subsetD])
  with wrote found map old show ?thesis by blast
qed

text \<open>The entry holds half of a key of 256 bits.\<close>

definition ent_ext :: "sec_cam_ent \<Rightarrow> bool" where
  "ent_ext e \<longleftrightarrow> ent_ctrl e AND bit_mask 9 \<noteq> 0"

lemma cam_drop:
  assumes "cam_inv c" "a < cam_num c"
  shows "\<exists>c'. clear_cam_entry (rtw_camid_free c a) a = Some c' \<and> cam_inv c' \<and> cam_num c' = cam_num c \<and>
    cam_map c' = (cam_map c)(a := None)"
proof -
  let ?c = "c\<lparr>cam_used := rtw_sec_cam_map_clr (cam_used c) a, cam_cache := (cam_cache c)[a := null_ent]\<rparr>"
  have a: "a < 32" using assms by (simp add: cam_inv_def)
  have "clear_cam_entry (rtw_camid_free c a) a = Some ?c"
    using assms by (simp add: clear_cam_entry_def rtw_camid_free_def cam_inv_def)
  moreover have "cam_inv ?c"
    using assms by (auto simp: cam_inv_def null_ent_def dest!: set_update_subset_insert [THEN subsetD])
  moreover have "cam_map ?c = (cam_map c)(a := None)"
    using a by (auto simp: cam_map_def cam_used_bit rtw_sec_cam_map_clr_def bit_simps fun_eq_iff dest: bit_imp_le_length)
  ultimately show ?thesis by (intro exI [of _ ?c]) simp
qed

lemma cam_store:
  assumes "cam_inv c" "b < cam_num c" "length (ent_key e) = 16" "\<not> ent_ext e"
  shows "\<exists>c'. map_option (\<lambda>c. rtw_camid_set c b) (write_cam c b (ent_ctrl e) (ent_mac e) (ent_key e)) = Some c' \<and>
    cam_inv c' \<and> cam_num c' = cam_num c \<and> cam_map c' = (cam_map c)(b \<mapsto> e)"
proof -
  let ?c = "c\<lparr>cam_used := rtw_sec_cam_map_set (cam_used c) b, cam_cache := (cam_cache c)[b := e]\<rparr>"
  have ent: "\<lparr>ent_ctrl = ent_ctrl e, ent_mac = ent_mac e, ent_key = ent_key e\<rparr> = e" by simp
  have b: "b < 32" "b < length (cam_cache c)" using assms by (simp_all add: cam_inv_def)
  have "map_option (\<lambda>c. rtw_camid_set c b) (write_cam c b (ent_ctrl e) (ent_mac e) (ent_key e)) = Some ?c"
    using assms b by (simp add: write_cam_def write_cam_cache_def ent_ext_def rd_n_def rtw_camid_set_def ent)
  moreover have "cam_inv ?c"
    using assms by (auto simp: cam_inv_def dest!: set_update_subset_insert [THEN subsetD])
  moreover have "cam_map ?c = (cam_map c)(b \<mapsto> e)"
    using assms(2) b by (auto simp: cam_map_def cam_used_bit rtw_sec_cam_map_set_def bit_simps fun_eq_iff)
  ultimately show ?thesis by (intro exI [of _ ?c]) simp
qed

lemma cam_cache_key: "cam_inv c \<Longrightarrow> i < cam_num c \<Longrightarrow> length (ent_key (cam_cache c ! i)) = 16"
  by (simp add: cam_inv_def)

lemma cam_map_Some: "cam_map c i = Some e \<longleftrightarrow> rtw_sec_camid_is_used c i \<and> e = cam_cache c ! i"
  by (auto simp: cam_map_def)

lemma cam_map_None: "cam_map c i = None \<longleftrightarrow> \<not> rtw_sec_camid_is_used c i"
  by (auto simp: cam_map_def)

lemma cam_swap:
  assumes inv: "cam_inv c" and ab: "a < cam_num c" "b < cam_num c"
    and ext: "\<And>e. cam_map c a = Some e \<or> cam_map c b = Some e \<Longrightarrow> \<not> ent_ext e"
  shows "\<exists>c'. rtw_sec_cam_swap c a b = Some c' \<and> cam_inv c' \<and> cam_num c' = cam_num c \<and>
    cam_map c' = (cam_map c)(a := cam_map c b, b := cam_map c a)"
proof (cases "a = b")
  case True
  then show ?thesis using inv by (simp add: rtw_sec_cam_swap_def)
next
  case False
  let ?A = "cam_cache c ! a" and ?B = "cam_cache c ! b"
  have ext: "rtw_sec_camid_is_used c a \<Longrightarrow> \<not> ent_ext ?A" "rtw_sec_camid_is_used c b \<Longrightarrow> \<not> ent_ext ?B"
    using ext [of ?A] ext [of ?B] by (simp_all add: cam_map_def)
  obtain c1 where c1: "(if rtw_sec_camid_is_used c a then clear_cam_entry (rtw_camid_free c a) a else Some c) = Some c1"
    "cam_inv c1" "cam_num c1 = cam_num c" "cam_map c1 = (cam_map c)(a := None)"
    using cam_drop [OF inv ab(1)] inv cam_map_None [of c a]
    by (cases "rtw_sec_camid_is_used c a") (auto simp: fun_upd_idem)
  obtain c2 where c2: "(if rtw_sec_camid_is_used c b then clear_cam_entry (rtw_camid_free c1 b) b else Some c1) = Some c2"
    "cam_inv c2" "cam_num c2 = cam_num c" "cam_map c2 = (cam_map c)(a := None, b := None)"
    using cam_drop [OF c1(2), of b] c1 ab cam_map_None [of c b] False
    by (cases "rtw_sec_camid_is_used c b") (auto simp: fun_upd_idem)
  obtain c3 where c3: "(if rtw_sec_camid_is_used c a then map_option (\<lambda>c. rtw_camid_set c b)
      (write_cam c2 b (ent_ctrl ?A) (ent_mac ?A) (ent_key ?A)) else Some c2) = Some c3"
    "cam_inv c3" "cam_num c3 = cam_num c" "cam_map c3 = (cam_map c)(a := None, b := cam_map c a)"
    using cam_store [OF c2(2), of b ?A] c2 ab cam_cache_key [OF inv ab(1)] ext(1)
    by (cases "rtw_sec_camid_is_used c a") (auto simp: cam_map_def [of c a])
  obtain c4 where c4: "(if rtw_sec_camid_is_used c b then map_option (\<lambda>c. rtw_camid_set c a)
      (write_cam c3 a (ent_ctrl ?B) (ent_mac ?B) (ent_key ?B)) else Some c3) = Some c4"
    "cam_inv c4" "cam_num c4 = cam_num c" "cam_map c4 = (cam_map c)(a := cam_map c b, b := cam_map c a)"
    using cam_store [OF c3(2), of a ?B] c3 ab cam_cache_key [OF inv ab(2)] ext(2) False
    by (cases "rtw_sec_camid_is_used c b") (auto simp: cam_map_def [of c b] fun_upd_twist)
  have "rtw_sec_cam_swap c a b = Some c4"
    using False c1(1) c2(1) c3(1) c4(1) by (simp add: rtw_sec_cam_swap_def Let_def)
  with c4 show ?thesis by blast
qed

text \<open>Swapping two entries exchanges what they hold and touches nothing else.\<close>

theorem rtw_sec_cam_swap_correct:
  assumes "cam_inv c" "a < cam_num c" "b < cam_num c"
    and "\<forall>e. cam_map c a = Some e \<or> cam_map c b = Some e \<longrightarrow> \<not> ent_ext e"
  shows "\<exists>c'. rtw_sec_cam_swap c a b = Some c' \<and> cam_map c' = (cam_map c)(a := cam_map c b, b := cam_map c a)"
  using cam_swap [OF assms(1-3)] assms(4) by blast

text \<open>For an entry of a 256 bit key the swap reads sixteen bytes past the key of its copy.\<close>

theorem rtw_sec_cam_swap_out_of_bounds:
  assumes "cam_inv c" "a < cam_num c" "b < cam_num c" "a \<noteq> b"
    and "cam_map c a = Some e" "ent_ext e"
  shows "rtw_sec_cam_swap c a b = None"
proof -
  have key: "length (ent_key (cam_cache c ! a)) = 16" and a: "rtw_sec_camid_is_used c a" "e = cam_cache c ! a"
    using assms by (simp_all add: cam_cache_key cam_map_Some)
  have "write_cam c' b (ent_ctrl e) (ent_mac e) (ent_key e) = None" for c'
    using assms(6) key a by (simp add: write_cam_def write_cam_cache_def ent_ext_def rd_n_def)
  then show ?thesis
    using a assms(4) by (auto simp: rtw_sec_cam_swap_def Let_def Option.bind_eq_None_conv)
qed

subsection \<open>Clearing the default key entries\<close>

lemma empty_entry_Some:
  assumes "rtw_get_empty_cam_entry c s = Some e" "s \<le> cam_num c"
  shows "s \<le> e" "e < cam_num c" "cam_map c e = None"
  using assms for_find_hit [of "\<lambda>i. \<not> rtw_sec_camid_is_used c i" s "cam_num c"]
    for_find_bounds [of s "cam_num c" "\<lambda>i. \<not> rtw_sec_camid_is_used c i"]
  by (auto simp: rtw_get_empty_cam_entry_def Let_def cam_map_None split: if_splits)

lemma empty_entry_None:
  assumes "rtw_get_empty_cam_entry c s = None" "s \<le> i" "i < cam_num c"
  shows "cam_map c i \<noteq> None"
  using assms for_find_none [of s "cam_num c" "\<lambda>i. \<not> rtw_sec_camid_is_used c i"]
    for_find_bounds [of s "cam_num c" "\<lambda>i. \<not> rtw_sec_camid_is_used c i"]
  by (auto simp: rtw_get_empty_cam_entry_def Let_def cam_map_None split: if_splits)

text \<open>All entries after the four default ones are in use.\<close>

definition cam_full :: "cam_ctl_t \<Rightarrow> bool" where
  "cam_full c \<longleftrightarrow> (\<forall>i. 4 \<le> i \<and> i < cam_num c \<longrightarrow> cam_map c i \<noteq> None)"

definition cam_short :: "cam_ctl_t \<Rightarrow> bool" where
  "cam_short c \<longleftrightarrow> (\<forall>i e. cam_map c i = Some e \<longrightarrow> \<not> ent_ext e)"

lemma swap_permutes: "\<exists>p. bij p \<and> m(a := m b, b := m a) = m \<circ> p"
proof (intro exI [of _ "id(a := b, b := a)"] conjI)
  show "bij (id(a := b, b := a))"
    by (rule bij_betw_byWitness [where f' = "id(a := b, b := a)"]) auto
qed auto

lemma clean_dk_loop_correct:
  assumes "cam_inv c" "cam_short c" "4 \<le> cam_num c" "distinct is" "set is \<subseteq> {..<4}"
  shows "\<exists>c' p. clean_dk_loop is c = Some c' \<and> bij p \<and> cam_map c' = cam_map c \<circ> p \<and> cam_num c' = cam_num c \<and>
    (\<forall>i < 4. i \<notin> set is \<longrightarrow> cam_map c' i = cam_map c i) \<and>
    (\<forall>i \<in> set is. cam_map c' i = None \<or> cam_full c')"
  using assms
proof (induction "is" arbitrary: c)
  case Nil
  then show ?case by (intro exI [of _ c] exI [of _ id]) (simp add: bij_id [unfolded id_def])
next
  case (Cons i "is")
  have i: "i < 4" "i \<notin> set is" using Cons.prems by auto
  consider (empty) "cam_map c i = None" | (full) e where "cam_map c i = Some e" "rtw_get_empty_cam_entry c 4 = None"
    | (move) e j where "cam_map c i = Some e" "rtw_get_empty_cam_entry c 4 = Some j"
    by (metis option.exhaust)
  then show ?case
  proof cases
    case empty
    then have "clean_dk_loop (i # is) c = clean_dk_loop is c" by (simp add: cam_map_None)
    with Cons.IH [OF Cons.prems(1-3)] Cons.prems(4,5) i empty show ?thesis by fastforce
  next
    case full
    then have eq: "clean_dk_loop (i # is) c = clean_dk_loop is c" by (simp add: cam_map_Some)
    have "\<forall>k \<in> set is. clean_dk_loop [k] c = Some c"
      using full(2) by simp
    then have "clean_dk_loop ks c = Some c" if "set ks \<subseteq> set is" for ks
      using that full(2) by (induction ks) auto
    moreover have "cam_full c"
      using empty_entry_None [OF full(2)] by (simp add: cam_full_def)
    ultimately show ?thesis
      unfolding eq by (intro exI [of _ c] exI [of _ id]) (auto simp: bij_id [unfolded id_def])
  next
    case move
    note j = empty_entry_Some [OF move(2) Cons.prems(3)]
    have "\<not> ent_ext e'" if "cam_map c i = Some e' \<or> cam_map c j = Some e'" for e'
      using that Cons.prems(2) by (auto simp: cam_short_def)
    with cam_swap [OF Cons.prems(1), of i j] j i Cons.prems(3) obtain c1 where
      c1: "rtw_sec_cam_swap c i j = Some c1" "cam_inv c1" "cam_num c1 = cam_num c"
        "cam_map c1 = (cam_map c)(i := cam_map c j, j := cam_map c i)"
      by (metis order.strict_trans2)
    have "cam_short c1"
      using Cons.prems(2) c1(4) by (auto simp: cam_short_def)
    from Cons.IH [OF c1(2) this] c1(3) Cons.prems(3-5) obtain c' p where
      c': "clean_dk_loop is c1 = Some c'" "bij p" "cam_map c' = cam_map c1 \<circ> p" "cam_num c' = cam_num c1"
        "\<forall>i < 4. i \<notin> set is \<longrightarrow> cam_map c' i = cam_map c1 i" "\<forall>i \<in> set is. cam_map c' i = None \<or> cam_full c'"
      by (metis distinct.simps(2) insert_subset list.simps(15))
    obtain q where q: "bij q" "cam_map c1 = cam_map c \<circ> q"
      using swap_permutes [of "cam_map c" i j] unfolding c1(4) by blast
    have "clean_dk_loop (i # is) c = Some c'"
      using move c1(1) c'(1) j by (simp add: cam_map_Some)
    moreover have "cam_map c' i = None"
      using c'(5) i j c1(4) by auto
    moreover have "cam_map c' k = cam_map c k" if "k < 4" "k \<notin> set (i # is)" for k
      using c'(5) that j c1(4) by auto
    moreover have "cam_map c' = cam_map c \<circ> (q \<circ> p)" "cam_num c' = cam_num c" "bij (q \<circ> p)"
      using c' q c1(3) bij_comp [OF c'(2) q(1)] by (simp_all add: comp_assoc)
    ultimately show ?thesis
      using c'(6) by (metis set_ConsD)
  qed
qed

text \<open>\<open>rtw_clean_dk_section\<close> loses no key: it permutes the entries, and afterwards the four default entries are
  free unless all others are in use.\<close>

theorem rtw_clean_dk_section_correct:
  assumes "cam_inv c" "cam_short c" "4 \<le> cam_num c"
  shows "\<exists>c' p. rtw_clean_dk_section c = Some c' \<and> bij p \<and> cam_map c' = cam_map c \<circ> p \<and>
    ((\<forall>i < 4. cam_map c' i = None) \<or> cam_full c')"
proof -
  obtain c' p where "clean_dk_loop [0, 1, 2, 3] c = Some c'" "bij p" "cam_map c' = cam_map c \<circ> p"
    "\<forall>i \<in> set [0, 1, 2, 3]. cam_map c' i = None \<or> cam_full c'"
    using clean_dk_loop_correct [OF assms, of "[0, 1, 2, 3]"] by auto
  moreover have "i \<in> set [0, 1, 2, 3]" if "i < 4" for i :: nat
    using that by (auto simp: less_Suc_eq eval_nat_numeral)
  ultimately show ?thesis
    unfolding rtw_clean_dk_section_def by blast
qed

text \<open>A CAM with a pairwise key at entry 0, and what the theorems say of it.\<close>

definition key_demo :: sec_cam_ent where
  "key_demo = \<lparr>ent_ctrl = 0x8010, ent_mac = [2, 0, 0, 0, 0, 9], ent_key = replicate 16 7\<rparr>"

definition cam_demo0 :: cam_ctl_t where
  "cam_demo0 = \<lparr>sec_cap = 0, cam_num = 32, cam_used = 0, cam_cache = replicate 32 null_ent\<rparr>"

definition cam_demo :: cam_ctl_t where
  "cam_demo = \<lparr>sec_cap = 0, cam_num = 32, cam_used = 1, cam_cache = key_demo # replicate 31 null_ent\<rparr>"

lemma cam_demo_inv: "cam_inv cam_demo0" "cam_inv cam_demo"
  by (simp_all add: cam_inv_def cam_demo_def cam_demo0_def key_demo_def null_ent_def)

lemma cam_demo_num: "cam_num cam_demo = 32"
  by (simp add: cam_demo_def)

lemma cam_demo_map: "cam_map cam_demo = [0 \<mapsto> key_demo]"
  by (auto simp: cam_map_def cam_used_bit cam_demo_def fun_eq_iff bit_simps)

lemma key_demo_short: "\<not> ent_ext key_demo"
  by (simp add: ent_ext_def key_demo_def)

theorem rtw_camid_alloc_installs_witness:
  "\<exists>c''. write_cam (cam_demo0\<lparr>cam_used := 1\<rparr>) 0 0x8010 [2, 0, 0, 0, 0, 9] (replicate 16 7) = Some c'' \<and>
     rtw_camid_search c'' (Some [2, 0, 0, 0, 0, 9]) 0 (-1) = Some 0"
proof -
  have "rtw_camid_alloc cam_demo0 iface_demo False True [] (Some [2, 0, 0, 0, 0, 9]) 0 0 False =
      (Some 0, False, cam_demo0\<lparr>cam_used := 1\<rparr>)"
    by code_simp
  from rtw_camid_alloc_installs [OF cam_demo_inv(1) _ _ _ this, of "replicate 16 7" "0x8010"] show ?thesis
    by (auto simp: camctl_chk_cap_def cam_demo0_def)
qed

theorem rtw_sec_cam_swap_correct_witness:
  "\<exists>c'. rtw_sec_cam_swap cam_demo 0 9 = Some c' \<and> cam_map c' = [9 \<mapsto> key_demo]"
  using rtw_sec_cam_swap_correct [OF cam_demo_inv(2), of 0 9] key_demo_short
  by (auto simp: cam_demo_map cam_demo_num fun_upd_twist)

theorem rtw_sec_cam_swap_out_of_bounds_witness:
  "rtw_sec_cam_swap (cam_demo\<lparr>cam_cache := (key_demo\<lparr>ent_ctrl := 0x8210\<rparr>) # replicate 31 null_ent\<rparr>) 0 9 = None"
  by (rule rtw_sec_cam_swap_out_of_bounds [where e = "key_demo\<lparr>ent_ctrl := 0x8210\<rparr>"])
    (simp_all add: cam_inv_def cam_map_def cam_used_bit cam_demo_def key_demo_def null_ent_def ent_ext_def)

theorem rtw_clean_dk_section_correct_witness:
  "\<exists>c' (p :: nat \<Rightarrow> nat). rtw_clean_dk_section cam_demo = Some c' \<and> bij p \<and> cam_map c' = [0 \<mapsto> key_demo] \<circ> p \<and>
     ((\<forall>i < 4. cam_map c' i = None) \<or> cam_full c')"
proof -
  have "cam_short cam_demo"
    using key_demo_short by (auto simp: cam_short_def cam_demo_map split: if_splits)
  then show ?thesis
    using rtw_clean_dk_section_correct [OF cam_demo_inv(2)] by (simp add: cam_demo_map cam_demo_num)
qed

end
