(* ===== verification/Tx_Queue.thy ===== *)
theory Tx_Queue
  imports Sta_Macid
begin

text \<open>
  The transmit queues (\<open>core/rtw_xmit.c\<close>, with the entry points of \<open>hal/rtl8188f/usb/rtl8188fu_xmit.c\<close>). A frame
  waits in the queue of its station and access category; a station with waiting frames is linked in the list of
  its category; the hardware takes frames category by category. Sleeping stations are in theory \<open>Tx_Sleep\<close>.

  Queues are lists of frames, heads first. The five queues of a station have the numbers of the hardware queues:
  0 voice, 1 video, 2 best effort, 3 background, 4 management. A station is its index in the station table;
  \<open>look\<close> stands for \<open>rtw_get_stainfo\<close> on the table (theory \<open>Sta_Table\<close>).
\<close>

section \<open>State\<close>

record xframe =
  xf_no :: nat
  xf_ext :: bool
  xf_buf :: "nat option"
  xf_ra :: bytes
  xf_psta :: "nat option"
  xf_priority :: nat
  xf_triggered :: bool
  xf_mdata :: bool
  xf_eosp :: bool
  xf_high :: bool
  xf_ps_dontq :: bool
  xf_ether_type :: u16
  xf_dhcp :: bool

record tx_servq =
  sta_pending :: "xframe list"
  qcnt :: int

text \<open>The fields of a \<open>sta_info\<close> that the transmit path uses. \<open>uapsd\<close> has the four bytes \<open>uapsd_vo\<close>, \<open>uapsd_vi\<close>,
  \<open>uapsd_be\<close> and \<open>uapsd_bk\<close> under the numbers of their queues; \<open>asoc\<close>, \<open>sleeping\<close> and \<open>alive_chk\<close> are the bits
  \<open>WIFI_ASOC_STATE\<close>, \<open>WIFI_SLEEP_STATE\<close> and \<open>WIFI_STA_ALIVE_CHK_STATE\<close> of the state.\<close>

record sta_xmit =
  servq :: "nat \<Rightarrow> tx_servq"
  sleep_q :: "xframe list"
  sleepq_len :: u32
  mgmt_sleep_q :: "xframe list"
  mgmt_sleepq_len :: u32
  sleepq_ac_len :: u32
  uapsd :: "nat \<Rightarrow> u8"
  has_legacy_ac :: bool
  asoc :: bool
  sleeping :: bool
  alive_chk :: bool
  expire_to :: nat
  aid :: nat

record xmit_priv =
  stas :: "nat \<Rightarrow> sta_xmit"
  sta_queue :: "nat \<Rightarrow> nat list"
  accnt :: "nat \<Rightarrow> int"
  free_xmit_queue :: "xframe list"
  free_xmitframe_cnt :: int
  free_xframe_ext_queue :: "xframe list"
  free_xframe_ext_cnt :: int
  free_xmit_extbuf_queue :: "nat list"
  free_xmit_extbuf_cnt :: int
  tx_drop :: u64
  sta_dz_bitmap :: bytes
  tim_bitmap :: bytes
  tim_updates :: nat

definition HWXMIT_ENTRY :: nat where "HWXMIT_ENTRY = 5"
definition mgmt_idx :: nat where "mgmt_idx = HWXMIT_ENTRY - 1"

text \<open>Replacing a field of one station, and one of its queues.\<close>

definition upd_sta :: "nat \<Rightarrow> (sta_xmit \<Rightarrow> sta_xmit) \<Rightarrow> xmit_priv \<Rightarrow> xmit_priv" where
  "upd_sta s f x = x\<lparr>stas := (stas x)(s := f (stas x s))\<rparr>"

definition upd_servq :: "nat \<Rightarrow> nat \<Rightarrow> (tx_servq \<Rightarrow> tx_servq) \<Rightarrow> xmit_priv \<Rightarrow> xmit_priv" where
  "upd_servq s ac f x = upd_sta s (\<lambda>t. t\<lparr>servq := (servq t)(ac := f (servq t ac))\<rparr>) x"

definition upd_accnt :: "nat \<Rightarrow> int \<Rightarrow> xmit_priv \<Rightarrow> xmit_priv" where
  "upd_accnt ac d x = x\<lparr>accnt := (accnt x)(ac := accnt x ac + d)\<rparr>"

text \<open>\<open>rtw_list_insert_tail\<close> and \<open>rtw_list_delete\<close> of the link of a queue in the list of its category.\<close>

definition link_sta :: "nat \<Rightarrow> nat \<Rightarrow> xmit_priv \<Rightarrow> xmit_priv" where
  "link_sta s ac x = x\<lparr>sta_queue := (sta_queue x)(ac := sta_queue x ac @ [s])\<rparr>"

definition unlink_sta :: "nat \<Rightarrow> nat \<Rightarrow> xmit_priv \<Rightarrow> xmit_priv" where
  "unlink_sta s ac x = x\<lparr>sta_queue := (sta_queue x)(ac := remove1 s (sta_queue x ac))\<rparr>"

definition pending :: "xmit_priv \<Rightarrow> nat \<Rightarrow> nat \<Rightarrow> xframe list" where
  "pending x s ac = sta_pending (servq (stas x s) ac)"

section \<open>Frames and buffers\<close>

definition rtw_init_xmitframe :: "xframe \<Rightarrow> xframe" where
  "rtw_init_xmitframe f =
     f\<lparr>xf_buf := None, xf_ra := replicate 6 0, xf_psta := None, xf_priority := 0, xf_triggered := False,
       xf_mdata := False, xf_eosp := False, xf_high := False, xf_ps_dontq := False, xf_ether_type := 0, xf_dhcp := False\<rparr>"

definition rtw_alloc_xmitframe :: "xmit_priv \<Rightarrow> xframe option \<times> xmit_priv" where
  "rtw_alloc_xmitframe x =
     (case free_xmit_queue x of
        [] \<Rightarrow> (None, x)
      | f # fs \<Rightarrow> (Some (rtw_init_xmitframe f), x\<lparr>free_xmit_queue := fs, free_xmitframe_cnt := free_xmitframe_cnt x - 1\<rparr>))"

definition rtw_alloc_xmitframe_ext :: "xmit_priv \<Rightarrow> xframe option \<times> xmit_priv" where
  "rtw_alloc_xmitframe_ext x =
     (case free_xframe_ext_queue x of
        [] \<Rightarrow> (None, x)
      | f # fs \<Rightarrow> (Some (rtw_init_xmitframe f), x\<lparr>free_xframe_ext_queue := fs, free_xframe_ext_cnt := free_xframe_ext_cnt x - 1\<rparr>))"

text \<open>The frame has left its queue before; frames from \<open>rtw_alloc_xmitframe_once\<close> do not enter queues.\<close>

definition rtw_free_xmitframe :: "xmit_priv \<Rightarrow> xframe \<Rightarrow> xmit_priv" where
  "rtw_free_xmitframe x f =
     (if \<not> xf_ext f then x\<lparr>free_xmit_queue := free_xmit_queue x @ [f], free_xmitframe_cnt := free_xmitframe_cnt x + 1\<rparr>
      else x\<lparr>free_xframe_ext_queue := free_xframe_ext_queue x @ [f], free_xframe_ext_cnt := free_xframe_ext_cnt x + 1\<rparr>)"

definition rtw_alloc_xmitbuf_ext :: "xmit_priv \<Rightarrow> nat option \<times> xmit_priv" where
  "rtw_alloc_xmitbuf_ext x =
     (case free_xmit_extbuf_queue x of
        [] \<Rightarrow> (None, x)
      | b # bs \<Rightarrow> (Some b, x\<lparr>free_xmit_extbuf_queue := bs, free_xmit_extbuf_cnt := free_xmit_extbuf_cnt x - 1\<rparr>))"

definition rtw_free_xmitbuf_ext :: "xmit_priv \<Rightarrow> nat option \<Rightarrow> xmit_priv" where
  "rtw_free_xmitbuf_ext x buf =
     (case buf of
        None \<Rightarrow> x
      | Some b \<Rightarrow> x\<lparr>free_xmit_extbuf_queue := free_xmit_extbuf_queue x @ [b], free_xmit_extbuf_cnt := free_xmit_extbuf_cnt x + 1\<rparr>)"

text \<open>The two loops that empty a queue take the frames that are on it; the caller clears the queue.\<close>

definition rtw_free_xmitframe_queue :: "xmit_priv \<Rightarrow> xframe list \<Rightarrow> xmit_priv" where
  "rtw_free_xmitframe_queue x fs = fold (\<lambda>f x. rtw_free_xmitframe x f) fs x"

definition rtw_free_mgmt_xmitframe_queue :: "xmit_priv \<Rightarrow> xframe list \<Rightarrow> xmit_priv" where
  "rtw_free_mgmt_xmitframe_queue x fs = fold (\<lambda>f x. rtw_free_xmitframe (rtw_free_xmitbuf_ext x (xf_buf f)) f) fs x"

section \<open>Entering and leaving the queues\<close>

definition rtw_get_sta_pending :: "nat \<Rightarrow> nat" where
  "rtw_get_sta_pending up =
     (if up = 1 \<or> up = 2 then 3 else if up = 4 \<or> up = 5 then 1 else if up = 6 \<or> up = 7 then 0 else 2)"

text \<open>The end of both enqueue functions: link the queue when it is not linked, and append the frame.\<close>

definition enqueue_servq :: "nat \<Rightarrow> nat \<Rightarrow> xframe \<Rightarrow> xmit_priv \<Rightarrow> xmit_priv" where
  "enqueue_servq s ac f x =
     (let x = (if s \<notin> set (sta_queue x ac) then link_sta s ac x else x);
          x = upd_servq s ac (\<lambda>q. q\<lparr>sta_pending := sta_pending q @ [f], qcnt := qcnt q + 1\<rparr>) x in
      upd_accnt ac 1 x)"

text \<open>Both start with the same checks on the receiver.\<close>

definition xmit_receiver :: "(bytes \<Rightarrow> nat option) \<Rightarrow> xmit_priv \<Rightarrow> xframe \<Rightarrow> nat option" where
  "xmit_receiver look x f =
     (let psta = look (xf_ra f) in
      if xf_psta f \<noteq> psta then None
      else case psta of None \<Rightarrow> None | Some s \<Rightarrow> if \<not> asoc (stas x s) then None else Some s)"

definition rtw_xmit_classifier :: "(bytes \<Rightarrow> nat option) \<Rightarrow> xmit_priv \<Rightarrow> xframe \<Rightarrow> bool \<times> xmit_priv" where
  "rtw_xmit_classifier look x f =
     (case xmit_receiver look x f of
        None \<Rightarrow> (False, x)
      | Some s \<Rightarrow> (True, enqueue_servq s (rtw_get_sta_pending (xf_priority f)) f x))"

definition rtw_mgmt_xmitframe_enqueue :: "(bytes \<Rightarrow> nat option) \<Rightarrow> xmit_priv \<Rightarrow> xframe \<Rightarrow> bool \<times> xmit_priv" where
  "rtw_mgmt_xmitframe_enqueue look x f =
     (case xmit_receiver look x f of None \<Rightarrow> (False, x) | Some s \<Rightarrow> (True, enqueue_servq s mgmt_idx f x))"

definition rtl8188fu_hal_xmitframe_enqueue :: "(bytes \<Rightarrow> nat option) \<Rightarrow> xmit_priv \<Rightarrow> xframe \<Rightarrow> bool \<times> xmit_priv" where
  "rtl8188fu_hal_xmitframe_enqueue look x f =
     (case rtw_xmit_classifier look x f of
        (True, x) \<Rightarrow> (True, x)
      | (False, x) \<Rightarrow> (False, let x = rtw_free_xmitframe x f in x\<lparr>tx_drop := tx_drop x + 1\<rparr>))"

definition rtl8188fu_hal_mgmt_xmitframe_enqueue :: "(bytes \<Rightarrow> nat option) \<Rightarrow> xmit_priv \<Rightarrow> xframe \<Rightarrow> bool \<times> xmit_priv" where
  "rtl8188fu_hal_mgmt_xmitframe_enqueue look x f =
     (case rtw_mgmt_xmitframe_enqueue look x f of
        (True, x) \<Rightarrow> (True, x)
      | (False, x) \<Rightarrow> (False, let x = rtw_free_xmitframe x f in x\<lparr>tx_drop := tx_drop x + 1\<rparr>))"

definition dequeue_one_xmitframe :: "nat \<Rightarrow> nat \<Rightarrow> xmit_priv \<Rightarrow> xframe option \<times> xmit_priv" where
  "dequeue_one_xmitframe s ac x =
     (case pending x s ac of
        [] \<Rightarrow> (None, x)
      | f # fs \<Rightarrow> (Some f, upd_servq s ac (\<lambda>q. q\<lparr>sta_pending := fs, qcnt := qcnt q - 1\<rparr>) x))"

text \<open>The inner loop of both dequeue functions, over the stations that are linked in a category.\<close>

fun dequeue_category :: "nat list \<Rightarrow> nat \<Rightarrow> xmit_priv \<Rightarrow> xframe option \<times> xmit_priv" where
  "dequeue_category [] ac x = (None, x)"
| "dequeue_category (s # ss) ac x =
     (case dequeue_one_xmitframe s ac x of
        (Some f, x) \<Rightarrow>
          (let x = upd_accnt ac (-1) x in
           (Some f, if pending x s ac = [] then unlink_sta s ac x else x))
      | (None, x) \<Rightarrow> dequeue_category ss ac x)"

fun dequeue_loop :: "nat list \<Rightarrow> xmit_priv \<Rightarrow> xframe option \<times> xmit_priv" where
  "dequeue_loop [] x = (None, x)"
| "dequeue_loop (ac # acs) x =
     (case dequeue_category (sta_queue x ac) ac x of (Some f, x) \<Rightarrow> (Some f, x) | (None, x) \<Rightarrow> dequeue_loop acs x)"

definition rtw_dequeue_xframe :: "bool \<Rightarrow> nat list \<Rightarrow> nat \<Rightarrow> xmit_priv \<Rightarrow> xframe option \<times> xmit_priv" where
  "rtw_dequeue_xframe wifi_spec wmm_para_seq entry x =
     (let inx = (if wifi_spec then wmm_para_seq else [0, 1, 2, 3]) in dequeue_loop (take (entry - 1) inx) x)"

definition rtw_dequeue_mgmt_xframe :: "xmit_priv \<Rightarrow> xframe option \<times> xmit_priv" where
  "rtw_dequeue_mgmt_xframe x = dequeue_category (sta_queue x mgmt_idx) mgmt_idx x"

text \<open>\<open>rtw_get_xframe\<close> looks at the frame that would leave next, without removing it.\<close>

fun get_xframe_category :: "nat list \<Rightarrow> nat \<Rightarrow> xmit_priv \<Rightarrow> (int \<times> xframe option) option" where
  "get_xframe_category [] ac x = None"
| "get_xframe_category (s # ss) ac x =
     (if qcnt (servq (stas x s) ac) \<noteq> 0 then
        Some (qcnt (servq (stas x s) ac), case pending x s ac of [] \<Rightarrow> None | f # _ \<Rightarrow> Some f)
      else get_xframe_category ss ac x)"

fun get_xframe_loop :: "nat list \<Rightarrow> xmit_priv \<Rightarrow> int \<times> xframe option" where
  "get_xframe_loop [] x = (0, None)"
| "get_xframe_loop (ac # acs) x =
     (case get_xframe_category (sta_queue x ac) ac x of Some r \<Rightarrow> r | None \<Rightarrow> get_xframe_loop acs x)"

definition rtw_get_xframe :: "bool \<Rightarrow> xmit_priv \<Rightarrow> int \<times> xframe option" where
  "rtw_get_xframe wifi_spec x = (if wifi_spec then (0, None) else get_xframe_loop (take (HWXMIT_ENTRY - 1) [0, 1, 2, 3]) x)"

definition rtw_txframes_pending :: "xmit_priv \<Rightarrow> bool" where
  "rtw_txframes_pending x \<longleftrightarrow>
     sta_queue x 2 \<noteq> [] \<or> sta_queue x 3 \<noteq> [] \<or> sta_queue x 1 \<noteq> [] \<or> sta_queue x 0 \<noteq> [] \<or> sta_queue x mgmt_idx \<noteq> []"

definition rtw_txframes_sta_ac_pending :: "(bytes \<Rightarrow> nat option) \<Rightarrow> xmit_priv \<Rightarrow> xframe \<Rightarrow> int" where
  "rtw_txframes_sta_ac_pending look x f =
     (case xmit_receiver look x f of
        None \<Rightarrow> 0
      | Some s \<Rightarrow>
          qcnt (servq (stas x s)
            (if xf_priority f \<in> {1, 2} then 3 else if xf_priority f \<in> {4, 5} then 1
             else if xf_priority f \<in> {6, 7} then 0 else 2)))"

section \<open>Invariant\<close>

text \<open>A station is linked in a category, once, exactly when it has frames there; the counters count them.\<close>

definition tx_inv :: "xmit_priv \<Rightarrow> bool" where
  "tx_inv x \<longleftrightarrow>
     (\<forall>ac. distinct (sta_queue x ac) \<and> (\<forall>s. s \<in> set (sta_queue x ac) \<longleftrightarrow> pending x s ac \<noteq> []) \<and>
       (\<forall>s. qcnt (servq (stas x s) ac) = int (length (pending x s ac))) \<and>
       accnt x ac = (\<Sum>s\<leftarrow>sta_queue x ac. int (length (pending x s ac))))"

lemma tx_invD:
  assumes "tx_inv x"
  shows "distinct (sta_queue x ac)" "s \<in> set (sta_queue x ac) \<longleftrightarrow> pending x s ac \<noteq> []"
    "qcnt (servq (stas x s) ac) = int (length (pending x s ac))"
    "accnt x ac = (\<Sum>s\<leftarrow>sta_queue x ac. int (length (pending x s ac)))"
  using assms unfolding tx_inv_def by blast+

named_theorems tx_simps \<open>what an update of the transmit state leaves alone\<close>

lemma upd_servq_pending [tx_simps]:
  "pending (upd_servq s ac g x) s' ac' = (if s' = s \<and> ac' = ac then sta_pending (g (servq (stas x s) ac)) else pending x s' ac')"
  by (simp add: pending_def upd_servq_def upd_sta_def)

lemma upd_servq_qcnt [tx_simps]:
  "qcnt (servq (stas (upd_servq s ac g x) s') ac') =
     (if s' = s \<and> ac' = ac then qcnt (g (servq (stas x s) ac)) else qcnt (servq (stas x s') ac'))"
  by (simp add: upd_servq_def upd_sta_def)

lemma upd_servq_other [tx_simps]:
  "sta_queue (upd_servq s ac g x) = sta_queue x" "accnt (upd_servq s ac g x) = accnt x"
  by (simp_all add: upd_servq_def upd_sta_def)

lemma upd_accnt_other [tx_simps]:
  "pending (upd_accnt ac d x) = pending x" "sta_queue (upd_accnt ac d x) = sta_queue x"
  "stas (upd_accnt ac d x) = stas x" "accnt (upd_accnt ac d x) ac' = (if ac' = ac then accnt x ac + d else accnt x ac')"
  by (simp_all add: upd_accnt_def pending_def fun_eq_iff)

lemma link_sta_other [tx_simps]:
  "pending (link_sta s ac x) = pending x" "stas (link_sta s ac x) = stas x" "accnt (link_sta s ac x) = accnt x"
  "sta_queue (link_sta s ac x) ac' = (if ac' = ac then sta_queue x ac @ [s] else sta_queue x ac')"
  by (simp_all add: link_sta_def pending_def fun_eq_iff)

lemma unlink_sta_other [tx_simps]:
  "pending (unlink_sta s ac x) = pending x" "stas (unlink_sta s ac x) = stas x" "accnt (unlink_sta s ac x) = accnt x"
  "sta_queue (unlink_sta s ac x) ac' = (if ac' = ac then remove1 s (sta_queue x ac) else sta_queue x ac')"
  by (simp_all add: unlink_sta_def pending_def fun_eq_iff)

lemma pendings_upd:
  "distinct ss \<Longrightarrow> s \<in> set ss \<Longrightarrow>
     (\<Sum>t\<leftarrow>ss. int (length (if t = s then ys else p t))) =
     (\<Sum>t\<leftarrow>ss. int (length (p t))) - int (length (p s)) + int (length ys)"
proof (induction ss)
  case (Cons a ss)
  have "(\<Sum>t\<leftarrow>ss. int (length (if t = s then ys else p t))) = (\<Sum>t\<leftarrow>ss. int (length (p t)))" if "s \<notin> set ss"
    using that by (intro arg_cong [where f = sum_list] map_cong) auto
  with Cons show ?case by (cases "a = s") auto
qed simp

lemma pendings_notin:
  "s \<notin> set ss \<Longrightarrow> (\<Sum>t\<leftarrow>ss. int (length (if t = s then ys else p t))) = (\<Sum>t\<leftarrow>ss. int (length (p t)))"
  by (induction ss) auto

text \<open>Entering a queue appends the frame and keeps the invariant.\<close>

lemma enqueue_servq_pending:
  "pending (enqueue_servq s ac f x) s' ac' = (if s' = s \<and> ac' = ac then pending x s ac @ [f] else pending x s' ac')"
  by (simp add: enqueue_servq_def Let_def tx_simps pending_def [of _ s ac])

lemma enqueue_servq_queue:
  "sta_queue (enqueue_servq s ac f x) ac' =
     (if ac' = ac \<and> s \<notin> set (sta_queue x ac) then sta_queue x ac @ [s] else sta_queue x ac')"
  by (simp add: enqueue_servq_def Let_def tx_simps)

lemma enqueue_servq_counts:
  "qcnt (servq (stas (enqueue_servq s ac f x) s') ac') =
     qcnt (servq (stas x s') ac') + (if s' = s \<and> ac' = ac then 1 else 0)"
  "accnt (enqueue_servq s ac f x) ac' = accnt x ac' + (if ac' = ac then 1 else 0)"
  by (simp_all add: enqueue_servq_def Let_def tx_simps)

lemma enqueue_servq_inv:
  assumes inv: "tx_inv x"
  shows "tx_inv (enqueue_servq s ac f x)"
  unfolding tx_inv_def
proof (intro allI conjI)
  fix a t
  note D = tx_invD [OF inv]
  let ?x = "enqueue_servq s ac f x"
  show "distinct (sta_queue ?x a)"
    using D(1) by (simp add: enqueue_servq_queue)
  show "t \<in> set (sta_queue ?x a) \<longleftrightarrow> pending ?x t a \<noteq> []"
    using D(2) [of t a] by (auto simp: enqueue_servq_queue enqueue_servq_pending)
  show "qcnt (servq (stas ?x t) a) = int (length (pending ?x t a))"
    using D(3) [of t a] by (simp add: enqueue_servq_counts enqueue_servq_pending)
  show "accnt ?x a = (\<Sum>t\<leftarrow>sta_queue ?x a. int (length (pending ?x t a)))"
  proof (cases "a = ac")
    case True
    have pend: "int (length (pending ?x t ac)) = int (length (if t = s then pending x s ac @ [f] else pending x t ac))" for t
      by (simp add: enqueue_servq_pending)
    show ?thesis
    proof (cases "s \<in> set (sta_queue x ac)")
      case in_q: True
      show ?thesis
        unfolding True pend using pendings_upd [OF D(1) in_q, of "pending x s ac @ [f]" "\<lambda>t. pending x t ac"] D(4) [of ac] in_q
        by (simp add: enqueue_servq_queue enqueue_servq_counts)
    next
      case out_q: False
      then have "pending x s ac = []" using D(2) [of s ac] by simp
      then show ?thesis
        unfolding True pend using pendings_notin [OF out_q, of "pending x s ac @ [f]" "\<lambda>t. pending x t ac"] D(4) [of ac] out_q
        by (simp add: enqueue_servq_queue enqueue_servq_counts)
    qed
  next
    case False
    then show ?thesis
      using D(4) [of a] by (simp add: enqueue_servq_queue enqueue_servq_counts enqueue_servq_pending)
  qed
qed

text \<open>Leaving: the first linked station of a category gives up its oldest frame.\<close>

lemma dequeue_category_Cons:
  assumes inv: "tx_inv x" and q: "sta_queue x ac = s # ss" and p: "pending x s ac = f # fs"
  shows "\<exists>x'. dequeue_category (sta_queue x ac) ac x = (Some f, x') \<and> tx_inv x' \<and>
    (\<forall>t a. pending x' t a = (if t = s \<and> a = ac then fs else pending x t a)) \<and>
    (\<forall>a. sta_queue x' a = (if a = ac then if fs = [] then ss else s # ss else sta_queue x a))"
proof -
  note D = tx_invD [OF inv]
  define y where "y = upd_accnt ac (-1) (upd_servq s ac (\<lambda>q. q\<lparr>sta_pending := fs, qcnt := qcnt q - 1\<rparr>) x)"
  define x' where "x' = (if pending y s ac = [] then unlink_sta s ac y else y)"
  have step: "dequeue_category (sta_queue x ac) ac x = (Some f, x')"
    by (simp add: q dequeue_one_xmitframe_def p x'_def y_def Let_def)
  have pend: "pending x' t a = (if t = s \<and> a = ac then fs else pending x t a)" for t a
    by (simp add: x'_def y_def tx_simps)
  have queue: "sta_queue x' a = (if a = ac then if fs = [] then ss else s # ss else sta_queue x a)" for a
    by (simp add: x'_def y_def tx_simps q)
  have qc: "qcnt (servq (stas x' t) a) = qcnt (servq (stas x t) a) - (if t = s \<and> a = ac then 1 else 0)" for t a
    by (simp add: x'_def y_def tx_simps)
  have acc: "accnt x' a = accnt x a - (if a = ac then 1 else 0)" for a
    by (simp add: x'_def y_def tx_simps)
  have sum: "accnt x ac = int (length fs) + 1 + (\<Sum>t\<leftarrow>ss. int (length (pending x t ac)))"
    using D(4) [of ac] q p by simp
  have ss: "s \<notin> set ss" "distinct ss"
    using D(1) [of ac] q by auto
  have rest: "(\<Sum>t\<leftarrow>ss. int (length (pending x' t ac))) = (\<Sum>t\<leftarrow>ss. int (length (pending x t ac)))"
    using ss(1) by (intro arg_cong [where f = sum_list] map_cong) (auto simp: pend)
  have "tx_inv x'"
    unfolding tx_inv_def
  proof (intro allI conjI)
    fix a t
    show "distinct (sta_queue x' a)"
      using D(1) [of a] ss by (simp add: queue q)
    show "t \<in> set (sta_queue x' a) \<longleftrightarrow> pending x' t a \<noteq> []"
      using D(2) [of t a] q ss by (auto simp: queue pend)
    show "qcnt (servq (stas x' t) a) = int (length (pending x' t a))"
      using D(3) [of t a] p by (simp add: qc pend)
    show "accnt x' a = (\<Sum>t\<leftarrow>sta_queue x' a. int (length (pending x' t a)))"
    proof (cases "a = ac")
      case True
      have head: "int (length (pending x' s ac)) = int (length fs)"
        by (simp add: pend)
      show ?thesis
        unfolding True acc queue sum using head rest by simp
    next
      case False
      then show ?thesis
        using D(4) [of a] by (simp add: acc queue pend)
    qed
  qed
  with step pend queue show ?thesis by blast
qed

lemma dequeue_category_Nil: "sta_queue x ac = [] \<Longrightarrow> dequeue_category (sta_queue x ac) ac x = (None, x)"
  by simp

section \<open>Order of transmission\<close>

text \<open>\<open>f\<close> is the frame that the order \<open>acs\<close> of categories serves next: the categories before its own are empty,
  its station is the first one linked there, and it is the oldest frame of the station. \<open>x'\<close> is \<open>x\<close> without it.\<close>

definition serves :: "xmit_priv \<Rightarrow> nat list \<Rightarrow> xframe \<Rightarrow> xmit_priv \<Rightarrow> bool" where
  "serves x acs f x' \<longleftrightarrow>
     (\<exists>pre ac post s ss fs. acs = pre @ ac # post \<and> (\<forall>a \<in> set pre. \<forall>t. pending x t a = []) \<and>
        sta_queue x ac = s # ss \<and> pending x s ac = f # fs \<and>
        (\<forall>t a. pending x' t a = (if t = s \<and> a = ac then fs else pending x t a)))"

lemma serves_Cons:
  assumes "\<forall>t. pending x t a = []" "serves x acs f x'"
  shows "serves x (a # acs) f x'"
proof -
  obtain pre ac post s ss fs where "acs = pre @ ac # post" "\<forall>a \<in> set pre. \<forall>t. pending x t a = []"
    "sta_queue x ac = s # ss" "pending x s ac = f # fs"
    "\<forall>t a. pending x' t a = (if t = s \<and> a = ac then fs else pending x t a)"
    using assms(2) unfolding serves_def by blast
  with assms(1) show ?thesis
    unfolding serves_def by (intro exI [of _ "a # pre"] exI [of _ ac] exI [of _ post] exI [of _ s] exI) auto
qed

lemma servesI:
  assumes "sta_queue x ac = s # ss" "pending x s ac = f # fs"
    and "\<forall>t a. pending x' t a = (if t = s \<and> a = ac then fs else pending x t a)"
  shows "serves x (ac # acs) f x'"
  unfolding serves_def using assms by (intro exI [of _ "[]"] exI [of _ ac] exI [of _ acs] exI [of _ s] exI) auto

lemma dequeue_category_serves:
  assumes "tx_inv x"
  shows "(\<forall>s. pending x s ac = []) \<and> dequeue_category (sta_queue x ac) ac x = (None, x) \<or>
    (\<exists>f x'. dequeue_category (sta_queue x ac) ac x = (Some f, x') \<and> tx_inv x' \<and> serves x (ac # acs) f x')"
proof (cases "sta_queue x ac")
  case Nil
  then show ?thesis
    using tx_invD(2) [OF assms, of _ ac] by simp
next
  case (Cons s ss)
  then obtain f fs where p: "pending x s ac = f # fs"
    using tx_invD(2) [OF assms, of s ac] by (cases "pending x s ac") auto
  from dequeue_category_Cons [OF assms Cons p] servesI [OF Cons p] show ?thesis by blast
qed

lemma dequeue_loop_serves:
  assumes "tx_inv x"
  shows "(\<forall>ac \<in> set acs. \<forall>s. pending x s ac = []) \<and> dequeue_loop acs x = (None, x) \<or>
    (\<exists>f x'. dequeue_loop acs x = (Some f, x') \<and> tx_inv x' \<and> serves x acs f x')"
proof (induction acs)
  case (Cons ac acs)
  from dequeue_category_serves [OF assms, of ac acs] show ?case
  proof (elim disjE exE conjE)
    assume empty: "\<forall>s. pending x s ac = []" and none: "dequeue_category (sta_queue x ac) ac x = (None, x)"
    from none have "dequeue_loop (ac # acs) x = dequeue_loop acs x" by simp
    with Cons empty serves_Cons [OF empty] show ?thesis by auto
  qed auto
qed simp

text \<open>C26. The hardware gets frames in strict order of the categories: a frame of a category leaves only when all
  categories before it are empty, it is the oldest frame of its station there, and the call returns nothing
  only when nothing waits.\<close>

theorem rtw_dequeue_xframe_priority:
  assumes "tx_inv x" "length wmm_para_seq = 4" "inx = (if wifi_spec then wmm_para_seq else [0, 1, 2, 3])"
  shows "(\<forall>ac \<in> set inx. \<forall>s. pending x s ac = []) \<and>
      rtw_dequeue_xframe wifi_spec wmm_para_seq HWXMIT_ENTRY x = (None, x) \<or>
    (\<exists>f x'. rtw_dequeue_xframe wifi_spec wmm_para_seq HWXMIT_ENTRY x = (Some f, x') \<and> tx_inv x' \<and> serves x inx f x')"
proof -
  have "rtw_dequeue_xframe wifi_spec wmm_para_seq HWXMIT_ENTRY x = dequeue_loop inx x"
    using assms(2,3) by (simp add: rtw_dequeue_xframe_def HWXMIT_ENTRY_def)
  with dequeue_loop_serves [OF assms(1), of inx] show ?thesis by simp
qed

text \<open>The frame that \<open>rtw_get_xframe\<close> shows is the one that leaves next, with the number of frames behind it.\<close>

lemma get_xframe_category_inv:
  assumes "tx_inv x"
  shows "get_xframe_category (sta_queue x ac) ac x =
    (case sta_queue x ac of [] \<Rightarrow> None | s # _ \<Rightarrow> Some (int (length (pending x s ac)), Some (hd (pending x s ac))))"
proof (cases "sta_queue x ac")
  case (Cons s ss)
  then have "pending x s ac \<noteq> []"
    using tx_invD(2) [OF assms, of s ac] by simp
  then show ?thesis
    using Cons tx_invD(3) [OF assms, of s ac] by (cases "pending x s ac") simp_all
qed simp

lemma get_xframe_loop_next:
  assumes "tx_inv x"
  shows "snd (get_xframe_loop acs x) = fst (dequeue_loop acs x)"
proof (induction acs)
  case (Cons ac acs)
  show ?case
  proof (cases "sta_queue x ac")
    case Nil
    then show ?thesis using Cons get_xframe_category_inv [OF assms, of ac] by simp
  next
    case (Cons s ss)
    then obtain f fs where p: "pending x s ac = f # fs"
      using tx_invD(2) [OF assms, of s ac] by (cases "pending x s ac") auto
    from dequeue_category_Cons [OF assms Cons p] show ?thesis
      using get_xframe_category_inv [OF assms, of ac] Cons p by auto
  qed
qed simp

lemma rtw_get_xframe_next:
  assumes "tx_inv x"
  shows "snd (rtw_get_xframe False x) = fst (rtw_dequeue_xframe False wmm_para_seq HWXMIT_ENTRY x)"
  using get_xframe_loop_next [OF assms, of "[0, 1, 2, 3]"]
  by (simp add: rtw_get_xframe_def rtw_dequeue_xframe_def HWXMIT_ENTRY_def del: get_xframe_loop.simps dequeue_loop.simps)

lemma rtw_txframes_pending_iff:
  assumes "tx_inv x"
  shows "rtw_txframes_pending x \<longleftrightarrow> (\<exists>s. \<exists>ac < HWXMIT_ENTRY. pending x s ac \<noteq> [])"
proof -
  have "sta_queue x ac \<noteq> [] \<longleftrightarrow> (\<exists>s. pending x s ac \<noteq> [])" for ac
    using tx_invD(2) [OF assms, of _ ac] by (cases "sta_queue x ac") auto
  moreover have "ac < HWXMIT_ENTRY \<longleftrightarrow> ac \<in> {0, 1, 2, 3, 4}" for ac
    by (auto simp: HWXMIT_ENTRY_def)
  ultimately show ?thesis
    by (simp add: rtw_txframes_pending_def mgmt_idx_def HWXMIT_ENTRY_def) blast
qed

text \<open>A queue that is emptied and unlinked keeps the invariant when the counters follow.\<close>

lemma tx_inv_emptyI:
  assumes inv: "tx_inv x" and pend: "\<And>t a. pending x' t a = (if t = s \<and> a = ac then [] else pending x t a)"
    and queue: "\<And>a. sta_queue x' a = (if a = ac then remove1 s (sta_queue x ac) else sta_queue x a)"
    and cnt: "\<And>t a. qcnt (servq (stas x' t) a) = (if t = s \<and> a = ac then 0 else qcnt (servq (stas x t) a))"
    and acc: "\<And>a. accnt x' a = accnt x a - (if a = ac then int (length (pending x s ac)) else 0)"
  shows "tx_inv x'"
proof -
  note D = tx_invD [OF inv]
  have sum: "(\<Sum>t\<leftarrow>remove1 s (sta_queue x ac). int (length (pending x' t ac))) =
      (\<Sum>t\<leftarrow>sta_queue x ac. int (length (pending x t ac))) - int (length (pending x s ac))"
  proof -
    have "(\<Sum>t\<leftarrow>remove1 s (sta_queue x ac). int (length (pending x' t ac))) =
        (\<Sum>t\<leftarrow>remove1 s (sta_queue x ac). int (length (pending x t ac)))"
      using D(1) [of ac] by (intro arg_cong [where f = sum_list] map_cong) (auto simp: pend)
    also have "\<dots> = (\<Sum>t\<leftarrow>sta_queue x ac. int (length (pending x t ac))) - int (length (pending x s ac))"
      using D(2) [of s ac] by (cases "s \<in> set (sta_queue x ac)") (auto simp: sum_list_map_remove1 remove1_idem)
    finally show ?thesis .
  qed
  show "tx_inv x'"
    unfolding tx_inv_def
  proof (intro allI conjI)
    fix a t
    show "distinct (sta_queue x' a)"
      using D(1) by (simp add: queue)
    show "t \<in> set (sta_queue x' a) \<longleftrightarrow> pending x' t a \<noteq> []"
      using D(1,2) by (auto simp: queue pend)
    show "qcnt (servq (stas x' t) a) = int (length (pending x' t a))"
      using D(3) [of t a] by (simp add: pend cnt)
    show "accnt x' a = (\<Sum>t\<leftarrow>sta_queue x' a. int (length (pending x' t a)))"
      using D(4) [of a] sum by (cases "a = ac") (simp_all add: queue acc pend)
  qed
qed

section \<open>Runs\<close>

datatype tx_op = Tx_data xframe | Tx_mgmt xframe | Tx_deq | Tx_deq_mgmt

text \<open>One operation: the frames it admits, each with its queue, those it hands to the hardware, and the state
  afterwards.\<close>

fun tx_exec :: "(bytes \<Rightarrow> nat option) \<Rightarrow> bool \<Rightarrow> nat list \<Rightarrow> tx_op \<Rightarrow> xmit_priv \<Rightarrow>
    (nat \<times> xframe) list \<times> (nat \<times> xframe) list \<times> xmit_priv" where
  "tx_exec look wifi_spec seq (Tx_data f) x =
     (case rtl8188fu_hal_xmitframe_enqueue look x f of
        (ok, x') \<Rightarrow> (if ok then [(rtw_get_sta_pending (xf_priority f), f)] else [], [], x'))"
| "tx_exec look wifi_spec seq (Tx_mgmt f) x =
     (case rtl8188fu_hal_mgmt_xmitframe_enqueue look x f of (ok, x') \<Rightarrow> (if ok then [(mgmt_idx, f)] else [], [], x'))"
| "tx_exec look wifi_spec seq Tx_deq x =
     (case rtw_dequeue_xframe wifi_spec seq HWXMIT_ENTRY x of
        (None, x') \<Rightarrow> ([], [], x') | (Some f, x') \<Rightarrow> ([], [(rtw_get_sta_pending (xf_priority f), f)], x'))"
| "tx_exec look wifi_spec seq Tx_deq_mgmt x =
     (case rtw_dequeue_mgmt_xframe x of (None, x') \<Rightarrow> ([], [], x') | (Some f, x') \<Rightarrow> ([], [(mgmt_idx, f)], x'))"

fun tx_run :: "(bytes \<Rightarrow> nat option) \<Rightarrow> bool \<Rightarrow> nat list \<Rightarrow> tx_op list \<Rightarrow> xmit_priv \<Rightarrow>
    (nat \<times> xframe) list \<times> (nat \<times> xframe) list \<times> xmit_priv" where
  "tx_run look wifi_spec seq [] x = ([], [], x)"
| "tx_run look wifi_spec seq (opn # ops) x =
     (case tx_exec look wifi_spec seq opn x of (i1, o1, x1) \<Rightarrow>
      case tx_run look wifi_spec seq ops x1 of (i2, o2, x2) \<Rightarrow> (i1 @ i2, o1 @ o2, x2))"

text \<open>A frame in a queue belongs there: its station is the station of the queue, and its priority gives the
  category unless it is a management frame.\<close>

definition tx_home :: "xmit_priv \<Rightarrow> bool" where
  "tx_home x \<longleftrightarrow> (\<forall>s ac. \<forall>f \<in> set (pending x s ac).
     xf_psta f = Some s \<and> (ac = mgmt_idx \<or> ac = rtw_get_sta_pending (xf_priority f)))"

definition tx_of :: "nat \<Rightarrow> nat \<Rightarrow> (nat \<times> xframe) list \<Rightarrow> xframe list" where
  "tx_of s ac fs = map snd (filter (\<lambda>(a, f). a = ac \<and> xf_psta f = Some s) fs)"

lemma tx_of_simps [simp]:
  "tx_of s ac [] = []"
  "tx_of s ac ((a, f) # fs) = (if a = ac \<and> xf_psta f = Some s then f # tx_of s ac fs else tx_of s ac fs)"
  "tx_of s ac (fs @ gs) = tx_of s ac fs @ tx_of s ac gs"
  by (simp_all add: tx_of_def)

lemma free_xmitframe_same [tx_simps]:
  "stas (rtw_free_xmitframe x f) = stas x" "sta_queue (rtw_free_xmitframe x f) = sta_queue x"
  "accnt (rtw_free_xmitframe x f) = accnt x"
  by (simp_all add: rtw_free_xmitframe_def)

lemma free_xmitframe_pending [tx_simps]: "pending (rtw_free_xmitframe x f) = pending x"
  by (simp add: pending_def tx_simps fun_eq_iff)

lemma tx_inv_cong:
  "stas y = stas x \<Longrightarrow> sta_queue y = sta_queue x \<Longrightarrow> accnt y = accnt x \<Longrightarrow> tx_inv y = tx_inv x"
  by (simp add: tx_inv_def pending_def)

lemma pending_cong: "stas y = stas x \<Longrightarrow> pending y = pending x"
  by (simp add: pending_def fun_eq_iff)

lemma xmit_receiver_Some: "xmit_receiver look x f = Some s \<Longrightarrow> xf_psta f = Some s \<and> asoc (stas x s)"
  by (auto simp: xmit_receiver_def Let_def split: if_splits option.splits)

lemma pending_ac_not_mgmt [simp]: "rtw_get_sta_pending p \<noteq> mgmt_idx" "rtw_get_sta_pending p < mgmt_idx"
  by (auto simp: rtw_get_sta_pending_def mgmt_idx_def HWXMIT_ENTRY_def)

lemma tx_home_cong: "pending y = pending x \<Longrightarrow> tx_home y = tx_home x"
  by (simp add: tx_home_def)

lemma tx_homeD:
  assumes "tx_home x" "f \<in> set (pending x s ac)"
  shows "xf_psta f = Some s" "ac = mgmt_idx \<or> ac = rtw_get_sta_pending (xf_priority f)"
  using assms unfolding tx_home_def by blast+

text \<open>What an operation does to the queue of one station and category.\<close>

definition tx_step_ok :: "(nat \<times> xframe) list \<Rightarrow> (nat \<times> xframe) list \<Rightarrow> xmit_priv \<Rightarrow> xmit_priv \<Rightarrow> bool" where
  "tx_step_ok ins outs x x' \<longleftrightarrow> tx_inv x' \<and> tx_home x' \<and>
     (\<forall>s ac. tx_of s ac outs @ pending x' s ac = pending x s ac @ tx_of s ac ins)"

lemma tx_step_enqueue:
  assumes "tx_inv x" "tx_home x" "xf_psta f = Some s" "ac = mgmt_idx \<or> ac = rtw_get_sta_pending (xf_priority f)"
  shows "tx_step_ok [(ac, f)] [] x (enqueue_servq s ac f x)"
  using assms by (auto simp: tx_step_ok_def enqueue_servq_inv tx_home_def enqueue_servq_pending)

lemma tx_step_drop:
  assumes "tx_inv x" "tx_home x" "stas x' = stas x" "sta_queue x' = sta_queue x" "accnt x' = accnt x"
  shows "tx_step_ok [] [] x x'"
  using assms tx_inv_cong [of x' x] tx_home_cong [of x' x] pending_cong [of x' x] by (simp add: tx_step_ok_def)

lemma tx_step_serves:
  assumes "tx_home x" "tx_inv x'" "serves x acs f x'"
    and "\<And>ac. ac \<in> set acs \<Longrightarrow> ac = mgmt_idx \<or> ac = rtw_get_sta_pending (xf_priority f) \<Longrightarrow> ac = a"
  shows "tx_step_ok [] [(a, f)] x x'"
proof -
  obtain pre ac post s ss fs where sv: "acs = pre @ ac # post" "pending x s ac = f # fs"
    "\<forall>t a. pending x' t a = (if t = s \<and> a = ac then fs else pending x t a)"
    using assms(3) unfolding serves_def by blast
  have f: "xf_psta f = Some s" "ac = mgmt_idx \<or> ac = rtw_get_sta_pending (xf_priority f)"
    using tx_homeD [OF assms(1), of f s ac] sv(2) by simp_all
  then have "ac = a"
    using assms(4) sv(1) by simp
  moreover have "set (pending x' t b) \<subseteq> set (pending x t b)" for t b
    using sv(2,3) by auto
  then have "tx_home x'"
    using assms(1) unfolding tx_home_def by blast
  ultimately show ?thesis
    using assms(2) sv f by (auto simp: tx_step_ok_def)
qed

lemma tx_exec_step:
  assumes inv: "tx_inv x" "tx_home x" and seq: "length seq = 4" "set seq \<subseteq> {..<4}"
    and exec: "tx_exec look wifi_spec seq opn x = (ins, outs, x')"
  shows "tx_step_ok ins outs x x'"
proof (cases opn)
  case (Tx_data f)
  show ?thesis
  proof (cases "xmit_receiver look x f")
    case None
    then show ?thesis
      using exec Tx_data inv
      by (auto simp: rtl8188fu_hal_xmitframe_enqueue_def rtw_xmit_classifier_def Let_def tx_simps intro: tx_step_drop)
  next
    case (Some s)
    then show ?thesis
      using exec Tx_data inv xmit_receiver_Some [OF Some] tx_step_enqueue
      by (auto simp: rtl8188fu_hal_xmitframe_enqueue_def rtw_xmit_classifier_def)
  qed
next
  case (Tx_mgmt f)
  show ?thesis
  proof (cases "xmit_receiver look x f")
    case None
    then show ?thesis
      using exec Tx_mgmt inv
      by (auto simp: rtl8188fu_hal_mgmt_xmitframe_enqueue_def rtw_mgmt_xmitframe_enqueue_def Let_def tx_simps
          intro: tx_step_drop)
  next
    case (Some s)
    then show ?thesis
      using exec Tx_mgmt inv xmit_receiver_Some [OF Some] tx_step_enqueue
      by (auto simp: rtl8188fu_hal_mgmt_xmitframe_enqueue_def rtw_mgmt_xmitframe_enqueue_def)
  qed
next
  case Tx_deq
  define inx where "inx = (if wifi_spec then seq else [0, 1, 2, 3])"
  have deq: "rtw_dequeue_xframe wifi_spec seq HWXMIT_ENTRY x = dequeue_loop inx x"
    using seq(1) by (simp add: rtw_dequeue_xframe_def inx_def HWXMIT_ENTRY_def)
  have "mgmt_idx \<notin> set inx"
    using seq(2) by (auto simp: inx_def mgmt_idx_def HWXMIT_ENTRY_def)
  then have ac: "ac = a" if "ac \<in> set inx" "ac = mgmt_idx \<or> ac = a" for ac a
    using that by auto
  from dequeue_loop_serves [OF inv(1), of inx] show ?thesis
  proof (elim disjE exE conjE)
    assume "dequeue_loop inx x = (None, x)"
    then show ?thesis using exec Tx_deq deq inv by (auto intro: tx_step_drop)
  next
    fix f y
    assume "dequeue_loop inx x = (Some f, y)" "tx_inv y" "serves x inx f y"
    then show ?thesis using exec Tx_deq deq inv tx_step_serves [OF inv(2), of y inx f, OF _ _ ac] by auto
  qed
next
  case Tx_deq_mgmt
  from dequeue_category_serves [OF inv(1), of mgmt_idx "[]"] show ?thesis
  proof (elim disjE exE conjE)
    assume "dequeue_category (sta_queue x mgmt_idx) mgmt_idx x = (None, x)"
    then show ?thesis using exec Tx_deq_mgmt inv by (auto simp: rtw_dequeue_mgmt_xframe_def intro: tx_step_drop)
  next
    fix f y
    assume "dequeue_category (sta_queue x mgmt_idx) mgmt_idx x = (Some f, y)" "tx_inv y" "serves x [mgmt_idx] f y"
    then show ?thesis
      using exec Tx_deq_mgmt inv tx_step_serves [OF inv(2), of y "[mgmt_idx]" f mgmt_idx]
      by (auto simp: rtw_dequeue_mgmt_xframe_def)
  qed
qed

lemma tx_run_ok:
  assumes "length seq = 4" "set seq \<subseteq> {..<4}"
  shows "tx_inv x \<Longrightarrow> tx_home x \<Longrightarrow> tx_run look wifi_spec seq ops x = (ins, outs, x') \<Longrightarrow> tx_step_ok ins outs x x'"
proof (induction ops arbitrary: x ins outs)
  case Nil
  then show ?case by (auto intro: tx_step_drop)
next
  case (Cons opn ops)
  obtain i1 o1 x1 where e: "tx_exec look wifi_spec seq opn x = (i1, o1, x1)"
    by (metis prod_cases3)
  obtain i2 o2 where r: "tx_run look wifi_spec seq ops x1 = (i2, o2, x')" "ins = i1 @ i2" "outs = o1 @ o2"
    using Cons.prems(3) e by (auto split: prod.splits)
  have s1: "tx_step_ok i1 o1 x x1"
    using tx_exec_step [OF Cons.prems(1,2) assms e] .
  then have s2: "tx_step_ok i2 o2 x1 x'"
    using Cons.IH [OF _ _ r(1)] unfolding tx_step_ok_def by blast
  have "tx_of s ac (o1 @ o2) @ pending x' s ac = pending x s ac @ tx_of s ac (i1 @ i2)" for s ac
  proof -
    have "tx_of s ac (o1 @ o2) @ pending x' s ac = tx_of s ac o1 @ (pending x1 s ac @ tx_of s ac i2)"
      using s2 by (simp add: tx_step_ok_def)
    also have "\<dots> = (tx_of s ac o1 @ pending x1 s ac) @ tx_of s ac i2"
      by simp
    also have "\<dots> = pending x s ac @ tx_of s ac (i1 @ i2)"
      using s1 by (simp add: tx_step_ok_def)
    finally show ?thesis .
  qed
  with s2 r show ?case by (simp add: tx_step_ok_def)
qed

text \<open>C4. First in, first out: over any run of enqueue and dequeue operations, the frames of one station and category
  that reach the hardware, followed by those that still wait, are the frames that waited at the start followed by
  those admitted since. No frame is lost, duplicated or overtaken, and the counters stay right.\<close>

theorem tx_run_fifo:
  assumes "length seq = 4" "set seq \<subseteq> {..<4}" "tx_inv x" "tx_home x"
    and "tx_run look wifi_spec seq ops x = (ins, outs, x')"
  shows "tx_inv x' \<and> (\<forall>s ac. tx_of s ac outs @ pending x' s ac = pending x s ac @ tx_of s ac ins)"
  using tx_run_ok [OF assms(1,2) assms(3-5)] by (simp add: tx_step_ok_def)

section \<open>Examples\<close>

text \<open>An access point with the broadcast station 0 and an associated station 1 that has a voice, a background and
  a management frame waiting.\<close>

definition ex_mac :: bytes where "ex_mac = [2, 0, 0, 0, 0, 1]"

definition ex_frame :: "nat \<Rightarrow> nat \<Rightarrow> bytes \<Rightarrow> nat \<Rightarrow> xframe" where
  "ex_frame no s ra prio = \<lparr>xf_no = no, xf_ext = False, xf_buf = None, xf_ra = ra, xf_psta = Some s, xf_priority = prio,
     xf_triggered = False, xf_mdata = False, xf_eosp = False, xf_high = False, xf_ps_dontq = False, xf_ether_type = 0x0800,
     xf_dhcp = False\<rparr>"

definition ex_sta :: "nat \<Rightarrow> sta_xmit" where
  "ex_sta i = \<lparr>servq = \<lambda>_. \<lparr>sta_pending = [], qcnt = 0\<rparr>, sleep_q = [], sleepq_len = 0, mgmt_sleep_q = [], mgmt_sleepq_len = 0,
     sleepq_ac_len = 0, uapsd = \<lambda>_. 0, has_legacy_ac = True, asoc = True, sleeping = False, alive_chk = False, expire_to = 0,
     aid = i\<rparr>"

definition ex_tx :: xmit_priv where
  "ex_tx = \<lparr>stas = ex_sta, sta_queue = \<lambda>_. [], accnt = \<lambda>_. 0, free_xmit_queue = [], free_xmitframe_cnt = 0,
     free_xframe_ext_queue = [], free_xframe_ext_cnt = 0, free_xmit_extbuf_queue = [], free_xmit_extbuf_cnt = 0, tx_drop = 0,
     sta_dz_bitmap = [0, 0], tim_bitmap = [0, 0], tim_updates = 0\<rparr>"

definition ex_look :: "bytes \<Rightarrow> nat option" where
  "ex_look a = (if a = bc_addr then Some 0 else if a = ex_mac then Some 1 else None)"

definition ex_ops :: "tx_op list" where
  "ex_ops = [Tx_data (ex_frame 1 1 ex_mac 1), Tx_mgmt (ex_frame 2 1 ex_mac 0), Tx_data (ex_frame 3 1 ex_mac 6),
     Tx_data (ex_frame 4 0 bc_addr 0)]"

definition ex_full :: xmit_priv where
  "ex_full = enqueue_servq 0 2 (ex_frame 4 0 bc_addr 0) (enqueue_servq 1 0 (ex_frame 3 1 ex_mac 6)
     (enqueue_servq 1 mgmt_idx (ex_frame 2 1 ex_mac 0) (enqueue_servq 1 3 (ex_frame 1 1 ex_mac 1) ex_tx)))"

lemma ex_tx_inv: "tx_inv ex_tx" "pending ex_tx s ac = []"
  by (simp_all add: tx_inv_def ex_tx_def ex_sta_def pending_def)

lemma ex_full_inv: "tx_inv ex_full"
  by (simp add: ex_full_def enqueue_servq_inv ex_tx_inv)

lemma ex_full_pending:
  "pending ex_full s ac =
     (if s = 0 \<and> ac = 2 then [ex_frame 4 0 bc_addr 0] else if s = 1 \<and> ac = 0 then [ex_frame 3 1 ex_mac 6]
      else if s = 1 \<and> ac = 3 then [ex_frame 1 1 ex_mac 1] else if s = 1 \<and> ac = 4 then [ex_frame 2 1 ex_mac 0] else [])"
  by (simp add: ex_full_def enqueue_servq_pending ex_tx_inv mgmt_idx_def HWXMIT_ENTRY_def)

lemma ex_mac_neq: "ex_mac \<noteq> bc_addr" "\<not> IS_MCAST ex_mac"
  by (simp_all add: ex_mac_def IS_MCAST_def)

lemma ex_full_home: "tx_home ex_full"
  by (auto simp: tx_home_def ex_full_pending ex_frame_def rtw_get_sta_pending_def mgmt_idx_def HWXMIT_ENTRY_def split: if_splits)

text \<open>The voice frame leaves before the others.\<close>

lemma ex_full_deq: "fst (rtw_dequeue_xframe False [0, 1, 2, 3] HWXMIT_ENTRY ex_full) = Some (ex_frame 3 1 ex_mac 6)"
  by (simp add: rtw_dequeue_xframe_def HWXMIT_ENTRY_def ex_full_def enqueue_servq_def upd_servq_def upd_sta_def
      link_sta_def upd_accnt_def Let_def ex_tx_def ex_sta_def dequeue_one_xmitframe_def pending_def mgmt_idx_def)

theorem rtw_dequeue_xframe_priority_witness:
  "\<exists>x'. rtw_dequeue_xframe False [0, 1, 2, 3] HWXMIT_ENTRY ex_full = (Some (ex_frame 3 1 ex_mac 6), x') \<and> tx_inv x' \<and>
     serves ex_full [0, 1, 2, 3] (ex_frame 3 1 ex_mac 6) x'"
  using rtw_dequeue_xframe_priority [OF ex_full_inv, of "[0, 1, 2, 3]" "[0, 1, 2, 3]" False] ex_full_deq by auto

theorem tx_run_fifo_witness:
  "\<forall>s ac. case tx_run ex_look False [0, 1, 2, 3] (ex_ops @ [Tx_deq]) ex_tx of (ins, outs, x') \<Rightarrow>
     tx_of s ac outs @ pending x' s ac = pending ex_tx s ac @ tx_of s ac ins"
proof -
  obtain ins outs x' where r: "tx_run ex_look False [0, 1, 2, 3] (ex_ops @ [Tx_deq]) ex_tx = (ins, outs, x')"
    by (metis prod_cases3)
  have "tx_home ex_tx" by (simp add: tx_home_def ex_tx_inv)
  with tx_run_fifo [OF _ _ ex_tx_inv(1) _ r] r show ?thesis by auto
qed

end
