(* ===== verification/Tx_Sleep.thy ===== *)
theory Tx_Sleep
  imports Tx_Queue
begin

text \<open>
  Frames for sleeping stations (\<open>core/rtw_xmit.c\<close>, the part for access points): when a station goes to sleep its
  frames move from the transmit queues to its sleep queues, frames for it that come later go there at once, and
  when it wakes up they go back. The theorem at the end is the round trip.
\<close>

section \<open>Sleeping stations\<close>

definition rtw_bmp_not_empty :: "bytes \<Rightarrow> bool" where
  "rtw_bmp_not_empty bmp = list_ex (\<lambda>b. b \<noteq> 0) bmp"

definition rtw_bmp_not_empty_exclude_bit0 :: "bytes \<Rightarrow> bool" where
  "rtw_bmp_not_empty_exclude_bit0 bmp =
     (case bmp of [] \<Rightarrow> False | b # bs \<Rightarrow> b AND 0xFE \<noteq> 0 \<or> list_ex (\<lambda>b. b \<noteq> 0) bs)"

datatype hiq_filter = HIQ_ALLOW_SPECIAL | HIQ_ALLOW_ALL | HIQ_DENY_ALL

definition xmitframe_hiq_filter :: "bool \<Rightarrow> hiq_filter \<Rightarrow> xframe \<Rightarrow> bool" where
  "xmitframe_hiq_filter wifi_spec filt f =
     (if wifi_spec then True
      else case filt of
        HIQ_ALLOW_SPECIAL \<Rightarrow> xf_ether_type f = 0x0806 \<or> xf_ether_type f = 0x888e \<or> xf_dhcp f
      | HIQ_ALLOW_ALL \<Rightarrow> True
      | HIQ_DENY_ALL \<Rightarrow> False)"

text \<open>The configuration that the functions below read: the mode of the interface, the two registry settings, the
  station table and the broadcast station.\<close>

record tx_env =
  env_ap :: bool
  env_wifi_spec :: bool
  env_hiq :: hiq_filter
  env_look :: "bytes \<Rightarrow> nat option"
  env_bmc :: "nat option"
  env_expire_to :: nat

text \<open>A bit of the traffic indication map is set, and the beacon rebuilt when the bit was clear.\<close>

definition tim_set :: "nat \<Rightarrow> xmit_priv \<Rightarrow> xmit_priv" where
  "tim_set i x =
     (let upd = \<not> rtw_bmp_is_set (tim_bitmap x) i; x = x\<lparr>tim_bitmap := rtw_bmp_set (tim_bitmap x) i\<rparr> in
      if upd then x\<lparr>tim_updates := Suc (tim_updates x)\<rparr> else x)"

definition sleep_append :: "nat \<Rightarrow> xframe \<Rightarrow> xmit_priv \<Rightarrow> xmit_priv" where
  "sleep_append s f x = upd_sta s (\<lambda>t. t\<lparr>sleep_q := sleep_q t @ [f], sleepq_len := sleepq_len t + 1\<rparr>) x"

definition xmitframe_enqueue_for_sleeping_sta :: "tx_env \<Rightarrow> xframe \<Rightarrow> xmit_priv \<Rightarrow> bool \<times> xframe \<times> xmit_priv" where
  "xmitframe_enqueue_for_sleeping_sta e f x =
     (if \<not> env_ap e then (False, f, x)
      else case xmit_receiver (env_look e) x f of
        None \<Rightarrow> (False, f, x)
      | Some s \<Rightarrow>
          if xf_triggered f then
            (False, if IS_MCAST (xf_ra f) \<and> xmitframe_hiq_filter (env_wifi_spec e) (env_hiq e) f then f\<lparr>xf_high := True\<rparr> else f, x)
          else if IS_MCAST (xf_ra f) then
            (if rtw_bmp_not_empty (sta_dz_bitmap x) then
               let x = tim_set 0 (sleep_append s f x) in
               (True, f, x\<lparr>sta_dz_bitmap := rtw_bmp_set (sta_dz_bitmap x) 0\<rparr>)
             else (False, f, x))
          else if sleeping (stas x s) \<and> rtw_bmp_is_set (sta_dz_bitmap x) (aid (stas x s)) then
            (let x = sleep_append s f x;
                 wmmps_ac = uapsd (stas x s) (rtw_get_sta_pending (xf_priority f)) AND bit_mask 0 \<noteq> 0;
                 x = (if wmmps_ac then upd_sta s (\<lambda>t. t\<lparr>sleepq_ac_len := sleepq_ac_len t + 1\<rparr>) x else x);
                 x = (if has_legacy_ac (stas x s) \<and> \<not> wmmps_ac \<or> \<not> has_legacy_ac (stas x s) \<and> wmmps_ac
                      then tim_set (aid (stas x s)) x else x) in
             (True, f, x))
          else (False, f, x))"

text \<open>The frames of a queue in order: those that go to a sleep queue leave it and the counters of their category
  are lowered; the others stay.\<close>

fun sleep_loop :: "tx_env \<Rightarrow> nat \<Rightarrow> xframe list \<Rightarrow> xmit_priv \<Rightarrow> xframe list \<times> xmit_priv" where
  "sleep_loop e s [] x = ([], x)"
| "sleep_loop e s (f # fs) x =
     (case xmitframe_enqueue_for_sleeping_sta e (f\<lparr>xf_triggered := False\<rparr>) x of
        (True, f, x) \<Rightarrow>
          (let ac = rtw_get_sta_pending (xf_priority f);
               x = upd_accnt ac (-1) (upd_servq s ac (\<lambda>q. q\<lparr>qcnt := qcnt q - 1\<rparr>) x) in sleep_loop e s fs x)
      | (False, f, x) \<Rightarrow> (case sleep_loop e s fs x of (kept, x) \<Rightarrow> (f # kept, x)))"

definition dequeue_xmitframes_to_sleeping_queue :: "tx_env \<Rightarrow> nat \<Rightarrow> nat \<Rightarrow> xmit_priv \<Rightarrow> xmit_priv" where
  "dequeue_xmitframes_to_sleeping_queue e s ac x =
     (case sleep_loop e s (pending x s ac) x of
        (kept, x) \<Rightarrow> upd_servq s ac (\<lambda>q. q\<lparr>sta_pending := kept\<rparr>) x)"

text \<open>The same for management frames; the result is true when the frame was queued (\<open>RTW_QUEUE_MGMT\<close>).\<close>

definition mgmt_xmitframe_enqueue_for_sleeping_sta :: "xframe \<Rightarrow> xmit_priv \<Rightarrow> bool \<times> xmit_priv" where
  "mgmt_xmitframe_enqueue_for_sleeping_sta f x =
     (if xf_ra f = bc_addr \<or> xf_ps_dontq f then (False, x)
      else case xf_psta f of
        None \<Rightarrow> (False, x)
      | Some s \<Rightarrow>
          if \<not> asoc (stas x s) then (False, x)
          else if sleeping (stas x s) \<and> rtw_bmp_is_set (sta_dz_bitmap x) (aid (stas x s)) then
            (True, tim_set (aid (stas x s))
               (upd_sta s (\<lambda>t. t\<lparr>mgmt_sleep_q := mgmt_sleep_q t @ [f], mgmt_sleepq_len := mgmt_sleepq_len t + 1\<rparr>) x))
          else (False, x))"

fun mgmt_sleep_loop :: "nat \<Rightarrow> xframe list \<Rightarrow> xmit_priv \<Rightarrow> xframe list \<times> xmit_priv" where
  "mgmt_sleep_loop s [] x = ([], x)"
| "mgmt_sleep_loop s (f # fs) x =
     (let f = f\<lparr>xf_triggered := False\<rparr> in
      case mgmt_xmitframe_enqueue_for_sleeping_sta f x of
        (True, x) \<Rightarrow>
          (let x = upd_accnt mgmt_idx (-1) (upd_servq s mgmt_idx (\<lambda>q. q\<lparr>qcnt := qcnt q - 1\<rparr>) x) in mgmt_sleep_loop s fs x)
      | (False, x) \<Rightarrow> (case mgmt_sleep_loop s fs x of (kept, x) \<Rightarrow> (f # kept, x)))"

definition dequeue_mgmt_xmitframe_to_sleepq :: "nat \<Rightarrow> xmit_priv \<Rightarrow> xmit_priv" where
  "dequeue_mgmt_xmitframe_to_sleepq s x =
     (case mgmt_sleep_loop s (pending x s mgmt_idx) x of
        (kept, x) \<Rightarrow> upd_servq s mgmt_idx (\<lambda>q. q\<lparr>sta_pending := kept\<rparr>) x)"

definition sleep_queues :: "tx_env \<Rightarrow> nat \<Rightarrow> xmit_priv \<Rightarrow> xmit_priv" where
  "sleep_queues e s x = fold (\<lambda>ac x. unlink_sta s ac (dequeue_xmitframes_to_sleeping_queue e s ac x)) [0, 1, 2, 3] x"

definition stop_sta_xmit :: "tx_env \<Rightarrow> nat \<Rightarrow> xmit_priv \<Rightarrow> xmit_priv" where
  "stop_sta_xmit e s x =
     (let x = upd_sta s (\<lambda>t. t\<lparr>sleeping := True\<rparr>) x;
          x = x\<lparr>sta_dz_bitmap := rtw_bmp_set (sta_dz_bitmap x) (aid (stas x s))\<rparr>;
          x = unlink_sta s mgmt_idx (dequeue_mgmt_xmitframe_to_sleepq s x);
          x = sleep_queues e s x in
      case env_bmc e of None \<Rightarrow> x | Some b \<Rightarrow> sleep_queues e b x)"

datatype dequeue_type = UNI_BMC_DATA | UNI_MGMT | ALL_FRAME

definition wake_data_frame :: "tx_env \<Rightarrow> nat \<Rightarrow> xframe \<Rightarrow> xmit_priv \<Rightarrow> xmit_priv" where
  "wake_data_frame e s f x =
     (let wmmps_ac = uapsd (stas x s) (rtw_get_sta_pending (xf_priority f)) AND bit_mask 1 \<noteq> 0;
          x = upd_sta s (\<lambda>t. t\<lparr>sleepq_len := sleepq_len t - 1\<rparr>) x;
          f = f\<lparr>xf_mdata := sleepq_len (stas x s) > 0\<rparr>;
          x = (if wmmps_ac then upd_sta s (\<lambda>t. t\<lparr>sleepq_ac_len := sleepq_ac_len t - 1\<rparr>) x else x);
          f = (if wmmps_ac then f\<lparr>xf_mdata := sleepq_ac_len (stas x s) > 0, xf_eosp := \<not> sleepq_ac_len (stas x s) > 0\<rparr> else f) in
      snd (rtl8188fu_hal_xmitframe_enqueue (env_look e) x (f\<lparr>xf_triggered := True\<rparr>)))"

definition wake_mgmt_frame :: "tx_env \<Rightarrow> nat \<Rightarrow> xframe \<Rightarrow> xmit_priv \<Rightarrow> xmit_priv" where
  "wake_mgmt_frame e s f x =
     (let x = upd_sta s (\<lambda>t. t\<lparr>mgmt_sleepq_len := mgmt_sleepq_len t - 1\<rparr>) x;
          f = f\<lparr>xf_mdata := mgmt_sleepq_len (stas x s) > 0, xf_triggered := True\<rparr> in
      snd (rtl8188fu_hal_mgmt_xmitframe_enqueue (env_look e) x f))"

definition wake_bmc_frame :: "tx_env \<Rightarrow> nat \<Rightarrow> xframe \<Rightarrow> xmit_priv \<Rightarrow> xmit_priv" where
  "wake_bmc_frame e b f x =
     (let x = upd_sta b (\<lambda>t. t\<lparr>sleepq_len := sleepq_len t - 1\<rparr>) x;
          f = f\<lparr>xf_mdata := sleepq_len (stas x b) > 0, xf_triggered := True\<rparr> in
      snd (rtl8188fu_hal_xmitframe_enqueue (env_look e) x f))"

text \<open>Each loop takes the frames from the head of its sleep queue until it is empty.\<close>

definition wake_data :: "tx_env \<Rightarrow> nat \<Rightarrow> xmit_priv \<Rightarrow> xmit_priv" where
  "wake_data e s x =
     fold (wake_data_frame e s) (sleep_q (stas x s)) (upd_sta s (\<lambda>t. t\<lparr>sleep_q := []\<rparr>) x)"

definition wake_mgmt :: "tx_env \<Rightarrow> nat \<Rightarrow> xmit_priv \<Rightarrow> xmit_priv" where
  "wake_mgmt e s x =
     fold (wake_mgmt_frame e s) (mgmt_sleep_q (stas x s)) (upd_sta s (\<lambda>t. t\<lparr>mgmt_sleep_q := []\<rparr>) x)"

text \<open>The loop for the broadcast station, and whether the beacon has to change.\<close>

definition wake_bmc :: "tx_env \<Rightarrow> nat \<Rightarrow> xmit_priv \<Rightarrow> bool \<times> xmit_priv" where
  "wake_bmc e b x =
     (let x = fold (wake_bmc_frame e b) (sleep_q (stas x b)) (upd_sta b (\<lambda>t. t\<lparr>sleep_q := []\<rparr>) x) in
      if sleepq_len (stas x b) = 0 then
        (rtw_bmp_is_set (tim_bitmap x) 0,
         x\<lparr>tim_bitmap := rtw_bmp_clear (tim_bitmap x) 0, sta_dz_bitmap := rtw_bmp_clear (sta_dz_bitmap x) 0\<rparr>)
      else (False, x))"

text \<open>The end of the sleep of a station without frames left.\<close>

definition wake_sta :: "tx_env \<Rightarrow> nat \<Rightarrow> xmit_priv \<Rightarrow> bool \<times> xmit_priv" where
  "wake_sta e s x =
     (if sleepq_len (stas x s) = 0 \<and> mgmt_sleepq_len (stas x s) = 0 then
        let i = aid (stas x s); upd = rtw_bmp_is_set (tim_bitmap x) i;
            x = x\<lparr>tim_bitmap := rtw_bmp_clear (tim_bitmap x) i\<rparr>;
            x = upd_sta s (\<lambda>t. t\<lparr>sleeping := False\<rparr>) x;
            x = (if alive_chk (stas x s) then upd_sta s (\<lambda>t. t\<lparr>expire_to := env_expire_to e, alive_chk := False\<rparr>) x else x) in
        (upd, x\<lparr>sta_dz_bitmap := rtw_bmp_clear (sta_dz_bitmap x) i\<rparr>)
      else (False, x))"

definition wakeup_sta_to_xmit :: "tx_env \<Rightarrow> nat \<Rightarrow> dequeue_type \<Rightarrow> xmit_priv \<Rightarrow> xmit_priv" where
  "wakeup_sta_to_xmit e s typ x =
     (let x = (if typ = UNI_MGMT \<or> typ = ALL_FRAME then wake_mgmt e s x else x);
          x = (if typ = UNI_BMC_DATA \<or> typ = ALL_FRAME then wake_data e s x else x);
          (upd_uc, x) = wake_sta e s x;
          (upd_bmc, x) =
            (if typ = UNI_BMC_DATA \<or> typ = ALL_FRAME then
               (case env_bmc e of
                  None \<Rightarrow> (False, x)
                | Some b \<Rightarrow> if \<not> rtw_bmp_not_empty_exclude_bit0 (sta_dz_bitmap x) then wake_bmc e b x else (False, x))
             else (False, x)) in
      if upd_uc \<or> upd_bmc then x\<lparr>tim_updates := Suc (tim_updates x)\<rparr> else x)"

text \<open>The frames of delivery enabled categories, after a trigger frame of the station.\<close>

fun delivery_loop :: "tx_env \<Rightarrow> nat \<Rightarrow> xframe list \<Rightarrow> xmit_priv \<Rightarrow> xframe list \<times> xmit_priv" where
  "delivery_loop e s [] x = ([], x)"
| "delivery_loop e s (f # fs) x =
     (if uapsd (stas x s) (rtw_get_sta_pending (xf_priority f)) AND bit_mask 1 = 0 then
        (case delivery_loop e s fs x of (kept, x) \<Rightarrow> (f # kept, x))
      else
        let x = upd_sta s (\<lambda>t. t\<lparr>sleepq_len := sleepq_len t - 1, sleepq_ac_len := sleepq_ac_len t - 1\<rparr>) x;
            more = sleepq_ac_len (stas x s) > 0;
            f = f\<lparr>xf_mdata := more, xf_eosp := \<not> more, xf_triggered := True\<rparr>;
            x = snd (rtl8188fu_hal_xmitframe_enqueue (env_look e) x f);
            x = (if sleepq_ac_len (stas x s) = 0 \<and> \<not> has_legacy_ac (stas x s) then
                   x\<lparr>tim_bitmap := rtw_bmp_clear (tim_bitmap x) (aid (stas x s)), tim_updates := Suc (tim_updates x)\<rparr>
                 else x) in
        delivery_loop e s fs x)"

definition xmit_delivery_enabled_frames :: "tx_env \<Rightarrow> nat \<Rightarrow> xmit_priv \<Rightarrow> xmit_priv" where
  "xmit_delivery_enabled_frames e s x =
     (case delivery_loop e s (sleep_q (stas x s)) x of (kept, x) \<Rightarrow> upd_sta s (\<lambda>t. t\<lparr>sleep_q := kept\<rparr>) x)"

subsection \<open>Going to sleep\<close>

lemma bmp_not_empty_iff: "rtw_bmp_not_empty bmp \<longleftrightarrow> (\<exists>i. rtw_bmp_is_set bmp i)"
proof
  assume "rtw_bmp_not_empty bmp"
  then obtain k where k: "k < length bmp" "bmp ! k \<noteq> 0"
    by (auto simp: rtw_bmp_not_empty_def list_ex_iff in_set_conv_nth)
  then obtain j where "bit (bmp ! k) j"
    by (metis bit_eq_iff bit_0_eq bot_apply bot_bool_def)
  moreover from this have "j < 8"
    using bit_imp_le_length by fastforce
  ultimately have "rtw_bmp_is_set bmp (8 * k + j)"
    using k by (simp add: bmp_is_set_bit)
  then show "\<exists>i. rtw_bmp_is_set bmp i" ..
next
  assume "\<exists>i. rtw_bmp_is_set bmp i"
  then show "rtw_bmp_not_empty bmp"
    by (auto simp: rtw_bmp_not_empty_def list_ex_iff bmp_is_set_bit) (metis bit_0_eq bot_apply bot_bool_def nth_mem)
qed

text \<open>Nothing that decides about sleep queues has changed, but that more stations may doze.\<close>

definition doze_le :: "xmit_priv \<Rightarrow> xmit_priv \<Rightarrow> bool" where
  "doze_le x x' \<longleftrightarrow>
     (\<forall>t. asoc (stas x' t) = asoc (stas x t) \<and> sleeping (stas x' t) = sleeping (stas x t) \<and> aid (stas x' t) = aid (stas x t) \<and>
       uapsd (stas x' t) = uapsd (stas x t)) \<and>
     (\<forall>i. rtw_bmp_is_set (sta_dz_bitmap x) i \<longrightarrow> rtw_bmp_is_set (sta_dz_bitmap x') i)"

lemma doze_le_refl [simp]: "doze_le x x"
  by (simp add: doze_le_def)

lemma doze_le_trans: "doze_le x y \<Longrightarrow> doze_le y z \<Longrightarrow> doze_le x z"
  by (auto simp: doze_le_def)

text \<open>The frame is one that belongs to the sleep queue of \<open>s\<close>.\<close>

definition dozes :: "tx_env \<Rightarrow> nat \<Rightarrow> xframe \<Rightarrow> xmit_priv \<Rightarrow> bool" where
  "dozes e s f x \<longleftrightarrow> env_ap e \<and> xmit_receiver (env_look e) x f = Some s \<and>
     (if IS_MCAST (xf_ra f) then rtw_bmp_not_empty (sta_dz_bitmap x)
      else sleeping (stas x s) \<and> rtw_bmp_is_set (sta_dz_bitmap x) (aid (stas x s)))"

lemma receiver_cong: "(\<And>t. asoc (stas x' t) = asoc (stas x t)) \<Longrightarrow> xmit_receiver look x' f = xmit_receiver look x f"
  by (auto simp: xmit_receiver_def Let_def split: option.split)

lemma dozes_mono: "dozes e s f x \<Longrightarrow> doze_le x x' \<Longrightarrow> dozes e s f x'"
  using receiver_cong [of x' x "env_look e" f]
  by (auto simp: dozes_def doze_le_def bmp_not_empty_iff split: if_splits)

text \<open>The sleep queue of \<open>s\<close> has got the frames \<open>fs\<close>, and no other sleep queue has changed.\<close>

definition slept :: "nat \<Rightarrow> xframe list \<Rightarrow> xmit_priv \<Rightarrow> xmit_priv \<Rightarrow> bool" where
  "slept s fs x x' \<longleftrightarrow>
     (\<forall>t. sleep_q (stas x' t) = (if t = s then sleep_q (stas x s) @ fs else sleep_q (stas x t)) \<and>
       sleepq_len (stas x' t) = sleepq_len (stas x t) + (if t = s then of_nat (length fs) else 0) \<and>
       mgmt_sleep_q (stas x' t) = mgmt_sleep_q (stas x t) \<and> mgmt_sleepq_len (stas x' t) = mgmt_sleepq_len (stas x t)) \<and>
     doze_le x x'"

lemma slept_Nil: "slept s [] x x"
  by (simp add: slept_def)

lemma slept_trans: "slept s fs x y \<Longrightarrow> slept s gs y z \<Longrightarrow> slept s (fs @ gs) x z"
  by (auto simp: slept_def dest: doze_le_trans)

lemma slept_doze: "slept s fs x y \<Longrightarrow> doze_le x y"
  by (simp add: slept_def)

definition untrig :: "xframe \<Rightarrow> xframe" where "untrig f = f\<lparr>xf_triggered := False\<rparr>"

lemma untrig_simps [simp]:
  "xf_triggered (untrig f) = False" "xf_ra (untrig f) = xf_ra f" "xf_psta (untrig f) = xf_psta f"
  "xf_priority (untrig f) = xf_priority f" "xf_ps_dontq (untrig f) = xf_ps_dontq f"
  by (simp_all add: untrig_def)

lemma dozes_untrig [simp]: "dozes e s (untrig f) x = dozes e s f x"
  by (simp add: dozes_def xmit_receiver_def)

lemma sleep_append_simps:
  "servq (stas (sleep_append s f x) t) = servq (stas x t)" "sta_queue (sleep_append s f x) = sta_queue x"
  "accnt (sleep_append s f x) = accnt x" "sta_dz_bitmap (sleep_append s f x) = sta_dz_bitmap x"
  "slept s [f] x (sleep_append s f x)"
  by (simp_all add: sleep_append_def upd_sta_def slept_def doze_le_def)

lemma tim_set_simps [simp]:
  "stas (tim_set i x) = stas x" "sta_queue (tim_set i x) = sta_queue x" "accnt (tim_set i x) = accnt x"
  "sta_dz_bitmap (tim_set i x) = sta_dz_bitmap x"
  by (simp_all add: tim_set_def Let_def)

lemma slept_stas: "slept s fs x y \<Longrightarrow> stas z = stas y \<Longrightarrow> sta_dz_bitmap z = sta_dz_bitmap y \<Longrightarrow> slept s fs x z"
  by (simp add: slept_def doze_le_def)

lemma bmp_set_mono: "rtw_bmp_is_set bmp i \<Longrightarrow> rtw_bmp_is_set (rtw_bmp_set bmp j) i"
proof (cases "j < 8 * length bmp")
  case False
  then have "\<not> j div 8 < length bmp" by simp
  then have "rtw_bmp_set bmp j = bmp" unfolding rtw_bmp_set_def by (rule if_not_P)
  then show "rtw_bmp_is_set bmp i \<Longrightarrow> rtw_bmp_is_set (rtw_bmp_set bmp j) i" by simp
qed (simp add: bytemap.set_put)

text \<open>A frame that belongs to a sleep queue goes there; the other queues and the counters stay as they are.\<close>

lemma enqueue_for_sleeping_sta:
  assumes "dozes e s f x" "\<not> xf_triggered f"
  shows "\<exists>x'. xmitframe_enqueue_for_sleeping_sta e f x = (True, f, x') \<and> slept s [f] x x' \<and>
    (\<forall>t. servq (stas x' t) = servq (stas x t)) \<and> sta_queue x' = sta_queue x \<and> accnt x' = accnt x"
proof (cases "IS_MCAST (xf_ra f)")
  case True
  let ?x = "(tim_set 0 (sleep_append s f x))\<lparr>sta_dz_bitmap := rtw_bmp_set (sta_dz_bitmap x) 0\<rparr>"
  have "xmitframe_enqueue_for_sleeping_sta e f x = (True, f, ?x)"
    using assms True by (simp add: xmitframe_enqueue_for_sleeping_sta_def dozes_def Let_def sleep_append_simps)
  moreover have "slept s [f] x ?x"
    using sleep_append_simps(5) [of s f x] bmp_set_mono by (auto simp: slept_def doze_le_def sleep_append_simps)
  ultimately show ?thesis
    by (intro exI [of _ ?x]) (simp add: sleep_append_simps)
next
  case False
  define wm where "wm \<longleftrightarrow> uapsd (stas x s) (rtw_get_sta_pending (xf_priority f)) AND bit_mask 0 \<noteq> 0"
  define y where "y = (if wm then upd_sta s (\<lambda>t. t\<lparr>sleepq_ac_len := sleepq_ac_len t + 1\<rparr>) (sleep_append s f x) else sleep_append s f x)"
  define z where "z = (if has_legacy_ac (stas x s) \<and> \<not> wm \<or> \<not> has_legacy_ac (stas x s) \<and> wm
    then tim_set (aid (stas x s)) y else y)"
  have "xmitframe_enqueue_for_sleeping_sta e f x = (True, f, z)"
    using assms False
    by (simp add: xmitframe_enqueue_for_sleeping_sta_def dozes_def Let_def y_def z_def wm_def sleep_append_def upd_sta_def)
  moreover have "slept s [f] x y" "\<And>t. servq (stas y t) = servq (stas x t)" "sta_queue y = sta_queue x" "accnt y = accnt x"
    using sleep_append_simps(5) [of s f x]
    by (auto simp: y_def slept_def doze_le_def upd_sta_def sleep_append_simps)
  moreover from this have "slept s [f] x z"
    by (auto simp: z_def intro: slept_stas)
  ultimately show ?thesis
    by (intro exI [of _ z]) (simp add: z_def)
qed

lemma slept_servq: "slept s fs x y \<Longrightarrow> slept s fs x (upd_servq t ac g y)"
  by (auto simp: slept_def doze_le_def upd_servq_def upd_sta_def)

lemma slept_frame:
  assumes "slept s fs x y"
  shows "slept s fs x (upd_accnt ac d y)" "slept s fs x (unlink_sta t ac y)"
  using assms by (auto simp: slept_def doze_le_def upd_accnt_def unlink_sta_def)

lemma sleep_loop_all:
  assumes "\<forall>f \<in> set fs. dozes e s f x \<and> rtw_get_sta_pending (xf_priority f) = ac"
  shows "\<exists>x'. sleep_loop e s fs x = ([], x') \<and> slept s (map untrig fs) x x' \<and>
    pending x' = pending x \<and> sta_queue x' = sta_queue x \<and>
    (\<forall>t a. qcnt (servq (stas x' t) a) = qcnt (servq (stas x t) a) - (if t = s \<and> a = ac then int (length fs) else 0)) \<and>
    (\<forall>a. accnt x' a = accnt x a - (if a = ac then int (length fs) else 0))"
  using assms
proof (induction fs arbitrary: x)
  case Nil
  then show ?case by (intro exI [of _ x]) (simp add: slept_Nil)
next
  case (Cons f fs)
  have f: "dozes e s (untrig f) x" "rtw_get_sta_pending (xf_priority f) = ac"
    using Cons.prems by auto
  obtain y where y: "xmitframe_enqueue_for_sleeping_sta e (untrig f) x = (True, untrig f, y)" "slept s [untrig f] x y"
    "\<forall>t. servq (stas y t) = servq (stas x t)" "sta_queue y = sta_queue x" "accnt y = accnt x"
    using enqueue_for_sleeping_sta [OF f(1)] by auto
  define z where "z = upd_accnt ac (-1) (upd_servq s ac (\<lambda>q. q\<lparr>qcnt := qcnt q - 1\<rparr>) y)"
  have step: "sleep_loop e s (f # fs) x = sleep_loop e s fs z"
    using y(1) f(2) by (simp add: untrig_def z_def)
  have z: "slept s [untrig f] x z"
    unfolding z_def by (intro slept_frame slept_servq y)
  have z': "pending z = pending x" "sta_queue z = sta_queue x"
    "\<And>t a. qcnt (servq (stas z t) a) = qcnt (servq (stas x t) a) - (if t = s \<and> a = ac then 1 else 0)"
    "\<And>a. accnt z a = accnt x a - (if a = ac then 1 else 0)"
    using y by (auto simp: z_def tx_simps pending_def fun_eq_iff upd_servq_def upd_sta_def upd_accnt_def)
  have "\<forall>f \<in> set fs. dozes e s f z \<and> rtw_get_sta_pending (xf_priority f) = ac"
    using Cons.prems slept_doze [OF z] dozes_mono by auto
  from Cons.IH [OF this] obtain x' where x': "sleep_loop e s fs z = ([], x')" "slept s (map untrig fs) z x'"
    "pending x' = pending z" "sta_queue x' = sta_queue z"
    "\<forall>t a. qcnt (servq (stas x' t) a) = qcnt (servq (stas z t) a) - (if t = s \<and> a = ac then int (length fs) else 0)"
    "\<forall>a. accnt x' a = accnt z a - (if a = ac then int (length fs) else 0)"
    by blast
  then show ?case
    unfolding step using z' slept_trans [OF z x'(2)] by (intro exI [of _ x']) auto
qed

lemma tx_inv_emptied:
  assumes inv: "tx_inv x" and y: "pending y = pending x" "sta_queue y = sta_queue x"
    "\<And>t a. qcnt (servq (stas y t) a) = qcnt (servq (stas x t) a) - (if t = s \<and> a = ac then int (length (pending x s ac)) else 0)"
    "\<And>a. accnt y a = accnt x a - (if a = ac then int (length (pending x s ac)) else 0)"
  defines "x' \<equiv> unlink_sta s ac (upd_servq s ac (\<lambda>q. q\<lparr>sta_pending := []\<rparr>) y)"
  shows "tx_inv x'" "pending x' t a = (if t = s \<and> a = ac then [] else pending x t a)"
proof -
  have pend: "pending x' t a = (if t = s \<and> a = ac then [] else pending x t a)" for t a
    by (simp add: x'_def tx_simps y)
  then show "pending x' t a = (if t = s \<and> a = ac then [] else pending x t a)" .
  show "tx_inv x'"
    by (rule tx_inv_emptyI [OF inv pend]) (simp_all add: x'_def tx_simps y tx_invD(3) [OF inv])
qed

text \<open>One category of a station: its frames move to the sleep queue and the station is unlinked.\<close>

lemma sleep_queue_step:
  assumes inv: "tx_inv x" and doze: "\<forall>f \<in> set (pending x s ac). dozes e s f x \<and> rtw_get_sta_pending (xf_priority f) = ac"
  defines "x' \<equiv> unlink_sta s ac (dequeue_xmitframes_to_sleeping_queue e s ac x)"
  shows "tx_inv x'" "slept s (map untrig (pending x s ac)) x x'"
    "pending x' t a = (if t = s \<and> a = ac then [] else pending x t a)"
proof -
  obtain y where y: "sleep_loop e s (pending x s ac) x = ([], y)" "slept s (map untrig (pending x s ac)) x y"
    "pending y = pending x" "sta_queue y = sta_queue x"
    "\<And>t a. qcnt (servq (stas y t) a) = qcnt (servq (stas x t) a) - (if t = s \<and> a = ac then int (length (pending x s ac)) else 0)"
    "\<And>a. accnt y a = accnt x a - (if a = ac then int (length (pending x s ac)) else 0)"
    using sleep_loop_all [OF doze] by blast
  have x': "x' = unlink_sta s ac (upd_servq s ac (\<lambda>q. q\<lparr>sta_pending := []\<rparr>) y)"
    by (simp add: x'_def dequeue_xmitframes_to_sleeping_queue_def y(1))
  show "tx_inv x'" "pending x' t a = (if t = s \<and> a = ac then [] else pending x t a)"
    unfolding x' by (rule tx_inv_emptied [OF inv y(3-6)])+
  show "slept s (map untrig (pending x s ac)) x x'"
    unfolding x' by (intro slept_frame slept_servq y)
qed

lemma sleep_queues_loop:
  assumes "distinct acs" "tx_inv x"
    and "\<forall>ac \<in> set acs. \<forall>f \<in> set (pending x s ac). dozes e s f x \<and> rtw_get_sta_pending (xf_priority f) = ac"
  defines "x' \<equiv> fold (\<lambda>ac x. unlink_sta s ac (dequeue_xmitframes_to_sleeping_queue e s ac x)) acs x"
  shows "tx_inv x' \<and> slept s (map untrig (concat (map (pending x s) acs))) x x' \<and>
    (\<forall>t a. pending x' t a = (if t = s \<and> a \<in> set acs then [] else pending x t a))"
  unfolding x'_def using assms(1-3)
proof (induction acs arbitrary: x)
  case (Cons ac acs)
  define y where "y = unlink_sta s ac (dequeue_xmitframes_to_sleeping_queue e s ac x)"
  have "\<forall>f \<in> set (pending x s ac). dozes e s f x \<and> rtw_get_sta_pending (xf_priority f) = ac"
    using Cons.prems(3) by simp
  note y = sleep_queue_step [OF Cons.prems(2) this, folded y_def]
  have next_ok: "\<forall>b \<in> set acs. \<forall>f \<in> set (pending y s b). dozes e s f y \<and> rtw_get_sta_pending (xf_priority f) = b"
    using Cons.prems(1,3) y(3) dozes_mono [OF _ slept_doze [OF y(2)]] by auto
  define z where "z = fold (\<lambda>ac x. unlink_sta s ac (dequeue_xmitframes_to_sleeping_queue e s ac x)) acs y"
  have "distinct acs" using Cons.prems(1) by simp
  from Cons.IH [OF this y(1) next_ok]
  have z: "tx_inv z" "slept s (map untrig (concat (map (pending y s) acs))) y z"
    "\<And>t a. pending z t a = (if t = s \<and> a \<in> set acs then [] else pending y t a)"
    unfolding z_def by blast+
  have eq: "map (pending y s) acs = map (pending x s) acs"
    using Cons.prems(1) y(3) by auto
  have "slept s (map untrig (concat (map (pending x s) (ac # acs)))) x z"
    using slept_trans [OF y(2) z(2)] unfolding eq by simp
  moreover have "pending z t a = (if t = s \<and> a \<in> set (ac # acs) then [] else pending x t a)" for t a
    using z(3) [of t a] y(3) [of t a] by auto
  moreover have "fold (\<lambda>ac x. unlink_sta s ac (dequeue_xmitframes_to_sleeping_queue e s ac x)) (ac # acs) x = z"
    by (simp add: z_def y_def)
  ultimately show ?case
    using z(1) by simp
qed (simp add: slept_Nil)

text \<open>The same for the management queue.\<close>

definition mdozes :: "nat \<Rightarrow> xframe \<Rightarrow> xmit_priv \<Rightarrow> bool" where
  "mdozes s f x \<longleftrightarrow> xf_psta f = Some s \<and> xf_ra f \<noteq> bc_addr \<and> \<not> xf_ps_dontq f \<and> asoc (stas x s) \<and> sleeping (stas x s) \<and>
     rtw_bmp_is_set (sta_dz_bitmap x) (aid (stas x s))"

definition mslept :: "nat \<Rightarrow> xframe list \<Rightarrow> xmit_priv \<Rightarrow> xmit_priv \<Rightarrow> bool" where
  "mslept s fs x x' \<longleftrightarrow>
     (\<forall>t. mgmt_sleep_q (stas x' t) = (if t = s then mgmt_sleep_q (stas x s) @ fs else mgmt_sleep_q (stas x t)) \<and>
       mgmt_sleepq_len (stas x' t) = mgmt_sleepq_len (stas x t) + (if t = s then of_nat (length fs) else 0) \<and>
       sleep_q (stas x' t) = sleep_q (stas x t) \<and> sleepq_len (stas x' t) = sleepq_len (stas x t) \<and>
       asoc (stas x' t) = asoc (stas x t) \<and> sleeping (stas x' t) = sleeping (stas x t) \<and> aid (stas x' t) = aid (stas x t) \<and>
       uapsd (stas x' t) = uapsd (stas x t)) \<and>
     sta_dz_bitmap x' = sta_dz_bitmap x"

lemma mgmt_sleep_loop_all:
  assumes "\<forall>f \<in> set fs. mdozes s f x"
  shows "\<exists>x'. mgmt_sleep_loop s fs x = ([], x') \<and> mslept s (map untrig fs) x x' \<and>
    pending x' = pending x \<and> sta_queue x' = sta_queue x \<and>
    (\<forall>t a. qcnt (servq (stas x' t) a) = qcnt (servq (stas x t) a) - (if t = s \<and> a = mgmt_idx then int (length fs) else 0)) \<and>
    (\<forall>a. accnt x' a = accnt x a - (if a = mgmt_idx then int (length fs) else 0))"
  using assms
proof (induction fs arbitrary: x)
  case Nil
  then show ?case by (intro exI [of _ x]) (simp add: mslept_def)
next
  case (Cons f fs)
  define y where "y = tim_set (aid (stas x s)) (upd_sta s (\<lambda>t. t\<lparr>mgmt_sleep_q := mgmt_sleep_q t @ [untrig f],
    mgmt_sleepq_len := mgmt_sleepq_len t + 1\<rparr>) x)"
  define z where "z = upd_accnt mgmt_idx (-1) (upd_servq s mgmt_idx (\<lambda>q. q\<lparr>qcnt := qcnt q - 1\<rparr>) y)"
  have "mgmt_xmitframe_enqueue_for_sleeping_sta (untrig f) x = (True, y)"
    using Cons.prems by (simp add: mgmt_xmitframe_enqueue_for_sleeping_sta_def mdozes_def y_def)
  then have step: "mgmt_sleep_loop s (f # fs) x = mgmt_sleep_loop s fs z"
    by (simp add: untrig_def z_def Let_def)
  have z: "mslept s [untrig f] x z" "pending z = pending x" "sta_queue z = sta_queue x"
    "\<And>t a. qcnt (servq (stas z t) a) = qcnt (servq (stas x t) a) - (if t = s \<and> a = mgmt_idx then 1 else 0)"
    "\<And>a. accnt z a = accnt x a - (if a = mgmt_idx then 1 else 0)"
    by (auto simp: z_def y_def mslept_def pending_def fun_eq_iff upd_servq_def upd_sta_def upd_accnt_def)
  have "\<forall>f \<in> set fs. mdozes s f z"
    using Cons.prems z(1) by (auto simp: mdozes_def mslept_def)
  from Cons.IH [OF this] obtain x' where x': "mgmt_sleep_loop s fs z = ([], x')" "mslept s (map untrig fs) z x'"
    "pending x' = pending z" "sta_queue x' = sta_queue z"
    "\<forall>t a. qcnt (servq (stas x' t) a) = qcnt (servq (stas z t) a) - (if t = s \<and> a = mgmt_idx then int (length fs) else 0)"
    "\<forall>a. accnt x' a = accnt z a - (if a = mgmt_idx then int (length fs) else 0)"
    by blast
  have "mslept s (map untrig (f # fs)) x x'"
    using z(1) x'(2) by (auto simp: mslept_def)
  with x' z show ?case
    unfolding step by (intro exI [of _ x']) auto
qed

lemma mgmt_sleep_step:
  assumes inv: "tx_inv x" and doze: "\<forall>f \<in> set (pending x s mgmt_idx). mdozes s f x"
  defines "x' \<equiv> unlink_sta s mgmt_idx (dequeue_mgmt_xmitframe_to_sleepq s x)"
  shows "tx_inv x'" "mslept s (map untrig (pending x s mgmt_idx)) x x'"
    "pending x' t a = (if t = s \<and> a = mgmt_idx then [] else pending x t a)"
proof -
  obtain y where y: "mgmt_sleep_loop s (pending x s mgmt_idx) x = ([], y)" "mslept s (map untrig (pending x s mgmt_idx)) x y"
    "pending y = pending x" "sta_queue y = sta_queue x"
    "\<And>t a. qcnt (servq (stas y t) a) = qcnt (servq (stas x t) a) - (if t = s \<and> a = mgmt_idx then int (length (pending x s mgmt_idx)) else 0)"
    "\<And>a. accnt y a = accnt x a - (if a = mgmt_idx then int (length (pending x s mgmt_idx)) else 0)"
    using mgmt_sleep_loop_all [OF doze] by blast
  have x': "x' = unlink_sta s mgmt_idx (upd_servq s mgmt_idx (\<lambda>q. q\<lparr>sta_pending := []\<rparr>) y)"
    by (simp add: x'_def dequeue_mgmt_xmitframe_to_sleepq_def y(1))
  show "tx_inv x'" "pending x' t a = (if t = s \<and> a = mgmt_idx then [] else pending x t a)"
    unfolding x' by (rule tx_inv_emptied [OF inv y(3-6)])+
  show "mslept s (map untrig (pending x s mgmt_idx)) x x'"
    using y(2) by (auto simp: x' mslept_def upd_servq_def upd_sta_def unlink_sta_def)
qed

text \<open>The frames of a station are its own unicast frames; those of the broadcast station are group frames.\<close>

definition own_frames :: "tx_env \<Rightarrow> nat \<Rightarrow> bool \<Rightarrow> xmit_priv \<Rightarrow> bool" where
  "own_frames e s mc x \<longleftrightarrow> asoc (stas x s) \<and>
     (\<forall>ac. \<forall>f \<in> set (pending x s ac). env_look e (xf_ra f) = Some s \<and> IS_MCAST (xf_ra f) = mc \<and> \<not> xf_ps_dontq f)"

lemma IS_MCAST_bc [simp]: "IS_MCAST bc_addr"
  by (simp add: IS_MCAST_def)

lemma own_frames_receiver:
  assumes "tx_home x" "own_frames e s mc x" "f \<in> set (pending x s ac)"
  shows "xmit_receiver (env_look e) x f = Some s" "IS_MCAST (xf_ra f) = mc"
  using assms tx_homeD [OF assms(1,3)] by (auto simp: own_frames_def xmit_receiver_def Let_def)

lemma tx_home_sub:
  assumes "tx_home x" "\<And>t a. set (pending y t a) \<subseteq> set (pending x t a)"
  shows "tx_home y"
  using assms unfolding tx_home_def by blast

lemma sleep_queues_correct:
  assumes "tx_inv x" "tx_home x" "\<forall>ac < 4. \<forall>f \<in> set (pending x s ac). dozes e s f x"
  shows "tx_inv (sleep_queues e s x) \<and>
    slept s (map untrig (pending x s 0 @ pending x s 1 @ pending x s 2 @ pending x s 3)) x (sleep_queues e s x) \<and>
    (\<forall>t a. pending (sleep_queues e s x) t a = (if t = s \<and> a < 4 then [] else pending x t a))"
proof -
  have "dozes e s f x \<and> rtw_get_sta_pending (xf_priority f) = ac"
    if "ac \<in> set [0, 1, 2, 3]" "f \<in> set (pending x s ac)" for ac f
  proof -
    have "ac < 4" using that(1) by auto
    then show ?thesis
      using that(2) assms(3) tx_homeD(2) [OF assms(2) that(2)] by (auto simp: mgmt_idx_def HWXMIT_ENTRY_def)
  qed
  moreover have "a \<in> set [0, 1, 2, 3] \<longleftrightarrow> a < 4" for a :: nat
    by auto
  ultimately show ?thesis
    using sleep_queues_loop [of "[0, 1, 2, 3]" x s e] assms(1) by (simp add: sleep_queues_def)
qed

subsection \<open>Waking up\<close>

text \<open>The frames of a sleep queue as they go back to the queues: all but the last announce more data.\<close>

fun woken :: "xframe list \<Rightarrow> xframe list" where
  "woken [] = []"
| "woken (f # fs) = f\<lparr>xf_mdata := fs \<noteq> [], xf_triggered := True\<rparr> # woken fs"

text \<open>What a wake-up loop leaves alone in a station: all but its queues and the lengths of its sleep queues.\<close>

definition sta_core :: "sta_xmit \<Rightarrow> sta_xmit" where
  "sta_core t = t\<lparr>servq := \<lambda>_. \<lparr>sta_pending = [], qcnt = 0\<rparr>, sleepq_len := 0, mgmt_sleepq_len := 0\<rparr>"

lemma sta_core_eqD:
  assumes "sta_core t = sta_core t'"
  shows "asoc t = asoc t'" "aid t = aid t'" "sleeping t = sleeping t'" "uapsd t = uapsd t'" "sleep_q t = sleep_q t'"
    "mgmt_sleep_q t = mgmt_sleep_q t'" "alive_chk t = alive_chk t'"
  using assms by (cases t; cases t'; simp add: sta_core_def)+

lemma sta_core_simps [simp]:
  "sta_core (t\<lparr>servq := q\<rparr>) = sta_core t" "sta_core (t\<lparr>sleepq_len := n\<rparr>) = sta_core t"
  "sta_core (t\<lparr>mgmt_sleepq_len := n\<rparr>) = sta_core t"
  by (simp_all add: sta_core_def)

definition woke :: "nat \<Rightarrow> (xframe \<Rightarrow> nat) \<Rightarrow> xframe list \<Rightarrow> xmit_priv \<Rightarrow> xmit_priv \<Rightarrow> bool" where
  "woke s cat fs x x' \<longleftrightarrow> tx_inv x' \<and>
     (\<forall>t a. pending x' t a = pending x t a @ (if t = s then filter (\<lambda>f. cat f = a) fs else [])) \<and>
     (\<forall>t. sta_core (stas x' t) = sta_core (stas x t)) \<and>
     tim_bitmap x' = tim_bitmap x \<and> sta_dz_bitmap x' = sta_dz_bitmap x"

lemma woke_trans:
  assumes "woke s cat fs x y" "woke s cat gs y z"
  shows "woke s cat (fs @ gs) x z"
  using assms by (simp add: woke_def)

lemma enqueue_servq_core:
  "sta_core (stas (enqueue_servq s ac f x) t) = sta_core (stas x t)"
  "tim_bitmap (enqueue_servq s ac f x) = tim_bitmap x" "sta_dz_bitmap (enqueue_servq s ac f x) = sta_dz_bitmap x"
  "sleepq_len (stas (enqueue_servq s ac f x) t) = sleepq_len (stas x t)"
  "mgmt_sleepq_len (stas (enqueue_servq s ac f x) t) = mgmt_sleepq_len (stas x t)"
  by (simp_all add: enqueue_servq_def upd_servq_def upd_sta_def link_sta_def upd_accnt_def Let_def)

lemma woke_enqueue:
  assumes "tx_inv x"
    and "sta_core (stas y s) = sta_core (stas x s)" "servq (stas y s) = servq (stas x s)" "\<And>t. t \<noteq> s \<Longrightarrow> stas y t = stas x t"
    and "sta_queue y = sta_queue x" "accnt y = accnt x" "tim_bitmap y = tim_bitmap x" "sta_dz_bitmap y = sta_dz_bitmap x"
    and "cat f = ac"
  shows "woke s cat [f] x (enqueue_servq s ac f y)"
proof -
  have servq: "servq (stas y t) = servq (stas x t)" "sta_core (stas y t) = sta_core (stas x t)" for t
    using assms(2-4) by (cases "t = s"; simp)+
  then have p: "pending y = pending x"
    by (simp add: pending_def fun_eq_iff)
  have "tx_inv y"
    using assms(1) servq p assms(5,6) by (simp add: tx_inv_def)
  then show ?thesis
    using p servq assms(7-9) enqueue_servq_inv by (auto simp: woke_def enqueue_servq_core enqueue_servq_pending)
qed

lemma woke_receiver:
  assumes "woke s cat fs x y"
  shows "xmit_receiver look y f = xmit_receiver look x f"
proof (rule receiver_cong)
  fix t
  show "asoc (stas y t) = asoc (stas x t)"
    using assms by (intro sta_core_eqD(1)) (simp add: woke_def)
qed

lemma u32_of_nat_pos: "n < 2 ^ 32 \<Longrightarrow> (0 < (of_nat n :: u32)) = (n \<noteq> 0)"
  by (cases "n = 0") (auto simp: word_gt_0 word_of_nat_eq_0_iff dest: dvd_imp_le)

lemma wake_bmc_loop:
  assumes "tx_inv x" "\<forall>f \<in> set fs. xmit_receiver (env_look e) x f = Some b"
    and "sleepq_len (stas x b) = of_nat (length fs)" "length fs < 2 ^ 32"
  shows "woke b (\<lambda>f. rtw_get_sta_pending (xf_priority f)) (woken fs) x (fold (wake_bmc_frame e b) fs x) \<and>
    sleepq_len (stas (fold (wake_bmc_frame e b) fs x) b) = 0 \<and>
    (\<forall>t. t \<noteq> b \<longrightarrow> stas (fold (wake_bmc_frame e b) fs x) t = stas x t) \<and>
    mgmt_sleepq_len (stas (fold (wake_bmc_frame e b) fs x) b) = mgmt_sleepq_len (stas x b)"
  using assms
proof (induction fs arbitrary: x)
  case Nil
  then show ?case by (simp add: woke_def)
next
  case (Cons f fs)
  let ?cat = "\<lambda>f. rtw_get_sta_pending (xf_priority f)"
  define f' where "f' = f\<lparr>xf_mdata := fs \<noteq> [], xf_triggered := True\<rparr>"
  define y where "y = upd_sta b (\<lambda>t. t\<lparr>sleepq_len := sleepq_len t - 1\<rparr>) x"
  define z where "z = enqueue_servq b (?cat f) f' y"
  have len: "sleepq_len (stas y b) = of_nat (length fs)"
    using Cons.prems(3) by (simp add: y_def upd_sta_def)
  have more: "sleepq_len (stas y b) > 0 \<longleftrightarrow> fs \<noteq> []"
    using u32_of_nat_pos [of "length fs"] Cons.prems(4) unfolding len by simp
  have "xmit_receiver (env_look e) y f' = xmit_receiver (env_look e) x f"
    using receiver_cong [of y x "env_look e" f] by (simp add: f'_def y_def upd_sta_def xmit_receiver_def)
  then have step: "wake_bmc_frame e b f x = z"
    using Cons.prems(2) more
    by (simp add: wake_bmc_frame_def Let_def f'_def y_def z_def rtl8188fu_hal_xmitframe_enqueue_def rtw_xmit_classifier_def)
  have z: "woke b ?cat [f'] x z"
    unfolding z_def by (rule woke_enqueue [OF Cons.prems(1)]) (auto simp: y_def upd_sta_def f'_def)
  have other: "stas z t = stas x t" if "t \<noteq> b" for t
    using that by (simp add: z_def y_def enqueue_servq_def upd_servq_def upd_sta_def link_sta_def upd_accnt_def Let_def)
  have "\<forall>f \<in> set fs. xmit_receiver (env_look e) z f = Some b"
    using Cons.prems(2) woke_receiver [OF z] by simp
  moreover have "sleepq_len (stas z b) = of_nat (length fs)" "mgmt_sleepq_len (stas z b) = mgmt_sleepq_len (stas x b)" "tx_inv z"
    using len z by (simp_all add: z_def enqueue_servq_core woke_def) (simp add: y_def upd_sta_def)
  ultimately have "woke b ?cat (woken fs) z (fold (wake_bmc_frame e b) fs z) \<and>
    sleepq_len (stas (fold (wake_bmc_frame e b) fs z) b) = 0 \<and>
    (\<forall>t. t \<noteq> b \<longrightarrow> stas (fold (wake_bmc_frame e b) fs z) t = stas z t) \<and>
    mgmt_sleepq_len (stas (fold (wake_bmc_frame e b) fs z) b) = mgmt_sleepq_len (stas x b)"
    using Cons.IH [of z] Cons.prems(4) by simp
  then show ?case
    using woke_trans [OF z, of "woken fs"] other unfolding fold_simps step woken.simps f'_def [symmetric] by auto
qed

lemma wake_mgmt_loop:
  assumes "tx_inv x" "\<forall>f \<in> set fs. xmit_receiver (env_look e) x f = Some s"
    and "mgmt_sleepq_len (stas x s) = of_nat (length fs)" "length fs < 2 ^ 32"
  shows "woke s (\<lambda>f. mgmt_idx) (woken fs) x (fold (wake_mgmt_frame e s) fs x) \<and>
    mgmt_sleepq_len (stas (fold (wake_mgmt_frame e s) fs x) s) = 0 \<and>
    (\<forall>t. sleepq_len (stas (fold (wake_mgmt_frame e s) fs x) t) = sleepq_len (stas x t))"
  using assms
proof (induction fs arbitrary: x)
  case Nil
  then show ?case by (simp add: woke_def)
next
  case (Cons f fs)
  define f' where "f' = f\<lparr>xf_mdata := fs \<noteq> [], xf_triggered := True\<rparr>"
  define y where "y = upd_sta s (\<lambda>t. t\<lparr>mgmt_sleepq_len := mgmt_sleepq_len t - 1\<rparr>) x"
  define z where "z = enqueue_servq s mgmt_idx f' y"
  have len: "mgmt_sleepq_len (stas y s) = of_nat (length fs)"
    using Cons.prems(3) by (simp add: y_def upd_sta_def)
  have more: "mgmt_sleepq_len (stas y s) > 0 \<longleftrightarrow> fs \<noteq> []"
    using u32_of_nat_pos [of "length fs"] Cons.prems(4) unfolding len by simp
  have "xmit_receiver (env_look e) y f' = xmit_receiver (env_look e) x f"
    using receiver_cong [of y x "env_look e" f] by (simp add: f'_def y_def upd_sta_def xmit_receiver_def)
  then have step: "wake_mgmt_frame e s f x = z"
    using Cons.prems(2) more
    by (simp add: wake_mgmt_frame_def Let_def f'_def y_def z_def rtl8188fu_hal_mgmt_xmitframe_enqueue_def
        rtw_mgmt_xmitframe_enqueue_def)
  have z: "woke s (\<lambda>f. mgmt_idx) [f'] x z"
    unfolding z_def by (rule woke_enqueue [OF Cons.prems(1)]) (auto simp: y_def upd_sta_def f'_def)
  have "\<forall>f \<in> set fs. xmit_receiver (env_look e) z f = Some s"
    using Cons.prems(2) woke_receiver [OF z] by simp
  moreover have "mgmt_sleepq_len (stas z s) = of_nat (length fs)" "tx_inv z" "\<And>t. sleepq_len (stas z t) = sleepq_len (stas x t)"
    using len z by (simp_all add: z_def enqueue_servq_core woke_def) (simp add: y_def upd_sta_def)
  ultimately have "woke s (\<lambda>f. mgmt_idx) (woken fs) z (fold (wake_mgmt_frame e s) fs z) \<and>
    mgmt_sleepq_len (stas (fold (wake_mgmt_frame e s) fs z) s) = 0 \<and>
    (\<forall>t. sleepq_len (stas (fold (wake_mgmt_frame e s) fs z) t) = sleepq_len (stas x t))"
    using Cons.IH [of z] Cons.prems(4) by simp
  then show ?case
    using woke_trans [OF z, of "woken fs"] unfolding fold_simps step woken.simps f'_def [symmetric] by auto
qed

text \<open>A category without U-APSD delivers like the broadcast queue.\<close>

lemma wake_data_frame_legacy:
  "(\<And>a. uapsd (stas x s) a AND bit_mask 1 = 0) \<Longrightarrow> wake_data_frame e s f x = wake_bmc_frame e s f x"
  by (simp add: wake_data_frame_def wake_bmc_frame_def Let_def)

lemma wake_bmc_frame_uapsd: "uapsd (stas (wake_bmc_frame e b f x) t) = uapsd (stas x t)"
  by (simp add: wake_bmc_frame_def rtl8188fu_hal_xmitframe_enqueue_def rtw_xmit_classifier_def rtw_free_xmitframe_def
      enqueue_servq_def upd_servq_def upd_sta_def link_sta_def upd_accnt_def Let_def split: option.split)

lemma wake_data_legacy:
  assumes "\<And>a. uapsd (stas x s) a AND bit_mask 1 = 0"
  shows "fold (wake_data_frame e s) fs x = fold (wake_bmc_frame e s) fs x"
  using assms by (induction fs arbitrary: x) (simp_all add: wake_data_frame_legacy wake_bmc_frame_uapsd)

text \<open>A station of the access point goes to sleep: all its frames move to its sleep queues, in the order voice,
  video, best effort, background, and so do the waiting group frames; no frame stays behind in an unlinked queue,
  and the counters of the categories stay right.\<close>

lemma stop_sta_xmit_state:
  assumes inv: "tx_inv x" "tx_home x" and ap: "env_ap e" and own: "own_frames e s False x"
    and bmc: "env_bmc e = Some b" "b \<noteq> s" "own_frames e b True x"
    and room: "aid (stas x s) < 8 * length (sta_dz_bitmap x)"
  defines "x' \<equiv> stop_sta_xmit e s x"
  shows "tx_inv x' \<and>
    (\<forall>t a. pending x' t a = (if t = s \<and> a < HWXMIT_ENTRY \<or> t = b \<and> a < 4 then [] else pending x t a)) \<and>
    sleep_q (stas x' s) = sleep_q (stas x s) @ map untrig (pending x s 0 @ pending x s 1 @ pending x s 2 @ pending x s 3) \<and>
    sleep_q (stas x' b) = sleep_q (stas x b) @ map untrig (pending x b 0 @ pending x b 1 @ pending x b 2 @ pending x b 3) \<and>
    mgmt_sleep_q (stas x' s) = mgmt_sleep_q (stas x s) @ map untrig (pending x s mgmt_idx) \<and>
    (\<forall>t. asoc (stas x' t) = asoc (stas x t) \<and> aid (stas x' t) = aid (stas x t) \<and> uapsd (stas x' t) = uapsd (stas x t) \<and>
      sleepq_len (stas x' t) = sleepq_len (stas x t) + of_nat (length (sleep_q (stas x' t)) - length (sleep_q (stas x t))) \<and>
      mgmt_sleepq_len (stas x' t) =
        mgmt_sleepq_len (stas x t) + of_nat (length (mgmt_sleep_q (stas x' t)) - length (mgmt_sleep_q (stas x t))))"
proof -
  let ?all = "\<lambda>x s. map untrig (pending x s 0 @ pending x s 1 @ pending x s 2 @ pending x s 3)"
  define x1 where "x1 = (upd_sta s (\<lambda>t. t\<lparr>sleeping := True\<rparr>) x)\<lparr>sta_dz_bitmap := rtw_bmp_set (sta_dz_bitmap x) (aid (stas x s))\<rparr>"
  define x2 where "x2 = unlink_sta s mgmt_idx (dequeue_mgmt_xmitframe_to_sleepq s x1)"
  define x3 where "x3 = sleep_queues e s x2"
  have x': "x' = sleep_queues e b x3"
    by (simp add: x'_def stop_sta_xmit_def Let_def x3_def x2_def x1_def bmc(1)) (simp add: upd_sta_def)
  have s1: "asoc (stas x1 t) = asoc (stas x t)" "aid (stas x1 t) = aid (stas x t)" "servq (stas x1 t) = servq (stas x t)"
    "sleep_q (stas x1 t) = sleep_q (stas x t)" "mgmt_sleep_q (stas x1 t) = mgmt_sleep_q (stas x t)" "sleeping (stas x1 s)"
    "uapsd (stas x1 t) = uapsd (stas x t)" "sleepq_len (stas x1 t) = sleepq_len (stas x t)"
    "mgmt_sleepq_len (stas x1 t) = mgmt_sleepq_len (stas x t)" for t
    by (simp_all add: x1_def upd_sta_def)
  have dz1: "rtw_bmp_is_set (sta_dz_bitmap x1) (aid (stas x1 s))"
    using room by (simp add: x1_def bytemap.set_put upd_sta_def)
  have p1: "pending x1 = pending x"
    by (simp add: pending_def s1 fun_eq_iff)
  have inv1: "tx_inv x1"
    using inv(1) s1(3) p1 by (simp add: tx_inv_def) (simp add: x1_def upd_sta_def)
  have "\<forall>f \<in> set (pending x1 s mgmt_idx). mdozes s f x1"
  proof
    fix f assume "f \<in> set (pending x1 s mgmt_idx)"
    then have f: "f \<in> set (pending x s mgmt_idx)" by (simp add: p1)
    then have "\<not> IS_MCAST (xf_ra f)" "\<not> xf_ps_dontq f" "asoc (stas x s)"
      using own unfolding own_frames_def by blast+
    moreover from this have "xf_ra f \<noteq> bc_addr" by (metis IS_MCAST_bc)
    ultimately show "mdozes s f x1"
      using tx_homeD(1) [OF inv(2) f] s1 dz1 by (simp add: mdozes_def)
  qed
  note m = mgmt_sleep_step [OF inv1 this, folded x2_def]
  have le: "asoc (stas x2 t) = asoc (stas x t)" "sleeping (stas x2 s)" "aid (stas x2 t) = aid (stas x t)"
    "sta_dz_bitmap x2 = sta_dz_bitmap x1" for t
    using m(2) s1 by (auto simp: mslept_def)
  have p2: "pending x2 t a = (if t = s \<and> a = mgmt_idx then [] else pending x t a)" for t a
    using m(3) p1 by simp
  have home2: "tx_home x2"
    by (rule tx_home_sub [OF inv(2)]) (simp add: p2)
  have "dozes e s f x2" if "ac < 4" "f \<in> set (pending x2 s ac)" for ac f
    using that own_frames_receiver [OF inv(2) own, of f ac] ap dz1 le receiver_cong [of x2 x] s1(2)
    by (auto simp: dozes_def p2 split: if_splits)
  then have q: "tx_inv x3" "slept s (?all x2 s) x2 x3"
    "\<And>t a. pending x3 t a = (if t = s \<and> a < 4 then [] else pending x2 t a)"
    using sleep_queues_correct [OF m(1) home2] by (simp_all add: x3_def)
  have p3: "pending x3 t a = (if t = s \<and> (a < 4 \<or> a = mgmt_idx) then [] else pending x t a)" for t a
    by (auto simp: q(3) p2)
  have home3: "tx_home x3"
    by (rule tx_home_sub [OF inv(2)]) (simp add: p3)
  have le3: "asoc (stas x3 t) = asoc (stas x t)" for t
    using q(2) le by (simp add: slept_def doze_le_def)
  have "rtw_bmp_not_empty (sta_dz_bitmap x3)"
    using q(2) dz1 le unfolding bmp_not_empty_iff slept_def doze_le_def by auto
  then have "dozes e b f x3" if "ac < 4" "f \<in> set (pending x3 b ac)" for ac f
    using that own_frames_receiver [OF inv(2) bmc(3), of f ac] ap receiver_cong [of x3 x] le3 bmc(2)
    by (auto simp: dozes_def p3)
  then have r: "tx_inv x'" "slept b (?all x3 b) x3 x'"
    "\<And>t a. pending x' t a = (if t = b \<and> a < 4 then [] else pending x3 t a)"
    using sleep_queues_correct [OF q(1) home3] by (simp_all add: x')
  have mg: "mgmt_idx = 4" by (simp add: mgmt_idx_def HWXMIT_ENTRY_def)
  have "pending x' t a = (if t = s \<and> a < HWXMIT_ENTRY \<or> t = b \<and> a < 4 then [] else pending x t a)" for t a
    using bmc(2) by (auto simp: r(3) p3 mg HWXMIT_ENTRY_def)
  moreover have "sleep_q (stas x' s) = sleep_q (stas x s) @ ?all x s"
    using r(2) q(2) m(2) bmc(2) s1(4) by (simp add: slept_def mslept_def p2 mg)
  moreover have "sleep_q (stas x' b) = sleep_q (stas x b) @ ?all x b"
    using r(2) q(2) m(2) bmc(2) s1(4) by (simp add: slept_def mslept_def p3)
  moreover have "mgmt_sleep_q (stas x' s) = mgmt_sleep_q (stas x s) @ map untrig (pending x s mgmt_idx)"
    using r(2) q(2) m(2) s1(5) by (simp add: slept_def mslept_def p1)
  moreover have "asoc (stas x' t) = asoc (stas x t) \<and> aid (stas x' t) = aid (stas x t) \<and> uapsd (stas x' t) = uapsd (stas x t)" for t
    using r(2) q(2) m(2) s1 by (simp add: slept_def mslept_def doze_le_def)
  moreover have "sleepq_len (stas x' t) = sleepq_len (stas x t) + of_nat (length (sleep_q (stas x' t)) - length (sleep_q (stas x t)))"
    and "mgmt_sleepq_len (stas x' t) =
      mgmt_sleepq_len (stas x t) + of_nat (length (mgmt_sleep_q (stas x' t)) - length (mgmt_sleep_q (stas x t)))" for t
    using r(2) q(2) m(2) s1 bmc(2) by (simp_all add: slept_def mslept_def del: length_map)
  ultimately show ?thesis
    using r(1) by blast
qed

text \<open>The sleep queues of a station hold its own frames, and the lengths count them.\<close>

definition sleepers :: "tx_env \<Rightarrow> nat \<Rightarrow> xmit_priv \<Rightarrow> bool" where
  "sleepers e s x \<longleftrightarrow>
     sleepq_len (stas x s) = of_nat (length (sleep_q (stas x s))) \<and> length (sleep_q (stas x s)) < 2 ^ 32 \<and>
     (\<forall>f \<in> set (sleep_q (stas x s)). xmit_receiver (env_look e) x f = Some s)"

definition msleepers :: "tx_env \<Rightarrow> nat \<Rightarrow> xmit_priv \<Rightarrow> bool" where
  "msleepers e s x \<longleftrightarrow>
     mgmt_sleepq_len (stas x s) = of_nat (length (mgmt_sleep_q (stas x s))) \<and> length (mgmt_sleep_q (stas x s)) < 2 ^ 32 \<and>
     (\<forall>f \<in> set (mgmt_sleep_q (stas x s)). xmit_receiver (env_look e) x f = Some s)"

lemma bmp_clear_not_set: "\<not> rtw_bmp_is_set (rtw_bmp_clear bmp i) i"
proof (cases "i < 8 * length bmp")
  case False
  then have "\<not> i div 8 < length bmp" by simp
  then show ?thesis by (simp add: rtw_bmp_is_set_def rtw_bmp_clear_def)
qed (simp add: bytemap.set_clr)

lemma bmp_clear_mono: "rtw_bmp_is_set (rtw_bmp_clear bmp j) i \<Longrightarrow> rtw_bmp_is_set bmp i"
proof (cases "j < 8 * length bmp")
  case False
  then have "\<not> j div 8 < length bmp" by simp
  then show "rtw_bmp_is_set (rtw_bmp_clear bmp j) i \<Longrightarrow> rtw_bmp_is_set bmp i" by (simp add: rtw_bmp_clear_def)
qed (simp add: bytemap.set_clr)

lemma emptied_sleep_q:
  assumes "y = upd_sta s (\<lambda>t. t\<lparr>sleep_q := []\<rparr>) x \<or> y = upd_sta s (\<lambda>t. t\<lparr>mgmt_sleep_q := []\<rparr>) x"
  shows "tx_inv y = tx_inv x" "pending y = pending x" "xmit_receiver look y f = xmit_receiver look x f"
proof -
  have s: "servq (stas y t) = servq (stas x t)" "asoc (stas y t) = asoc (stas x t)" for t
    using assms by (auto simp: upd_sta_def split: if_splits)
  then show "pending y = pending x" by (simp add: pending_def fun_eq_iff)
  with s assms show "tx_inv y = tx_inv x" by (auto simp: tx_inv_def upd_sta_def)
  show "xmit_receiver look y f = xmit_receiver look x f" by (rule receiver_cong) (rule s)
qed

lemma wake_queue_ok:
  assumes inv: "tx_inv x" and sl: "sleepers e s x"
  defines "x' \<equiv> fold (wake_bmc_frame e s) (sleep_q (stas x s)) (upd_sta s (\<lambda>t. t\<lparr>sleep_q := []\<rparr>) x)"
  shows "tx_inv x'" "pending x' t a = pending x t a @
      (if t = s then filter (\<lambda>f. rtw_get_sta_pending (xf_priority f) = a) (woken (sleep_q (stas x s))) else [])"
    "sleepq_len (stas x' s) = 0" "sleep_q (stas x' s) = []" "t \<noteq> s \<Longrightarrow> stas x' t = stas x t"
    "mgmt_sleepq_len (stas x' s) = mgmt_sleepq_len (stas x s)" "mgmt_sleep_q (stas x' s) = mgmt_sleep_q (stas x s)"
    "aid (stas x' s) = aid (stas x s)" "asoc (stas x' t) = asoc (stas x t)"
    "sta_dz_bitmap x' = sta_dz_bitmap x" "tim_bitmap x' = tim_bitmap x"
proof -
  define y where "y = upd_sta s (\<lambda>t. t\<lparr>sleep_q := []\<rparr>) x"
  define fs where "fs = sleep_q (stas x s)"
  have y: "tx_inv y" "pending y = pending x" "\<forall>f \<in> set fs. xmit_receiver (env_look e) y f = Some s"
    using emptied_sleep_q [of y s x] inv sl by (simp_all add: y_def sleepers_def fs_def)
  have len: "sleepq_len (stas y s) = of_nat (length fs)" "length fs < 2 ^ 32"
    using sl by (simp_all add: y_def upd_sta_def sleepers_def fs_def)
  have x': "x' = fold (wake_bmc_frame e s) fs y"
    by (simp add: x'_def y_def fs_def)
  note w = wake_bmc_loop [OF y(1,3) len, folded x']
  have core: "sta_core (stas x' t) = sta_core (stas y t)" for t
    using w by (simp add: woke_def)
  show "tx_inv x'" "pending x' t a = pending x t a @
      (if t = s then filter (\<lambda>f. rtw_get_sta_pending (xf_priority f) = a) (woken (sleep_q (stas x s))) else [])"
    "sta_dz_bitmap x' = sta_dz_bitmap x" "tim_bitmap x' = tim_bitmap x"
    using w y(2) by (simp_all add: woke_def fs_def) (simp_all add: y_def upd_sta_def)
  show "sleepq_len (stas x' s) = 0" "mgmt_sleepq_len (stas x' s) = mgmt_sleepq_len (stas x s)" "t \<noteq> s \<Longrightarrow> stas x' t = stas x t"
    using w by (simp_all add: y_def upd_sta_def)
  show "sleep_q (stas x' s) = []" "mgmt_sleep_q (stas x' s) = mgmt_sleep_q (stas x s)"
    "aid (stas x' s) = aid (stas x s)" "asoc (stas x' t) = asoc (stas x t)"
    using sta_core_eqD [OF core [of s]] sta_core_eqD(1) [OF core [of t]] by (simp_all add: y_def upd_sta_def)
qed

lemma wake_data_eq:
  assumes "\<And>a. uapsd (stas x s) a AND bit_mask 1 = 0"
  shows "wake_data e s x = fold (wake_bmc_frame e s) (sleep_q (stas x s)) (upd_sta s (\<lambda>t. t\<lparr>sleep_q := []\<rparr>) x)"
proof -
  have "\<And>a. uapsd (stas (upd_sta s (\<lambda>t. t\<lparr>sleep_q := []\<rparr>) x) s) a AND bit_mask 1 = 0"
    using assms by (simp add: upd_sta_def)
  then show ?thesis
    by (simp add: wake_data_def wake_data_legacy)
qed

lemma wake_mgmt_ok:
  assumes inv: "tx_inv x" and sl: "msleepers e s x"
  defines "x' \<equiv> wake_mgmt e s x"
  shows "tx_inv x'" "pending x' t a = pending x t a @ (if t = s \<and> a = mgmt_idx then woken (mgmt_sleep_q (stas x s)) else [])"
    "mgmt_sleepq_len (stas x' s) = 0" "mgmt_sleep_q (stas x' s) = []"
    "sleepq_len (stas x' t) = sleepq_len (stas x t)" "sleep_q (stas x' t) = sleep_q (stas x t)"
    "uapsd (stas x' t) = uapsd (stas x t)"
    "aid (stas x' s) = aid (stas x s)" "asoc (stas x' t) = asoc (stas x t)"
    "sta_dz_bitmap x' = sta_dz_bitmap x" "tim_bitmap x' = tim_bitmap x"
proof -
  define y where "y = upd_sta s (\<lambda>t. t\<lparr>mgmt_sleep_q := []\<rparr>) x"
  define fs where "fs = mgmt_sleep_q (stas x s)"
  have y: "tx_inv y" "pending y = pending x" "\<forall>f \<in> set fs. xmit_receiver (env_look e) y f = Some s"
    using emptied_sleep_q [of y s x] inv sl by (simp_all add: y_def msleepers_def fs_def)
  have len: "mgmt_sleepq_len (stas y s) = of_nat (length fs)" "length fs < 2 ^ 32"
    using sl by (simp_all add: y_def upd_sta_def msleepers_def fs_def)
  have x': "x' = fold (wake_mgmt_frame e s) fs y"
    by (simp add: x'_def wake_mgmt_def y_def fs_def)
  note w = wake_mgmt_loop [OF y(1,3) len, folded x']
  have core: "sta_core (stas x' t) = sta_core (stas y t)" for t
    using w by (simp add: woke_def)
  show "tx_inv x'" "sta_dz_bitmap x' = sta_dz_bitmap x" "tim_bitmap x' = tim_bitmap x"
    using w by (simp_all add: woke_def) (simp_all add: y_def upd_sta_def)
  show "pending x' t a = pending x t a @ (if t = s \<and> a = mgmt_idx then woken (mgmt_sleep_q (stas x s)) else [])"
    using w y(2) by (auto simp: woke_def fs_def)
  show "mgmt_sleepq_len (stas x' s) = 0" "sleepq_len (stas x' t) = sleepq_len (stas x t)"
    using w by (simp_all add: y_def upd_sta_def)
  show "mgmt_sleep_q (stas x' s) = []" "sleep_q (stas x' t) = sleep_q (stas x t)" "uapsd (stas x' t) = uapsd (stas x t)"
    "aid (stas x' s) = aid (stas x s)" "asoc (stas x' t) = asoc (stas x t)"
    using sta_core_eqD [OF core [of s]] sta_core_eqD [OF core [of t]] by (simp_all add: y_def upd_sta_def)
qed

lemma wake_sta_state:
  fixes e :: tx_env
  assumes "sleepq_len (stas x s) = 0" "mgmt_sleepq_len (stas x s) = 0"
  defines "x' \<equiv> snd (wake_sta e s x)"
  shows "tx_inv x' = tx_inv x" "pending x' = pending x" "asoc (stas x' t) = asoc (stas x t)"
    "sleep_q (stas x' t) = sleep_q (stas x t)" "mgmt_sleep_q (stas x' t) = mgmt_sleep_q (stas x t)"
    "\<not> sleeping (stas x' s)" "aid (stas x' t) = aid (stas x t)"
    "sta_dz_bitmap x' = rtw_bmp_clear (sta_dz_bitmap x) (aid (stas x s))"
    "tim_bitmap x' = rtw_bmp_clear (tim_bitmap x) (aid (stas x s))"
proof -
  have eq: "servq (stas x' t) = servq (stas x t)" "sta_queue x' = sta_queue x" "accnt x' = accnt x" for t
    using assms(1,2) by (simp_all add: x'_def wake_sta_def upd_sta_def Let_def)
  then show "pending x' = pending x" by (simp add: pending_def fun_eq_iff)
  with eq show "tx_inv x' = tx_inv x" by (simp add: tx_inv_def)
qed (use assms in \<open>simp_all add: wake_sta_def upd_sta_def Let_def\<close>)

text \<open>The broadcast queue, delivered when no station dozes any more.\<close>

lemma wake_bmc_ok:
  assumes inv: "tx_inv x" and sl: "sleepers e b x"
  defines "x' \<equiv> snd (wake_bmc e b x)"
  shows "tx_inv x'" "pending x' t a = pending x t a @
      (if t = b then filter (\<lambda>f. rtw_get_sta_pending (xf_priority f) = a) (woken (sleep_q (stas x b))) else [])"
    "t \<noteq> b \<Longrightarrow> stas x' t = stas x t" "sleep_q (stas x' b) = []"
    "sta_dz_bitmap x' = rtw_bmp_clear (sta_dz_bitmap x) 0" "tim_bitmap x' = rtw_bmp_clear (tim_bitmap x) 0"
proof -
  note w = wake_queue_ok [OF inv sl]
  show "tx_inv x'" "pending x' t a = pending x t a @
      (if t = b then filter (\<lambda>f. rtw_get_sta_pending (xf_priority f) = a) (woken (sleep_q (stas x b))) else [])"
    "t \<noteq> b \<Longrightarrow> stas x' t = stas x t" "sleep_q (stas x' b) = []"
    "sta_dz_bitmap x' = rtw_bmp_clear (sta_dz_bitmap x) 0" "tim_bitmap x' = rtw_bmp_clear (tim_bitmap x) 0"
    using w by (simp_all add: x'_def wake_bmc_def Let_def pending_def tx_inv_def)
qed

text \<open>A station wakes up: the frames of its sleep queues go back to its queues, behind what waits there and in their
  order, each but the last of a sleep queue announcing more data; when no other station dozes, the group frames
  follow. The station is awake and its bits in both maps are clear.\<close>

lemma wakeup_sta_to_xmit_state:
  assumes inv: "tx_inv x" and ps: "\<And>a. uapsd (stas x s) a AND bit_mask 1 = 0"
    and sl: "sleepers e s x" "msleepers e s x" and bmc: "env_bmc e = Some b" "b \<noteq> s" "sleepers e b x"
  defines "x' \<equiv> wakeup_sta_to_xmit e s ALL_FRAME x"
    and "rest \<equiv> rtw_bmp_clear (sta_dz_bitmap x) (aid (stas x s))"
  shows "tx_inv x' \<and>
    (\<forall>ac. pending x' s ac = pending x s ac @
       (if ac = mgmt_idx then woken (mgmt_sleep_q (stas x s))
        else filter (\<lambda>f. rtw_get_sta_pending (xf_priority f) = ac) (woken (sleep_q (stas x s))))) \<and>
    (\<forall>ac. pending x' b ac = pending x b ac @
       (if rtw_bmp_not_empty_exclude_bit0 rest then []
        else filter (\<lambda>f. rtw_get_sta_pending (xf_priority f) = ac) (woken (sleep_q (stas x b))))) \<and>
    sleep_q (stas x' s) = [] \<and> mgmt_sleep_q (stas x' s) = [] \<and> \<not> sleeping (stas x' s) \<and>
    \<not> rtw_bmp_is_set (sta_dz_bitmap x') (aid (stas x s)) \<and> \<not> rtw_bmp_is_set (tim_bitmap x') (aid (stas x s))"
proof -
  define x1 where "x1 = wake_mgmt e s x"
  define x2 where "x2 = wake_data e s x1"
  define x3 where "x3 = snd (wake_sta e s x2)"
  define x4 where "x4 = (if \<not> rtw_bmp_not_empty_exclude_bit0 (sta_dz_bitmap x3) then snd (wake_bmc e b x3) else x3)"
  note w1 = wake_mgmt_ok [OF inv sl(2), folded x1_def]
  have sl1: "sleepers e s x1"
    using sl(1) w1 receiver_cong [of x1 x] by (simp add: sleepers_def)
  have x2: "x2 = fold (wake_bmc_frame e s) (sleep_q (stas x1 s)) (upd_sta s (\<lambda>t. t\<lparr>sleep_q := []\<rparr>) x1)"
    using ps w1(7) by (simp add: x2_def wake_data_eq)
  note w2 = wake_queue_ok [OF w1(1) sl1, folded x2]
  have "sleepq_len (stas x2 s) = 0" "mgmt_sleepq_len (stas x2 s) = 0"
    using w1 w2 by simp_all
  note w3 = wake_sta_state [OF this, where e = e, folded x3_def]
  have asoc: "asoc (stas x3 t) = asoc (stas x t)" for t
    using w3(3) w2(9) w1(9) by simp
  have sl3: "sleepers e b x3"
    using bmc(2,3) w1 w2(5) [of b] w3 receiver_cong [of x3 x, OF asoc] by (simp add: sleepers_def) (simp add: x3_def wake_sta_def upd_sta_def Let_def)
  have inv3: "tx_inv x3" and p3: "pending x3 = pending x2"
    using w1 w2 w3 by simp_all
  note w4 = wake_bmc_ok [OF inv3 sl3]
  have dz3: "sta_dz_bitmap x3 = rest" "tim_bitmap x3 = rtw_bmp_clear (tim_bitmap x) (aid (stas x s))"
    using w1 w2 w3 by (simp_all add: rest_def)
  have inv4: "tx_inv x4" and s4: "stas x4 s = stas x3 s"
    using inv3 w4(1) w4(3) [of s] bmc(2) by (simp_all add: x4_def)
  have p4: "pending x4 t a = pending x3 t a @ (if t = b \<and> \<not> rtw_bmp_not_empty_exclude_bit0 rest
      then filter (\<lambda>f. rtw_get_sta_pending (xf_priority f) = a) (woken (sleep_q (stas x3 b))) else [])" for t a
    using w4(2) by (simp add: x4_def dz3)
  have stas: "stas x' = stas x4" "sta_queue x' = sta_queue x4" "accnt x' = accnt x4"
    "sta_dz_bitmap x' = sta_dz_bitmap x4" "tim_bitmap x' = tim_bitmap x4"
    by (simp_all add: x'_def wakeup_sta_to_xmit_def Let_def bmc(1) x4_def x3_def x2_def x1_def split: prod.split)
  have "\<not> rtw_bmp_is_set (sta_dz_bitmap x4) (aid (stas x s))" "\<not> rtw_bmp_is_set (tim_bitmap x4) (aid (stas x s))"
    using w4(5,6) dz3 by (auto simp: x4_def rest_def bmp_clear_not_set dest!: bmp_clear_mono [where j = 0])
  moreover have "sleep_q (stas x4 s) = [] \<and> mgmt_sleep_q (stas x4 s) = [] \<and> \<not> sleeping (stas x4 s)"
    using w1 w2 w3 by (simp add: s4)
  moreover have "pending x4 s ac = pending x s ac @
       (if ac = mgmt_idx then woken (mgmt_sleep_q (stas x s))
        else filter (\<lambda>f. rtw_get_sta_pending (xf_priority f) = ac) (woken (sleep_q (stas x s))))" for ac
    using bmc(2) by (simp add: p4 p3 w2(2) w1)
  moreover have "pending x4 b ac = pending x b ac @
       (if rtw_bmp_not_empty_exclude_bit0 rest then []
        else filter (\<lambda>f. rtw_get_sta_pending (xf_priority f) = ac) (woken (sleep_q (stas x b))))" for ac
    using bmc(2) w1 w2(5) [of b] w3(4) [of b] by (simp add: p4 p3 w2(2))
  ultimately show ?thesis
    using inv4 tx_inv_cong [of x' x4] pending_cong [of x' x4] stas by simp
qed

text \<open>Frames up to the two flags that sleeping sets.\<close>

definition frame_core :: "xframe \<Rightarrow> xframe" where "frame_core f = f\<lparr>xf_triggered := False, xf_mdata := False\<rparr>"

lemma frame_core_woken: "map frame_core (woken (map untrig fs)) = map frame_core fs"
  by (induction fs) (simp_all add: frame_core_def untrig_def)

lemma priority_woken: "map xf_priority (woken fs) = map xf_priority fs"
  by (induction fs) simp_all

lemma filter_woken:
  "map frame_core (filter (\<lambda>f. P (xf_priority f)) (woken (map untrig fs))) = map frame_core (filter (\<lambda>f. P (xf_priority f)) fs)"
  by (induction fs) (simp_all add: frame_core_def untrig_def)

lemma filter_home:
  assumes "tx_home x" "ac < 4"
  shows "filter (\<lambda>f. rtw_get_sta_pending (xf_priority f) = ac)
    (pending x s 0 @ pending x s 1 @ pending x s 2 @ pending x s 3) = pending x s ac"
proof -
  have "rtw_get_sta_pending (xf_priority f) = a" if "f \<in> set (pending x s a)" "a < 4" for a f
    using tx_homeD(2) [OF assms(1) that(1)] that(2) by (auto simp: mgmt_idx_def HWXMIT_ENTRY_def)
  then have "filter (\<lambda>f. rtw_get_sta_pending (xf_priority f) = ac) (pending x s a) = (if a = ac then pending x s a else [])"
    if "a < 4" for a using that by (auto simp: filter_id_conv filter_empty_conv)
  then have "filter (\<lambda>f. rtw_get_sta_pending (xf_priority f) = ac) (pending x s 0 @ pending x s 1 @ pending x s 2 @ pending x s 3)
      = (if 0 = ac then pending x s 0 else []) @ (if 1 = ac then pending x s 1 else []) @
        (if 2 = ac then pending x s 2 else []) @ (if 3 = ac then pending x s 3 else [])"
    by simp
  moreover have "ac = 0 \<or> ac = 1 \<or> ac = 2 \<or> ac = 3"
    using assms(2) by auto
  ultimately show ?thesis by auto
qed

text \<open>C25. At an access point, a station that goes to sleep and wakes up again finds its frames in the same queues
  and in the same order, changed only in the more-data and triggered flags. This is for a station none of whose
  access categories is delivery enabled (no U-APSD), whose queues hold only its own unicast frames and the
  queues of the group station, another station, only group frames, none of them marked \<open>ps_dontq\<close>; the
  queues satisfy their invariants, the sleep queues of both are empty at the start, the bit map has a bit for
  the association id, and every station has less than \<open>2^32\<close> frames waiting.\<close>

theorem sleep_wake_roundtrip:
  assumes inv: "tx_inv x" "tx_home x" and ap: "env_ap e" and own: "own_frames e s False x"
    and bmc: "env_bmc e = Some b" "b \<noteq> s" "own_frames e b True x"
    and room: "aid (stas x s) < 8 * length (sta_dz_bitmap x)"
    and ps: "\<And>a. uapsd (stas x s) a AND bit_mask 1 = 0"
    and awake: "sleep_q (stas x s) = []" "sleepq_len (stas x s) = 0" "mgmt_sleep_q (stas x s) = []" "mgmt_sleepq_len (stas x s) = 0"
      "sleep_q (stas x b) = []" "sleepq_len (stas x b) = 0"
    and few: "\<And>t. length (pending x t 0 @ pending x t 1 @ pending x t 2 @ pending x t 3) < 2 ^ 32"
      "length (pending x s mgmt_idx) < 2 ^ 32"
    and ac: "ac < HWXMIT_ENTRY"
  defines "x' \<equiv> wakeup_sta_to_xmit e s ALL_FRAME (stop_sta_xmit e s x)"
  shows "map frame_core (pending x' s ac) = map frame_core (pending x s ac) \<and> tx_inv x'"
proof -
  define y where "y = stop_sta_xmit e s x"
  let ?all = "\<lambda>s. pending x s 0 @ pending x s 1 @ pending x s 2 @ pending x s 3"
  have y: "tx_inv y"
    "\<And>t a. pending y t a = (if t = s \<and> a < HWXMIT_ENTRY \<or> t = b \<and> a < 4 then [] else pending x t a)"
    "sleep_q (stas y s) = map untrig (?all s)" "sleep_q (stas y b) = map untrig (?all b)"
    "mgmt_sleep_q (stas y s) = map untrig (pending x s mgmt_idx)"
    "\<And>t. asoc (stas y t) = asoc (stas x t) \<and> uapsd (stas y t) = uapsd (stas x t)"
    "sleepq_len (stas y s) = of_nat (length (?all s))" "sleepq_len (stas y b) = of_nat (length (?all b))"
    "mgmt_sleepq_len (stas y s) = of_nat (length (pending x s mgmt_idx))"
    using stop_sta_xmit_state [OF inv ap own bmc room, folded y_def] awake by simp_all
  have rcv: "xmit_receiver (env_look e) y (untrig f) = Some t" if "own_frames e t m x" "f \<in> set (pending x t a)" for t m a f
    using own_frames_receiver(1) [OF inv(2) that] receiver_cong [of y x "env_look e" f] y(6) by (simp add: xmit_receiver_def)
  have "sleepers e s y" "sleepers e b y" "msleepers e s y"
    using few rcv [OF own] rcv [OF bmc(3)] by (auto simp: sleepers_def msleepers_def y)
  from wakeup_sta_to_xmit_state [OF y(1) _ this(1,3) bmc(1,2) this(2)] ps y(6)
  have w: "tx_inv x'" "pending x' s ac = pending y s ac @
      (if ac = mgmt_idx then woken (mgmt_sleep_q (stas y s))
       else filter (\<lambda>f. rtw_get_sta_pending (xf_priority f) = ac) (woken (sleep_q (stas y s))))"
    by (simp_all add: x'_def y_def [symmetric])
  have "pending y s ac = []" using ac by (simp add: y(2))
  moreover have "ac < 4" if "ac \<noteq> mgmt_idx" using that ac by (simp add: mgmt_idx_def HWXMIT_ENTRY_def)
  ultimately have "map frame_core (pending x' s ac) = map frame_core (pending x s ac)"
    using filter_woken [of "\<lambda>p. rtw_get_sta_pending p = ac" "?all s"] filter_home [OF inv(2), of ac s]
    unfolding w(2) y(3,5) by (simp add: frame_core_woken del: map_append filter_append)
  with w(1) show ?thesis by simp
qed

section \<open>Example\<close>

definition ex_env :: tx_env where
  "ex_env = \<lparr>env_ap = True, env_wifi_spec = False, env_hiq = HIQ_ALLOW_ALL, env_look = ex_look, env_bmc = Some 0, env_expire_to = 3\<rparr>"

lemma ex_full_sta:
  "asoc (stas ex_full s)" "aid (stas ex_full s) = s" "uapsd (stas ex_full s) a = 0" "sleep_q (stas ex_full s) = []"
  "mgmt_sleep_q (stas ex_full s) = []" "sleepq_len (stas ex_full s) = 0" "mgmt_sleepq_len (stas ex_full s) = 0"
  "sta_dz_bitmap ex_full = [0, 0]"
  by (simp_all add: ex_full_def enqueue_servq_def upd_servq_def upd_sta_def link_sta_def upd_accnt_def Let_def ex_tx_def ex_sta_def)

lemma ex_full_own: "own_frames ex_env 1 False ex_full" "own_frames ex_env 0 True ex_full"
  using ex_mac_neq by (auto simp: own_frames_def ex_full_sta ex_full_pending ex_env_def ex_look_def ex_frame_def split: if_splits)

theorem sleep_wake_roundtrip_witness:
  "map frame_core (pending (wakeup_sta_to_xmit ex_env 1 ALL_FRAME (stop_sta_xmit ex_env 1 ex_full)) 1 3) = [ex_frame 1 1 ex_mac 1]"
proof -
  have e: "env_ap ex_env" "env_bmc ex_env = Some 0" by (simp_all add: ex_env_def)
  have "map frame_core (pending (wakeup_sta_to_xmit ex_env 1 ALL_FRAME (stop_sta_xmit ex_env 1 ex_full)) 1 3) =
      map frame_core (pending ex_full 1 3)"
    using sleep_wake_roundtrip [OF ex_full_inv ex_full_home e(1) ex_full_own(1) e(2) _ ex_full_own(2), of 3]
    by (simp add: ex_full_sta ex_full_pending mgmt_idx_def HWXMIT_ENTRY_def)
  then show ?thesis by (simp add: ex_full_pending frame_core_def ex_frame_def)
qed

end
