(* ===== verification/Sta_Table.thy ===== *)
theory Sta_Table
  imports Sta_Acl Tx_Sleep Rx_Reorder Rx_Replay
begin

text \<open>
  The station table (\<open>core/rtw_sta_mgt.c\<close>, \<open>include/sta_info.h\<close>): a pool of \<open>NUM_STA\<close> stations, found by address
  through a hash table. Allocating a station takes it from the free list, resets its queues and its receive state,
  and gets it a MAC id; freeing it gives back all frames it holds, its MAC id, its association id and its bits in
  the maps of the dozing stations. The theory puts together the transmit queues (\<open>Tx_Queue\<close>), the MAC ids
  (\<open>Sta_Macid\<close>), the reorder buffers (\<open>Rx_Reorder\<close>) and the receive caches (\<open>Rx_Replay\<close>) of the stations.

  A station is its index in the pool. Pre-linked stations are off in this build (\<open>CONFIG_RTW_PRE_LINK_STA\<close>).
  The calls that only tell other parts of the system about a station (\<open>rtw_mi_update_iface_status\<close>,
  \<open>rtw_hal_set_odm_var\<close>, \<open>rtw_os_wake_queue_at_free_stainfo\<close>, \<open>rm_post_event\<close>) have no effect on this state.
\<close>

section \<open>State\<close>

abbreviation NUM_STA :: nat where "NUM_STA \<equiv> MACID_NUM_SW_LIMIT"

record sta_recv =
  recvreorder_ctrl :: "reorder_ctrl list"
  rxcache :: rx_cache
  recvpriv :: rx_sta

record sta_priv =
  sta_hash :: "nat list list"
  free_sta_queue :: "nat list"
  asoc_sta_count :: int
  sta_mac :: "nat \<Rightarrow> bytes"
  sta_mac_id :: "nat \<Rightarrow> nat"
  sta_recvs :: "nat \<Rightarrow> sta_recv"
  sta_txq :: "nat \<Rightarrow> xframe list"
  auth_list :: "nat list"
  auth_list_cnt :: u8
  sta_aid :: "nat option list"
  max_aid :: nat
  rr_aid :: bool
  started_aid :: nat
  max_num_sta :: nat
  acl_list :: "wlan_acl_pool list"
  xmitpriv :: xmit_priv
  dvobj :: dvobj_ids
  adapter_if :: iface
  hw_state_ap :: bool
  rx_freed :: "nat list"

section \<open>Operations\<close>

definition wifi_mac_hash :: "bytes \<Rightarrow> nat" where
  "wifi_mac_hash mac =
     (let x = fold (\<lambda>b x. push_bit 2 x XOR ucast b) (tl (take 6 mac)) (ucast (mac ! 0) :: u32);
          x = x XOR drop_bit 8 x in
      unat (x AND (of_nat NUM_STA - 1)))"

text \<open>\<open>_rtw_init_stainfo\<close> clears a station. What the receive state keeps for all stations (the counters of
  \<open>recv_priv\<close>) stays.\<close>

definition zero_sta_xmit :: sta_xmit where
  "zero_sta_xmit = \<lparr>servq = \<lambda>_. \<lparr>sta_pending = [], qcnt = 0\<rparr>, sleep_q = [], sleepq_len = 0, mgmt_sleep_q = [],
     mgmt_sleepq_len = 0, sleepq_ac_len = 0, uapsd = \<lambda>_. 0, has_legacy_ac = False, asoc = False, sleeping = False,
     alive_chk = False, expire_to = 0, aid = 0\<rparr>"

definition zero_reorder_ctrl :: "reorder_ctrl \<Rightarrow> reorder_ctrl" where
  "zero_reorder_ctrl r =
     r\<lparr>enable := False, indicate_seq := 0, wsize_b := 0, pending_recvframe_queue := [], bReorderWaiting := False,
       timer_armed := False, recv_ack_or_timeout := False, recv_reorder_wow := False\<rparr>"

definition u_rtw_init_stainfo :: "nat \<Rightarrow> sta_priv \<Rightarrow> sta_priv" where
  "u_rtw_init_stainfo s t =
     t\<lparr>sta_mac := (sta_mac t)(s := replicate 6 0), sta_mac_id := (sta_mac_id t)(s := 0), sta_txq := (sta_txq t)(s := []),
       sta_recvs := (sta_recvs t)(s :=
         \<lparr>recvreorder_ctrl = map zero_reorder_ctrl (recvreorder_ctrl (sta_recvs t s)),
          rxcache = \<lparr>tid_rxseq = replicate 16 0, bmc_tid_rxseq = replicate 16 0, nonqos_rxseq = 0, nonqos_bmc_rxseq = 0,
            cache_iv = replicate 16 (replicate 8 0), last_tid = 0, duplicate_cnt = 0\<rparr>,
          recvpriv = \<lparr>defrag_q = [], sta_keytrack = 0, sta_rxmickey = replicate 16 0\<rparr>\<rparr>),
       xmitpriv := upd_sta s (\<lambda>_. zero_sta_xmit) (xmitpriv t)\<rparr>"

text \<open>\<open>mem i\<close> tells whether the \<open>i\<close>-th allocation of memory succeeds.\<close>

definition AID_BMP_LEN :: "nat \<Rightarrow> nat" where
  "AID_BMP_LEN n = (n + 1) div 8 + (if (n + 1) mod 8 \<noteq> 0 then 1 else 0)"

definition init_free_stainfo :: "nat \<Rightarrow> sta_priv \<Rightarrow> sta_priv" where
  "init_free_stainfo i t = (let t = u_rtw_init_stainfo i t in t\<lparr>free_sta_queue := free_sta_queue t @ [i]\<rparr>)"

definition u_rtw_init_sta_priv :: "(nat \<Rightarrow> bool) \<Rightarrow> sta_priv \<Rightarrow> sta_priv option" where
  "u_rtw_init_sta_priv mem t =
     (if \<not> mem 0 then None
      else
        let t = t\<lparr>free_sta_queue := [], asoc_sta_count := 0, sta_hash := replicate NUM_STA []\<rparr>;
            t = fold init_free_stainfo [0..<NUM_STA] t;
            n = mac_num (macid_ctl (dvobj t));
            t = t\<lparr>max_aid := n, rr_aid := False, started_aid := 1\<rparr> in
        if \<not> mem 1 then None
        else
          let t = t\<lparr>sta_aid := replicate n None\<rparr> in
          if \<not> mem 2 then None
          else
            let t = t\<lparr>xmitpriv := (xmitpriv t)\<lparr>sta_dz_bitmap := replicate (AID_BMP_LEN n) 0\<rparr>\<rparr> in
            if \<not> mem 3 then None
            else
              Some (t\<lparr>xmitpriv := (xmitpriv t)\<lparr>tim_bitmap := replicate (AID_BMP_LEN n) 0\<rparr>, auth_list := [], auth_list_cnt := 0,
                max_num_sta := NUM_STA, acl_list := acl_start (acl_list t)\<rparr>))"

definition init_reorder_ctrl :: "reorder_ctrl \<Rightarrow> reorder_ctrl" where
  "init_reorder_ctrl r =
     r\<lparr>enable := False, indicate_seq := 0xffff, wsize_b := 64, pending_recvframe_queue := [], timer_armed := False,
       recv_ack_or_timeout := False\<rparr>"

text \<open>The receive state of a new station: no sequence number has been seen.\<close>

definition init_sta_recv :: "sta_recv \<Rightarrow> sta_recv" where
  "init_sta_recv r =
     (let c = (rxcache r)\<lparr>tid_rxseq := replicate 16 0xffff, bmc_tid_rxseq := replicate 16 0xffff,
            cache_iv := replicate 16 (replicate 8 0), nonqos_bmc_rxseq := 0xffff, nonqos_rxseq := 0xffff\<rparr> in
      r\<lparr>rxcache := c, recvreorder_ctrl := map init_reorder_ctrl (recvreorder_ctrl r),
        recvpriv := (recvpriv r)\<lparr>sta_keytrack := 0\<rparr>\<rparr>)"

definition rtw_alloc_stainfo :: "sta_priv \<Rightarrow> bytes \<Rightarrow> nat option \<times> sta_priv" where
  "rtw_alloc_stainfo t hwaddr =
     (case free_sta_queue t of
        [] \<Rightarrow> (None, t)
      | s # rest \<Rightarrow>
          let t = u_rtw_init_stainfo s (t\<lparr>free_sta_queue := rest\<rparr>);
              t = t\<lparr>sta_mac := (sta_mac t)(s := take 6 hwaddr)\<rparr>;
              index = wifi_mac_hash hwaddr in
          if index \<ge> NUM_STA then (None, t)
          else
            let t = t\<lparr>sta_hash := (sta_hash t)[index := sta_hash t ! index @ [s]], asoc_sta_count := asoc_sta_count t + 1\<rparr>;
                t = t\<lparr>sta_recvs := (sta_recvs t)(s := init_sta_recv (sta_recvs t s))\<rparr>;
                (i, d) = rtw_alloc_macid (adapter_if t) s (sta_mac t s) (dvobj t);
                t = t\<lparr>dvobj := d, sta_mac_id := (sta_mac_id t)(s := i), sta_txq := (sta_txq t)(s := [])\<rparr> in
            (Some s, t))"

definition rtw_get_stainfo :: "sta_priv \<Rightarrow> bytes \<Rightarrow> nat option" where
  "rtw_get_stainfo t hwaddr =
     (let addr = (if IS_MCAST hwaddr then bc_addr else hwaddr) in
      find (\<lambda>s. sta_mac t s = addr) (sta_hash t ! wifi_mac_hash addr))"

definition rtw_get_bcmc_stainfo :: "sta_priv \<Rightarrow> nat option" where
  "rtw_get_bcmc_stainfo t = rtw_get_stainfo t bc_addr"

text \<open>The result of \<open>rtw_alloc_stainfo\<close> is not reported: the return value is always \<open>_SUCCESS\<close>.\<close>

definition rtw_init_bcmc_stainfo :: "sta_priv \<Rightarrow> bool \<times> sta_priv" where
  "rtw_init_bcmc_stainfo t = (True, snd (rtw_alloc_stainfo t bc_addr))"

text \<open>One queue of a station that is freed: the frames, the link in the list of the category, and the counters.\<close>

definition flush_servq :: "nat \<Rightarrow> nat \<Rightarrow> xmit_priv \<Rightarrow> xmit_priv" where
  "flush_servq s ac x =
     (let x = upd_servq s ac (\<lambda>q. q\<lparr>sta_pending := []\<rparr>) (rtw_free_xmitframe_queue x (pending x s ac));
          x = unlink_sta s ac x;
          x = upd_accnt ac (- qcnt (servq (stas x s) ac)) x in
      upd_servq s ac (\<lambda>q. q\<lparr>qcnt := 0\<rparr>) x)"

text \<open>All queues, the sleep queues first. The management queue is emptied like the others.\<close>

definition flush_sta :: "nat \<Rightarrow> xframe list \<Rightarrow> xmit_priv \<Rightarrow> xmit_priv" where
  "flush_sta s txq x =
     (let x = upd_sta s (\<lambda>u. u\<lparr>asoc := False\<rparr>) x;
          x = rtw_free_xmitframe_queue x txq;
          x = upd_sta s (\<lambda>u. u\<lparr>sleep_q := [], sleepq_len := 0\<rparr>) (rtw_free_xmitframe_queue x (sleep_q (stas x s)));
          x = upd_sta s (\<lambda>u. u\<lparr>mgmt_sleep_q := [], mgmt_sleepq_len := 0\<rparr>)
                (rtw_free_mgmt_xmitframe_queue x (mgmt_sleep_q (stas x s))) in
      fold (flush_servq s) [0, 1, 2, 3, mgmt_idx] x)"

definition stop_reorder_ctrl :: "reorder_ctrl \<Rightarrow> reorder_ctrl" where
  "stop_reorder_ctrl r = r\<lparr>recv_ack_or_timeout := False, timer_armed := False, pending_recvframe_queue := []\<rparr>"

definition recv_held :: "sta_recv \<Rightarrow> nat list" where
  "recv_held r =
     concat (map (\<lambda>c. map recv_frame.frame_id (pending_recvframe_queue c)) (recvreorder_ctrl r)) @ map fr_id (defrag_q (recvpriv r))"

definition stop_sta_recv :: "sta_recv \<Rightarrow> sta_recv" where
  "stop_sta_recv r =
     r\<lparr>recvreorder_ctrl := map stop_reorder_ctrl (recvreorder_ctrl r), recvpriv := (recvpriv r)\<lparr>defrag_q := []\<rparr>\<rparr>"

text \<open>The part for the access point.\<close>

definition free_sta_ap :: "nat \<Rightarrow> sta_priv \<Rightarrow> sta_priv" where
  "free_sta_ap s t =
     (let t = (if s \<in> set (auth_list t) then t\<lparr>auth_list := remove1 s (auth_list t), auth_list_cnt := auth_list_cnt t - 1\<rparr> else t);
          t = t\<lparr>xmitpriv := upd_sta s (\<lambda>u. u\<lparr>expire_to := 0, sleepq_ac_len := 0, uapsd := \<lambda>_. 0, has_legacy_ac := False\<rparr>) (xmitpriv t)\<rparr> in
      if hw_state_ap t then
        let a = aid (stas (xmitpriv t) s);
            t = t\<lparr>xmitpriv := (xmitpriv t)\<lparr>sta_dz_bitmap := rtw_bmp_clear (sta_dz_bitmap (xmitpriv t)) a,
                  tim_bitmap := rtw_bmp_clear (tim_bitmap (xmitpriv t)) a\<rparr>\<rparr> in
        if a > 0 \<and> sta_aid t ! (a - 1) = Some s then
          t\<lparr>sta_aid := (sta_aid t)[a - 1 := None], xmitpriv := upd_sta s (\<lambda>u. u\<lparr>aid := 0\<rparr>) (xmitpriv t)\<rparr>
        else t
      else t)"

definition rtw_free_stainfo :: "sta_priv \<Rightarrow> nat option \<Rightarrow> sta_priv" where
  "rtw_free_stainfo t psta =
     (case psta of
        None \<Rightarrow> t
      | Some s \<Rightarrow>
          let t = t\<lparr>sta_hash := map (remove1 s) (sta_hash t), asoc_sta_count := asoc_sta_count t - 1\<rparr>;
              t = t\<lparr>xmitpriv := flush_sta s (sta_txq t s) (xmitpriv t), sta_txq := (sta_txq t)(s := [])\<rparr>;
              t = t\<lparr>rx_freed := rx_freed t @ recv_held (sta_recvs t s), sta_recvs := (sta_recvs t)(s := stop_sta_recv (sta_recvs t s))\<rparr>;
              (i, d) = rtw_release_macid (adapter_if t) (sta_mac t s) (sta_mac_id t s) (dvobj t);
              t = t\<lparr>dvobj := d, sta_mac_id := (sta_mac_id t)(s := i)\<rparr>;
              t = free_sta_ap s t in
          t\<lparr>free_sta_queue := free_sta_queue t @ [s]\<rparr>)"

text \<open>The stations are taken out of the hash table first, and freed afterwards.\<close>

definition rtw_free_all_stainfo :: "sta_priv \<Rightarrow> sta_priv" where
  "rtw_free_all_stainfo t =
     (if asoc_sta_count t = 1 then t
      else
        let bcmc = rtw_get_bcmc_stainfo t;
            victims = filter (\<lambda>s. Some s \<noteq> bcmc) (concat (map (\<lambda>i. sta_hash t ! i) [0..<NUM_STA]));
            t = t\<lparr>sta_hash := map (filter (\<lambda>s. Some s = bcmc)) (sta_hash t)\<rparr> in
        fold (\<lambda>s t. rtw_free_stainfo t (Some s)) victims t)"

function (sequential) aid_loop :: "sta_priv \<Rightarrow> nat \<Rightarrow> nat \<Rightarrow> nat \<Rightarrow> nat \<times> nat \<times> nat" where
  "aid_loop t i a used_cnt =
     (if i < max_aid t then
        let a = (i + started_aid t - 1) mod max_aid t + 1 in
        if sta_aid t ! (a - 1) = None then (i, a, used_cnt)
        else if used_cnt + 1 \<ge> max_num_sta t then (i, a, used_cnt + 1)
        else aid_loop t (i + 1) a (used_cnt + 1)
      else (i, a, used_cnt))"
  by pat_completeness auto
termination
  by (relation "measure (\<lambda>(t, i, _, _). max_aid t - i)") auto

declare aid_loop.simps [simp del]

definition rtw_aid_alloc :: "sta_priv \<Rightarrow> nat \<Rightarrow> nat \<times> sta_priv" where
  "rtw_aid_alloc t s =
     (case aid_loop t 0 0 0 of
        (i, a, used_cnt) \<Rightarrow>
          let a = (if i \<ge> max_aid t \<or> used_cnt \<ge> max_num_sta t then 0 else a);
              t = t\<lparr>xmitpriv := upd_sta s (\<lambda>u. u\<lparr>aid := a\<rparr>) (xmitpriv t)\<rparr> in
          if a \<noteq> 0 then
            (a, let t = t\<lparr>sta_aid := (sta_aid t)[a - 1 := Some s]\<rparr> in
                if rr_aid t then t\<lparr>started_aid := a mod max_aid t + 1\<rparr> else t)
          else (0, t))"

section \<open>The table as a map\<close>

text \<open>What a client of the table relies on. \<open>key_ok\<close> tells the addresses of stations: six bytes, not a group address
  other than the broadcast address.\<close>

locale sta_map =
  fixes inv :: "'t \<Rightarrow> bool" and key_ok :: "'k \<Rightarrow> bool" and look :: "'t \<Rightarrow> 'k \<Rightarrow> 'v option"
    and add :: "'t \<Rightarrow> 'k \<Rightarrow> 'v option \<times> 't" and del :: "'t \<Rightarrow> 'v option \<Rightarrow> 't" and room :: "'t \<Rightarrow> nat"
  assumes add_full: "room t = 0 \<Longrightarrow> add t k = (None, t)"
    and add_ok: "inv t \<Longrightarrow> key_ok k \<Longrightarrow> look t k = None \<Longrightarrow> 0 < room t \<Longrightarrow>
      \<exists>v t'. add t k = (Some v, t') \<and> inv t' \<and> room t = Suc (room t') \<and>
        (\<forall>k'. key_ok k' \<longrightarrow> look t' k' = (if k' = k then Some v else look t k'))"
    and del_ok: "inv t \<Longrightarrow> key_ok k \<Longrightarrow> look t k = Some v \<Longrightarrow>
      inv (del t (Some v)) \<and> room (del t (Some v)) = Suc (room t) \<and>
        (\<forall>k'. key_ok k' \<longrightarrow> look (del t (Some v)) k' = (if k' = k then None else look t k'))"
    and del_none: "del t None = t"
begin

lemma add_del:
  assumes "inv t" "key_ok k" "look t k = None" "0 < room t" "key_ok k'"
  shows "look (del (snd (add t k)) (fst (add t k))) k' = look t k'"
proof -
  obtain v t' where a: "add t k = (Some v, t')" "inv t'" "\<forall>k'. key_ok k' \<longrightarrow> look t' k' = (if k' = k then Some v else look t k')"
    using add_ok [OF assms(1-4)] by auto
  then have "look t' k = Some v" using assms(2) by simp
  from del_ok [OF a(2) assms(2) this] a assms show ?thesis by auto
qed

end

datatype 'k tab_op = Join 'k | Leave 'k

text \<open>The client: a station joins when it is not there yet, and leaves by its address.\<close>

definition tab_exec :: "('t \<Rightarrow> 'k \<Rightarrow> 'v option) \<Rightarrow> ('t \<Rightarrow> 'k \<Rightarrow> 'v option \<times> 't) \<Rightarrow> ('t \<Rightarrow> 'v option \<Rightarrow> 't) \<Rightarrow> 'k tab_op \<Rightarrow> 't \<Rightarrow> 't" where
  "tab_exec look add del opn t =
     (case opn of Join k \<Rightarrow> if look t k = None then snd (add t k) else t | Leave k \<Rightarrow> del t (look t k))"

text \<open>Its specification: a set of at most \<open>cap\<close> addresses.\<close>

definition tab_spec :: "nat \<Rightarrow> 'k tab_op \<Rightarrow> 'k set \<Rightarrow> 'k set" where
  "tab_spec cap opn S = (case opn of Join k \<Rightarrow> if card S < cap then insert k S else S | Leave k \<Rightarrow> S - {k})"

fun tab_key :: "'k tab_op \<Rightarrow> 'k" where
  "tab_key (Join k) = k"
| "tab_key (Leave k) = k"

context sta_map
begin

definition keys :: "'t \<Rightarrow> 'k set" where "keys t = {k. key_ok k \<and> look t k \<noteq> None}"

definition within :: "nat \<Rightarrow> 't \<Rightarrow> bool" where
  "within cap t \<longleftrightarrow> inv t \<and> finite (keys t) \<and> card (keys t) + room t = cap"

lemma exec_refines:
  assumes w: "within cap t" and k: "key_ok (tab_key opn)"
  shows "within cap (tab_exec look add del opn t) \<and> keys (tab_exec look add del opn t) = tab_spec cap opn (keys t)"
proof (cases opn)
  case (Join k)
  have inv: "inv t" and k: "key_ok k" using w k Join by (simp_all add: within_def)
  consider "look t k \<noteq> None" | "look t k = None" "room t = 0" | "look t k = None" "0 < room t" by auto
  then show ?thesis
  proof cases
    case 1
    then have "insert k (keys t) = keys t" using k by (auto simp: keys_def)
    then have "tab_spec cap opn (keys t) = keys t" by (simp add: tab_spec_def Join)
    moreover have "tab_exec look add del opn t = t" using 1 by (auto simp: tab_exec_def Join)
    ultimately show ?thesis using w by simp
  next
    case 2
    with w Join add_full show ?thesis by (simp add: tab_exec_def tab_spec_def within_def)
  next
    case 3
    obtain v t' where a: "add t k = (Some v, t')" "inv t'" "room t = Suc (room t')"
      "\<forall>k'. key_ok k' \<longrightarrow> look t' k' = (if k' = k then Some v else look t k')"
      using add_ok [OF inv k 3] by auto
    then have keys: "keys t' = insert k (keys t)" using k by (auto simp: keys_def)
    moreover have "k \<notin> keys t" using 3 by (simp add: keys_def)
    ultimately show ?thesis
      using w a Join 3 by (auto simp: tab_exec_def tab_spec_def within_def)
  qed
next
  case (Leave k)
  have inv: "inv t" and k: "key_ok k" using w k Leave by (simp_all add: within_def)
  show ?thesis
  proof (cases "look t k")
    case None
    then have "keys t - {k} = keys t" by (auto simp: keys_def)
    with None w Leave show ?thesis by (simp add: tab_exec_def tab_spec_def del_none)
  next
    case (Some v)
    note d = del_ok [OF inv k Some]
    then have keys: "keys (del t (Some v)) = keys t - {k}" by (auto simp: keys_def split: if_splits)
    moreover have "k \<in> keys t" using Some k by (simp add: keys_def)
    then have "card (keys t) = Suc (card (keys t - {k}))"
      using w by (metis card.remove within_def)
    ultimately show ?thesis
      using w d Leave Some by (simp add: tab_exec_def tab_spec_def within_def)
  qed
qed

lemma run_refines:
  assumes "within cap t" "\<forall>opn \<in> set ops. key_ok (tab_key opn)"
  shows "within cap (fold (tab_exec look add del) ops t) \<and>
    keys (fold (tab_exec look add del) ops t) = fold (tab_spec cap) ops (keys t)"
  using assms
proof (induction ops arbitrary: t)
  case (Cons opn ops)
  then have "within cap (tab_exec look add del opn t)" "keys (tab_exec look add del opn t) = tab_spec cap opn (keys t)"
    using exec_refines [of cap t opn] by simp_all
  with Cons.IH [of "tab_exec look add del opn t"] Cons.prems show ?case by simp
qed simp

end

section \<open>Invariant\<close>

definition tabled :: "sta_priv \<Rightarrow> nat list" where "tabled t = concat (sta_hash t)"

text \<open>Every station of the pool is free or in the bucket of its address, and in one place only; no two stations in
  the table have the same address.\<close>

definition tab_inv :: "sta_priv \<Rightarrow> bool" where
  "tab_inv t \<longleftrightarrow> length (sta_hash t) = NUM_STA \<and> distinct (free_sta_queue t @ tabled t) \<and>
     set (free_sta_queue t @ tabled t) = {..<NUM_STA} \<and>
     (\<forall>i < NUM_STA. \<forall>s \<in> set (sta_hash t ! i). wifi_mac_hash (sta_mac t s) = i) \<and>
     inj_on (sta_mac t) (set (tabled t)) \<and> asoc_sta_count t = int (length (tabled t))"

definition holders_of :: "sta_priv \<Rightarrow> holders" where
  "holders_of t s = (if s \<in> set (tabled t) then Some (adapter_if t, sta_mac t s, sta_mac_id t s) else None)"

text \<open>The stations in the table hold the MAC ids that are in use, the queues are consistent, and a free station has
  no frames.\<close>

definition sta_inv :: "sta_priv \<Rightarrow> bool" where
  "sta_inv t \<longleftrightarrow> tab_inv t \<and> macid_inv (macid_ctl (dvobj t)) (holders_of t) \<and>
     iface_id (adapter_if t) < length (if_g (macid_ctl (dvobj t))) \<and> tx_inv (xmitpriv t) \<and>
     (\<forall>s ac. s \<in> set (free_sta_queue t) \<or> HWXMIT_ENTRY \<le> ac \<longrightarrow> pending (xmitpriv t) s ac = [])"

definition sta_key :: "bytes \<Rightarrow> bool" where
  "sta_key a \<longleftrightarrow> length a = 6 \<and> (IS_MCAST a \<longrightarrow> a = bc_addr)"

lemma mac_hash_less: "wifi_mac_hash mac < NUM_STA"
proof -
  have "unat (x AND (31 :: u32)) < 32" for x
    using word_and_le1 [of x 31] unat_mono [of "x AND 31" 32] by (simp add: word_le_nat_alt)
  then show ?thesis by (simp add: wifi_mac_hash_def MACID_NUM_SW_LIMIT_def Let_def)
qed

lemma get_stainfo_key: "sta_key a \<Longrightarrow> rtw_get_stainfo t a = find (\<lambda>s. sta_mac t s = a) (sta_hash t ! wifi_mac_hash a)"
  by (auto simp: rtw_get_stainfo_def sta_key_def)

text \<open>The hash table finds exactly the station with the address.\<close>

lemma get_stainfo_Some:
  assumes inv: "tab_inv t" and k: "sta_key a"
  shows "rtw_get_stainfo t a = Some s \<longleftrightarrow> s \<in> set (tabled t) \<and> sta_mac t s = a"
proof
  assume "rtw_get_stainfo t a = Some s"
  then obtain i where i: "i < length (sta_hash t ! wifi_mac_hash a)" "sta_hash t ! wifi_mac_hash a ! i = s" "sta_mac t s = a"
    using k by (auto simp: get_stainfo_key find_Some_iff)
  then have "s \<in> set (sta_hash t ! wifi_mac_hash a)" "wifi_mac_hash a < length (sta_hash t)"
    using inv mac_hash_less by (auto simp: tab_inv_def)
  then show "s \<in> set (tabled t) \<and> sta_mac t s = a"
    using i(3) by (auto simp: tabled_def)
next
  assume s: "s \<in> set (tabled t) \<and> sta_mac t s = a"
  then obtain i where i: "i < length (sta_hash t)" "s \<in> set (sta_hash t ! i)"
    unfolding tabled_def by (metis in_set_conv_nth set_concat UN_E)
  then have "i = wifi_mac_hash a"
    using inv s by (auto simp: tab_inv_def)
  then have "\<exists>x. rtw_get_stainfo t a = Some x"
    using i(2) s k by (auto simp: get_stainfo_key find_None_iff simp flip: not_None_eq)
  then obtain x where x: "rtw_get_stainfo t a = Some x" ..
  then have "x \<in> set (sta_hash t ! wifi_mac_hash a)" "sta_mac t x = a"
    using k by (auto simp: get_stainfo_key find_Some_iff)
  then have "x \<in> set (tabled t)"
    using i(1) \<open>i = wifi_mac_hash a\<close> by (auto simp: tabled_def)
  with inv s \<open>sta_mac t x = a\<close> have "x = s"
    by (auto simp: tab_inv_def inj_on_def)
  with x show "rtw_get_stainfo t a = Some s" by simp
qed

lemma get_stainfo_None:
  assumes "tab_inv t" "sta_key a"
  shows "rtw_get_stainfo t a = None \<longleftrightarrow> a \<notin> sta_mac t ` set (tabled t)"
proof (cases "rtw_get_stainfo t a")
  case (Some s)
  then show ?thesis using get_stainfo_Some [OF assms, of s] by auto
qed (use get_stainfo_Some [OF assms] in auto)

subsection \<open>Joining\<close>

lemma alloc_stainfo_state:
  assumes "free_sta_queue t = s # rest" "length k = 6"
  obtains t' i d where "rtw_alloc_stainfo t k = (Some s, t')" "free_sta_queue t' = rest"
    "sta_hash t' = (sta_hash t)[wifi_mac_hash k := sta_hash t ! wifi_mac_hash k @ [s]]"
    "asoc_sta_count t' = asoc_sta_count t + 1" "sta_mac t' = (sta_mac t)(s := k)" "adapter_if t' = adapter_if t"
    "rtw_alloc_macid (adapter_if t) s k (dvobj t) = (i, d)" "dvobj t' = d" "sta_mac_id t' = (sta_mac_id t)(s := i)"
    "xmitpriv t' = upd_sta s (\<lambda>_. zero_sta_xmit) (xmitpriv t)"
proof -
  obtain i d where "rtw_alloc_macid (adapter_if t) s k (dvobj t) = (i, d)" by fastforce
  then show ?thesis
    using assms mac_hash_less [of k] by (intro that [of "snd (rtw_alloc_stainfo t k)" i d])
      (simp_all add: rtw_alloc_stainfo_def u_rtw_init_stainfo_def Let_def)
qed

lemma concat_update:
  assumes "i < length xss"
  shows "set (concat (xss[i := xss ! i @ [x]])) = insert x (set (concat xss))"
    "distinct (concat (xss[i := xss ! i @ [x]])) \<longleftrightarrow> distinct (concat xss) \<and> x \<notin> set (concat xss)"
    "length (concat (xss[i := xss ! i @ [x]])) = Suc (length (concat xss))"
proof -
  have "xss = take i xss @ xss ! i # drop (Suc i) xss" "xss[i := xss ! i @ [x]] = take i xss @ (xss ! i @ [x]) # drop (Suc i) xss"
    using assms by (simp_all add: id_take_nth_drop upd_conv_take_nth_drop)
  then have "concat xss = concat (take i xss) @ xss ! i @ concat (drop (Suc i) xss)"
    "concat (xss[i := xss ! i @ [x]]) = concat (take i xss) @ xss ! i @ x # concat (drop (Suc i) xss)"
    by (metis concat_append concat.simps(2) append_assoc append_Cons append_Nil)+
  then show "set (concat (xss[i := xss ! i @ [x]])) = insert x (set (concat xss))"
    "distinct (concat (xss[i := xss ! i @ [x]])) \<longleftrightarrow> distinct (concat xss) \<and> x \<notin> set (concat xss)"
    "length (concat (xss[i := xss ! i @ [x]])) = Suc (length (concat xss))"
    by auto
qed

lemma upd_zero_sta:
  assumes "tx_inv x" "\<And>ac. pending x s ac = []"
  shows "tx_inv (upd_sta s (\<lambda>_. zero_sta_xmit) x)" "pending (upd_sta s (\<lambda>_. zero_sta_xmit) x) = pending x"
proof -
  let ?x = "upd_sta s (\<lambda>_. zero_sta_xmit) x"
  have q: "qcnt (servq (stas x s) ac) = 0" for ac
    using tx_invD(3) [OF assms(1), of s ac] assms(2) by simp
  show p: "pending ?x = pending x"
    using assms(2) by (auto simp: pending_def upd_sta_def zero_sta_xmit_def fun_eq_iff)
  have "qcnt (servq (stas ?x u) ac) = qcnt (servq (stas x u) ac)" for u ac
    using q by (simp add: upd_sta_def zero_sta_xmit_def)
  moreover have "sta_queue ?x = sta_queue x" "accnt ?x = accnt x"
    by (simp_all add: upd_sta_def)
  ultimately show "tx_inv ?x"
    using assms(1) p by (simp add: tx_inv_def)
qed

lemma alloc_macid_if_g:
  assumes "rtw_alloc_macid f s mac d = (i, d')"
  shows "length (if_g (macid_ctl d')) = length (if_g (macid_ctl d))"
  using assms by (auto simp: rtw_alloc_macid_def Let_def split: if_splits)

lemma release_macid_if_g:
  assumes "rtw_release_macid f mac i d = (i', d')"
  shows "length (if_g (macid_ctl d')) = length (if_g (macid_ctl d))"
  using assms by (auto simp: rtw_release_macid_def Let_def split: if_splits)

lemma rtw_alloc_stainfo_ok:
  assumes inv: "sta_inv t" and k: "sta_key k" and new: "rtw_get_stainfo t k = None" and free: "free_sta_queue t = s # rest"
  shows "\<exists>t'. rtw_alloc_stainfo t k = (Some s, t') \<and> sta_inv t' \<and> free_sta_queue t' = rest \<and>
    set (tabled t') = insert s (set (tabled t)) \<and> sta_mac t' = (sta_mac t)(s := k)"
proof -
  have tab: "tab_inv t" and mi: "macid_inv (macid_ctl (dvobj t)) (holders_of t)" and tx: "tx_inv (xmitpriv t)"
    and empty: "\<And>u ac. u \<in> set (free_sta_queue t) \<or> HWXMIT_ENTRY \<le> ac \<Longrightarrow> pending (xmitpriv t) u ac = []"
    and ifc: "iface_id (adapter_if t) < length (if_g (macid_ctl (dvobj t)))"
    using inv by (auto simp: sta_inv_def)
  obtain t' i d where t': "rtw_alloc_stainfo t k = (Some s, t')" "free_sta_queue t' = rest"
    "sta_hash t' = (sta_hash t)[wifi_mac_hash k := sta_hash t ! wifi_mac_hash k @ [s]]"
    "asoc_sta_count t' = asoc_sta_count t + 1" "sta_mac t' = (sta_mac t)(s := k)" "adapter_if t' = adapter_if t"
    "rtw_alloc_macid (adapter_if t) s k (dvobj t) = (i, d)" "dvobj t' = d" "sta_mac_id t' = (sta_mac_id t)(s := i)"
    "xmitpriv t' = upd_sta s (\<lambda>_. zero_sta_xmit) (xmitpriv t)"
    using alloc_stainfo_state [OF free, of k] k unfolding sta_key_def by blast
  have h: "wifi_mac_hash k < length (sta_hash t)"
    using tab mac_hash_less by (simp add: tab_inv_def)
  have s: "s \<notin> set (tabled t)"
    using tab free by (auto simp: tab_inv_def)
  have k_new: "k \<notin> sta_mac t ` set (tabled t)"
    using new get_stainfo_None [OF tab k] by simp
  have tabled: "set (tabled t') = insert s (set (tabled t))" "distinct (tabled t') \<longleftrightarrow> distinct (tabled t)"
    "length (tabled t') = Suc (length (tabled t))"
    using concat_update [OF h, of s] s by (auto simp: tabled_def t')
  have "wifi_mac_hash (sta_mac t' u) = j" if "j < NUM_STA" "u \<in> set (sta_hash t' ! j)" for j u
  proof (cases "u = s")
    case True
    then have "j = wifi_mac_hash k"
      using that s h tab by (cases "j = wifi_mac_hash k") (auto simp: t' tabled_def tab_inv_def)
    with True show ?thesis by (simp add: t')
  next
    case False
    then have "u \<in> set (sta_hash t ! j)"
      using that h by (cases "j = wifi_mac_hash k") (auto simp: t')
    with False that tab show ?thesis by (auto simp: t' tab_inv_def)
  qed
  moreover have "inj_on (sta_mac t') (set (tabled t'))"
    using tab k_new s unfolding tabled(1) by (auto simp: tab_inv_def inj_on_def t')
  moreover have "s \<notin> set rest" "distinct (rest @ tabled t)"
    using tab free by (auto simp: tab_inv_def)
  ultimately have tab': "tab_inv t'"
    using tab free s tabled by (auto simp: tab_inv_def t')
  have "holders_of t' = (holders_of t)(s \<mapsto> (adapter_if t, k, i))"
    using s by (auto simp: holders_of_def tabled fun_eq_iff t')
  moreover have "holders_of t s = None" using s by (simp add: holders_of_def)
  ultimately have "macid_inv (macid_ctl (dvobj t')) (holders_of t')"
    using macid_inv_alloc [OF mi _ ifc t'(7)] by (simp add: t')
  moreover have "tx_inv (xmitpriv t')" "pending (xmitpriv t') = pending (xmitpriv t)"
    using upd_zero_sta [OF tx, of s] empty free by (simp_all add: t')
  ultimately have "sta_inv t'"
    using tab' ifc alloc_macid_if_g [OF t'(7)] empty free by (simp add: sta_inv_def t')
  with t' tabled show ?thesis by blast
qed

subsection \<open>Leaving\<close>

lemma free_xmitframe_queue_same [tx_simps]:
  "stas (rtw_free_xmitframe_queue x fs) = stas x" "sta_queue (rtw_free_xmitframe_queue x fs) = sta_queue x"
  "accnt (rtw_free_xmitframe_queue x fs) = accnt x" "pending (rtw_free_xmitframe_queue x fs) = pending x"
  by (induction fs arbitrary: x) (simp_all add: rtw_free_xmitframe_queue_def tx_simps)

lemma free_mgmt_xmitframe_queue_same [tx_simps]:
  "stas (rtw_free_mgmt_xmitframe_queue x fs) = stas x" "sta_queue (rtw_free_mgmt_xmitframe_queue x fs) = sta_queue x"
  "accnt (rtw_free_mgmt_xmitframe_queue x fs) = accnt x" "pending (rtw_free_mgmt_xmitframe_queue x fs) = pending x"
  by (induction fs arbitrary: x)
    (simp_all add: rtw_free_mgmt_xmitframe_queue_def rtw_free_xmitbuf_ext_def tx_simps pending_def fun_eq_iff split: option.split)

lemma flush_servq_ok:
  assumes "tx_inv x"
  shows "tx_inv (flush_servq s ac x)"
    "pending (flush_servq s ac x) t a = (if t = s \<and> a = ac then [] else pending x t a)"
proof -
  have p: "pending (flush_servq s ac x) t a = (if t = s \<and> a = ac then [] else pending x t a)" for t a
    by (auto simp: flush_servq_def Let_def tx_simps) (auto simp: upd_servq_def upd_sta_def)
  then show "pending (flush_servq s ac x) t a = (if t = s \<and> a = ac then [] else pending x t a)" .
  show "tx_inv (flush_servq s ac x)"
    by (rule tx_inv_emptyI [OF assms p])
      (auto simp: flush_servq_def Let_def tx_simps upd_servq_def upd_sta_def unlink_sta_def upd_accnt_def tx_invD(3) [OF assms])
qed

lemma flush_servqs_ok:
  assumes "tx_inv x"
  shows "tx_inv (fold (flush_servq s) acs x) \<and>
    (\<forall>t a. pending (fold (flush_servq s) acs x) t a = (if t = s \<and> a \<in> set acs then [] else pending x t a))"
  using assms
proof (induction acs arbitrary: x)
  case (Cons ac acs)
  then show ?case using flush_servq_ok [OF Cons.prems] by auto
qed simp

lemma flush_sta_ok:
  assumes "tx_inv x"
  shows "tx_inv (flush_sta s txq x)"
    "pending (flush_sta s txq x) s a = (if a < HWXMIT_ENTRY then [] else pending x s a)" "t \<noteq> s \<Longrightarrow> pending (flush_sta s txq x) t a = pending x t a"
proof -
  define y where "y = upd_sta s (\<lambda>u. u\<lparr>mgmt_sleep_q := [], mgmt_sleepq_len := 0\<rparr>)
    (rtw_free_mgmt_xmitframe_queue
      (upd_sta s (\<lambda>u. u\<lparr>sleep_q := [], sleepq_len := 0\<rparr>)
        (rtw_free_xmitframe_queue (rtw_free_xmitframe_queue (upd_sta s (\<lambda>u. u\<lparr>asoc := False\<rparr>) x) txq)
          (sleep_q (stas x s)))) (mgmt_sleep_q (stas x s)))"
  have flush: "flush_sta s txq x = fold (flush_servq s) [0, 1, 2, 3, mgmt_idx] y"
    by (simp add: flush_sta_def Let_def y_def) (simp add: tx_simps upd_sta_def)
  have servq: "servq (stas y t) = servq (stas x t)" "sta_queue y = sta_queue x" "accnt y = accnt x" for t
    by (simp_all add: y_def tx_simps upd_sta_def)
  then have p: "pending y = pending x" by (simp add: pending_def fun_eq_iff)
  with assms servq have inv: "tx_inv y" by (simp add: tx_inv_def)
  note f = flush_servqs_ok [OF inv, of s "[0, 1, 2, 3, mgmt_idx]"]
  show "tx_inv (flush_sta s txq x)" using f by (simp only: flush)
  show "t \<noteq> s \<Longrightarrow> pending (flush_sta s txq x) t a = pending x t a" using f by (simp only: flush p) simp
  show "pending (flush_sta s txq x) s a = (if a < HWXMIT_ENTRY then [] else pending x s a)"
    using f by (simp only: flush p) (auto simp: HWXMIT_ENTRY_def mgmt_idx_def)
qed

lemma concat_remove1: "distinct (concat xss) \<Longrightarrow> concat (map (remove1 s) xss) = remove1 s (concat xss)"
proof (induction xss)
  case (Cons xs xss)
  have "remove1 s (concat xss) = concat xss" if "s \<in> set xs"
    using Cons.prems that by (intro remove1_idem) auto
  with Cons show ?case by (auto simp: remove1_append remove1_idem)
qed simp

lemma free_sta_ap_same:
  "sta_hash (free_sta_ap s t) = sta_hash t" "free_sta_queue (free_sta_ap s t) = free_sta_queue t"
  "asoc_sta_count (free_sta_ap s t) = asoc_sta_count t" "sta_mac (free_sta_ap s t) = sta_mac t"
  "sta_mac_id (free_sta_ap s t) = sta_mac_id t" "dvobj (free_sta_ap s t) = dvobj t" "adapter_if (free_sta_ap s t) = adapter_if t"
  "servq (stas (xmitpriv (free_sta_ap s t)) u) = servq (stas (xmitpriv t) u)"
  "sta_queue (xmitpriv (free_sta_ap s t)) = sta_queue (xmitpriv t)" "accnt (xmitpriv (free_sta_ap s t)) = accnt (xmitpriv t)"
  by (simp_all add: free_sta_ap_def Let_def upd_sta_def)

lemma free_stainfo_state:
  obtains t' i d where "rtw_free_stainfo t (Some s) = t'" "free_sta_queue t' = free_sta_queue t @ [s]"
    "sta_hash t' = map (remove1 s) (sta_hash t)" "asoc_sta_count t' = asoc_sta_count t - 1" "sta_mac t' = sta_mac t"
    "adapter_if t' = adapter_if t" "rtw_release_macid (adapter_if t) (sta_mac t s) (sta_mac_id t s) (dvobj t) = (i, d)"
    "dvobj t' = d" "sta_mac_id t' = (sta_mac_id t)(s := i)"
    "\<And>u. servq (stas (xmitpriv t') u) = servq (stas (flush_sta s (sta_txq t s) (xmitpriv t)) u)"
    "sta_queue (xmitpriv t') = sta_queue (flush_sta s (sta_txq t s) (xmitpriv t))"
    "accnt (xmitpriv t') = accnt (flush_sta s (sta_txq t s) (xmitpriv t))"
proof -
  obtain i d where "rtw_release_macid (adapter_if t) (sta_mac t s) (sta_mac_id t s) (dvobj t) = (i, d)" by fastforce
  then show ?thesis
    by (intro that [of "rtw_free_stainfo t (Some s)" i d]) (simp_all add: rtw_free_stainfo_def Let_def free_sta_ap_same)
qed

lemma rtw_free_stainfo_ok:
  assumes inv: "sta_inv t" and s: "s \<in> set (tabled t)"
  shows "sta_inv (rtw_free_stainfo t (Some s)) \<and> free_sta_queue (rtw_free_stainfo t (Some s)) = free_sta_queue t @ [s] \<and>
    tabled (rtw_free_stainfo t (Some s)) = remove1 s (tabled t) \<and> sta_mac (rtw_free_stainfo t (Some s)) = sta_mac t"
proof -
  have tab: "tab_inv t" and mi: "macid_inv (macid_ctl (dvobj t)) (holders_of t)" and tx: "tx_inv (xmitpriv t)"
    and empty: "\<And>u ac. u \<in> set (free_sta_queue t) \<or> HWXMIT_ENTRY \<le> ac \<Longrightarrow> pending (xmitpriv t) u ac = []"
    and ifc: "iface_id (adapter_if t) < length (if_g (macid_ctl (dvobj t)))"
    using inv by (auto simp: sta_inv_def)
  obtain t' i d where t': "rtw_free_stainfo t (Some s) = t'" "free_sta_queue t' = free_sta_queue t @ [s]"
    "sta_hash t' = map (remove1 s) (sta_hash t)" "asoc_sta_count t' = asoc_sta_count t - 1" "sta_mac t' = sta_mac t"
    "adapter_if t' = adapter_if t" "rtw_release_macid (adapter_if t) (sta_mac t s) (sta_mac_id t s) (dvobj t) = (i, d)"
    "dvobj t' = d" "sta_mac_id t' = (sta_mac_id t)(s := i)"
    "\<And>u. servq (stas (xmitpriv t') u) = servq (stas (flush_sta s (sta_txq t s) (xmitpriv t)) u)"
    "sta_queue (xmitpriv t') = sta_queue (flush_sta s (sta_txq t s) (xmitpriv t))"
    "accnt (xmitpriv t') = accnt (flush_sta s (sta_txq t s) (xmitpriv t))"
    by (rule free_stainfo_state [of t s]) (rule that)
  have dist: "distinct (tabled t)" "s \<notin> set (free_sta_queue t)"
    using tab s by (auto simp: tab_inv_def)
  have tabled: "tabled t' = remove1 s (tabled t)"
    using concat_remove1 dist(1) by (simp add: tabled_def t')
  then have set': "set (tabled t') = set (tabled t) - {s}"
    using dist by simp
  have "length (tabled t) > 0" using s by auto
  then have len: "int (length (tabled t')) = int (length (tabled t)) - 1"
    using s by (simp add: tabled length_remove1 of_nat_diff Suc_le_eq)
  have bucket: "wifi_mac_hash (sta_mac t' u) = j" if "j < NUM_STA" "u \<in> set (sta_hash t' ! j)" for j u
    using tab that notin_set_remove1 [of u "sta_hash t ! j" s] by (auto simp: tab_inv_def t')
  have tab': "tab_inv t'"
    using tab bucket set' len dist s by (auto simp: tab_inv_def tabled t' intro: inj_on_subset)
  have "holders_of t' = (holders_of t)(s := None)"
    by (auto simp: holders_of_def set' fun_eq_iff t')
  moreover have "holders_of t s = Some (adapter_if t, sta_mac t s, sta_mac_id t s)"
    using s by (simp add: holders_of_def)
  ultimately have "macid_inv (macid_ctl (dvobj t')) (holders_of t')"
    using macid_inv_release [OF mi, of s "adapter_if t" "sta_mac t s" "sta_mac_id t s" "sta_or_null (adapter_if t)" i d] t'(7)
    by (simp add: t')
  moreover have fl: "pending (xmitpriv t') = pending (flush_sta s (sta_txq t s) (xmitpriv t))"
    by (simp add: pending_def t' fun_eq_iff)
  moreover have "tx_inv (xmitpriv t')"
    using flush_sta_ok(1) [OF tx, of s "sta_txq t s"] fl by (simp add: tx_inv_def t')
  moreover have "pending (xmitpriv t') u ac = []" if "u \<in> set (free_sta_queue t') \<or> HWXMIT_ENTRY \<le> ac" for u ac
    using that empty [of u ac] flush_sta_ok(2,3) [OF tx, where s = s and txq = "sta_txq t s"] unfolding fl by (cases "u = s") (auto simp: t')
  ultimately have "sta_inv t'"
    using tab' ifc release_macid_if_g [OF t'(7)] by (simp add: sta_inv_def t')
  with t' tabled show ?thesis by simp
qed

interpretation stab: sta_map sta_inv sta_key rtw_get_stainfo rtw_alloc_stainfo rtw_free_stainfo "\<lambda>t. length (free_sta_queue t)"
proof
  fix t :: sta_priv and k :: bytes
  assume "length (free_sta_queue t) = 0"
  then show "rtw_alloc_stainfo t k = (None, t)" by (simp add: rtw_alloc_stainfo_def)
next
  fix t :: sta_priv and k :: bytes
  assume a: "sta_inv t" "sta_key k" "rtw_get_stainfo t k = None" "0 < length (free_sta_queue t)"
  then obtain s rest where free: "free_sta_queue t = s # rest" by (cases "free_sta_queue t") auto
  from rtw_alloc_stainfo_ok [OF a(1-3) free] obtain t' where t': "rtw_alloc_stainfo t k = (Some s, t')" "sta_inv t'"
    "free_sta_queue t' = rest" "set (tabled t') = insert s (set (tabled t))" "sta_mac t' = (sta_mac t)(s := k)" by blast
  have tab: "tab_inv t" "tab_inv t'" using a(1) t'(2) by (simp_all add: sta_inv_def)
  have s: "s \<notin> set (tabled t)" using tab(1) free by (auto simp: tab_inv_def)
  have "rtw_get_stainfo t' k' = (if k' = k then Some s else rtw_get_stainfo t k')" if k': "sta_key k'" for k'
  proof (cases "k' = k")
    case True
    then show ?thesis using get_stainfo_Some [OF tab(2) k', of s] t' by simp
  next
    case False
    have "rtw_get_stainfo t' k' = Some u \<longleftrightarrow> rtw_get_stainfo t k' = Some u" for u
      using get_stainfo_Some [OF tab(2) k', of u] get_stainfo_Some [OF tab(1) k', of u] t' s False by auto
    with False show ?thesis by (metis not_None_eq)
  qed
  then show "\<exists>v t'. rtw_alloc_stainfo t k = (Some v, t') \<and> sta_inv t' \<and>
      length (free_sta_queue t) = Suc (length (free_sta_queue t')) \<and>
      (\<forall>k'. sta_key k' \<longrightarrow> rtw_get_stainfo t' k' = (if k' = k then Some v else rtw_get_stainfo t k'))"
    using t' free by auto
next
  fix t :: sta_priv and k :: bytes and v :: nat
  assume a: "sta_inv t" "sta_key k" "rtw_get_stainfo t k = Some v"
  let ?t = "rtw_free_stainfo t (Some v)"
  have tab: "tab_inv t" using a(1) by (simp add: sta_inv_def)
  have v: "v \<in> set (tabled t)" "sta_mac t v = k" using get_stainfo_Some [OF tab a(2), of v] a(3) by simp_all
  note f = rtw_free_stainfo_ok [OF a(1) v(1)]
  then have tab': "tab_inv ?t" by (simp add: sta_inv_def)
  have dist: "distinct (tabled t)" "inj_on (sta_mac t) (set (tabled t))" using tab by (simp_all add: tab_inv_def)
  have "rtw_get_stainfo ?t k' = (if k' = k then None else rtw_get_stainfo t k')" if k': "sta_key k'" for k'
  proof (cases "k' = k")
    case True
    then show ?thesis
      using get_stainfo_None [OF tab' k'] f v dist by (auto simp: inj_on_def)
  next
    case False
    have "rtw_get_stainfo ?t k' = Some u \<longleftrightarrow> rtw_get_stainfo t k' = Some u" for u
      using get_stainfo_Some [OF tab' k', of u] get_stainfo_Some [OF tab k', of u] f v dist(1) False by auto
    with False show ?thesis by (metis not_None_eq)
  qed
  with f show "sta_inv ?t \<and> length (free_sta_queue ?t) = Suc (length (free_sta_queue t)) \<and>
      (\<forall>k'. sta_key k' \<longrightarrow> rtw_get_stainfo ?t k' = (if k' = k then None else rtw_get_stainfo t k'))"
    by simp
qed (simp add: rtw_free_stainfo_def)

section \<open>From initialisation on\<close>

lemma init_fold_state:
  "free_sta_queue (fold init_free_stainfo is t) = free_sta_queue t @ is" "sta_hash (fold init_free_stainfo is t) = sta_hash t"
  "asoc_sta_count (fold init_free_stainfo is t) = asoc_sta_count t" "dvobj (fold init_free_stainfo is t) = dvobj t"
  "adapter_if (fold init_free_stainfo is t) = adapter_if t"
  "xmitpriv (fold init_free_stainfo is t) = fold (\<lambda>i. upd_sta i (\<lambda>_. zero_sta_xmit)) is (xmitpriv t)"
  by (induction "is" arbitrary: t) (simp_all add: init_free_stainfo_def u_rtw_init_stainfo_def Let_def)

lemma zero_fold:
  assumes "tx_inv x" "\<And>s ac. pending x s ac = []"
  shows "tx_inv (fold (\<lambda>i. upd_sta i (\<lambda>_. zero_sta_xmit)) is x) \<and>
    (\<forall>s ac. pending (fold (\<lambda>i. upd_sta i (\<lambda>_. zero_sta_xmit)) is x) s ac = [])"
  using assms
proof (induction "is" arbitrary: x)
  case (Cons i "is")
  then show ?case using upd_zero_sta [OF Cons.prems(1), of i] by simp
qed simp

lemma init_sta_priv_ok:
  assumes init: "u_rtw_init_sta_priv mem t0 = Some t"
    and ids: "macid_inv (macid_ctl (dvobj t0)) Map.empty" "iface_id (adapter_if t0) < length (if_g (macid_ctl (dvobj t0)))"
    and tx: "tx_inv (xmitpriv t0)" "\<And>s ac. pending (xmitpriv t0) s ac = []"
  shows "sta_inv t \<and> tabled t = [] \<and> free_sta_queue t = [0..<NUM_STA]"
proof -
  have t: "free_sta_queue t = [0..<NUM_STA]" "sta_hash t = replicate NUM_STA []" "asoc_sta_count t = 0" "dvobj t = dvobj t0"
    "adapter_if t = adapter_if t0"
    "\<And>s. servq (stas (xmitpriv t) s) = servq (stas (fold (\<lambda>i. upd_sta i (\<lambda>_. zero_sta_xmit)) [0..<NUM_STA] (xmitpriv t0)) s)"
    "sta_queue (xmitpriv t) = sta_queue (fold (\<lambda>i. upd_sta i (\<lambda>_. zero_sta_xmit)) [0..<NUM_STA] (xmitpriv t0))"
    "accnt (xmitpriv t) = accnt (fold (\<lambda>i. upd_sta i (\<lambda>_. zero_sta_xmit)) [0..<NUM_STA] (xmitpriv t0))"
    using init by (auto simp: u_rtw_init_sta_priv_def init_fold_state Let_def split: if_splits)
  have tabled: "tabled t = []" by (simp add: tabled_def t)
  have "holders_of t = Map.empty" by (simp add: holders_of_def tabled fun_eq_iff)
  moreover have "tab_inv t" by (auto simp: tab_inv_def tabled t)
  moreover have "pending (xmitpriv t) = pending (fold (\<lambda>i. upd_sta i (\<lambda>_. zero_sta_xmit)) [0..<NUM_STA] (xmitpriv t0))"
    by (simp add: pending_def t fun_eq_iff)
  ultimately have "sta_inv t"
    using zero_fold [OF tx, of "[0..<NUM_STA]"] ids t by (simp add: sta_inv_def tx_inv_def)
  with t tabled show ?thesis by simp
qed

text \<open>C3. The station table is a bounded set of addresses: after any sequence of joins and leaves on a freshly
  initialised table, a station is found by an address exactly when the address has joined and has not left since,
  a join being refused when \<open>NUM_STA\<close> stations are there; all the while every station is either free or in the
  bucket of its address, the MAC ids in use are those of the stations in the table, and the transmit queues are
  consistent.\<close>

theorem sta_table_refines:
  assumes init: "u_rtw_init_sta_priv mem t0 = Some t"
    and ids: "macid_inv (macid_ctl (dvobj t0)) Map.empty" "iface_id (adapter_if t0) < length (if_g (macid_ctl (dvobj t0)))"
    and tx: "tx_inv (xmitpriv t0)" "\<And>s ac. pending (xmitpriv t0) s ac = []"
    and ops: "\<forall>opn \<in> set ops. sta_key (tab_key opn)"
  defines "t' \<equiv> fold (tab_exec rtw_get_stainfo rtw_alloc_stainfo rtw_free_stainfo) ops t"
  shows "{a. sta_key a \<and> rtw_get_stainfo t' a \<noteq> None} = fold (tab_spec NUM_STA) ops {} \<and> sta_inv t'"
proof -
  note t = init_sta_priv_ok [OF init ids tx]
  then have "tab_inv t" by (simp add: sta_inv_def)
  then have empty: "stab.keys t = {}"
    using get_stainfo_None [of t] t by (auto simp: stab.keys_def)
  then have "stab.within NUM_STA t"
    using t by (simp add: stab.within_def)
  from stab.run_refines [OF this ops] empty show ?thesis
    by (simp add: t'_def stab.within_def) (simp add: stab.keys_def)
qed

section \<open>Freeing all stations\<close>

lemma distinct_filter_single: "distinct xs \<Longrightarrow> b \<in> set xs \<Longrightarrow> filter (\<lambda>s. s = b) xs = [b]"
  by (induction xs) (auto simp: filter_empty_conv)

lemma remove1_filter: "distinct xs \<Longrightarrow> remove1 s xs = filter (\<lambda>u. u \<noteq> s) xs"
  by (simp add: distinct_remove1_removeAll removeAll_filter_not_eq) (rule filter_cong; auto)

lemma free_sta_ap_hash: "free_sta_ap s (t\<lparr>sta_hash := h\<rparr>) = (free_sta_ap s t)\<lparr>sta_hash := h\<rparr>"
  by (cases t) (simp add: free_sta_ap_def Let_def)

lemma free_stainfo_hash:
  "rtw_free_stainfo (t\<lparr>sta_hash := h\<rparr>) (Some s) = (rtw_free_stainfo t (Some s))\<lparr>sta_hash := map (remove1 s) h\<rparr>"
proof -
  obtain i d where rel: "rtw_release_macid (adapter_if t) (sta_mac t s) (sta_mac_id t s) (dvobj t) = (i, d)" by fastforce
  let ?u = "t\<lparr>asoc_sta_count := asoc_sta_count t - 1, xmitpriv := flush_sta s (sta_txq t s) (xmitpriv t), sta_txq := (sta_txq t)(s := []),
    rx_freed := rx_freed t @ recv_held (sta_recvs t s), sta_recvs := (sta_recvs t)(s := stop_sta_recv (sta_recvs t s)),
    dvobj := d, sta_mac_id := (sta_mac_id t)(s := i)\<rparr>"
  have comm: "t\<lparr>sta_hash := g, asoc_sta_count := asoc_sta_count t - 1, xmitpriv := flush_sta s (sta_txq t s) (xmitpriv t),
    sta_txq := (sta_txq t)(s := []), rx_freed := rx_freed t @ recv_held (sta_recvs t s),
    sta_recvs := (sta_recvs t)(s := stop_sta_recv (sta_recvs t s)), dvobj := d, sta_mac_id := (sta_mac_id t)(s := i)\<rparr> =
      ?u\<lparr>sta_hash := g\<rparr>" for g
    by simp
  have "rtw_free_stainfo (t\<lparr>sta_hash := g\<rparr>) (Some s) =
      (free_sta_ap s ?u)\<lparr>sta_hash := map (remove1 s) g, free_sta_queue := free_sta_queue (free_sta_ap s ?u) @ [s]\<rparr>" for g
    by (simp add: rtw_free_stainfo_def Let_def rel) (simp add: comm free_sta_ap_hash)
  from this [of h] this [of "sta_hash t"] show ?thesis by simp
qed

lemma free_fold_hash:
  "(\<And>s b. s \<in> set vs \<Longrightarrow> b \<in> set h \<Longrightarrow> s \<notin> set b) \<Longrightarrow>
   fold (\<lambda>s t. rtw_free_stainfo t (Some s)) vs (t\<lparr>sta_hash := h\<rparr>) =
     (fold (\<lambda>s t. rtw_free_stainfo t (Some s)) vs t)\<lparr>sta_hash := h\<rparr>"
proof (induction vs arbitrary: t)
  case (Cons s vs)
  have "map (remove1 s) h = h"
    using Cons.prems by (intro map_idI remove1_idem) auto
  then have "rtw_free_stainfo (t\<lparr>sta_hash := h\<rparr>) (Some s) = (rtw_free_stainfo t (Some s))\<lparr>sta_hash := h\<rparr>"
    by (simp add: free_stainfo_hash)
  with Cons show ?case by simp
qed simp

lemma free_fold_ok:
  assumes "sta_inv t" "distinct vs" "set vs \<subseteq> set (tabled t)"
  shows "sta_inv (fold (\<lambda>s t. rtw_free_stainfo t (Some s)) vs t) \<and>
    free_sta_queue (fold (\<lambda>s t. rtw_free_stainfo t (Some s)) vs t) = free_sta_queue t @ vs \<and>
    sta_hash (fold (\<lambda>s t. rtw_free_stainfo t (Some s)) vs t) = map (filter (\<lambda>s. s \<notin> set vs)) (sta_hash t)"
  using assms
proof (induction vs arbitrary: t)
  case (Cons s vs)
  let ?t = "rtw_free_stainfo t (Some s)"
  have s: "s \<in> set (tabled t)" and dist: "distinct (tabled t)"
    using Cons.prems by (auto simp: sta_inv_def tab_inv_def)
  note f = rtw_free_stainfo_ok [OF Cons.prems(1) s]
  have hash: "sta_hash ?t = map (remove1 s) (sta_hash t)"
    by (rule free_stainfo_state [of t s]) simp
  have "remove1 s b = filter (\<lambda>u. u \<noteq> s) b" if "b \<in> set (sta_hash t)" for b
    using that dist by (simp add: tabled_def distinct_concat_iff remove1_filter)
  then have hash': "sta_hash ?t = map (filter (\<lambda>u. u \<noteq> s)) (sta_hash t)"
    by (simp add: hash)
  have "set vs \<subseteq> set (tabled ?t)"
    using Cons.prems dist f by auto
  then have "sta_inv (fold (\<lambda>s t. rtw_free_stainfo t (Some s)) vs ?t) \<and>
    free_sta_queue (fold (\<lambda>s t. rtw_free_stainfo t (Some s)) vs ?t) = free_sta_queue ?t @ vs \<and>
    sta_hash (fold (\<lambda>s t. rtw_free_stainfo t (Some s)) vs ?t) = map (filter (\<lambda>s. s \<notin> set vs)) (sta_hash ?t)"
    using Cons.IH [of ?t] Cons.prems(2) f by simp
  moreover have "(\<lambda>u. u \<noteq> s \<and> u \<notin> set vs) = (\<lambda>u. u \<notin> set (s # vs))" by auto
  ultimately show ?case
    using f by (simp add: hash' conj_commute)
qed (simp add: map_idI)

text \<open>C29. Freeing all stations leaves the broadcast station alone in the table; all others are back on the free list.\<close>

theorem rtw_free_all_stainfo_correct:
  assumes inv: "sta_inv t" and b: "rtw_get_bcmc_stainfo t = Some b"
  shows "sta_inv (rtw_free_all_stainfo t) \<and> tabled (rtw_free_all_stainfo t) = [b] \<and>
    set (free_sta_queue (rtw_free_all_stainfo t)) = {..<NUM_STA} - {b}"
proof -
  have tab: "tab_inv t" and dist: "distinct (tabled t)" using inv by (simp_all add: sta_inv_def tab_inv_def)
  have "sta_key bc_addr" by (simp add: sta_key_def)
  then have bt: "b \<in> set (tabled t)"
    using get_stainfo_Some [OF tab, of bc_addr b] b by (simp add: rtw_get_bcmc_stainfo_def)
  have rest: "set (free_sta_queue u) = {..<NUM_STA} - {b}" if "sta_inv u" "tabled u = [b]" for u
    using that by (auto simp: sta_inv_def tab_inv_def)
  show ?thesis
  proof (cases "asoc_sta_count t = 1")
    case True
    then have "length (tabled t) = 1" using tab by (simp add: tab_inv_def)
    then have "tabled t = [b]" using bt by (auto simp: length_Suc_conv)
    with True inv rest show ?thesis by (simp add: rtw_free_all_stainfo_def)
  next
    case False
    define vs where "vs = filter (\<lambda>s. s \<noteq> b) (tabled t)"
    let ?h = "map (filter (\<lambda>s. s = b)) (sta_hash t)"
    let ?t = "fold (\<lambda>s t. rtw_free_stainfo t (Some s)) vs t"
    have "map (\<lambda>i. sta_hash t ! i) [0..<NUM_STA] = sta_hash t"
      using tab map_nth [of "sta_hash t"] by (simp add: tab_inv_def)
    then have eq: "rtw_free_all_stainfo t = fold (\<lambda>s t. rtw_free_stainfo t (Some s)) vs (t\<lparr>sta_hash := ?h\<rparr>)"
      using False b by (simp add: rtw_free_all_stainfo_def Let_def vs_def tabled_def)
    have f: "sta_inv ?t" "sta_hash ?t = map (filter (\<lambda>s. s \<notin> set vs)) (sta_hash t)"
      using free_fold_ok [OF inv, of vs] dist by (simp_all add: vs_def)
    have "filter (\<lambda>s. s \<notin> set vs) bs = filter (\<lambda>s. s = b) bs" if "bs \<in> set (sta_hash t)" for bs
      using that by (intro filter_cong) (auto simp: vs_def tabled_def)
    then have h: "sta_hash ?t = ?h" using f(2) by simp
    have "rtw_free_all_stainfo t = ?t\<lparr>sta_hash := ?h\<rparr>"
      unfolding eq by (rule free_fold_hash) (auto simp: vs_def)
    also have "\<dots> = ?t" by (simp flip: h)
    finally have final: "rtw_free_all_stainfo t = ?t" .
    have "tabled ?t = filter (\<lambda>s. s = b) (tabled t)"
      by (simp add: tabled_def h filter_concat)
    also have "\<dots> = [b]"
      using distinct_filter_single [OF dist bt] .
    finally show ?thesis using f(1) rest final by simp
  qed
qed

section \<open>Association ids\<close>

definition nth_aid :: "sta_priv \<Rightarrow> nat \<Rightarrow> nat" where
  "nth_aid t i = (i + started_aid t - 1) mod max_aid t + 1"

lemma aid_loop_cases:
  assumes "aid_loop t i a i = (j, b, v)" "i \<le> max_aid t" "i < max_num_sta t \<or> i = 0"
  shows "(\<forall>k. i \<le> k \<and> k < j \<longrightarrow> sta_aid t ! (nth_aid t k - 1) \<noteq> None) \<and> i \<le> j \<and>
    (j = max_aid t \<and> v = j \<or>
     j < max_aid t \<and> b = nth_aid t j \<and> v = Suc j \<and> max_num_sta t \<le> v \<and> sta_aid t ! (b - 1) \<noteq> None \<or>
     j < max_aid t \<and> b = nth_aid t j \<and> v = j \<and> (j < max_num_sta t \<or> j = 0) \<and> sta_aid t ! (b - 1) = None)"
  using assms
proof (induction "max_aid t - i" arbitrary: i a)
  case 0
  then have "j = i" "v = i" "i = max_aid t" by (simp_all add: aid_loop.simps [of t i])
  then show ?case by auto
next
  case (Suc n)
  then have i: "i < max_aid t" by simp
  show ?case
  proof (cases "sta_aid t ! (nth_aid t i - 1) \<noteq> None \<and> Suc i < max_num_sta t")
    case True
    then have "aid_loop t (Suc i) (nth_aid t i) (Suc i) = (j, b, v)"
      using Suc.prems(1) i by (auto simp: aid_loop.simps [of t i] nth_aid_def Let_def split: if_splits)
    from Suc.hyps(1) [OF _ this] Suc.hyps(2) i True
    have IH: "(\<forall>k. Suc i \<le> k \<and> k < j \<longrightarrow> sta_aid t ! (nth_aid t k - 1) \<noteq> None) \<and> Suc i \<le> j \<and>
      (j = max_aid t \<and> v = j \<or>
       j < max_aid t \<and> b = nth_aid t j \<and> v = Suc j \<and> max_num_sta t \<le> v \<and> sta_aid t ! (b - 1) \<noteq> None \<or>
       j < max_aid t \<and> b = nth_aid t j \<and> v = j \<and> (j < max_num_sta t \<or> j = 0) \<and> sta_aid t ! (b - 1) = None)"
      by simp
    have "sta_aid t ! (nth_aid t k - 1) \<noteq> None" if "i \<le> k" "k < j" for k
      using IH that True by (cases "k = i") auto
    with IH show ?thesis by auto
  next
    case False
    then have "(j, b, v) = (if sta_aid t ! (nth_aid t i - 1) = None then (i, nth_aid t i, i) else (i, nth_aid t i, Suc i))"
      using Suc.prems(1) i by (auto simp: aid_loop.simps [of t i] nth_aid_def Let_def split: if_splits)
    then show ?thesis
      using False i Suc.prems(3) by (auto split: if_splits)
  qed
qed

text \<open>An association id is handed out only when it is free, and recorded for the station; none is handed out only
  when all ids that the search may try are taken. When the search starts at 1, as it does without round robin, no
  id above the limit on stations is handed out.\<close>

theorem rtw_aid_alloc_correct:
  assumes "length (sta_aid t) = max_aid t" "rtw_aid_alloc t s = (a, t')" "0 < max_num_sta t"
  shows "aid (stas (xmitpriv t') s) = a \<and>
    (if a = 0 then sta_aid t' = sta_aid t \<and>
       (\<forall>i. i < max_aid t \<and> i < max_num_sta t \<longrightarrow> sta_aid t ! (nth_aid t i - 1) \<noteq> None)
     else a \<le> max_aid t \<and> sta_aid t ! (a - 1) = None \<and> sta_aid t' = (sta_aid t)[a - 1 := Some s] \<and>
       (started_aid t = 1 \<longrightarrow> a \<le> max_num_sta t))"
proof -
  obtain j b v where l: "aid_loop t 0 0 0 = (j, b, v)" by (metis prod_cases3)
  note c = aid_loop_cases [OF l]
  define lim where "lim \<longleftrightarrow> j \<ge> max_aid t \<or> v \<ge> max_num_sta t"
  have a: "a = (if lim then 0 else b)" and aid': "aid (stas (xmitpriv t') s) = a"
    and tab: "sta_aid t' = (if a = 0 then sta_aid t else (sta_aid t)[a - 1 := Some s])"
    using assms(2) by (auto simp: rtw_aid_alloc_def l Let_def lim_def upd_sta_def split: if_splits)
  show ?thesis
  proof (cases lim)
    case True
    have "sta_aid t ! (nth_aid t i - 1) \<noteq> None" if "i < max_aid t" "i < max_num_sta t" for i
      using c that True assms(3) by (cases "i = j") (auto simp: lim_def)
    with True a aid' tab show ?thesis by simp
  next
    case False
    then have j: "j < max_aid t" "b = nth_aid t j" "v = j" "j < max_num_sta t" "sta_aid t ! (b - 1) = None"
      using c by (auto simp: lim_def)
    then have "0 < b" "b \<le> max_aid t" by (simp_all add: nth_aid_def Suc_le_eq)
    moreover have "b \<le> max_num_sta t" if "started_aid t = 1"
      using that j by (simp add: nth_aid_def)
    ultimately show ?thesis using False a aid' tab j by simp
  qed
qed

text \<open>With round robin the search starts behind the last id, and the limit on stations does not hold: an id is
  handed out whenever the first one tried is free, however many stations are associated.\<close>

lemma rtw_aid_alloc_no_limit:
  assumes "0 < max_aid t" "0 < max_num_sta t" "sta_aid t ! (nth_aid t 0 - 1) = None"
  shows "fst (rtw_aid_alloc t s) = nth_aid t 0"
  using assms by (simp add: rtw_aid_alloc_def aid_loop.simps [of t 0] nth_aid_def Let_def)

section \<open>Buffers of management frames\<close>

lemma free_xmitframe_extbuf: "free_xmit_extbuf_queue (rtw_free_xmitframe x f) = free_xmit_extbuf_queue x"
  by (simp add: rtw_free_xmitframe_def)

lemma free_xmitframe_queue_extbuf: "free_xmit_extbuf_queue (rtw_free_xmitframe_queue x fs) = free_xmit_extbuf_queue x"
  by (induction fs arbitrary: x) (simp_all add: rtw_free_xmitframe_queue_def free_xmitframe_extbuf)

lemma free_mgmt_queue_extbuf:
  "free_xmit_extbuf_queue (rtw_free_mgmt_xmitframe_queue x fs) = free_xmit_extbuf_queue x @ List.map_filter xf_buf fs"
  by (induction fs arbitrary: x)
    (simp_all add: rtw_free_mgmt_xmitframe_queue_def free_xmitframe_extbuf rtw_free_xmitbuf_ext_def map_filter_simps split: option.split)

lemma flush_servq_extbuf: "free_xmit_extbuf_queue (flush_servq s ac x) = free_xmit_extbuf_queue x"
  by (simp add: flush_servq_def Let_def upd_servq_def upd_sta_def unlink_sta_def upd_accnt_def free_xmitframe_queue_extbuf)

lemma flush_servqs_extbuf: "free_xmit_extbuf_queue (fold (flush_servq s) acs x) = free_xmit_extbuf_queue x"
  by (induction acs arbitrary: x) (simp_all add: flush_servq_extbuf)

text \<open>Freeing a station gives back the transmit buffers of the management frames in its sleep queue, but not those
  of the management frames that wait in its management queue, although both kinds of frames own one: the frames of
  that queue are freed without their buffers, which are lost.\<close>

theorem rtw_free_stainfo_loses_buffers:
  assumes "f \<in> set (pending (xmitpriv t) s mgmt_idx)" "xf_buf f = Some b" "b \<notin> set (free_xmit_extbuf_queue (xmitpriv t))"
    and "\<forall>g \<in> set (mgmt_sleep_q (stas (xmitpriv t) s)). xf_buf g \<noteq> Some b" "tx_inv (xmitpriv t)"
  defines "t' \<equiv> rtw_free_stainfo t (Some s)"
  shows "free_xmit_extbuf_queue (xmitpriv t') =
      free_xmit_extbuf_queue (xmitpriv t) @ List.map_filter xf_buf (mgmt_sleep_q (stas (xmitpriv t) s)) \<and>
    b \<notin> set (free_xmit_extbuf_queue (xmitpriv t')) \<and> pending (xmitpriv t') s mgmt_idx = []"
proof -
  obtain i d where rel: "rtw_release_macid (adapter_if t) (sta_mac t s) (sta_mac_id t s) (dvobj t) = (i, d)" by fastforce
  have ap: "free_xmit_extbuf_queue (xmitpriv (free_sta_ap s u)) = free_xmit_extbuf_queue (xmitpriv u)" for u
    by (simp add: free_sta_ap_def Let_def upd_sta_def)
  have "free_xmit_extbuf_queue (xmitpriv t') = free_xmit_extbuf_queue (flush_sta s (sta_txq t s) (xmitpriv t))"
    by (simp add: t'_def rtw_free_stainfo_def Let_def rel ap)
  also have "\<dots> = free_xmit_extbuf_queue (xmitpriv t) @ List.map_filter xf_buf (mgmt_sleep_q (stas (xmitpriv t) s))"
    by (simp only: flush_sta_def Let_def flush_servqs_extbuf)
      (simp add: upd_sta_def free_mgmt_queue_extbuf free_xmitframe_queue_extbuf tx_simps)
  finally have buf: "free_xmit_extbuf_queue (xmitpriv t') =
      free_xmit_extbuf_queue (xmitpriv t) @ List.map_filter xf_buf (mgmt_sleep_q (stas (xmitpriv t) s))" .
  moreover have "b \<notin> set (List.map_filter xf_buf (mgmt_sleep_q (stas (xmitpriv t) s)))"
    using assms(4) by (auto simp: List.map_filter_def)
  moreover have "pending (xmitpriv t') s mgmt_idx = pending (flush_sta s (sta_txq t s) (xmitpriv t)) s mgmt_idx"
    unfolding t'_def pending_def by (rule free_stainfo_state [of t s]) simp
  then have "pending (xmitpriv t') s mgmt_idx = []"
    using flush_sta_ok(2) [OF assms(5)] by (simp add: mgmt_idx_def HWXMIT_ENTRY_def)
  ultimately show ?thesis using assms(3) by simp
qed

section \<open>Examples\<close>

text \<open>The device of the examples of the MAC ids, before and after initialisation of the table.\<close>

definition ex_tab0 :: sta_priv where
  "ex_tab0 = \<lparr>sta_hash = [], free_sta_queue = [], asoc_sta_count = 0, sta_mac = \<lambda>_. [], sta_mac_id = \<lambda>_. 0,
     sta_recvs = \<lambda>_. \<lparr>recvreorder_ctrl = [], rxcache = \<lparr>tid_rxseq = [], bmc_tid_rxseq = [], nonqos_rxseq = 0, nonqos_bmc_rxseq = 0,
       cache_iv = [], last_tid = 0, duplicate_cnt = 0\<rparr>, recvpriv = \<lparr>defrag_q = [], sta_keytrack = 0, sta_rxmickey = []\<rparr>\<rparr>,
     sta_txq = \<lambda>_. [], auth_list = [], auth_list_cnt = 0, sta_aid = [], max_aid = 0, rr_aid = False, started_aid = 1,
     max_num_sta = 0, acl_list = [], xmitpriv = ex_tx, dvobj = dvobj_demo, adapter_if = iface_demo, hw_state_ap = True, rx_freed = []\<rparr>"

definition ex_tab :: sta_priv where "ex_tab = the (u_rtw_init_sta_priv (\<lambda>_. True) ex_tab0)"

definition ex_tab2 :: sta_priv where
  "ex_tab2 = snd (rtw_alloc_stainfo (snd (rtw_alloc_stainfo ex_tab bc_addr)) peer_demo)"

lemma ex_tab0_ok:
  "macid_inv (macid_ctl (dvobj ex_tab0)) Map.empty" "iface_id (adapter_if ex_tab0) < length (if_g (macid_ctl (dvobj ex_tab0)))"
  "tx_inv (xmitpriv ex_tab0)" "pending (xmitpriv ex_tab0) s ac = []"
proof -
  show "macid_inv (macid_ctl (dvobj ex_tab0)) Map.empty"
    unfolding ex_tab0_def dvobj_demo_def sta_priv.simps dvobj_ids.simps
    by (rule macid_inv_init) (simp_all add: macid_demo0_def RTW_DEFAULT_MGMT_MACID_def MACID_NUM_SW_LIMIT_def)
qed (simp_all add: ex_tab0_def ex_tx_inv iface_demo_def dvobj_demo_def macid_demo0_def rtw_macid_ctl_init_def)

lemma ex_tab_init: "u_rtw_init_sta_priv (\<lambda>_. True) ex_tab0 = Some ex_tab"
  by (simp add: ex_tab_def u_rtw_init_sta_priv_def Let_def)

lemma ex_keys: "sta_key bc_addr" "sta_key peer_demo" "sta_key ex_mac" "peer_demo \<noteq> bc_addr" "ex_mac \<noteq> peer_demo" "ex_mac \<noteq> bc_addr"
  by (simp_all add: sta_key_def IS_MCAST_def peer_demo_def ex_mac_def)

lemma num_sta_cons: "[0..<NUM_STA] = 0 # 1 # [2..<NUM_STA]"
  by (simp add: MACID_NUM_SW_LIMIT_def upt_rec)

lemma ex_tab2_ok: "sta_inv ex_tab2 \<and> rtw_get_bcmc_stainfo ex_tab2 = Some 0 \<and> set (tabled ex_tab2) = {0, 1} \<and>
    rtw_get_stainfo ex_tab2 peer_demo = Some 1"
proof -
  note t = init_sta_priv_ok [OF ex_tab_init ex_tab0_ok]
  have free: "free_sta_queue ex_tab = 0 # 1 # [2..<NUM_STA]" using t num_sta_cons by simp
  have "tab_inv ex_tab" using t by (simp add: sta_inv_def)
  from get_stainfo_None [OF this ex_keys(1)] have "rtw_get_stainfo ex_tab bc_addr = None" using t by simp
  from rtw_alloc_stainfo_ok [OF _ ex_keys(1) this free] obtain t1 where t1: "rtw_alloc_stainfo ex_tab bc_addr = (Some 0, t1)"
    "sta_inv t1" "free_sta_queue t1 = 1 # [2..<NUM_STA]" "set (tabled t1) = {0}" "sta_mac t1 = (sta_mac ex_tab)(0 := bc_addr)"
    using t by auto
  have "tab_inv t1" using t1 by (simp add: sta_inv_def)
  from get_stainfo_None [OF this ex_keys(2)] have "rtw_get_stainfo t1 peer_demo = None" using t1 ex_keys by simp
  from rtw_alloc_stainfo_ok [OF t1(2) ex_keys(2) this t1(3)] obtain t2 where t2: "rtw_alloc_stainfo t1 peer_demo = (Some 1, t2)"
    "sta_inv t2" "set (tabled t2) = {0, 1}" "sta_mac t2 = (sta_mac t1)(1 := peer_demo)"
    using t1 by auto
  then have "tab_inv t2" by (simp add: sta_inv_def)
  from get_stainfo_Some [OF this ex_keys(1), of 0] get_stainfo_Some [OF this ex_keys(2), of 1] show ?thesis
    using t1 t2 ex_keys by (simp add: ex_tab2_def rtw_get_bcmc_stainfo_def insert_commute)
qed

theorem sta_table_refines_witness:
  "{a. sta_key a \<and> rtw_get_stainfo (fold (tab_exec rtw_get_stainfo rtw_alloc_stainfo rtw_free_stainfo)
       [Join bc_addr, Join peer_demo, Join ex_mac, Leave peer_demo] ex_tab) a \<noteq> None} = {bc_addr, ex_mac}"
proof -
  have "fold (tab_spec NUM_STA) [Join bc_addr, Join peer_demo, Join ex_mac, Leave peer_demo] {} = {bc_addr, ex_mac}"
    using ex_keys by (auto simp: tab_spec_def MACID_NUM_SW_LIMIT_def)
  moreover have "\<forall>opn \<in> set [Join bc_addr, Join peer_demo, Join ex_mac, Leave peer_demo]. sta_key (tab_key opn)"
    using ex_keys by simp
  ultimately show ?thesis
    using sta_table_refines [OF ex_tab_init ex_tab0_ok, of "[Join bc_addr, Join peer_demo, Join ex_mac, Leave peer_demo]"]
    by (simp only:)
qed

theorem rtw_free_all_stainfo_correct_witness:
  "tabled (rtw_free_all_stainfo ex_tab2) = [0] \<and> set (tabled ex_tab2) = {0, 1}"
  using rtw_free_all_stainfo_correct [of ex_tab2 0] ex_tab2_ok by blast

definition ex_aids :: sta_priv where
  "ex_aids = ex_tab0\<lparr>sta_aid := [Some 3, None, None], max_aid := 3, max_num_sta := 2\<rparr>"

lemma ex_aids_alloc: "rtw_aid_alloc ex_aids 5 = (2, snd (rtw_aid_alloc ex_aids 5))"
proof -
  have "fst (rtw_aid_alloc ex_aids 5) = 2" by code_simp
  then show ?thesis by (simp add: prod_eq_iff)
qed

theorem rtw_aid_alloc_correct_witness:
  "sta_aid (snd (rtw_aid_alloc ex_aids 5)) = [Some 3, Some 5, None] \<and> aid (stas (xmitpriv (snd (rtw_aid_alloc ex_aids 5))) 5) = 2"
  using rtw_aid_alloc_correct [OF _ ex_aids_alloc] by (simp add: ex_aids_def)

definition ex_mgmt :: sta_priv where
  "ex_mgmt = ex_tab0\<lparr>xmitpriv := enqueue_servq 1 mgmt_idx ((ex_frame 1 1 ex_mac 0)\<lparr>xf_buf := Some 7\<rparr>) ex_tx\<rparr>"

theorem rtw_free_stainfo_loses_buffers_witness:
  "7 \<notin> set (free_xmit_extbuf_queue (xmitpriv (rtw_free_stainfo ex_mgmt (Some 1)))) \<and>
   pending (xmitpriv (rtw_free_stainfo ex_mgmt (Some 1))) 1 mgmt_idx = []"
proof -
  have "tx_inv (xmitpriv ex_mgmt)" by (simp add: ex_mgmt_def enqueue_servq_inv ex_tx_inv)
  moreover have "pending (xmitpriv ex_mgmt) 1 mgmt_idx = [(ex_frame 1 1 ex_mac 0)\<lparr>xf_buf := Some 7\<rparr>]"
    by (simp add: ex_mgmt_def enqueue_servq_pending ex_tx_inv)
  moreover have "free_xmit_extbuf_queue (xmitpriv ex_mgmt) = []" "mgmt_sleep_q (stas (xmitpriv ex_mgmt) 1) = []"
    by (simp_all add: ex_mgmt_def enqueue_servq_def upd_servq_def upd_sta_def link_sta_def upd_accnt_def Let_def ex_tx_def ex_sta_def)
  ultimately show ?thesis
    using rtw_free_stainfo_loses_buffers [of "(ex_frame 1 1 ex_mac 0)\<lparr>xf_buf := Some 7\<rparr>" ex_mgmt 1 7] by simp
qed

end
