(* ===== verification/Wlan_Hdr.thy ===== *)
theory Wlan_Hdr
  imports Prelude
begin

text \<open>
  The 802.11 header as the frame handlers see it: the accessors of \<open>include/wifi.h\<close> for the frame control field, the
  addresses and the sequence number, and the header that the senders of management frames write.
\<close>

section \<open>Reading\<close>

definition WLAN_HDR_A3_LEN :: nat where "WLAN_HDR_A3_LEN = 24"

definition GetToDs :: "bytes \<Rightarrow> bool option" where
  "GetToDs m = map_option (\<lambda>fc. bit fc 8) (RTW_GET_LE16 m 0)"

definition GetFrDs :: "bytes \<Rightarrow> bool option" where
  "GetFrDs m = map_option (\<lambda>fc. bit fc 9) (RTW_GET_LE16 m 0)"

definition GetRetry :: "bytes \<Rightarrow> bool option" where
  "GetRetry m = map_option (\<lambda>fc. bit fc 11) (RTW_GET_LE16 m 0)"

definition GetPrivacy :: "bytes \<Rightarrow> bool option" where
  "GetPrivacy m = map_option (\<lambda>fc. bit fc 14) (RTW_GET_LE16 m 0)"

definition get_frame_sub_type :: "bytes \<Rightarrow> u16 option" where
  "get_frame_sub_type m = map_option (\<lambda>fc. fc AND 0xfc) (RTW_GET_LE16 m 0)"

definition GetAddr1Ptr :: "bytes \<Rightarrow> bytes option" where "GetAddr1Ptr m = rd_n m 4 6"
definition get_addr2_ptr :: "bytes \<Rightarrow> bytes option" where "get_addr2_ptr m = rd_n m 10 6"
definition GetAddr3Ptr :: "bytes \<Rightarrow> bytes option" where "GetAddr3Ptr m = rd_n m 16 6"

definition get_da :: "bytes \<Rightarrow> bytes option" where
  "get_da m = do { to_ds \<leftarrow> GetToDs m; if to_ds then GetAddr3Ptr m else GetAddr1Ptr m }"

text \<open>An address that no station can have.\<close>

definition rtw_check_invalid_mac_address :: "bytes \<Rightarrow> bool \<Rightarrow> bool option" where
  "rtw_check_invalid_mac_address mac_addr check_local_bit = do {
     null \<leftarrow> memeq mac_addr 0 (replicate 6 0) 6;
     if null then Some True
     else do {
       multi \<leftarrow> memeq mac_addr 0 (replicate 6 0xff) 6;
       if multi then Some True
       else do {
         a \<leftarrow> rd mac_addr 0;
         Some (a AND bit_mask 0 \<noteq> 0 \<or> check_local_bit \<and> a AND bit_mask 1 \<noteq> 0) } } }"

section \<open>Writing\<close>

definition WIFI_MGT_TYPE :: u16 where "WIFI_MGT_TYPE = 0"
definition WIFI_AUTH :: u16 where "WIFI_AUTH = bit_mask 7 OR bit_mask 5 OR bit_mask 4 OR WIFI_MGT_TYPE"

definition set_frame_sub_type :: "u16 \<Rightarrow> u16 \<Rightarrow> u16" where
  "set_frame_sub_type fc type = (fc AND NOT 0xfc) OR type"

definition SetPrivacy :: "u16 \<Rightarrow> u16" where "SetPrivacy fc = fc OR bit_mask 14"

definition SetSeqNum :: "u16 \<Rightarrow> u16 \<Rightarrow> u16" where
  "SetSeqNum sc num = (sc AND NOT 0xfff0) OR (0xfff0 AND push_bit 4 num)"

definition put_LE32 :: "u32 \<Rightarrow> bytes" where
  "put_LE32 v = map (\<lambda>i. ucast (drop_bit (8 * i) v)) [0, 1, 2, 3]"

text \<open>The header with three addresses; the duration is zero.\<close>

definition hdr_3addr :: "u16 \<Rightarrow> bytes \<Rightarrow> bytes \<Rightarrow> bytes \<Rightarrow> u16 \<Rightarrow> bytes" where
  "hdr_3addr fc a1 a2 a3 seq_ctl = put_LE16 fc @ [0, 0] @ a1 @ a2 @ a3 @ put_LE16 seq_ctl"

section \<open>Facts\<close>

lemma hdr_3addr_length [simp]:
  "length a1 = 6 \<Longrightarrow> length a2 = 6 \<Longrightarrow> length a3 = 6 \<Longrightarrow> length (hdr_3addr fc a1 a2 a3 sc) = WLAN_HDR_A3_LEN"
  by (simp add: hdr_3addr_def WLAN_HDR_A3_LEN_def)

lemma put_LE32_length [simp]: "length (put_LE32 v) = 4"
  by (simp add: put_LE32_def)

text \<open>What a receiver reads back from a header that a sender wrote.\<close>

lemma hdr_3addr_addrs:
  assumes "length a1 = 6" "length a2 = 6" "length a3 = 6"
  shows "GetAddr1Ptr (hdr_3addr fc a1 a2 a3 sc @ b) = Some a1"
    and "get_addr2_ptr (hdr_3addr fc a1 a2 a3 sc @ b) = Some a2"
    and "GetAddr3Ptr (hdr_3addr fc a1 a2 a3 sc @ b) = Some a3"
  using assms
  by (simp_all add: GetAddr1Ptr_def get_addr2_ptr_def GetAddr3Ptr_def hdr_3addr_def put_LE16_def rd_n_def)

lemma hdr_3addr_fc: "RTW_GET_LE16 (hdr_3addr fc a1 a2 a3 sc @ b) 0 = Some fc"
  by (rule get_put_LE16 [of _ _ _ "[0, 0] @ a1 @ a2 @ a3 @ put_LE16 sc @ b"]) (simp add: hdr_3addr_def)

lemma hdr_3addr_body:
  "length a1 = 6 \<Longrightarrow> length a2 = 6 \<Longrightarrow> length a3 = 6 \<Longrightarrow>
     drop (WLAN_HDR_A3_LEN + k) (hdr_3addr fc a1 a2 a3 sc @ b) = drop k b"
  by (simp add: drop_append)

lemma LE16_in: "i + 1 < length m \<Longrightarrow> RTW_GET_LE16 m i = Some (mk16 (m ! (i + 1)) (m ! i))"
  by (simp add: RTW_GET_LE16_def mem_simps)

lemma LE16_None_iff: "RTW_GET_LE16 m i = None \<longleftrightarrow> length m \<le> i + 1"
  by (auto simp: RTW_GET_LE16_def rd_def)

text \<open>Taking a successful run of a handler apart.\<close>

lemma bind_SomeE:
  assumes "Option.bind x f = Some y"
  obtains a where "x = Some a" "f a = Some y"
  using assms by (auto simp: Option.bind_eq_Some_conv)

end
