(* ===== verification/Mlme_Join.thy ===== *)
theory Mlme_Join
  imports Ie_Core Wlan_Hdr
begin

text \<open>
  Joining a network as a client (\<open>core/rtw_mlme_ext.c\<close>): the command that starts the join, the wait for a beacon,
  authentication, association, the retries of the link timer, and the frames of the access point that end the link.
  The state is the bit field \<open>pmlmeinfo->state\<close> with the counters of \<open>struct mlme_ext_info\<close>.

  The handlers call many parts of the driver that only listen (registers, the radio, \<open>cfg80211\<close>, the command
  thread); these calls are appended to \<open>mx_out\<close> in the order the code makes them. What the handlers ask of the
  rest of the system (memory, cached keys, the kind of authentication) is the record \<open>mlme_env\<close>, which may differ
  from one event to the next. Fast transition (\<open>rtw_ft_roam\<close>) is not in use.
\<close>

section \<open>State\<close>

abbreviation WIFI_FW_NULL_STATE :: u32 where "WIFI_FW_NULL_STATE \<equiv> 0"
abbreviation WIFI_FW_STATION_STATE :: u32 where "WIFI_FW_STATION_STATE \<equiv> 0x02"
abbreviation WIFI_FW_ADHOC_STATE :: u32 where "WIFI_FW_ADHOC_STATE \<equiv> 0x01"
abbreviation WIFI_FW_AUTH_NULL :: u32 where "WIFI_FW_AUTH_NULL \<equiv> 0x100"
abbreviation WIFI_FW_AUTH_STATE :: u32 where "WIFI_FW_AUTH_STATE \<equiv> 0x200"
abbreviation WIFI_FW_AUTH_SUCCESS :: u32 where "WIFI_FW_AUTH_SUCCESS \<equiv> 0x400"
abbreviation WIFI_FW_ASSOC_STATE :: u32 where "WIFI_FW_ASSOC_STATE \<equiv> 0x2000"
abbreviation WIFI_FW_ASSOC_SUCCESS :: u32 where "WIFI_FW_ASSOC_SUCCESS \<equiv> 0x4000"

definition WIFI_FW_LINKING_STATE :: u32 where
  "WIFI_FW_LINKING_STATE = WIFI_FW_AUTH_NULL OR WIFI_FW_AUTH_STATE OR WIFI_FW_AUTH_SUCCESS OR WIFI_FW_ASSOC_STATE"

abbreviation REAUTH_TO :: nat where "REAUTH_TO \<equiv> 300"
abbreviation REASSOC_TO :: nat where "REASSOC_TO \<equiv> 300"
abbreviation REAUTH_LIMIT :: nat where "REAUTH_LIMIT \<equiv> 4"
abbreviation REASSOC_LIMIT :: nat where "REASSOC_LIMIT \<equiv> 4"

abbreviation dot11AuthAlgrthm_Open :: u32 where "dot11AuthAlgrthm_Open \<equiv> 0"
abbreviation dot11AuthAlgrthm_Shared :: u32 where "dot11AuthAlgrthm_Shared \<equiv> 1"
abbreviation dot11AuthAlgrthm_8021X :: u32 where "dot11AuthAlgrthm_8021X \<equiv> 2"

text \<open>An authentication frame as it is given to the WEP encryption and the radio. \<open>at_pktlen\<close> counts the check value
  that the encryption appends.\<close>

record auth_tx =
  at_frame :: bytes
  at_pktlen :: nat
  at_wep :: bool
  at_iv_len :: nat
  at_icv_len :: nat

datatype ie_call = WMM_param_handler | Process_wfd_ie | HT_caps_handler | HT_info_handler | ERP_IE_handler | RM_IE_handler

datatype mlme_out =
    Update_wireless_mode
  | Update_capinfo u16
  | Asix_iot
  | Set_MSR u32
  | Sec_cfg u8
  | Beacon_timing_control
  | Tx_auth auth_tx
  | Tx_assocreq
  | Tx_reassocreq
  | Tx_deauth bytes u16
  | External_auth
  | Rx_mframe bytes
  | Beacon_update bytes
  | Ie_handler ie_call nat
  | Update_brate
  | Flush_cam
  | Mlme_disconnect
  | Joinbss_reset
  | Join_channel
  | Joinbss_prehandle int u16
  | Join_res int u16
  | Del_sta bytes u16 bool
  | Reset_btm
  | Nb_discover

record mlme_ext =
  mx_state :: u32
  mx_reauth :: u32
  mx_reassoc :: u32
  mx_link_count :: u32
  mx_auth_seq :: u32
  mx_auth_algo :: u32
  mx_auth_status :: u16
  mx_key_index :: u32
  mx_iv :: u32
  mx_chg_txt :: bytes
  mx_aid :: u16
  mx_bcn_interval :: u16
  mx_capability :: u16
  mx_slotTime :: u8
  mx_HT_caps_enable :: bool
  mx_HT_info_enable :: bool
  mx_bssid :: bytes
  mx_ies :: bytes
  mx_ielen :: nat
  mx_mac :: bytes
  mx_mgnt_seq :: u16
  mx_retry :: u32
  mx_join_abort :: bool
  mx_link_timer :: "nat option"
  mx_assoc_timer :: "nat option"
  mx_sec_auth_alg :: nat
  mx_assoc_rsp :: "bytes option"
  mx_event_seq :: u8
  mx_busy :: bool
  mx_out :: "mlme_out list"

record mlme_env =
  sae :: bool
  pmkid_cached :: bool
  report_auth :: bool
  tx_ok :: bool
  evt_mem :: bool
  enq_ok :: bool
  rsp_mem :: bool
  btm_imnt :: bool
  btm_reassoc :: bool
  wait_done :: bool
  force_fail :: bool

definition emit :: "mlme_out \<Rightarrow> mlme_ext \<Rightarrow> mlme_ext" where "emit e m = m\<lparr>mx_out := mx_out m @ [e]\<rparr>"

definition set_link_timer :: "nat \<Rightarrow> mlme_ext \<Rightarrow> mlme_ext" where "set_link_timer ms m = m\<lparr>mx_link_timer := Some ms\<rparr>"

definition cancel_link_timer :: "mlme_ext \<Rightarrow> mlme_ext" where "cancel_link_timer m = m\<lparr>mx_link_timer := None\<rparr>"

definition in_state :: "mlme_ext \<Rightarrow> u32 \<Rightarrow> bool" where "in_state m b \<longleftrightarrow> mx_state m AND b \<noteq> 0"

section \<open>Reports\<close>

text \<open>The result of the join, as an event for the command thread. Without memory for the event nothing happens.\<close>

definition report_join_res :: "mlme_env \<Rightarrow> int \<Rightarrow> u16 \<Rightarrow> mlme_ext \<Rightarrow> bool \<times> mlme_ext" where
  "report_join_res v aid_res st m =
     (if \<not> evt_mem v then (False, m)
      else
        let m = emit (Joinbss_prehandle aid_res st) (m\<lparr>mx_event_seq := mx_event_seq m + 1\<rparr>) in
        if enq_ok v then (True, emit (Join_res aid_res st) m) else (False, m))"

definition report_del_sta_event :: "mlme_env \<Rightarrow> bytes \<Rightarrow> u16 \<Rightarrow> bool \<Rightarrow> mlme_ext \<Rightarrow> bool \<times> mlme_ext" where
  "report_del_sta_event v mac reason local m =
     (if \<not> evt_mem v then (False, m)
      else
        let m = m\<lparr>mx_event_seq := mx_event_seq m + 1\<rparr> in
        if enq_ok v then (True, emit (Del_sta mac reason local) m) else (False, m))"

section \<open>Frames sent\<close>

text \<open>\<open>issue_auth\<close> for a client (\<open>psta == NULL\<close>). The fields are written one after the other behind the header. The
  third frame of shared key authentication carries the challenge text and is to be encrypted.\<close>

definition auth_seq3 :: "mlme_ext \<Rightarrow> bool" where
  "auth_seq3 m \<longleftrightarrow> mx_auth_seq m = 3 \<and> in_state m WIFI_FW_AUTH_STATE \<and> mx_auth_algo m = dot11AuthAlgrthm_Shared"

definition auth_frame :: "mlme_ext \<Rightarrow> u16 \<Rightarrow> auth_tx" where
  "auth_frame m st =
     (let s3 = auth_seq3 m;
          fc = set_frame_sub_type 0 WIFI_AUTH;
          fc = (if s3 then SetPrivacy fc else fc);
          hdr = hdr_3addr fc (mx_bssid m) (mx_mac m) (mx_bssid m) (SetSeqNum 0 (mx_mgnt_seq m));
          val32 = mx_iv m OR push_bit 30 (mx_key_index m);
          val16 = (if mx_auth_algo m = dot11AuthAlgrthm_Shared then 1 else 0);
          body = (if s3 then put_LE32 val32 else []) @ put_LE16 val16 @ put_LE16 (ucast (mx_auth_seq m)) @ put_LE16 st
            @ (if s3 then ie_enc (16, take 128 (mx_chg_txt m)) else []) in
      \<lparr>at_frame = hdr @ body, at_pktlen = length (hdr @ body) + (if s3 then 4 else 0), at_wep = s3,
       at_iv_len = (if s3 then 4 else 0), at_icv_len = (if s3 then 4 else 0)\<rparr>)"

definition issue_auth :: "mlme_env \<Rightarrow> u16 \<Rightarrow> mlme_ext \<Rightarrow> mlme_ext" where
  "issue_auth v st m =
     (if \<not> tx_ok v then m
      else emit (Tx_auth (auth_frame m st))
             (m\<lparr>mx_mgnt_seq := mx_mgnt_seq m + 1, mx_iv := (if auth_seq3 m then mx_iv m + 1 else mx_iv m)\<rparr>))"

section \<open>The steps of a join\<close>

definition decide_wait_for_beacon_timeout :: "nat \<Rightarrow> nat" where
  "decide_wait_for_beacon_timeout bcn_interval =
     (if bcn_interval * 4 < 6000 then 6000 else if bcn_interval * 4 > 20000 then 20000 else bcn_interval * 4)"

text \<open>\<open>cap_ESS\<close> and \<open>cap_IBSS\<close> are bits 0 and 1 of the capability field of the network.\<close>

definition start_clnt_join :: "mlme_env \<Rightarrow> mlme_ext \<Rightarrow> mlme_ext option" where
  "start_clnt_join v m = do {
     caps \<leftarrow> RTW_GET_LE16 (mx_ies m) 10;
     let m = emit (Update_capinfo caps) (emit Update_wireless_mode m);
     asix \<leftarrow> memeq (mx_bssid m) 0 [0x00, 0x0e, 0xc6] 3;
     let m = (if asix then emit Asix_iot m else m);
     Some (if bit caps 0 then
       let m = emit (Set_MSR WIFI_FW_STATION_STATE) m;
           m = emit (Sec_cfg (if mx_auth_algo m = dot11AuthAlgrthm_8021X then 0xcc else 0xcf)) m;
           beacon_timeout = decide_wait_for_beacon_timeout (unat (mx_bcn_interval m));
           m = set_link_timer beacon_timeout m;
           m = m\<lparr>mx_assoc_timer := Some (REAUTH_TO * REAUTH_LIMIT + REASSOC_TO * REASSOC_LIMIT + beacon_timeout)\<rparr> in
       m\<lparr>mx_state := WIFI_FW_AUTH_NULL OR WIFI_FW_STATION_STATE\<rparr>
     else if bit caps 1 then
       let m = emit (Set_MSR WIFI_FW_ADHOC_STATE) m;
           m = emit Beacon_timing_control (emit (Sec_cfg 0xcf) m);
           m = m\<lparr>mx_state := WIFI_FW_ADHOC_STATE\<rparr> in
       snd (report_join_res v 1 0 m)
     else m) }"

definition start_clnt_auth :: "mlme_env \<Rightarrow> mlme_ext \<Rightarrow> mlme_ext" where
  "start_clnt_auth v m =
     (let m = cancel_link_timer m;
          m = m\<lparr>mx_state := (mx_state m AND NOT WIFI_FW_AUTH_NULL) OR WIFI_FW_AUTH_STATE, mx_auth_seq := 1,
                mx_reauth := 0, mx_reassoc := 0, mx_link_count := 0, mx_retry := 0\<rparr> in
      if sae v \<and> \<not> pmkid_cached v then emit External_auth m
      else
        let m = (if sae v then m\<lparr>mx_sec_auth_alg := 0\<rparr> else m) in
        set_link_timer REAUTH_TO (issue_auth v 0 m))"

definition start_clnt_assoc :: "mlme_env \<Rightarrow> mlme_ext \<Rightarrow> mlme_ext" where
  "start_clnt_assoc v m =
     (let m = cancel_link_timer m;
          m = m\<lparr>mx_state := (mx_state m AND NOT (WIFI_FW_AUTH_NULL OR WIFI_FW_AUTH_STATE))
                  OR (WIFI_FW_AUTH_SUCCESS OR WIFI_FW_ASSOC_STATE)\<rparr>;
          m = emit (if btm_reassoc v then Tx_reassocreq else Tx_assocreq) m in
      set_link_timer REASSOC_TO m)"

text \<open>The elements of the network's description that \<open>join_cmd_hdl\<close> looks at, from offset 12 on; \<open>IEs\<close> is a buffer
  of fixed size, and the loop ends before the last two bytes in use.\<close>

definition WMM_OUI :: bytes where "WMM_OUI = [0x00, 0x50, 0xf2, 0x02]"

function join_ie_loop :: "bytes \<Rightarrow> nat \<Rightarrow> nat \<Rightarrow> mlme_ext \<Rightarrow> mlme_ext option" where
  "join_ie_loop ies ielen i m =
     (if i < ielen - 2 then do {
        eid \<leftarrow> rd ies i;
        m \<leftarrow> (if eid = 0xdd then do { wmm \<leftarrow> memeq ies (i + 2) WMM_OUI 4;
                                     Some (if wmm then emit (Ie_handler WMM_param_handler i) m else m) }
             else if eid = 45 then Some (m\<lparr>mx_HT_caps_enable := True\<rparr>)
             else if eid = 61 then Some (m\<lparr>mx_HT_info_enable := True\<rparr>)
             else Some m);
        l \<leftarrow> rd ies (i + 1);
        join_ie_loop ies ielen (i + unat l + 2) m }
      else Some m)"
  by pat_completeness auto
termination
  by (relation "measure (\<lambda>(ies, ielen, i, m). ielen - i)") auto

declare join_ie_loop.simps [simp del]

text \<open>The network that the command names. \<open>jn_ies\<close> holds \<open>MAX_IE_SZ\<close> bytes.\<close>

record join_parm =
  jn_mac :: bytes
  jn_ielen :: nat
  jn_ies :: bytes

abbreviation MAX_IE_SZ :: nat where "MAX_IE_SZ \<equiv> 768"

text \<open>The three parts of the command: leave the current network, take over the description of the new one, and start.
  \<open>jmem\<close>: \<open>join_cmd_pre_hdl\<close> has memory for the network; \<open>chan\<close>: \<open>rtw_chk_start_clnt_join\<close> finds a channel; \<open>roam\<close>:
  the network was found by roaming.\<close>

definition join_leave :: "mlme_ext \<Rightarrow> mlme_ext" where
  "join_leave m =
     (if in_state m WIFI_FW_ASSOC_SUCCESS then
        let m = (if in_state m WIFI_FW_STATION_STATE then emit (Tx_deauth (mx_bssid m) 3) m else m);
            m = emit Flush_cam (m\<lparr>mx_state := WIFI_FW_NULL_STATE\<rparr>) in
        emit Mlme_disconnect (emit (Set_MSR WIFI_FW_STATION_STATE) (cancel_link_timer m))
      else m)"

definition join_load :: "join_parm \<Rightarrow> mlme_ext \<Rightarrow> mlme_ext option" where
  "join_load p m = do {
     let m = emit Joinbss_reset m;
     ies \<leftarrow> memcpy (mx_ies m) 0 (jn_ies p) 0 (jn_ielen p);
     let m = m\<lparr>mx_HT_caps_enable := False, mx_HT_info_enable := False, mx_bssid := jn_mac p, mx_ielen := jn_ielen p,
               mx_ies := ies\<rparr>;
     bcn \<leftarrow> RTW_GET_LE16 ies 8;
     join_ie_loop ies (jn_ielen p) 12 (m\<lparr>mx_bcn_interval := bcn\<rparr>) }"

definition join_go :: "mlme_env \<Rightarrow> bool \<Rightarrow> bool \<Rightarrow> mlme_ext \<Rightarrow> mlme_ext option" where
  "join_go v chan roam m =
     (if \<not> chan then Some (snd (report_join_res v (- 4) 1 m))
      else do {
        m \<leftarrow> start_clnt_join v (cancel_link_timer (emit Join_channel m));
        Some (if roam \<and> in_state m (WIFI_FW_AUTH_NULL OR WIFI_FW_AUTH_STATE) then start_clnt_auth v (emit (Beacon_update []) m)
              else m) })"

definition join_cmd_hdl :: "mlme_env \<Rightarrow> bool \<Rightarrow> bool \<Rightarrow> bool \<Rightarrow> join_parm \<Rightarrow> mlme_ext \<Rightarrow> mlme_ext option" where
  "join_cmd_hdl v jmem chan roam p m =
     (if jn_ielen p > MAX_IE_SZ \<or> jn_ielen p < 2 then Some (snd (report_join_res v (- 4) 1 m))
      else if \<not> jmem then Some (snd (report_join_res v (- 4) 1 m))
      else do { m \<leftarrow> join_load p (join_leave m); join_go v chan roam m })"

text \<open>The part of \<open>OnBeacon\<close> for a client that waits for a beacon of its network.\<close>

definition OnBeacon_auth :: "mlme_env \<Rightarrow> bytes \<Rightarrow> mlme_ext \<Rightarrow> mlme_ext option" where
  "OnBeacon_auth v pframe m = do {
     a3 \<leftarrow> GetAddr3Ptr pframe;
     Some (if a3 = mx_bssid m \<and> in_state m WIFI_FW_AUTH_NULL \<and> (wait_done v \<or> mx_join_abort m) then
       if force_fail v \<or> mx_join_abort m then set_link_timer 1 m
       else start_clnt_auth v (emit (Beacon_update pframe) m)
     else m) }"

text \<open>The answer of the access point, once it is accepted: a refusal, the challenge of shared key authentication, or
  success. The result is the handler's return value, true for \<open>_SUCCESS\<close>.\<close>

definition auth_client_rsp :: "mlme_env \<Rightarrow> bytes \<Rightarrow> u16 \<Rightarrow> u16 \<Rightarrow> mlme_ext \<Rightarrow> (bool \<times> mlme_ext) option" where
  "auth_client_rsp v pframe seq st m =
     (if st \<noteq> 0 then
       let m = (if st = 13 then
                  m\<lparr>mx_auth_algo := (if mx_auth_algo m = dot11AuthAlgrthm_Shared then dot11AuthAlgrthm_Open
                                     else dot11AuthAlgrthm_Shared)\<rparr>
                else m) in
       Some (False, set_link_timer 1 (m\<lparr>mx_auth_status := st\<rparr>))
     else if seq = 2 then
       if mx_auth_algo m = dot11AuthAlgrthm_Shared then do {
         (p, len) \<leftarrow> rtw_get_ie pframe (WLAN_HDR_A3_LEN + 6) 16 0 (int (length pframe) - 24 - 6);
         case p of
           None \<Rightarrow> Some (False, m)
         | Some p \<Rightarrow>
             if len > 128 then Some (False, m)
             else do {
               chg \<leftarrow> memcpy (mx_chg_txt m) 0 pframe (p + 2) (nat len);
               let m = issue_auth v 0 (m\<lparr>mx_chg_txt := chg, mx_auth_seq := 3\<rparr>);
               Some (True, set_link_timer REAUTH_TO m) } }
       else Some (True, start_clnt_assoc v m)
     else if seq = 4 then
       Some (if mx_auth_algo m = dot11AuthAlgrthm_Shared then (True, start_clnt_assoc v m) else (False, m))
     else Some (False, m))"

definition OnAuthClient :: "mlme_env \<Rightarrow> bytes \<Rightarrow> mlme_ext \<Rightarrow> (bool \<times> mlme_ext) option" where
  "OnAuthClient v pframe m =
     (if report_auth v \<and> sae v \<and> \<not> pmkid_cached v then Some (True, emit (Rx_mframe pframe) m)
      else do {
        da \<leftarrow> get_da pframe;
        if mx_mac m \<noteq> da then Some (True, m)
        else if \<not> in_state m WIFI_FW_AUTH_STATE \<or> mx_join_abort m then Some (True, m)
        else do {
          privacy \<leftarrow> GetPrivacy pframe;
          let offset = (if privacy then 4 else 0);
          seq \<leftarrow> RTW_GET_LE16 pframe (WLAN_HDR_A3_LEN + offset + 2);
          st \<leftarrow> RTW_GET_LE16 pframe (WLAN_HDR_A3_LEN + offset + 4);
          auth_client_rsp v pframe seq st m } })"

text \<open>The elements of an association response, each given to its handler. The loop ends at \<open>frame_len\<close>, which the
  caller computes as an unsigned difference; an element may start before that end and reach behind it.\<close>

definition WMM_PARA_OUI :: bytes where "WMM_PARA_OUI = [0x00, 0x50, 0xf2, 0x02, 0x01, 0x01]"
definition WFD_OUI :: bytes where "WFD_OUI = [0x50, 0x6f, 0x9a, 0x0a]"

definition mlme_ie_call :: "bytes \<Rightarrow> nat \<Rightarrow> ie_call option option" where
  "mlme_ie_call frame i = do {
     eid \<leftarrow> rd frame i;
     if eid = 0xdd then do {
       wmm \<leftarrow> memeq frame (i + 2) WMM_PARA_OUI 6;
       if wmm then Some (Some WMM_param_handler)
       else do { wfd \<leftarrow> memeq frame (i + 2) WFD_OUI 4; Some (if wfd then Some Process_wfd_ie else None) } }
     else if eid = 45 then Some (Some HT_caps_handler)
     else if eid = 61 then Some (Some HT_info_handler)
     else if eid = 42 then Some (Some ERP_IE_handler)
     else if eid = 70 then Some (Some RM_IE_handler)
     else Some None }"

function rtw_update_mlme :: "bytes \<Rightarrow> nat \<Rightarrow> nat \<Rightarrow> nat \<Rightarrow> mlme_ext \<Rightarrow> mlme_ext option" where
  "rtw_update_mlme frame p frame_len i m =
     (if i < frame_len then do {
        call \<leftarrow> mlme_ie_call frame (p + i);
        let m = (case call of None \<Rightarrow> m | Some c \<Rightarrow> emit (Ie_handler c (p + i)) m);
        l \<leftarrow> rd frame (p + i + 1);
        rtw_update_mlme frame p frame_len (i + unat l + 2) m }
      else Some m)"
  by pat_completeness auto
termination
  by (relation "measure (\<lambda>(frame, p, frame_len, i, m). frame_len - i)") auto

declare rtw_update_mlme.simps [simp del]

definition assoc_result :: "mlme_env \<Rightarrow> bytes \<Rightarrow> int \<Rightarrow> u16 \<Rightarrow> mlme_ext \<Rightarrow> mlme_ext" where
  "assoc_result v pframe res st m =
     (let m = m\<lparr>mx_assoc_rsp := (if res > 0 \<and> rsp_mem v then Some pframe else None)\<rparr> in
      emit Nb_discover (snd (report_join_res v res st m)))"

definition assoc_rsp_body :: "mlme_env \<Rightarrow> bytes \<Rightarrow> mlme_ext \<Rightarrow> mlme_ext option" where
  "assoc_rsp_body v pframe m = do {
     st \<leftarrow> RTW_GET_LE16 pframe (WLAN_HDR_A3_LEN + 2);
     if st > 0 then Some (assoc_result v pframe (- 4) st (m\<lparr>mx_state := WIFI_FW_NULL_STATE\<rparr>))
     else do {
       cap \<leftarrow> RTW_GET_LE16 pframe WLAN_HDR_A3_LEN;
       aid \<leftarrow> RTW_GET_LE16 pframe (WLAN_HDR_A3_LEN + 4);
       let res = uint (aid AND 0x3fff);
       let m = m\<lparr>mx_capability := cap, mx_slotTime := (if bit cap 10 then 9 else 20), mx_aid := aid AND 0x3fff\<rparr>;
       if res < 1 \<or> res > 2007 then Some (assoc_result v pframe (- 4) st (m\<lparr>mx_state := WIFI_FW_NULL_STATE\<rparr>))
       else do {
         m \<leftarrow> rtw_update_mlme pframe (6 + WLAN_HDR_A3_LEN) (usub32 (usub32 (length pframe) 6) WLAN_HDR_A3_LEN) 0 m;
         let m = m\<lparr>mx_state := (mx_state m AND NOT WIFI_FW_ASSOC_STATE) OR WIFI_FW_ASSOC_SUCCESS\<rparr>;
         Some (assoc_result v pframe res st (emit Update_brate m)) } } }"

definition OnAssocRsp :: "mlme_env \<Rightarrow> bytes \<Rightarrow> mlme_ext \<Rightarrow> mlme_ext option" where
  "OnAssocRsp v pframe m = do {
     da \<leftarrow> get_da pframe;
     if mx_mac m \<noteq> da then Some m
     else if \<not> in_state m (WIFI_FW_AUTH_SUCCESS OR WIFI_FW_ASSOC_STATE) \<or> mx_join_abort m then Some m
     else if in_state m WIFI_FW_ASSOC_SUCCESS then Some m
     else assoc_rsp_body v pframe (cancel_link_timer m) }"

section \<open>The end of a link\<close>

definition receive_disconnect :: "mlme_env \<Rightarrow> bytes \<Rightarrow> u16 \<Rightarrow> bool \<Rightarrow> mlme_ext \<Rightarrow> mlme_ext" where
  "receive_disconnect v mac reason local m =
     (if mac \<noteq> mx_bssid m then m
      else if mx_state m AND 0x03 = WIFI_FW_STATION_STATE then
        let m = (if in_state m WIFI_FW_ASSOC_SUCCESS then
                   case report_del_sta_event v mac reason local m of
                     (ok, m) \<Rightarrow> if ok then m\<lparr>mx_state := WIFI_FW_NULL_STATE\<rparr> else m
                 else if in_state m WIFI_FW_LINKING_STATE then
                   case report_join_res v (- 2) reason m of
                     (ok, m) \<Rightarrow> if ok then m\<lparr>mx_state := WIFI_FW_NULL_STATE\<rparr> else m
                 else m) in
        emit Reset_btm m
      else m)"

text \<open>For a client. Reason 6 is a class 2 frame from a station that is not authenticated, reason 2 an authentication
  that is no longer valid.\<close>

definition OnDeAuth :: "mlme_env \<Rightarrow> bytes \<Rightarrow> mlme_ext \<Rightarrow> mlme_ext option" where
  "OnDeAuth v pframe m = do {
     a3 \<leftarrow> GetAddr3Ptr pframe;
     if a3 \<noteq> mx_bssid m then Some m
     else do {
       reason \<leftarrow> RTW_GET_LE16 pframe WLAN_HDR_A3_LEN;
       a2 \<leftarrow> get_addr2_ptr pframe;
       let ignore = (in_state m WIFI_FW_AUTH_STATE \<or> in_state m WIFI_FW_ASSOC_STATE) \<and> (reason = 6 \<or> reason = 2);
       let ignore = (ignore \<or> \<not> btm_imnt v);
       let m = (if ignore then m else receive_disconnect v a2 reason False m);
       Some (m\<lparr>mx_busy := False\<rparr>) } }"

definition OnDisassoc :: "mlme_env \<Rightarrow> bytes \<Rightarrow> mlme_ext \<Rightarrow> mlme_ext option" where
  "OnDisassoc v pframe m = do {
     a3 \<leftarrow> GetAddr3Ptr pframe;
     if a3 \<noteq> mx_bssid m then Some m
     else do {
       reason \<leftarrow> RTW_GET_LE16 pframe WLAN_HDR_A3_LEN;
       a2 \<leftarrow> get_addr2_ptr pframe;
       let m = (if btm_imnt v then receive_disconnect v a2 reason False m else m);
       Some (m\<lparr>mx_busy := False\<rparr>) } }"

text \<open>The link timer has expired: it is no longer armed when the handler runs.\<close>

definition link_timer_hdl :: "mlme_env \<Rightarrow> mlme_ext \<Rightarrow> mlme_ext" where
  "link_timer_hdl v m =
     (let m = cancel_link_timer m in
      if mx_join_abort m \<and> mx_state m \<noteq> WIFI_FW_NULL_STATE then
        snd (report_join_res v (- 4) 1 (m\<lparr>mx_state := WIFI_FW_NULL_STATE\<rparr>))
      else if in_state m WIFI_FW_AUTH_NULL then
        snd (report_join_res v (- 3) 1 (m\<lparr>mx_state := WIFI_FW_NULL_STATE\<rparr>))
      else if in_state m WIFI_FW_AUTH_STATE then
        if sae v then m
        else
          let m = m\<lparr>mx_reauth := mx_reauth m + 1\<rparr> in
          if unat (mx_reauth m) > REAUTH_LIMIT then
            let m = m\<lparr>mx_state := 0\<rparr> in
            if mx_auth_status m \<noteq> 0 then (snd (report_join_res v (- 1) (mx_auth_status m) m))\<lparr>mx_auth_status := 0\<rparr>
            else snd (report_join_res v (- 1) 1 m)
          else set_link_timer REAUTH_TO (issue_auth v 0 (m\<lparr>mx_auth_seq := 1\<rparr>))
      else if in_state m WIFI_FW_ASSOC_STATE then
        let m = m\<lparr>mx_reassoc := mx_reassoc m + 1\<rparr> in
        if unat (mx_reassoc m) > REASSOC_LIMIT then
          snd (report_join_res v (- 2) 1 (m\<lparr>mx_state := WIFI_FW_NULL_STATE\<rparr>))
        else set_link_timer REASSOC_TO (emit Tx_assocreq m)
      else m)"

text \<open>A waiting thread aborts the join (\<open>_rtw_wait_join_done\<close>), and ends its wait.\<close>

definition join_abort_start :: "bool \<Rightarrow> mlme_ext \<Rightarrow> mlme_ext" where
  "join_abort_start abort m =
     (let m = m\<lparr>mx_join_abort := abort\<rparr> in if abort then set_link_timer 1 m else m)"

definition join_abort_end :: "mlme_ext \<Rightarrow> mlme_ext" where
  "join_abort_end m = m\<lparr>mx_join_abort := False\<rparr>"

text \<open>The end of \<open>cfg80211_rtw_set_pmksa\<close>: external authentication has succeeded (\<open>extauth\<close>).\<close>

definition set_pmksa_assoc :: "mlme_env \<Rightarrow> bool \<Rightarrow> mlme_ext \<Rightarrow> mlme_ext" where
  "set_pmksa_assoc v extauth m = (if sae v \<and> extauth then start_clnt_assoc v m else m)"

section \<open>Events\<close>

datatype join_event =
    E_join bool bool bool join_parm
  | E_beacon bytes
  | E_auth bytes
  | E_assoc bytes
  | E_deauth bytes
  | E_disassoc bytes
  | E_timer
  | E_abort bool
  | E_abort_end

definition mlme_exec :: "mlme_env \<Rightarrow> join_event \<Rightarrow> mlme_ext \<Rightarrow> mlme_ext option" where
  "mlme_exec v e m =
     (case e of
        E_join jmem chan roam p \<Rightarrow> join_cmd_hdl v jmem chan roam p m
      | E_beacon f \<Rightarrow> OnBeacon_auth v f m
      | E_auth f \<Rightarrow> map_option snd (OnAuthClient v f m)
      | E_assoc f \<Rightarrow> OnAssocRsp v f m
      | E_deauth f \<Rightarrow> OnDeAuth v f m
      | E_disassoc f \<Rightarrow> OnDisassoc v f m
      | E_timer \<Rightarrow> if mx_link_timer m = None then None else Some (link_timer_hdl v m)
      | E_abort b \<Rightarrow> Some (join_abort_start b m)
      | E_abort_end \<Rightarrow> Some (join_abort_end m))"

text \<open>A network that can be joined says what it is: an infrastructure or an ad hoc network. The description has to
  reach the capability field.\<close>

definition join_net_ok :: "join_parm \<Rightarrow> bool" where
  "join_net_ok p \<longleftrightarrow> 12 \<le> jn_ielen p \<and>
     (case RTW_GET_LE16 (jn_ies p) 10 of None \<Rightarrow> False | Some c \<Rightarrow> bit c 0 \<or> bit c 1)"

fun event_ok :: "join_event \<Rightarrow> bool" where
  "event_ok (E_join _ _ _ p) \<longleftrightarrow> join_net_ok p"
| "event_ok _ \<longleftrightarrow> True"

text \<open>The states that can be reached when the driver authenticates itself (no SAE).\<close>

inductive join_reach :: "mlme_ext \<Rightarrow> bool" where
  start: "mx_state m = WIFI_FW_NULL_STATE \<Longrightarrow> length (mx_ies m) = MAX_IE_SZ \<Longrightarrow> join_reach m"
| step: "join_reach m \<Longrightarrow> \<not> sae v \<Longrightarrow> event_ok e \<Longrightarrow> mlme_exec v e m = Some m' \<Longrightarrow> join_reach m'"

definition linking :: "mlme_ext \<Rightarrow> bool" where
  "linking m \<longleftrightarrow> in_state m (WIFI_FW_AUTH_NULL OR WIFI_FW_AUTH_STATE OR WIFI_FW_ASSOC_STATE)"

definition join_states :: "u32 list" where
  "join_states =
     [WIFI_FW_NULL_STATE, WIFI_FW_ADHOC_STATE,
      WIFI_FW_STATION_STATE OR WIFI_FW_AUTH_NULL,
      WIFI_FW_STATION_STATE OR WIFI_FW_AUTH_STATE,
      WIFI_FW_STATION_STATE OR WIFI_FW_AUTH_SUCCESS OR WIFI_FW_ASSOC_STATE,
      WIFI_FW_STATION_STATE OR WIFI_FW_AUTH_SUCCESS OR WIFI_FW_ASSOC_SUCCESS]"

text \<open>The invariant: the state is one of six; a client that is linking has its timer armed; the counters of the retries
  are within their limits.\<close>

definition join_inv :: "mlme_ext \<Rightarrow> bool" where
  "join_inv m \<longleftrightarrow> mx_state m \<in> set join_states \<and> length (mx_ies m) = MAX_IE_SZ \<and>
     (linking m \<longrightarrow> mx_link_timer m \<noteq> None) \<and>
     (in_state m WIFI_FW_AUTH_STATE \<longrightarrow> unat (mx_reauth m) \<le> REAUTH_LIMIT \<and> mx_reassoc m = 0) \<and>
     (in_state m WIFI_FW_ASSOC_STATE \<longrightarrow> unat (mx_reassoc m) \<le> REASSOC_LIMIT)"

fun is_join_res :: "mlme_out \<Rightarrow> bool" where
  "is_join_res (Join_res _ _) \<longleftrightarrow> True"
| "is_join_res _ \<longleftrightarrow> False"

definition join_results :: "mlme_ext \<Rightarrow> nat" where
  "join_results m = length (filter is_join_res (mx_out m))"

text \<open>How often the link timer can still expire before the join is over.\<close>

definition link_budget :: "mlme_ext \<Rightarrow> nat" where
  "link_budget m =
     (if in_state m WIFI_FW_AUTH_NULL then REAUTH_LIMIT + (REASSOC_LIMIT + 1)
      else if in_state m WIFI_FW_AUTH_STATE then (REAUTH_LIMIT - unat (mx_reauth m)) + (REASSOC_LIMIT + 1)
      else if in_state m WIFI_FW_ASSOC_STATE then REASSOC_LIMIT + 1 - unat (mx_reassoc m)
      else 0)"

section \<open>What a step keeps\<close>

lemma join_states_cases:
  assumes "mx_state m \<in> set join_states"
  obtains "mx_state m = 0" | "mx_state m = 1" | "mx_state m = 0x102" | "mx_state m = 0x202" | "mx_state m = 0x2402" | "mx_state m = 0x4402"
  using assms by (auto simp: join_states_def)

lemma emit_sel [simp]:
  "mx_state (emit e m) = mx_state m" "mx_link_timer (emit e m) = mx_link_timer m" "mx_reauth (emit e m) = mx_reauth m"
  "mx_reassoc (emit e m) = mx_reassoc m" "mx_ies (emit e m) = mx_ies m" "mx_out (emit e m) = mx_out m @ [e]"
  "mx_ielen (emit e m) = mx_ielen m" "mx_bssid (emit e m) = mx_bssid m" "mx_join_abort (emit e m) = mx_join_abort m"
  "mx_auth_algo (emit e m) = mx_auth_algo m" "mx_bcn_interval (emit e m) = mx_bcn_interval m" "mx_mac (emit e m) = mx_mac m"
  "mx_aid (emit e m) = mx_aid m" "mx_auth_status (emit e m) = mx_auth_status m"
  by (simp_all add: emit_def)

lemma link_timer_sel [simp]:
  "mx_state (set_link_timer t m) = mx_state m" "mx_link_timer (set_link_timer t m) = Some t"
  "mx_reauth (set_link_timer t m) = mx_reauth m" "mx_reassoc (set_link_timer t m) = mx_reassoc m"
  "mx_ies (set_link_timer t m) = mx_ies m" "mx_out (set_link_timer t m) = mx_out m"
  "mx_join_abort (set_link_timer t m) = mx_join_abort m" "mx_auth_algo (set_link_timer t m) = mx_auth_algo m"
  "mx_state (cancel_link_timer m) = mx_state m" "mx_link_timer (cancel_link_timer m) = None"
  "mx_reauth (cancel_link_timer m) = mx_reauth m" "mx_reassoc (cancel_link_timer m) = mx_reassoc m"
  "mx_ies (cancel_link_timer m) = mx_ies m" "mx_out (cancel_link_timer m) = mx_out m"
  "mx_join_abort (cancel_link_timer m) = mx_join_abort m" "mx_bssid (cancel_link_timer m) = mx_bssid m"
  "mx_auth_algo (cancel_link_timer m) = mx_auth_algo m" "mx_mac (cancel_link_timer m) = mx_mac m"
  "mx_bcn_interval (cancel_link_timer m) = mx_bcn_interval m" "mx_auth_status (cancel_link_timer m) = mx_auth_status m"
  by (simp_all add: set_link_timer_def cancel_link_timer_def)

text \<open>The part of the state that the invariant, the budget and the number of results depend on.\<close>

definition link_view :: "mlme_ext \<Rightarrow> u32 \<times> bool \<times> u32 \<times> u32 \<times> bytes \<times> nat" where
  "link_view m = (mx_state m, mx_link_timer m \<noteq> None, mx_reauth m, mx_reassoc m, mx_ies m, join_results m)"

lemma link_view_cong:
  assumes "link_view m = link_view m'"
  shows "join_inv m = join_inv m'" "link_budget m = link_budget m'" "linking m = linking m'" "join_results m = join_results m'"
  using assms by (auto simp: link_view_def join_inv_def link_budget_def linking_def in_state_def)

lemma join_results_emit [simp]: "join_results (emit e m) = join_results m + of_bool (is_join_res e)"
  by (simp add: join_results_def)

lemma join_results_timer [simp]:
  "join_results (set_link_timer t m) = join_results m" "join_results (cancel_link_timer m) = join_results m"
  by (simp_all add: join_results_def)

lemma link_view_emit [simp]: "\<not> is_join_res e \<Longrightarrow> link_view (emit e m) = link_view m"
  by (simp add: link_view_def)

lemma link_view_upd [simp]:
  "link_view (m\<lparr>mx_auth_algo := a\<rparr>) = link_view m" "link_view (m\<lparr>mx_auth_status := b\<rparr>) = link_view m"
  "link_view (m\<lparr>mx_chg_txt := c\<rparr>) = link_view m" "link_view (m\<lparr>mx_auth_seq := d\<rparr>) = link_view m"
  "link_view (m\<lparr>mx_busy := e\<rparr>) = link_view m" "link_view (m\<lparr>mx_event_seq := f\<rparr>) = link_view m"
  "link_view (m\<lparr>mx_join_abort := g\<rparr>) = link_view m" "link_view (m\<lparr>mx_mgnt_seq := h, mx_iv := j\<rparr>) = link_view m"
  by (simp_all add: link_view_def join_results_def)

lemma issue_auth_view [simp]: "link_view (issue_auth v st m) = link_view m"
  by (simp add: issue_auth_def)

lemma report_join_res_view:
  "report_join_res v res st m = (ok, m') \<Longrightarrow>
     mx_state m' = mx_state m \<and> mx_link_timer m' = mx_link_timer m \<and> mx_reauth m' = mx_reauth m \<and>
     mx_reassoc m' = mx_reassoc m \<and> mx_ies m' = mx_ies m \<and>
     ok = (evt_mem v \<and> enq_ok v) \<and> join_results m' = join_results m + of_bool ok"
  by (auto simp: report_join_res_def Let_def join_results_def split: if_splits)

text \<open>The contract of a step that does not start a join. \<open>ok\<close> tells whether the events of the step could be queued.\<close>

definition link_step :: "bool \<Rightarrow> nat \<Rightarrow> mlme_ext \<Rightarrow> mlme_ext \<Rightarrow> bool" where
  "link_step ok cost m m' \<longleftrightarrow> join_inv m' \<and>
     (linking m' \<longrightarrow> linking m \<and> link_budget m' + cost \<le> link_budget m) \<and>
     (ok \<longrightarrow> join_results m' + of_bool (linking m') = join_results m + of_bool (linking m))"

lemma link_step_view: "join_inv m \<Longrightarrow> link_view m' = link_view m \<Longrightarrow> link_step ok 0 m m'"
  using link_view_cong [of m' m] by (simp add: link_step_def)

lemma link_step_view_left: "link_view m1 = link_view m \<Longrightarrow> link_step ok c m1 m' \<Longrightarrow> link_step ok c m m'"
  using link_view_cong [of m1 m] by (simp add: link_step_def)

lemma link_step_view_right: "link_step ok c m m1 \<Longrightarrow> link_view m' = link_view m1 \<Longrightarrow> link_step ok c m m'"
  using link_view_cong [of m' m1] by (simp add: link_step_def)

lemma link_step_timer: "join_inv m \<Longrightarrow> link_step ok 0 m (set_link_timer t m)"
  by (auto simp: link_step_def join_inv_def linking_def in_state_def link_budget_def)

lemma unat_suc_le: "unat (x :: u32) \<le> 4 \<Longrightarrow> unat (x + 1) = unat x + 1"
  by (simp add: unat_word_ariths)

lemmas link_defs = link_step_def join_inv_def linking_def in_state_def link_budget_def join_states_def

text \<open>The end of a join: the state is left, and one result is queued.\<close>

lemma report_ends:
  assumes "linking m" "length (mx_ies m) = MAX_IE_SZ" "mx_state m1 = 0" "mx_ies m1 = mx_ies m" "join_results m1 = join_results m"
  shows "link_step (evt_mem v \<and> enq_ok v) c m (snd (report_join_res v res st m1))"
proof -
  obtain ok m' where r: "report_join_res v res st m1 = (ok, m')" by fastforce
  from report_join_res_view [OF r] have "mx_state m' = 0" "mx_ies m' = mx_ies m" "ok = (evt_mem v \<and> enq_ok v)"
    "join_results m' = join_results m + of_bool ok" using assms by auto
  with r assms show ?thesis by (auto simp: link_defs)
qed

lemma start_clnt_auth_step:
  assumes inv: "join_inv m" and s: "in_state m WIFI_FW_AUTH_NULL" "\<not> sae v"
  shows "link_step ok 0 m (start_clnt_auth v m)"
proof -
  have st: "mx_state m = 0x102" using inv s(1) by (auto simp: join_inv_def in_state_def join_states_def)
  let ?m = "(cancel_link_timer m)\<lparr>mx_state := (mx_state m AND NOT WIFI_FW_AUTH_NULL) OR WIFI_FW_AUTH_STATE, mx_auth_seq := 1,
                mx_reauth := 0, mx_reassoc := 0, mx_link_count := 0, mx_retry := 0\<rparr>"
  have "start_clnt_auth v m = set_link_timer REAUTH_TO (issue_auth v 0 ?m)"
    using s(2) by (simp add: start_clnt_auth_def Let_def)
  moreover have "link_view (issue_auth v 0 ?m) = link_view ?m" by simp
  moreover have "join_results ?m = join_results m" by (simp add: join_results_def)
  ultimately show ?thesis
    using inv st by (auto simp: link_defs link_view_def)
qed

lemma start_clnt_assoc_step:
  assumes inv: "join_inv m" and s: "in_state m WIFI_FW_AUTH_STATE"
  shows "link_step ok 0 m (start_clnt_assoc v m)"
proof -
  have st: "mx_state m = 0x202" using inv s(1) by (auto simp: join_inv_def in_state_def join_states_def)
  have "mx_state (start_clnt_assoc v m) = 0x2402" "mx_link_timer (start_clnt_assoc v m) \<noteq> None"
    "mx_reassoc (start_clnt_assoc v m) = mx_reassoc m" "mx_ies (start_clnt_assoc v m) = mx_ies m"
    "join_results (start_clnt_assoc v m) = join_results m"
    using st by (auto simp: start_clnt_assoc_def Let_def join_results_def)
  then show ?thesis using inv st by (auto simp: link_defs)
qed

lemma OnBeacon_auth_step:
  assumes "join_inv m" "\<not> sae v" "OnBeacon_auth v f m = Some m'"
  shows "link_step ok 0 m m'"
proof -
  let ?m = "emit (Beacon_update f) m"
  have eq: "link_view ?m = link_view m" by simp
  have "link_step ok 0 m (start_clnt_auth v ?m)" if "in_state m WIFI_FW_AUTH_NULL"
  proof (rule link_step_view_left [OF eq], rule start_clnt_auth_step)
    show "join_inv ?m" using link_view_cong(1) [OF eq] assms(1) by simp
    show "in_state ?m WIFI_FW_AUTH_NULL" using that by (simp add: in_state_def)
  qed fact
  then show ?thesis
    using assms link_step_timer [OF assms(1), of ok 1] link_step_view [OF assms(1), of m ok]
    by (auto simp: OnBeacon_auth_def Option.bind_eq_Some_conv split: if_splits)
qed

lemma link_step_view_timer: "join_inv m \<Longrightarrow> link_view m1 = link_view m \<Longrightarrow> link_step ok 0 m (set_link_timer t m1)"
  using link_step_view_left [of m1 m ok 0 "set_link_timer t m1"] link_step_timer [of m1] link_view_cong(1) [of m1 m] by simp

lemma auth_client_rsp_step:
  assumes inv: "join_inv m" and st: "in_state m WIFI_FW_AUTH_STATE" and r: "auth_client_rsp v f seq st m = Some (b, m')"
  shows "link_step ok 0 m m'"
proof -
  note timer = link_step_view_timer [OF inv]
  have same: "link_step ok 0 m m" by (simp add: link_step_view [OF inv])
  have rej: "link_step ok 0 m (set_link_timer t (m\<lparr>mx_auth_status := st\<rparr>))" for t st by (rule timer) simp
  have alg: "link_step ok 0 m (set_link_timer t (m\<lparr>mx_auth_algo := a, mx_auth_status := st\<rparr>))" for t a st
    by (rule timer) (simp add: link_view_def join_results_def)
  have chg: "link_step ok 0 m (set_link_timer REAUTH_TO (issue_auth v 0 (m\<lparr>mx_chg_txt := c, mx_auth_seq := 3\<rparr>)))" for c
  proof (rule timer)
    show "link_view (issue_auth v 0 (m\<lparr>mx_chg_txt := c, mx_auth_seq := 3\<rparr>)) = link_view m"
      by (simp only: issue_auth_view) (simp add: link_view_def join_results_def)
  qed
  note assoc = start_clnt_assoc_step [OF inv st, of ok v]
  show ?thesis
  proof (cases "st = 0 \<and> seq = 2 \<and> mx_auth_algo m = dot11AuthAlgrthm_Shared")
    case True
    with r same show ?thesis
      by (auto simp: auth_client_rsp_def Let_def chg elim!: bind_SomeE split: if_splits option.splits)
  next
    case False
    with r same show ?thesis
      by (auto simp: auth_client_rsp_def Let_def rej alg assoc split: if_splits)
  qed
qed

lemma OnAuthClient_step:
  assumes inv: "join_inv m" and r: "OnAuthClient v f m = Some (b, m')"
  shows "link_step ok 0 m m'"
proof -
  have same: "link_step ok 0 m m" and mf: "link_step ok 0 m (emit (Rx_mframe f) m)"
    by (simp_all add: link_step_view [OF inv])
  show ?thesis
  proof (cases "in_state m WIFI_FW_AUTH_STATE \<and> \<not> mx_join_abort m")
    case True
    then have "m' = m \<or> m' = emit (Rx_mframe f) m \<or> (\<exists>seq st. auth_client_rsp v f seq st m = Some (b, m'))"
      using r by (auto simp: OnAuthClient_def Let_def elim!: bind_SomeE split: if_splits)
    then show ?thesis
      using same mf auth_client_rsp_step [OF inv] True by blast
  next
    case False
    with r same mf show ?thesis
      by (auto simp: OnAuthClient_def elim!: bind_SomeE split: if_splits)
  qed
qed

lemma rtw_update_mlme_view:
  "rtw_update_mlme frame p n i m = Some m' \<Longrightarrow> link_view m' = link_view m"
proof (induction frame p n i m arbitrary: m' rule: rtw_update_mlme.induct)
  case (1 frame p n i m)
  show ?case
  proof (cases "i < n")
    case True
    have "mlme_ie_call frame (p + i) \<bind> (\<lambda>call. let m = (case call of None \<Rightarrow> m | Some c \<Rightarrow> emit (Ie_handler c (p + i)) m) in
        rd frame (p + i + 1) \<bind> (\<lambda>l. rtw_update_mlme frame p n (i + unat l + 2) m)) = Some m'"
      using "1.prems" True by (simp add: rtw_update_mlme.simps [of frame p n i m])
    then obtain call where call: "mlme_ie_call frame (p + i) = Some call"
      and rest: "rd frame (p + i + 1) \<bind> (\<lambda>l. rtw_update_mlme frame p n (i + unat l + 2)
        (case call of None \<Rightarrow> m | Some c \<Rightarrow> emit (Ie_handler c (p + i)) m)) = Some m'"
      by (rule bind_SomeE) (simp add: Let_def)
    from rest obtain l where l: "rd frame (p + i + 1) = Some l"
      and rec: "rtw_update_mlme frame p n (i + unat l + 2) (case call of None \<Rightarrow> m | Some c \<Rightarrow> emit (Ie_handler c (p + i)) m) = Some m'"
      by (rule bind_SomeE)
    show ?thesis using "1.IH" [OF True call refl l rec] by (cases call) simp_all
  qed (use "1.prems" in \<open>simp add: rtw_update_mlme.simps\<close>)
qed

lemma assoc_result_step:
  assumes "linking m" "length (mx_ies m) = MAX_IE_SZ" "mx_state m1 \<in> {0, 0x4402}" "mx_ies m1 = mx_ies m"
    "join_results m1 = join_results m"
  shows "link_step (evt_mem v \<and> enq_ok v) c m (assoc_result v f res st m1)"
proof -
  let ?m1 = "m1\<lparr>mx_assoc_rsp := (if res > 0 \<and> rsp_mem v then Some f else None)\<rparr>"
  obtain ok m' where r: "report_join_res v res st ?m1 = (ok, m')" by fastforce
  have "join_results ?m1 = join_results m" using assms by (simp add: join_results_def)
  with report_join_res_view [OF r] have "mx_state m' = mx_state m1" "mx_ies m' = mx_ies m" "ok = (evt_mem v \<and> enq_ok v)"
    "join_results m' = join_results m + of_bool ok" using assms by auto
  moreover have "assoc_result v f res st m1 = emit Nb_discover m'" using r by (simp add: assoc_result_def Let_def)
  ultimately have e: "mx_state (assoc_result v f res st m1) = mx_state m1" "mx_ies (assoc_result v f res st m1) = mx_ies m"
    "join_results (assoc_result v f res st m1) = join_results m + of_bool (evt_mem v \<and> enq_ok v)" by simp_all
  then have "join_inv (assoc_result v f res st m1)" "\<not> linking (assoc_result v f res st m1)"
    using assms by (auto simp: join_inv_def linking_def in_state_def join_states_def)
  then show ?thesis using e assms(1) by (simp add: link_step_def)
qed

lemma OnAssocRsp_step:
  assumes inv: "join_inv m" and r: "OnAssocRsp v f m = Some m'"
  shows "link_step (evt_mem v \<and> enq_ok v) 0 m m'"
proof (cases "in_state m (WIFI_FW_AUTH_SUCCESS OR WIFI_FW_ASSOC_STATE) \<and> \<not> in_state m WIFI_FW_ASSOC_SUCCESS")
  case False
  then have "m' = m" using r by (auto simp: OnAssocRsp_def elim!: bind_SomeE split: if_splits)
  then show ?thesis by (simp add: link_step_view [OF inv])
next
  case True
  then have st: "mx_state m = 0x2402" using inv by (auto simp: join_inv_def in_state_def join_states_def)
  then have link: "linking m" by (simp add: linking_def in_state_def)
  have ies: "length (mx_ies m) = MAX_IE_SZ" using inv by (simp add: join_inv_def)
  note ends = assoc_result_step [OF link ies]
  have upd: "\<forall>res s. link_step (evt_mem v \<and> enq_ok v) 0 m
      (assoc_result v f res s (emit Update_brate (m1\<lparr>mx_state := mx_state m1 AND - 8193 OR WIFI_FW_ASSOC_SUCCESS\<rparr>)))"
    if "rtw_update_mlme f p n 0 ((cancel_link_timer m)\<lparr>mx_capability := c, mx_slotTime := t, mx_aid := a\<rparr>) = Some m1" for m1 p n c t a
  proof -
    have "link_view m1 = link_view ((cancel_link_timer m)\<lparr>mx_capability := c, mx_slotTime := t, mx_aid := a\<rparr>)"
      by (rule rtw_update_mlme_view [OF that])
    then have "mx_state m1 = 0x2402" "mx_ies m1 = mx_ies m" "join_results m1 = join_results m"
      using st by (auto simp: link_view_def join_results_def)
    then show ?thesis by (intro allI ends) (simp_all add: join_results_def)
  qed
  have null: "link_step (evt_mem v \<and> enq_ok v) 0 m (assoc_result v f (- 4) s (m1\<lparr>mx_state := 0\<rparr>))"
    if "mx_ies m1 = mx_ies m" "mx_out m1 = mx_out m" for s m1
    by (rule ends) (simp_all add: that join_results_def)
  show ?thesis
    using r True link_step_view [OF inv refl] null [of "cancel_link_timer m"]
      null [of "(cancel_link_timer m)\<lparr>mx_capability := c, mx_slotTime := t, mx_aid := a\<rparr>" for c t a]
    by (auto simp: OnAssocRsp_def assoc_rsp_body_def Let_def elim!: bind_SomeE split: if_splits dest!: upd)
qed

lemma null_state: "mx_state m = 0 \<Longrightarrow> length (mx_ies m) = MAX_IE_SZ \<Longrightarrow> join_inv m \<and> \<not> linking m"
  by (simp add: join_inv_def linking_def in_state_def join_states_def)

lemma assoc_not_linking: "join_inv m \<Longrightarrow> in_state m WIFI_FW_ASSOC_SUCCESS \<Longrightarrow> \<not> linking m"
  by (auto simp: join_inv_def linking_def in_state_def join_states_def)

lemma station_linking:
  "join_inv m \<Longrightarrow> in_state m WIFI_FW_LINKING_STATE \<Longrightarrow> \<not> in_state m WIFI_FW_ASSOC_SUCCESS \<Longrightarrow> linking m"
  by (auto simp: join_inv_def linking_def in_state_def join_states_def WIFI_FW_LINKING_STATE_def)

lemma disconnect_linked:
  assumes inv: "join_inv m" and s: "in_state m WIFI_FW_ASSOC_SUCCESS"
    and r: "report_del_sta_event v mac reason local m = (ok, m1)"
  shows "link_step c 0 m (emit Reset_btm (if ok then m1\<lparr>mx_state := 0\<rparr> else m1))"
proof -
  have v: "link_view m1 = link_view m" using r by (auto simp: report_del_sta_event_def Let_def split: if_splits)
  show ?thesis
  proof (cases ok)
    case True
    have "join_results (emit Reset_btm (m1\<lparr>mx_state := 0\<rparr>)) = join_results m" "mx_ies m1 = mx_ies m"
      using v by (simp_all add: link_view_def join_results_def)
    then show ?thesis
      using True inv assoc_not_linking [OF inv s] null_state [of "emit Reset_btm (m1\<lparr>mx_state := 0\<rparr>)"]
      by (simp add: link_step_def join_inv_def [of m])
  next
    case False
    then show ?thesis using v by (simp add: link_step_view [OF inv])
  qed
qed

lemma disconnect_linking:
  assumes inv: "join_inv m" and s: "linking m" and r: "report_join_res v res st m = (ok, m1)"
  shows "link_step (evt_mem v \<and> enq_ok v) 0 m (emit Reset_btm (if ok then m1\<lparr>mx_state := 0\<rparr> else m1))"
proof -
  note v = report_join_res_view [OF r]
  show ?thesis
  proof (cases ok)
    case True
    have "join_results (emit Reset_btm (m1\<lparr>mx_state := 0\<rparr>)) = join_results m + 1"
      using v True by (simp add: join_results_def)
    then show ?thesis
      using True v inv s null_state [of "emit Reset_btm (m1\<lparr>mx_state := 0\<rparr>)"]
      by (simp add: link_step_def join_inv_def [of m])
  next
    case False
    then have "link_view (emit Reset_btm m1) = link_view m" using v by (simp add: link_view_def)
    then show ?thesis using False by (simp add: link_step_view [OF inv])
  qed
qed

lemma receive_disconnect_step:
  assumes inv: "join_inv m"
  shows "link_step (evt_mem v \<and> enq_ok v) 0 m (receive_disconnect v mac reason local m)"
proof -
  obtain ok1 m1 ok2 m2 where r: "report_join_res v (- 2) reason m = (ok1, m1)" "report_del_sta_event v mac reason local m = (ok2, m2)"
    by (meson surj_pair)
  have "link_step (evt_mem v \<and> enq_ok v) 0 m m" "link_step (evt_mem v \<and> enq_ok v) 0 m (emit Reset_btm m)"
    by (simp_all add: link_step_view [OF inv])
  then show ?thesis
    using disconnect_linked [OF inv _ r(2)] disconnect_linking [OF inv _ r(1)] station_linking [OF inv] r
    by (auto simp: receive_disconnect_def Let_def)
qed

lemma busy_disconnect_step:
  "join_inv m \<Longrightarrow> link_step (evt_mem v \<and> enq_ok v) 0 m ((receive_disconnect v mac reason local m)\<lparr>mx_busy := False\<rparr>)"
  by (rule link_step_view_right [OF receive_disconnect_step]) simp_all

lemma OnDeAuth_step:
  assumes inv: "join_inv m" and r: "OnDeAuth v f m = Some m'"
  shows "link_step (evt_mem v \<and> enq_ok v) 0 m m'"
  using r busy_disconnect_step [OF inv, of v] link_step_view [OF inv]
  by (auto simp: OnDeAuth_def Let_def elim!: bind_SomeE split: if_splits)

lemma OnDisassoc_step:
  assumes inv: "join_inv m" and r: "OnDisassoc v f m = Some m'"
  shows "link_step (evt_mem v \<and> enq_ok v) 0 m m'"
  using r busy_disconnect_step [OF inv, of v] link_step_view [OF inv]
  by (auto simp: OnDisassoc_def Let_def elim!: bind_SomeE split: if_splits)

text \<open>An abort that does not come too late: the client is still linking, or idle.\<close>

definition abort_ok :: "mlme_ext \<Rightarrow> bool" where
  "abort_ok m \<longleftrightarrow> mx_join_abort m \<longrightarrow> linking m \<or> mx_state m = WIFI_FW_NULL_STATE"

lemma report_null:
  assumes "length (mx_ies m) = MAX_IE_SZ" "mx_state m1 = 0" "mx_ies m1 = mx_ies m"
  shows "link_step False c m (snd (report_join_res v res st m1))"
proof -
  obtain ok m' where r: "report_join_res v res st m1 = (ok, m')" by fastforce
  from report_join_res_view [OF r] show ?thesis using null_state [of m'] assms r by (simp add: link_step_def)
qed

lemma link_timer_abort:
  assumes inv: "join_inv m" and a: "mx_join_abort m" "mx_state m \<noteq> 0"
  shows "link_step (evt_mem v \<and> enq_ok v \<and> abort_ok m) 1 m (link_timer_hdl v m)"
proof -
  let ?m = "(cancel_link_timer m)\<lparr>mx_state := 0\<rparr>"
  have hdl: "link_timer_hdl v m = snd (report_join_res v (- 4) 1 ?m)" using a by (simp add: link_timer_hdl_def Let_def)
  have ies: "length (mx_ies m) = MAX_IE_SZ" using inv by (simp add: join_inv_def)
  show ?thesis
  proof (cases "linking m")
    case True
    then have "link_step (evt_mem v \<and> enq_ok v) 1 m (link_timer_hdl v m)"
      unfolding hdl by (rule report_ends) (simp_all add: ies join_results_def)
    then show ?thesis by (auto simp: link_step_def)
  next
    case False
    then show ?thesis
      using report_null [OF ies, of ?m 1 v "- 4" 1] a by (simp add: hdl link_step_def abort_ok_def)
  qed
qed

lemma link_timer_auth_null:
  assumes inv: "join_inv m" and a: "\<not> mx_join_abort m" "mx_state m = 0x102"
  shows "link_step (evt_mem v \<and> enq_ok v) 1 m (link_timer_hdl v m)"
proof -
  let ?m = "(cancel_link_timer m)\<lparr>mx_state := 0\<rparr>"
  have hdl: "link_timer_hdl v m = snd (report_join_res v (- 3) 1 ?m)" using a by (simp add: link_timer_hdl_def Let_def in_state_def)
  show ?thesis
    unfolding hdl by (rule report_ends) (use inv a in \<open>simp_all add: join_inv_def join_results_def linking_def in_state_def\<close>)
qed

lemma link_timer_auth:
  assumes inv: "join_inv m" and a: "\<not> mx_join_abort m" "mx_state m = 0x202" "\<not> sae v"
  shows "link_step (evt_mem v \<and> enq_ok v) 1 m (link_timer_hdl v m)"
proof -
  define m1 where "m1 = (cancel_link_timer m)\<lparr>mx_reauth := mx_reauth m + 1\<rparr>"
  have re: "unat (mx_reauth m) \<le> REAUTH_LIMIT" "mx_reassoc m = 0" and ies: "length (mx_ies m) = MAX_IE_SZ" and link: "linking m"
    using inv a by (simp_all add: join_inv_def in_state_def linking_def)
  have m1: "mx_state m1 = 0x202" "unat (mx_reauth m1) = unat (mx_reauth m) + 1" "mx_ies m1 = mx_ies m" "mx_reassoc m1 = 0"
    "join_results m1 = join_results m"
    using a re unat_suc_le [OF re(1)] by (simp_all add: m1_def join_results_def)
  have hdl: "link_timer_hdl v m =
     (if unat (mx_reauth m1) > REAUTH_LIMIT then
        if mx_auth_status m \<noteq> 0 then (snd (report_join_res v (- 1) (mx_auth_status m) (m1\<lparr>mx_state := 0\<rparr>)))\<lparr>mx_auth_status := 0\<rparr>
        else snd (report_join_res v (- 1) 1 (m1\<lparr>mx_state := 0\<rparr>))
      else set_link_timer REAUTH_TO (issue_auth v 0 (m1\<lparr>mx_auth_seq := 1\<rparr>)))"
    using a by (simp add: link_timer_hdl_def Let_def in_state_def m1_def)
  have ends: "link_step (evt_mem v \<and> enq_ok v) 1 m (snd (report_join_res v res st (m1\<lparr>mx_state := 0\<rparr>)))" for res st
    by (rule report_ends) (use m1 ies link in \<open>simp_all add: join_results_def\<close>)
  have ends0: "link_step (evt_mem v \<and> enq_ok v) 1 m ((snd (report_join_res v res st (m1\<lparr>mx_state := 0\<rparr>)))\<lparr>mx_auth_status := 0\<rparr>)" for res st
    by (rule link_step_view_right [OF ends]) simp
  have "link_step (evt_mem v \<and> enq_ok v) 1 m (set_link_timer REAUTH_TO (issue_auth v 0 (m1\<lparr>mx_auth_seq := 1\<rparr>)))"
    if "unat (mx_reauth m1) \<le> REAUTH_LIMIT"
  proof -
    let ?m2 = "issue_auth v 0 (m1\<lparr>mx_auth_seq := 1\<rparr>)"
    have "link_view ?m2 = link_view m1" by simp
    then have "mx_state ?m2 = 0x202" "mx_reauth ?m2 = mx_reauth m1" "mx_ies ?m2 = mx_ies m" "mx_reassoc ?m2 = 0"
      "join_results ?m2 = join_results m" using m1 by (auto simp: link_view_def)
    then show ?thesis using that m1(2) a(2) ies link by (simp add: link_defs)
  qed
  then show ?thesis using ends ends0 unfolding hdl by (simp split: if_split)
qed

lemma link_timer_assoc:
  assumes inv: "join_inv m" and a: "\<not> mx_join_abort m" "mx_state m = 0x2402"
  shows "link_step (evt_mem v \<and> enq_ok v) 1 m (link_timer_hdl v m)"
proof -
  define m1 where "m1 = (cancel_link_timer m)\<lparr>mx_reassoc := mx_reassoc m + 1\<rparr>"
  have re: "unat (mx_reassoc m) \<le> REASSOC_LIMIT" and ies: "length (mx_ies m) = MAX_IE_SZ" and link: "linking m"
    using inv a by (simp_all add: join_inv_def in_state_def linking_def)
  have m1: "mx_state m1 = 0x2402" "unat (mx_reassoc m1) = unat (mx_reassoc m) + 1" "mx_ies m1 = mx_ies m"
    "join_results m1 = join_results m"
    using a unat_suc_le [OF re] by (simp_all add: m1_def join_results_def)
  have hdl: "link_timer_hdl v m =
     (if unat (mx_reassoc m1) > REASSOC_LIMIT then snd (report_join_res v (- 2) 1 (m1\<lparr>mx_state := 0\<rparr>))
      else set_link_timer REASSOC_TO (emit Tx_assocreq m1))"
    using a by (simp add: link_timer_hdl_def Let_def in_state_def m1_def)
  have "link_step (evt_mem v \<and> enq_ok v) 1 m (snd (report_join_res v res st (m1\<lparr>mx_state := 0\<rparr>)))" for res st
    by (rule report_ends) (use m1 ies link in \<open>simp_all add: join_results_def\<close>)
  moreover have "link_step (evt_mem v \<and> enq_ok v) 1 m (set_link_timer REASSOC_TO (emit Tx_assocreq m1))"
    if "unat (mx_reassoc m1) \<le> REASSOC_LIMIT"
    using that m1 a(2) ies link by (simp add: link_defs)
  ultimately show ?thesis unfolding hdl by (simp split: if_split)
qed

lemma link_step_weaken: "link_step ok c m m' \<Longrightarrow> (ok' \<Longrightarrow> ok) \<Longrightarrow> link_step ok' c m m'"
  by (auto simp: link_step_def)

text \<open>Each expiry of the timer uses up one unit of the budget.\<close>

lemma link_timer_hdl_step:
  assumes inv: "join_inv m" and v: "\<not> sae v"
  shows "link_step (evt_mem v \<and> enq_ok v \<and> abort_ok m) 1 m (link_timer_hdl v m)"
proof (cases "mx_join_abort m \<and> mx_state m \<noteq> 0")
  case True
  then show ?thesis by (intro link_timer_abort inv) simp_all
next
  case na: False
  have "mx_state m \<in> set join_states" using inv by (simp add: join_inv_def)
  then have "link_step (evt_mem v \<and> enq_ok v) 1 m (link_timer_hdl v m)"
  proof (cases m rule: join_states_cases)
    case 1
    then have "link_timer_hdl v m = cancel_link_timer m" by (simp add: link_timer_hdl_def Let_def in_state_def)
    then show ?thesis using inv 1 null_state [of "cancel_link_timer m"] by (simp add: link_step_def linking_def in_state_def join_inv_def [of m])
  next
    case 2
    then have "link_timer_hdl v m = cancel_link_timer m" using na by (simp add: link_timer_hdl_def Let_def in_state_def)
    then show ?thesis using inv 2 by (simp add: link_defs)
  next
    case 6
    then have "link_timer_hdl v m = cancel_link_timer m" using na by (simp add: link_timer_hdl_def Let_def in_state_def)
    then show ?thesis using inv 6 by (simp add: link_defs)
  qed (use na inv v link_timer_auth_null link_timer_auth link_timer_assoc in simp_all)
  then show ?thesis by (rule link_step_weaken) simp
qed

lemma join_abort_step:
  assumes "join_inv m"
  shows "link_step ok 0 m (join_abort_start b m)" "link_step ok 0 m (join_abort_end m)"
  using link_step_view_timer [OF assms, of "m\<lparr>mx_join_abort := True\<rparr>" ok 1] link_step_view [OF assms]
  by (auto simp: join_abort_start_def join_abort_end_def Let_def)

section \<open>Starting a join\<close>

lemma join_ie_loop_view:
  "join_ie_loop ies n i m = Some m' \<Longrightarrow> link_view m' = link_view m \<and> mx_bssid m' = mx_bssid m"
proof (induction ies n i m arbitrary: m' rule: join_ie_loop.induct)
  case (1 ies n i m)
  show ?case
  proof (cases "i < n - 2")
    case True
    let ?call = "\<lambda>eid. if eid = 0xdd then do { wmm \<leftarrow> memeq ies (i + 2) WMM_OUI 4; Some (if wmm then emit (Ie_handler WMM_param_handler i) m else m) }
             else if eid = 45 then Some (m\<lparr>mx_HT_caps_enable := True\<rparr>) else if eid = 61 then Some (m\<lparr>mx_HT_info_enable := True\<rparr>) else Some m"
    have "rd ies i \<bind> (\<lambda>eid. ?call eid \<bind> (\<lambda>m. rd ies (i + 1) \<bind> (\<lambda>l. join_ie_loop ies n (i + unat l + 2) m))) = Some m'"
      using "1.prems" True by (simp add: join_ie_loop.simps [of ies n i m])
    then obtain eid m1 l where e: "rd ies i = Some eid" "?call eid = Some m1" "rd ies (i + 1) = Some l"
      "join_ie_loop ies n (i + unat l + 2) m1 = Some m'" by (elim bind_SomeE)
    have "link_view m1 = link_view m \<and> mx_bssid m1 = mx_bssid m"
      using e(2) by (auto simp: link_view_def join_results_def elim!: bind_SomeE split: if_splits)
    then show ?thesis using "1.IH" [OF True e(1) e(2) e(3) e(4)] by simp
  qed (use "1.prems" in \<open>simp add: join_ie_loop.simps\<close>)
qed

lemma start_clnt_join_inv:
  assumes "start_clnt_join v m = Some m'" "length (mx_ies m) = MAX_IE_SZ" "RTW_GET_LE16 (mx_ies m) 10 = Some c" "bit c 0 \<or> bit c 1"
  shows "join_inv m' \<and> (bit c 0 \<longrightarrow> mx_state m' = WIFI_FW_STATION_STATE OR WIFI_FW_AUTH_NULL) \<and>
    (\<not> bit c 0 \<longrightarrow> mx_state m' = WIFI_FW_ADHOC_STATE)"
proof (cases "bit c 0")
  case True
  then show ?thesis
    using assms by (auto simp: start_clnt_join_def Let_def join_inv_def join_states_def linking_def in_state_def elim!: bind_SomeE)
next
  case False
  obtain m1 where m1: "m' = snd (report_join_res v 1 0 m1)" "mx_state m1 = 1" "mx_ies m1 = mx_ies m"
    using assms False by (auto simp: start_clnt_join_def Let_def elim!: bind_SomeE)
  obtain ok m2 where r: "report_join_res v 1 0 m1 = (ok, m2)" by fastforce
  from report_join_res_view [OF r] m1 assms r False show ?thesis
    by (simp add: join_inv_def join_states_def linking_def in_state_def)
qed

lemma RTW_GET_LE16_take: "k + 2 \<le> n \<Longrightarrow> n \<le> length m \<Longrightarrow> RTW_GET_LE16 (take n m @ x) k = RTW_GET_LE16 m k"
  by (auto simp: RTW_GET_LE16_def rd_def nth_append)

lemma report_only_inv: "join_inv m \<Longrightarrow> join_inv (snd (report_join_res v res st m))"
proof -
  assume inv: "join_inv m"
  obtain ok m' where r: "report_join_res v res st m = (ok, m')" by fastforce
  show ?thesis using report_join_res_view [OF r] inv r by (simp add: join_inv_def linking_def in_state_def)
qed

lemma join_leave_inv: "join_inv m \<Longrightarrow> join_inv (join_leave m)"
proof (cases "in_state m WIFI_FW_ASSOC_SUCCESS")
  case True
  assume inv: "join_inv m"
  have "mx_state (join_leave m) = 0" "mx_ies (join_leave m) = mx_ies m" using True by (simp_all add: join_leave_def Let_def)
  then show ?thesis using null_state inv by (simp add: join_inv_def [of m])
qed (simp add: join_leave_def)

text \<open>The new description is copied over the start of the buffer.\<close>

lemma join_load_inv:
  assumes inv: "join_inv m" and p: "join_net_ok p" and r: "join_load p m = Some m'"
  shows "join_inv m'" "RTW_GET_LE16 (mx_ies m') 10 = RTW_GET_LE16 (jn_ies p) 10" "mx_bssid m' = jn_mac p"
proof -
  obtain ies bcn where c: "memcpy (mx_ies m) 0 (jn_ies p) 0 (jn_ielen p) = Some ies"
    and l: "join_ie_loop ies (jn_ielen p) 12 ((emit Joinbss_reset m)\<lparr>mx_HT_caps_enable := False, mx_HT_info_enable := False,
      mx_bssid := jn_mac p, mx_ielen := jn_ielen p, mx_ies := ies, mx_bcn_interval := bcn\<rparr>) = Some m'"
    using r by (auto simp: join_load_def Let_def elim!: bind_SomeE)
  have ies: "length ies = length (mx_ies m)" "jn_ielen p \<le> length (jn_ies p)" "\<exists>x. ies = take (jn_ielen p) (jn_ies p) @ x"
    using c by (auto simp: memcpy_def rd_n_Some_iff wr_n_Some_iff elim!: bind_SomeE)
  from join_ie_loop_view [OF l] have v: "mx_state m' = mx_state m" "mx_link_timer m' = None \<longleftrightarrow> mx_link_timer m = None"
    "mx_reauth m' = mx_reauth m" "mx_reassoc m' = mx_reassoc m" "mx_ies m' = ies" "mx_bssid m' = jn_mac p"
    by (auto simp: link_view_def)
  show "join_inv m'" using inv v ies(1) by (auto simp: join_inv_def linking_def in_state_def)
  show "mx_bssid m' = jn_mac p" by (rule v)
  show "RTW_GET_LE16 (mx_ies m') 10 = RTW_GET_LE16 (jn_ies p) 10"
    using ies(2,3) v(5) p RTW_GET_LE16_take [of 10 "jn_ielen p" "jn_ies p"] by (auto simp: join_net_ok_def)
qed

lemma join_go_inv:
  assumes inv: "join_inv m" and v: "\<not> sae v" and c: "RTW_GET_LE16 (mx_ies m) 10 = Some c" "bit c 0 \<or> bit c 1"
    and r: "join_go v chan roam m = Some m'"
  shows "join_inv m'"
proof (cases chan)
  case True
  then obtain m1 where m1: "start_clnt_join v (cancel_link_timer (emit Join_channel m)) = Some m1"
    "m' = (if roam \<and> in_state m1 (WIFI_FW_AUTH_NULL OR WIFI_FW_AUTH_STATE) then start_clnt_auth v (emit (Beacon_update []) m1) else m1)"
    using r by (auto simp: join_go_def elim!: bind_SomeE)
  have i: "join_inv m1" "mx_state m1 = 0x102 \<or> mx_state m1 = 1"
    using start_clnt_join_inv [OF m1(1)] c inv by (auto simp: join_inv_def [of m])
  let ?m = "emit (Beacon_update []) m1"
  have "link_view ?m = link_view m1" by simp
  then have j: "join_inv ?m" using link_view_cong(1) i(1) by blast
  show ?thesis
  proof (cases "in_state m1 (WIFI_FW_AUTH_NULL OR WIFI_FW_AUTH_STATE)")
    case True
    then have "in_state ?m WIFI_FW_AUTH_NULL" using i(2) by (auto simp: in_state_def)
    then show ?thesis using start_clnt_auth_step [OF j _ v] m1(2) i(1) by (auto simp: link_step_def)
  qed (use m1(2) i(1) in simp)
qed (use r report_only_inv [OF inv] in \<open>auto simp: join_go_def\<close>)

lemma join_cmd_hdl_inv:
  assumes inv: "join_inv m" and v: "\<not> sae v" and p: "join_net_ok p" and r: "join_cmd_hdl v jmem chan roam p m = Some m'"
  shows "join_inv m'"
proof (cases "jn_ielen p > MAX_IE_SZ \<or> jn_ielen p < 2 \<or> \<not> jmem")
  case True
  then have "m' = snd (report_join_res v (- 4) 1 m)" using r by (simp add: join_cmd_hdl_def split: if_splits)
  then show ?thesis using report_only_inv [OF inv] by simp
next
  case False
  then obtain m1 where m1: "join_load p (join_leave m) = Some m1" "join_go v chan roam m1 = Some m'"
    using r by (auto simp: join_cmd_hdl_def elim!: bind_SomeE)
  note l = join_load_inv [OF join_leave_inv [OF inv] p m1(1)]
  obtain c where "RTW_GET_LE16 (jn_ies p) 10 = Some c" "bit c 0 \<or> bit c 1"
    using p by (auto simp: join_net_ok_def split: option.splits)
  then show ?thesis using join_go_inv [OF l(1) v _ _ m1(2)] l(2) by simp
qed

text \<open>Every event keeps the invariant, and every event but the start of a join meets the contract of a step.\<close>

definition event_cost :: "join_event \<Rightarrow> nat" where "event_cost e = of_bool (e = E_timer)"

lemma mlme_exec_step:
  assumes inv: "join_inv m" and v: "\<not> sae v" and r: "mlme_exec v e m = Some m'" and e: "\<forall>a b c p. e \<noteq> E_join a b c p"
  shows "link_step (evt_mem v \<and> enq_ok v \<and> abort_ok m) (event_cost e) m m'"
proof -
  note weak = link_step_weaken [where ok' = "evt_mem v \<and> enq_ok v \<and> abort_ok m"]
  show ?thesis
  proof (cases e)
    case (E_auth f)
    then show ?thesis using r OnAuthClient_step [OF inv] by (auto simp: mlme_exec_def event_cost_def)
  next
    case (E_assoc f)
    then show ?thesis using r weak [OF OnAssocRsp_step [OF inv]] by (auto simp: mlme_exec_def event_cost_def)
  next
    case (E_deauth f)
    then show ?thesis using r weak [OF OnDeAuth_step [OF inv]] by (auto simp: mlme_exec_def event_cost_def)
  next
    case (E_disassoc f)
    then show ?thesis using r weak [OF OnDisassoc_step [OF inv]] by (auto simp: mlme_exec_def event_cost_def)
  next
    case E_timer
    then show ?thesis using r link_timer_hdl_step [OF inv v] by (auto simp: mlme_exec_def event_cost_def split: if_splits)
  qed (use e r OnBeacon_auth_step [OF inv v] join_abort_step [OF inv] in \<open>auto simp: mlme_exec_def event_cost_def\<close>)
qed

lemma mlme_exec_inv:
  assumes "join_inv m" "\<not> sae v" "event_ok e" "mlme_exec v e m = Some m'"
  shows "join_inv m'"
proof (cases "\<exists>a b c p. e = E_join a b c p")
  case True
  then show ?thesis using assms join_cmd_hdl_inv by (auto simp: mlme_exec_def)
next
  case False
  then show ?thesis using mlme_exec_step [OF assms(1,2,4)] by (simp add: link_step_def)
qed

lemma join_reach_inv: "join_reach m \<Longrightarrow> join_inv m"
  by (induction rule: join_reach.induct) (auto simp: null_state mlme_exec_inv)

section \<open>Retries end\<close>

primrec run_opt :: "('e \<Rightarrow> 's \<Rightarrow> 's option) \<Rightarrow> 'e list \<Rightarrow> 's \<Rightarrow> 's option" where
  "run_opt exec [] s = Some s"
| "run_opt exec (e # es) s = exec e s \<bind> run_opt exec es"

text \<open>A machine that retries: while it is busy, every event costs what the budget still has, and each job it leaves is
  answered once.\<close>

locale retry_machine =
  fixes inv :: "'s \<Rightarrow> bool" and exec :: "'e \<Rightarrow> 's \<Rightarrow> 's option" and busy :: "'s \<Rightarrow> bool"
    and cost :: "'e \<Rightarrow> nat" and budget :: "'s \<Rightarrow> nat" and answers :: "'s \<Rightarrow> nat"
  assumes keeps: "inv s \<Longrightarrow> exec e s = Some s' \<Longrightarrow> inv s'"
    and pays: "inv s \<Longrightarrow> exec e s = Some s' \<Longrightarrow> busy s' \<Longrightarrow> busy s \<and> budget s' + cost e \<le> budget s"
    and settles: "inv s \<Longrightarrow> exec e s = Some s' \<Longrightarrow> answers s' + of_bool (busy s') = answers s + of_bool (busy s)"
    and hungry: "inv s \<Longrightarrow> busy s \<Longrightarrow> 0 < budget s"
begin

lemma run_bound:
  assumes "inv s" "run_opt exec es s = Some s'"
  shows "inv s'" "busy s' \<Longrightarrow> busy s \<and> budget s' + sum_list (map cost es) \<le> budget s"
    "answers s' + of_bool (busy s') = answers s + of_bool (busy s)"
proof -
  have "inv s' \<and> (busy s' \<longrightarrow> busy s \<and> budget s' + sum_list (map cost es) \<le> budget s) \<and>
     answers s' + of_bool (busy s') = answers s + of_bool (busy s)"
    using assms
  proof (induction es arbitrary: s)
    case (Cons e es)
    then obtain s1 where s1: "exec e s = Some s1" "run_opt exec es s1 = Some s'" by (auto elim: bind_SomeE)
    from Cons.IH [OF keeps [OF Cons.prems(1) s1(1)] s1(2)] show ?case
      using pays [OF Cons.prems(1) s1(1)] settles [OF Cons.prems(1) s1(1)] by auto
  qed simp
  then show "inv s'" "busy s' \<Longrightarrow> busy s \<and> budget s' + sum_list (map cost es) \<le> budget s"
    "answers s' + of_bool (busy s') = answers s + of_bool (busy s)" by auto
qed

lemma run_ends:
  assumes "inv s" "busy s" "run_opt exec es s = Some s'" "budget s \<le> sum_list (map cost es)"
  shows "\<not> busy s' \<and> answers s' = answers s + 1"
proof -
  note b = run_bound [OF assms(1,3)]
  have "\<not> busy s'"
  proof
    assume "busy s'"
    then show False using b(2) hungry [OF b(1)] assms(4) by auto
  qed
  then show ?thesis using b(3) assms(2) by simp
qed

end

text \<open>The events of a join: the driver authenticates itself, there is memory for the events, and no new join is
  started.\<close>

fun settle_exec :: "mlme_env \<times> join_event \<Rightarrow> mlme_ext \<Rightarrow> mlme_ext option" where
  "settle_exec (v, e) m =
     (if sae v \<or> \<not> evt_mem v \<or> \<not> enq_ok v \<or> \<not> abort_ok m then None
      else case e of E_join _ _ _ _ \<Rightarrow> None | _ \<Rightarrow> mlme_exec v e m)"

lemma settle_exec_step:
  assumes "join_inv m" "settle_exec ve m = Some m'"
  shows "link_step True (event_cost (snd ve)) m m'"
proof -
  obtain v e where ve: "ve = (v, e)" by fastforce
  then have s: "\<not> sae v" "evt_mem v \<and> enq_ok v \<and> abort_ok m" "\<forall>a b c p. e \<noteq> E_join a b c p" "mlme_exec v e m = Some m'"
    using assms(2) by (auto split: if_splits join_event.splits)
  show ?thesis using mlme_exec_step [OF assms(1) s(1,4,3)] s(2) ve by simp
qed

lemma link_budget_pos: "join_inv m \<Longrightarrow> linking m \<Longrightarrow> 0 < link_budget m"
  by (auto simp: join_inv_def linking_def link_budget_def in_state_def join_states_def)

lemma link_budget_le: "join_inv m \<Longrightarrow> link_budget m \<le> REAUTH_LIMIT + REASSOC_LIMIT + 1"
  by (auto simp: link_budget_def)

interpretation joins: retry_machine join_inv settle_exec linking "\<lambda>ve. event_cost (snd ve)" link_budget join_results
proof unfold_locales
  fix m m' :: mlme_ext and e
  assume "join_inv m" "settle_exec e m = Some m'"
  from settle_exec_step [OF this] show "join_inv m'" "linking m' \<Longrightarrow> linking m \<and> link_budget m' + event_cost (snd e) \<le> link_budget m"
    "join_results m' + of_bool (linking m') = join_results m + of_bool (linking m)" by (simp_all add: link_step_def)
qed (rule link_budget_pos)

definition timer_fires :: "(mlme_env \<times> join_event) list \<Rightarrow> nat" where
  "timer_fires es = length (filter (\<lambda>(v, e). e = E_timer) es)"

lemma timer_fires_cost: "sum_list (map (\<lambda>ve. event_cost (snd ve)) es) = timer_fires es"
  by (induction es) (auto simp: timer_fires_def event_cost_def)

fun is_join :: "join_event \<Rightarrow> bool" where
  "is_join (E_join _ _ _ _) \<longleftrightarrow> True"
| "is_join _ \<longleftrightarrow> False"

text \<open>A run of the handlers, and what \<open>settle_exec\<close> asks of it.\<close>

definition join_run :: "(mlme_env \<times> join_event) list \<Rightarrow> mlme_ext \<Rightarrow> mlme_ext option" where
  "join_run = run_opt (\<lambda>(v, e). mlme_exec v e)"

lemma join_run_simps [simp]:
  "join_run [] m = Some m"
  "join_run ((v, e) # es) m = mlme_exec v e m \<bind> join_run es"
  by (simp_all add: join_run_def)

lemma settle_exec_ok:
  "\<not> sae v \<Longrightarrow> evt_mem v \<Longrightarrow> enq_ok v \<Longrightarrow> \<not> is_join e \<Longrightarrow> abort_ok m \<Longrightarrow> settle_exec (v, e) m = mlme_exec v e m"
  by (cases e) auto

lemma join_run_settles:
  assumes "join_run es m = Some m'" "\<forall>(v, e) \<in> set es. \<not> sae v \<and> evt_mem v \<and> enq_ok v \<and> \<not> is_join e"
    and "\<forall>k < length es. \<forall>m1. join_run (take k es) m = Some m1 \<longrightarrow> abort_ok m1"
  shows "run_opt settle_exec es m = Some m'"
  using assms
proof (induction es arbitrary: m)
  case (Cons ve es)
  obtain v e where ve: "ve = (v, e)" by fastforce
  obtain m1 where m1: "mlme_exec v e m = Some m1" "join_run es m1 = Some m'"
    using Cons.prems(1) ve by (auto elim: bind_SomeE)
  have "abort_ok m" using Cons.prems(3) by force
  then have "settle_exec ve m = Some m1" using settle_exec_ok [of v e m] Cons.prems(2) ve m1(1) by simp
  moreover have "abort_ok m2" if "k < length es" "join_run (take k es) m1 = Some m2" for k m2
    using Cons.prems(3) [rule_format, of "Suc k" m2] that ve m1(1) by simp
  then have "run_opt settle_exec es m1 = Some m'" using Cons.IH [OF m1(2)] Cons.prems(2) by simp
  ultimately show ?case by simp
qed simp

text \<open>C5. A join without SAE ends. While a client that was brought here without SAE, to networks whose description
  says what they are, is linking, its timer is armed. Take any run of events from there that stays inside its
  buffers, whatever the access point sends or does not send, without SAE, without a new join command, with memory
  for the event and room in the command queue at every step, and in which the abort flag, where it is set, is
  set while the client is linking or idle: when the timer has expired nine times in the run the client is no
  longer linking, and exactly one result has been reported. With SAE this fails (C40: linking, no timer, no
  result).\<close>

theorem join_settles:
  assumes "join_reach m" and "linking m" and "join_run es m = Some m'"
    and "\<forall>(v, e) \<in> set es. \<not> sae v \<and> evt_mem v \<and> enq_ok v \<and> \<not> is_join e"
    and "\<forall>k < length es. \<forall>m1. join_run (take k es) m = Some m1 \<longrightarrow> abort_ok m1"
    and "REAUTH_LIMIT + REASSOC_LIMIT + 1 \<le> timer_fires es"
  shows "mx_link_timer m \<noteq> None \<and> \<not> linking m' \<and> join_results m' = join_results m + 1"
proof -
  have inv: "join_inv m" by (rule join_reach_inv [OF assms(1)])
  have "link_budget m \<le> sum_list (map (\<lambda>ve. event_cost (snd ve)) es)"
    using link_budget_le [OF inv] assms(6) by (simp add: timer_fires_cost)
  from joins.run_ends [OF inv assms(2) join_run_settles [OF assms(3-5)] this] show ?thesis
    using inv assms(2) by (simp add: join_inv_def)
qed

section \<open>Examples\<close>

definition jx_env :: mlme_env where
  "jx_env = \<lparr>sae = False, pmkid_cached = False, report_auth = False, tx_ok = True, evt_mem = True, enq_ok = True, rsp_mem = True,
     btm_imnt = True, btm_reassoc = False, wait_done = True, force_fail = False\<rparr>"

definition jx_mlme :: mlme_ext where
  "jx_mlme = \<lparr>mx_state = 0, mx_reauth = 0, mx_reassoc = 0, mx_link_count = 0, mx_auth_seq = 0, mx_auth_algo = 0, mx_auth_status = 0,
     mx_key_index = 0, mx_iv = 0, mx_chg_txt = replicate 128 0, mx_aid = 0, mx_bcn_interval = 0, mx_capability = 0, mx_slotTime = 0,
     mx_HT_caps_enable = False, mx_HT_info_enable = False, mx_bssid = [], mx_ies = replicate MAX_IE_SZ 0, mx_ielen = 0,
     mx_mac = [2, 0, 0, 0, 0, 1], mx_mgnt_seq = 0, mx_retry = 0, mx_join_abort = False, mx_link_timer = None, mx_assoc_timer = None,
     mx_sec_auth_alg = 0, mx_assoc_rsp = None, mx_event_seq = 0, mx_busy = False, mx_out = []\<rparr>"

text \<open>An access point with the address \<open>02:00:00:00:00:02\<close>, its beacon, and its answers.\<close>

definition jx_ap :: bytes where "jx_ap = [2, 0, 0, 0, 0, 2]"

definition jx_join :: join_event where
  "jx_join = E_join True True False \<lparr>jn_mac = jx_ap, jn_ielen = 14, jn_ies = replicate 8 0 @ [100, 0, 1, 0, 0, 0]\<rparr>"

definition jx_frame :: "u16 \<Rightarrow> bytes \<Rightarrow> bytes" where
  "jx_frame fc body = hdr_3addr fc [2, 0, 0, 0, 0, 1] jx_ap jx_ap 0 @ body"

definition jx_wait :: "bytes \<Rightarrow> mlme_ext" where
  "jx_wait ies = jx_mlme\<lparr>mx_state := 0x102, mx_bcn_interval := 100, mx_bssid := jx_ap, mx_ies := ies, mx_ielen := 14,
     mx_link_timer := Some 6000, mx_assoc_timer := Some 8400,
     mx_out := [Joinbss_reset, Join_channel, Update_wireless_mode, Update_capinfo 1, Set_MSR 2, Sec_cfg 0xcf]\<rparr>"

definition jx_linking :: mlme_ext where
  "jx_linking = jx_wait (replicate 8 0 @ [100, 0, 1, 0, 0, 0] @ replicate 754 0)"

lemma jx_linking_exec: "mlme_exec jx_env jx_join jx_mlme = Some jx_linking"
  by code_simp

lemma jx_linking_reach: "join_reach jx_linking"
proof (rule join_reach.step [OF join_reach.start])
  show "mx_state jx_mlme = 0" "length (mx_ies jx_mlme) = MAX_IE_SZ" by (simp_all add: jx_mlme_def)
  show "\<not> sae jx_env" by (simp add: jx_env_def)
  show "event_ok jx_join" by code_simp
qed (rule jx_linking_exec)

text \<open>The longest join: a beacon, four lost authentication frames, a late answer, and no answer to the association
  requests.\<close>

definition jx_events :: "join_event list" where
  "jx_events = [E_beacon (jx_frame 0x80 [])] @ replicate 4 E_timer @ [E_auth (jx_frame 0xb0 [0, 0, 2, 0, 0, 0])] @ replicate 5 E_timer"

lemma replicate_numeral: "replicate (numeral k) x = x # replicate (pred_numeral k) x"
  by (simp add: numeral_eq_Suc)

text \<open>Evaluation of the handlers.\<close>

lemmas join_eval = mlme_exec_def OnBeacon_auth_def GetAddr3Ptr_def rd_n_def hdr_3addr_def put_LE16_def emit_def
  start_clnt_auth_def cancel_link_timer_def Let_def set_link_timer_def issue_auth_def auth_frame_def auth_seq3_def
  link_timer_hdl_def report_join_res_def OnAuthClient_def get_da_def GetToDs_def RTW_GET_LE16_def rd_def mk16_def lo8_def
  hi8_def GetAddr1Ptr_def GetPrivacy_def WLAN_HDR_A3_LEN_def auth_client_rsp_def start_clnt_assoc_def

lemma settle_run_join_run:
  assumes "run_opt settle_exec es m = Some m'"
  shows "join_run es m = Some m' \<and> (\<forall>k < length es. \<forall>m1. join_run (take k es) m = Some m1 \<longrightarrow> abort_ok m1)"
  using assms
proof (induction es arbitrary: m)
  case (Cons ve es)
  obtain v e where ve: "ve = (v, e)" by fastforce
  obtain m1 where m1: "settle_exec (v, e) m = Some m1" "run_opt settle_exec es m1 = Some m'"
    using Cons.prems ve by (auto elim: bind_SomeE)
  then have e: "mlme_exec v e m = Some m1" "abort_ok m" by (auto split: if_splits join_event.splits)
  have "abort_ok m2" if "k < length (ve # es)" "join_run (take k (ve # es)) m = Some m2" for k m2
    using that e Cons.IH [OF m1(2)] ve by (cases k) auto
  with e Cons.IH [OF m1(2)] ve show ?case by simp
qed simp

theorem join_settles_witness:
  "mx_link_timer jx_linking \<noteq> None \<and>
   (\<exists>m'. join_run (map (Pair jx_env) jx_events) jx_linking = Some m' \<and> \<not> linking m' \<and> join_results m' = 1)"
proof -
  have "run_opt settle_exec (map (Pair jx_env) jx_events) (jx_wait ies) \<noteq> None" for ies
    by (simp add: jx_events_def replicate_numeral jx_wait_def jx_mlme_def jx_env_def abort_ok_def linking_def in_state_def
        jx_frame_def jx_ap_def join_eval)
  then obtain m' where "run_opt settle_exec (map (Pair jx_env) jx_events) jx_linking = Some m'"
    unfolding jx_linking_def by blast
  from settle_run_join_run [OF this]
  have m': "join_run (map (Pair jx_env) jx_events) jx_linking = Some m'"
    "\<forall>k < length (map (Pair jx_env) jx_events). \<forall>m1. join_run (take k (map (Pair jx_env) jx_events)) jx_linking = Some m1 \<longrightarrow> abort_ok m1"
    by blast+
  have env: "\<forall>(v, e) \<in> set (map (Pair jx_env) jx_events). \<not> sae v \<and> evt_mem v \<and> enq_ok v \<and> \<not> is_join e"
    by (simp add: jx_env_def jx_events_def replicate_numeral)
  have "linking jx_linking" "join_results jx_linking = 0"
    "REAUTH_LIMIT + REASSOC_LIMIT + 1 \<le> timer_fires (map (Pair jx_env) jx_events)"
    by (simp_all add: linking_def in_state_def jx_linking_def jx_wait_def join_results_def timer_fires_def jx_events_def)
  with join_settles [OF jx_linking_reach _ m'(1) env m'(2)] m'(1) show ?thesis by simp
qed

section \<open>Order of the steps\<close>

lemma snd_report_state [simp]: "mx_state (snd (report_join_res v res st m)) = mx_state m" "mx_aid (snd (report_join_res v res st m)) = mx_aid m"
  by (simp_all add: report_join_res_def Let_def)

lemma fst_report_del_state:
  "report_del_sta_event v mac reason local m = (ok, m') \<Longrightarrow> mx_state m' = mx_state m"
  by (auto simp: report_del_sta_event_def Let_def split: if_splits)

lemma start_clnt_auth_state [simp]:
  "mx_state (start_clnt_auth v m) = (mx_state m AND NOT WIFI_FW_AUTH_NULL) OR WIFI_FW_AUTH_STATE"
  by (simp add: start_clnt_auth_def Let_def issue_auth_def)

lemma issue_auth_state [simp]: "mx_state (issue_auth v st m) = mx_state m"
  by (simp add: issue_auth_def)

lemma OnBeacon_auth_state: "OnBeacon_auth v f m = Some m' \<Longrightarrow> join_inv m \<Longrightarrow> mx_state m' \<in> {mx_state m, 0x202}"
  by (auto simp: OnBeacon_auth_def join_inv_def join_states_def in_state_def elim!: bind_SomeE split: if_splits)

lemma link_timer_state: "mx_state (link_timer_hdl v m) \<in> {mx_state m, 0}"
  by (simp add: link_timer_hdl_def Let_def)

lemma receive_disconnect_state: "mx_state (receive_disconnect v mac reason local m) \<in> {mx_state m, 0}"
  by (auto simp: receive_disconnect_def Let_def report_join_res_def fst_report_del_state split: prod.splits)

lemma OnDeAuth_state: "OnDeAuth v f m = Some m' \<Longrightarrow> mx_state m' \<in> {mx_state m, 0}"
  using receive_disconnect_state by (fastforce simp: OnDeAuth_def Let_def elim!: bind_SomeE split: if_splits)

lemma OnDisassoc_state: "OnDisassoc v f m = Some m' \<Longrightarrow> mx_state m' \<in> {mx_state m, 0}"
  using receive_disconnect_state by (fastforce simp: OnDisassoc_def Let_def elim!: bind_SomeE split: if_splits)

lemma join_load_state: "join_load p m = Some m' \<Longrightarrow> mx_state m' = mx_state m"
  by (auto simp: join_load_def Let_def link_view_def dest!: join_ie_loop_view elim!: bind_SomeE)

lemma join_cmd_hdl_state:
  assumes inv: "join_inv m" and p: "join_net_ok p" and r: "join_cmd_hdl v jmem chan roam p m = Some m'"
  shows "mx_state m' \<in> {mx_state m, 0, 1, 0x102, 0x202}"
proof (cases "jn_ielen p > MAX_IE_SZ \<or> jn_ielen p < 2 \<or> \<not> jmem")
  case True
  then have "m' = snd (report_join_res v (- 4) 1 m)" using r by (simp add: join_cmd_hdl_def split: if_splits)
  then show ?thesis by simp
next
  case False
  then obtain m1 where m1: "join_load p (join_leave m) = Some m1" "join_go v chan roam m1 = Some m'"
    using r by (auto simp: join_cmd_hdl_def elim!: bind_SomeE)
  note l = join_load_inv [OF join_leave_inv [OF inv] p m1(1)]
  have s: "mx_state m1 \<in> {mx_state m, 0}" using join_load_state [OF m1(1)] by (simp add: join_leave_def Let_def)
  obtain c where c: "RTW_GET_LE16 (mx_ies m1) 10 = Some c" "bit c 0 \<or> bit c 1"
    using p l(2) by (auto simp: join_net_ok_def split: option.splits)
  show ?thesis
  proof (cases chan)
    case True
    then obtain m2 where m2: "start_clnt_join v (cancel_link_timer (emit Join_channel m1)) = Some m2"
      "m' = (if roam \<and> in_state m2 (WIFI_FW_AUTH_NULL OR WIFI_FW_AUTH_STATE) then start_clnt_auth v (emit (Beacon_update []) m2) else m2)"
      using m1(2) by (auto simp: join_go_def elim!: bind_SomeE)
    have "mx_state m2 = 0x102 \<or> mx_state m2 = 1"
      using start_clnt_join_inv [OF m2(1)] c l(1) by (auto simp: join_inv_def [of m1])
    then show ?thesis using m2(2) by (auto simp: in_state_def)
  next
    case False
    then have "m' = snd (report_join_res v (- 4) 1 m1)" using m1(2) by (simp add: join_go_def)
    then show ?thesis using s by auto
  qed
qed

lemma rtw_update_mlme_aid: "rtw_update_mlme frame p n i m = Some m' \<Longrightarrow> mx_aid m' = mx_aid m"
proof (induction frame p n i m arbitrary: m' rule: rtw_update_mlme.induct)
  case (1 frame p n i m)
  show ?case
  proof (cases "i < n")
    case True
    have "mlme_ie_call frame (p + i) \<bind> (\<lambda>call. let m = (case call of None \<Rightarrow> m | Some c \<Rightarrow> emit (Ie_handler c (p + i)) m) in
        rd frame (p + i + 1) \<bind> (\<lambda>l. rtw_update_mlme frame p n (i + unat l + 2) m)) = Some m'"
      using "1.prems" True by (simp add: rtw_update_mlme.simps [of frame p n i m])
    then obtain call l where c: "mlme_ie_call frame (p + i) = Some call" "rd frame (p + i + 1) = Some l"
      "rtw_update_mlme frame p n (i + unat l + 2) (case call of None \<Rightarrow> m | Some c \<Rightarrow> emit (Ie_handler c (p + i)) m) = Some m'"
      by (auto simp: Let_def elim!: bind_SomeE)
    show ?thesis using "1.IH" [OF True c(1) refl c(2,3)] by (cases call) simp_all
  qed (use "1.prems" in \<open>simp add: rtw_update_mlme.simps\<close>)
qed

text \<open>The status of an authentication frame, behind the initialisation vector of a protected one.\<close>

definition auth_status_of :: "bytes \<Rightarrow> u16 option" where
  "auth_status_of f = do { privacy \<leftarrow> GetPrivacy f; RTW_GET_LE16 f (WLAN_HDR_A3_LEN + (if privacy then 4 else 0) + 4) }"

lemma auth_client_rsp_state:
  "auth_client_rsp v f seq st m = Some (b, m') \<Longrightarrow> mx_state m' = mx_state m \<or> st = 0"
  by (auto simp: auth_client_rsp_def Let_def split: if_splits)

lemma OnAuthClient_accepts:
  assumes "OnAuthClient v f m = Some (b, m')" "mx_state m' \<noteq> mx_state m"
  shows "in_state m WIFI_FW_AUTH_STATE \<and> get_da f = Some (mx_mac m) \<and> auth_status_of f = Some 0"
  using assms auth_client_rsp_state
  by (fastforce simp: OnAuthClient_def auth_status_of_def Let_def elim!: bind_SomeE split: if_splits)

lemma OnAuthClient_state:
  assumes "OnAuthClient v f m = Some (b, m')" "join_inv m"
  shows "mx_state m' \<in> {mx_state m, 0x2402}"
proof (cases "mx_state m = 0x202")
  case True
  have "mx_state m1 \<in> {mx_state m, 0x2402}" if "auth_client_rsp v f seq st m = Some (b, m1)" for seq st m1
    using that True by (auto simp: auth_client_rsp_def Let_def start_clnt_assoc_def elim!: bind_SomeE split: if_splits option.splits)
  then show ?thesis using assms by (fastforce simp: OnAuthClient_def Let_def elim!: bind_SomeE split: if_splits)
next
  case False
  then have "\<not> in_state m WIFI_FW_AUTH_STATE" using assms(2) by (auto simp: join_inv_def join_states_def in_state_def)
  then show ?thesis using OnAuthClient_accepts [OF assms(1)] by auto
qed

lemma assoc_result_sel [simp]:
  "mx_state (assoc_result v f res st m) = mx_state m" "mx_aid (assoc_result v f res st m) = mx_aid m"
  by (simp_all add: assoc_result_def Let_def)

lemma aid_range: "1 \<le> uint w \<Longrightarrow> uint w \<le> 2007 \<Longrightarrow> 1 \<le> unat w \<and> unat w \<le> 2007" for w :: u16
  unfolding unat_eq_nat_uint by linarith

lemma OnAssocRsp_accepts:
  assumes r: "OnAssocRsp v f m = Some m'" and ch: "mx_state m' \<noteq> mx_state m" "mx_state m' \<noteq> 0" and inv: "join_inv m"
  shows "mx_state m = 0x2402 \<and> mx_state m' = 0x4402 \<and> get_da f = Some (mx_mac m) \<and> RTW_GET_LE16 f (WLAN_HDR_A3_LEN + 2) = Some 0 \<and>
    map_option (\<lambda>a. a AND 0x3fff) (RTW_GET_LE16 f (WLAN_HDR_A3_LEN + 4)) = Some (mx_aid m') \<and>
    1 \<le> unat (mx_aid m') \<and> unat (mx_aid m') \<le> 2007"
proof -
  have g: "in_state m (WIFI_FW_AUTH_SUCCESS OR WIFI_FW_ASSOC_STATE) \<and> \<not> in_state m WIFI_FW_ASSOC_SUCCESS"
    using r ch by (auto simp: OnAssocRsp_def elim!: bind_SomeE split: if_splits)
  then have st: "mx_state m = 0x2402" using inv by (auto simp: join_inv_def in_state_def join_states_def)
  have da: "get_da f = Some (mx_mac m)" and body: "assoc_rsp_body v f (cancel_link_timer m) = Some m'"
    using r ch g by (auto simp: OnAssocRsp_def elim!: bind_SomeE split: if_splits)
  obtain st where st0: "RTW_GET_LE16 f (WLAN_HDR_A3_LEN + 2) = Some st"
    using body unfolding assoc_rsp_body_def by (rule bind_SomeE)
  have z: "st = 0"
    using body st0 ch by (auto simp: assoc_rsp_body_def word_gt_0 split: if_splits)
  obtain cap where c: "RTW_GET_LE16 f WLAN_HDR_A3_LEN = Some cap"
    using body st0 z by (cases "RTW_GET_LE16 f WLAN_HDR_A3_LEN") (simp_all add: assoc_rsp_body_def)
  obtain aid where f: "RTW_GET_LE16 f (WLAN_HDR_A3_LEN + 4) = Some aid"
    using body st0 z c by (cases "RTW_GET_LE16 f (WLAN_HDR_A3_LEN + 4)") (simp_all add: assoc_rsp_body_def)
  have in_range: "1 \<le> uint (aid AND 0x3fff)" "uint (aid AND 0x3fff) \<le> 2007"
    using body st0 z c f ch by (auto simp: assoc_rsp_body_def Let_def split: if_splits)
  define m0 where "m0 = (cancel_link_timer m)\<lparr>mx_capability := cap, mx_slotTime := (if bit cap 10 then 9 else 20), mx_aid := aid AND 0x3fff\<rparr>"
  have "rtw_update_mlme f (6 + WLAN_HDR_A3_LEN) (usub32 (usub32 (length f) 6) WLAN_HDR_A3_LEN) 0 m0 \<bind>
     (\<lambda>m. Some (assoc_result v f (uint (aid AND 0x3fff)) 0 (emit Update_brate
        (m\<lparr>mx_state := (mx_state m AND NOT WIFI_FW_ASSOC_STATE) OR WIFI_FW_ASSOC_SUCCESS\<rparr>)))) = Some m'"
    using body st0 z c f in_range by (simp add: assoc_rsp_body_def Let_def m0_def)
  then obtain m1 where u: "rtw_update_mlme f (6 + WLAN_HDR_A3_LEN) (usub32 (usub32 (length f) 6) WLAN_HDR_A3_LEN) 0 m0 = Some m1"
    and m': "m' = assoc_result v f (uint (aid AND 0x3fff)) 0 (emit Update_brate (m1\<lparr>mx_state := (mx_state m1 AND NOT WIFI_FW_ASSOC_STATE) OR WIFI_FW_ASSOC_SUCCESS\<rparr>))"
    by (rule bind_SomeE) simp
  have "mx_state m1 = 0x2402" using rtw_update_mlme_view [OF u] st by (simp add: link_view_def m0_def)
  moreover have "mx_aid m1 = aid AND 0x3fff" using rtw_update_mlme_aid [OF u] by (simp add: m0_def)
  moreover have "1 \<le> unat (aid AND 0x3fff) \<and> unat (aid AND 0x3fff) \<le> 2007" by (rule aid_range [OF in_range])
  ultimately show ?thesis using st f da st0 z m' by simp
qed

text \<open>C6. Without SAE, where the driver authenticates itself, a client is associated only through the two answers of
  the access point, in their order: at every step of a run without SAE, to networks whose description says what
  they are, it enters \<open>AUTH_SUCCESS\<close> only by an authentication frame with status 0 while it is authenticating, and
  \<open>ASSOC_SUCCESS\<close> only by an association response with status 0 and an association id from 1 to 2007 while it is
  associating. (With SAE user space authenticates, and a cached key enters \<open>AUTH_SUCCESS\<close> without such a frame.)\<close>

theorem join_order:
  assumes reach: "join_reach m" and v: "\<not> sae v" and e: "event_ok e" and r: "mlme_exec v e m = Some m'"
  shows "(in_state m' WIFI_FW_AUTH_SUCCESS \<and> \<not> in_state m WIFI_FW_AUTH_SUCCESS \<longrightarrow>
      (\<exists>f. e = E_auth f \<and> in_state m WIFI_FW_AUTH_STATE \<and> get_da f = Some (mx_mac m) \<and> auth_status_of f = Some 0)) \<and>
    (in_state m' WIFI_FW_ASSOC_SUCCESS \<and> \<not> in_state m WIFI_FW_ASSOC_SUCCESS \<longrightarrow>
      (\<exists>f. e = E_assoc f \<and> in_state m WIFI_FW_AUTH_SUCCESS \<and> in_state m WIFI_FW_ASSOC_STATE \<and> get_da f = Some (mx_mac m) \<and>
        RTW_GET_LE16 f (WLAN_HDR_A3_LEN + 2) = Some 0 \<and>
        map_option (\<lambda>a. a AND 0x3fff) (RTW_GET_LE16 f (WLAN_HDR_A3_LEN + 4)) = Some (mx_aid m') \<and>
        1 \<le> unat (mx_aid m') \<and> unat (mx_aid m') \<le> 2007))"
proof -
  have inv: "join_inv m" by (rule join_reach_inv [OF reach])
  show ?thesis
  proof (cases e)
    case (E_auth f)
    then obtain b where o: "OnAuthClient v f m = Some (b, m')" using r by (auto simp: mlme_exec_def)
    show ?thesis
    proof (cases "mx_state m' = mx_state m")
      case False
      then show ?thesis using OnAuthClient_accepts [OF o] OnAuthClient_state [OF o inv] E_auth by (auto simp: in_state_def)
    qed (simp add: in_state_def)
  next
    case (E_assoc f)
    then have o: "OnAssocRsp v f m = Some m'" using r by (simp add: mlme_exec_def)
    show ?thesis
    proof (cases "mx_state m' = mx_state m \<or> mx_state m' = 0")
      case False
      then show ?thesis using OnAssocRsp_accepts [OF o _ _ inv] E_assoc by (simp add: in_state_def)
    qed (auto simp: in_state_def)
  next
    case (E_join a b c p)
    then have "mx_state m' \<in> {mx_state m, 0, 1, 0x102, 0x202}" using join_cmd_hdl_state [OF inv] e r by (simp add: mlme_exec_def)
    then show ?thesis by (auto simp: in_state_def)
  next
    case (E_beacon f)
    then have "mx_state m' \<in> {mx_state m, 0x202}" using OnBeacon_auth_state [OF _ inv] r by (simp add: mlme_exec_def)
    then show ?thesis by (auto simp: in_state_def)
  next
    case (E_deauth f)
    then have "mx_state m' \<in> {mx_state m, 0}" using OnDeAuth_state r by (simp add: mlme_exec_def)
    then show ?thesis by (auto simp: in_state_def)
  next
    case (E_disassoc f)
    then have "mx_state m' \<in> {mx_state m, 0}" using OnDisassoc_state r by (simp add: mlme_exec_def)
    then show ?thesis by (auto simp: in_state_def)
  next
    case E_timer
    then have "mx_state m' \<in> {mx_state m, 0}" using link_timer_state r by (auto simp: mlme_exec_def split: if_splits)
    then show ?thesis by (auto simp: in_state_def)
  qed (use r in \<open>auto simp: mlme_exec_def join_abort_start_def join_abort_end_def Let_def in_state_def split: if_splits\<close>)
qed

definition jx_answer :: bytes where "jx_answer = jx_frame 0xb0 [0, 0, 2, 0, 0, 0]"

definition jx_authing :: mlme_ext where
  "jx_authing = set_link_timer REAUTH_TO (issue_auth jx_env 0
     ((emit (Beacon_update (jx_frame 0x80 [])) jx_linking)\<lparr>mx_state := 0x202, mx_auth_seq := 1, mx_link_timer := None\<rparr>))"

lemma jx_authing_exec: "mlme_exec jx_env (E_beacon (jx_frame 0x80 [])) jx_linking = Some jx_authing"
  by (simp add: jx_authing_def jx_linking_def jx_wait_def jx_mlme_def jx_env_def in_state_def jx_frame_def jx_ap_def join_eval)

lemma jx_authing_reach: "join_reach jx_authing"
  by (rule join_reach.step [OF jx_linking_reach _ _ jx_authing_exec]) (simp_all add: jx_env_def)

theorem join_order_witness:
  "\<exists>m'. mlme_exec jx_env (E_auth jx_answer) jx_authing = Some m' \<and> in_state m' WIFI_FW_AUTH_SUCCESS \<and>
     \<not> in_state jx_authing WIFI_FW_AUTH_SUCCESS \<and> auth_status_of jx_answer = Some 0"
proof -
  have "\<exists>m'. mlme_exec jx_env (E_auth jx_answer) jx_authing = Some m' \<and> in_state m' WIFI_FW_AUTH_SUCCESS"
    "\<not> in_state jx_authing WIFI_FW_AUTH_SUCCESS"
    by (simp_all add: jx_authing_def jx_linking_def jx_wait_def jx_mlme_def jx_env_def in_state_def jx_frame_def jx_ap_def
        jx_answer_def join_eval)
  then obtain m' where m': "mlme_exec jx_env (E_auth jx_answer) jx_authing = Some m'" "in_state m' WIFI_FW_AUTH_SUCCESS"
    "\<not> in_state jx_authing WIFI_FW_AUTH_SUCCESS" by blast
  have "\<not> sae jx_env" by (simp add: jx_env_def)
  from join_order [OF jx_authing_reach this _ m'(1)] m' show ?thesis by auto
qed

section \<open>External authentication\<close>

text \<open>C40. With SAE and a cached key the driver authenticates itself, but the timer handler leaves the retries to the external
  authentication, which is not running: when the first frame or its answer is lost, the timer expires once and is not
  armed again, no frame is sent and no result is reported.\<close>

theorem sae_cached_key_stalls:
  assumes "sae v" "pmkid_cached v" "tx_ok v" "mx_state m = WIFI_FW_STATION_STATE OR WIFI_FW_AUTH_NULL" "\<not> mx_join_abort m" "sae w"
  shows "let a = start_clnt_auth v m; t = link_timer_hdl w a in
    (\<exists>f. mx_out a = mx_out m @ [Tx_auth f]) \<and> mx_link_timer a = Some REAUTH_TO \<and>
    linking t \<and> mx_link_timer t = None \<and> mx_out t = mx_out a"
  using assms
  by (simp add: start_clnt_auth_def link_timer_hdl_def Let_def issue_auth_def linking_def in_state_def)

theorem sae_cached_key_stalls_witness:
  "let v = jx_env\<lparr>sae := True, pmkid_cached := True\<rparr>; t = link_timer_hdl v (start_clnt_auth v jx_linking) in
     linking t \<and> mx_link_timer t = None"
  using sae_cached_key_stalls [of "jx_env\<lparr>sae := True, pmkid_cached := True\<rparr>" jx_linking "jx_env\<lparr>sae := True, pmkid_cached := True\<rparr>"]
  by (simp add: jx_env_def jx_linking_def jx_wait_def jx_mlme_def Let_def)

text \<open>A key that comes from the external authentication after the join is over starts an association nevertheless, in a
  state that is no longer the state of a station.\<close>

lemma late_key_associates:
  assumes "sae v" "mx_state m = WIFI_FW_NULL_STATE"
  shows "mx_state (set_pmksa_assoc v True m) = WIFI_FW_AUTH_SUCCESS OR WIFI_FW_ASSOC_STATE \<and>
    receive_disconnect w mac reason local (set_pmksa_assoc v True m) = set_pmksa_assoc v True m"
  using assms by (simp add: set_pmksa_assoc_def start_clnt_assoc_def Let_def receive_disconnect_def)

section \<open>The elements of the association response\<close>

definition ie_call_of :: "ie \<Rightarrow> ie_call option" where
  "ie_call_of e =
     (if fst e = 0xdd then
        if take 6 (snd e) = WMM_PARA_OUI then Some WMM_param_handler
        else if take 4 (snd e) = WFD_OUI then Some Process_wfd_ie else None
      else if fst e = 45 then Some HT_caps_handler
      else if fst e = 61 then Some HT_info_handler
      else if fst e = 42 then Some ERP_IE_handler
      else if fst e = 70 then Some RM_IE_handler
      else None)"

fun ie_calls :: "nat \<Rightarrow> ie list \<Rightarrow> mlme_out list" where
  "ie_calls off [] = []"
| "ie_calls off (e # es) =
     (case ie_call_of e of None \<Rightarrow> [] | Some c \<Rightarrow> [Ie_handler c off]) @ ie_calls (off + length (ie_enc e)) es"

text \<open>The type tests read six bytes of a vendor element, whatever its length.\<close>

definition vendor_ok :: "ie \<Rightarrow> bool" where "vendor_ok e \<longleftrightarrow> fst e = 0xdd \<longrightarrow> 6 \<le> length (snd e)"

lemma mlme_ie_call_enc:
  assumes "drop k f = ie_enc e @ post" "wf_ie e" "vendor_ok e"
  shows "mlme_ie_call f k = Some (ie_call_of e)"
proof -
  obtain eid c where e: "e = (eid, c)" by fastforce
  from assms(1) have d: "drop k f = eid # of_nat (length c) # c @ post" by (simp add: ie_enc_def e)
  have r: "rd f k = Some eid" by (rule rd_drop [OF d])
  have d2: "drop (k + 2) f = c @ post" using drop_add [of k f "[eid, of_nat (length c)]" "c @ post"] d by simp
  have m: "memeq f (k + 2) s n = Some (take n c = take n s)" if "n \<le> length c" "length s = n" "0 < n" for s n
  proof -
    have "k + 2 + length (c @ post) \<le> length f"
      using drop_app_le [of "k + 2" f "c @ post" "[]"] d2 that by (cases c) auto
    then have "k + 2 + n \<le> length f" using that(1) by simp
    then show ?thesis using that d2 by (simp add: memeq_in)
  qed
  show ?thesis
    using r assms(3) m [of 6 WMM_PARA_OUI] m [of 4 WFD_OUI]
    by (auto simp: mlme_ie_call_def ie_call_of_def e vendor_ok_def WMM_PARA_OUI_def WFD_OUI_def)
qed

lemma rtw_update_mlme_prefix:
  assumes "drop (p + i) f = ies_enc es @ post" "i + length (ies_enc es) \<le> n" "\<forall>e \<in> set es. wf_ie e \<and> vendor_ok e"
  shows "rtw_update_mlme f p n i m =
    rtw_update_mlme f p n (i + length (ies_enc es)) (m\<lparr>mx_out := mx_out m @ ie_calls (p + i) es\<rparr>)"
  using assms
proof (induction es arbitrary: i m)
  case Nil
  then show ?case by (simp add: ies_enc_def)
next
  case (Cons e es)
  obtain eid c where e: "e = (eid, c)" by fastforce
  have d: "drop (p + i) f = ie_enc e @ ies_enc es @ post" using Cons.prems(1) by (simp add: ies_enc_def)
  have l: "unat (of_nat (length c) :: u8) = length c" "length (ie_enc e) = length c + 2"
    using Cons.prems(3) e by (simp_all add: wf_ie_def unat_of_nat_u8 ie_enc_def)
  have len: "rd f (p + i + 1) = Some (of_nat (length c))"
    using rd2_drop [of "p + i" f eid "of_nat (length c)" "c @ ies_enc es @ post"] d by (simp add: ie_enc_def e)
  have nx: "drop (p + (i + length c + 2)) f = ies_enc es @ post" using drop_add [OF d] l(2) by (simp add: add_ac)
  have call: "mlme_ie_call f (p + i) = Some (ie_call_of e)" using mlme_ie_call_enc [OF d] Cons.prems(3) by simp
  have lt: "i < n" using Cons.prems(2) l(2) by (simp add: ies_enc_def)
  let ?m = "case ie_call_of e of None \<Rightarrow> m | Some c \<Rightarrow> emit (Ie_handler c (p + i)) m"
  have "rtw_update_mlme f p n i m = rtw_update_mlme f p n (i + length c + 2) ?m"
    using lt call len l(1) by (subst rtw_update_mlme.simps) (simp add: Let_def)
  also have "\<dots> = rtw_update_mlme f p n (i + length c + 2 + length (ies_enc es))
      (?m\<lparr>mx_out := mx_out ?m @ ie_calls (p + (i + length c + 2)) es\<rparr>)"
    by (rule Cons.IH) (use nx Cons.prems l(2) in \<open>simp_all add: ies_enc_def\<close>)
  also have "?m\<lparr>mx_out := mx_out ?m @ ie_calls (p + (i + length c + 2)) es\<rparr> = m\<lparr>mx_out := mx_out m @ ie_calls (p + i) (e # es)\<rparr>"
    using l(2) by (simp add: emit_def add_ac split: option.splits)
  finally show ?case using l(2) by (simp add: ies_enc_def add_ac)
qed

lemma rtw_update_mlme_enc:
  assumes "drop (p + i) f = ies_enc es" "n = i + length (ies_enc es)" "\<forall>e \<in> set es. wf_ie e \<and> vendor_ok e"
  shows "rtw_update_mlme f p n i m = Some (m\<lparr>mx_out := mx_out m @ ie_calls (p + i) es\<rparr>)"
proof -
  have "rtw_update_mlme f p n n x = Some x" for x by (simp add: rtw_update_mlme.simps)
  then show ?thesis using rtw_update_mlme_prefix [of p i f es "[]" n m] assms by simp
qed

text \<open>C38. The client that waits for the association response takes a well-formed one: it gives every element to its handler,
  once and in order, and reports the association id.\<close>

theorem OnAssocRsp_accepts_response:
  assumes m: "mx_state m = WIFI_FW_STATION_STATE OR WIFI_FW_AUTH_SUCCESS OR WIFI_FW_ASSOC_STATE" "\<not> mx_join_abort m"
    and f: "f = hdr_3addr fc (mx_mac m) a2 a3 sc @ put_LE16 cap @ put_LE16 0 @ put_LE16 aid @ ies_enc es"
    and a: "length (mx_mac m) = 6" "length a2 = 6" "length a3 = 6" "\<not> bit fc 8" "length f < 2 ^ 32"
    and aid: "1 \<le> uint (aid AND 0x3fff)" "uint (aid AND 0x3fff) \<le> 2007"
    and es: "\<forall>e \<in> set es. wf_ie e \<and> vendor_ok e"
    and v: "evt_mem v" "enq_ok v"
  shows "\<exists>m'. OnAssocRsp v f m = Some m' \<and> mx_state m' = WIFI_FW_STATION_STATE OR WIFI_FW_AUTH_SUCCESS OR WIFI_FW_ASSOC_SUCCESS \<and>
    mx_aid m' = aid AND 0x3fff \<and> mx_link_timer m' = None \<and>
    mx_out m' = mx_out m @ ie_calls (WLAN_HDR_A3_LEN + 6) es @
      [Update_brate, Joinbss_prehandle (uint (aid AND 0x3fff)) 0, Join_res (uint (aid AND 0x3fff)) 0, Nb_discover]"
proof -
  let ?b = "put_LE16 cap @ put_LE16 0 @ put_LE16 aid @ ies_enc es"
  have body: "drop (WLAN_HDR_A3_LEN + k) f = drop k ?b" for k
    unfolding f by (rule hdr_3addr_body) (rule a)+
  have da: "get_da f = Some (mx_mac m)"
    using a by (simp add: get_da_def GetToDs_def f hdr_3addr_fc hdr_3addr_addrs)
  have r: "RTW_GET_LE16 f WLAN_HDR_A3_LEN = Some cap" "RTW_GET_LE16 f (WLAN_HDR_A3_LEN + 2) = Some 0"
    "RTW_GET_LE16 f (WLAN_HDR_A3_LEN + 4) = Some aid"
    using body [of 0] body [of 2] body [of 4] by (auto intro!: get_put_LE16 simp: put_LE16_def)
  have len: "usub32 (usub32 (length f) 6) WLAN_HDR_A3_LEN = length (ies_enc es)"
    unfolding f using a by (simp add: usub32_def)
  have u: "rtw_update_mlme f (6 + WLAN_HDR_A3_LEN) (usub32 (usub32 (length f) 6) WLAN_HDR_A3_LEN) 0 m0
     = Some (m0\<lparr>mx_out := mx_out m0 @ ie_calls (WLAN_HDR_A3_LEN + 6) es\<rparr>)" for m0
    using rtw_update_mlme_enc [of "6 + WLAN_HDR_A3_LEN" 0 f es _ m0] body [of 6] es len by (simp add: put_LE16_def add_ac)
  show ?thesis
    using m da r u aid v
    by (simp add: OnAssocRsp_def assoc_rsp_body_def Let_def in_state_def assoc_result_def report_join_res_def emit_def
        cancel_link_timer_def)
qed

theorem OnAssocRsp_accepts_response_witness:
  "\<exists>m'. OnAssocRsp jx_env (jx_frame 0x10 ([1, 0, 0, 0, 5, 0xc0] @ ies_enc [(42, [0]), (0xdd, WMM_PARA_OUI)]))
      (jx_linking\<lparr>mx_state := 0x2402\<rparr>) = Some m' \<and> mx_state m' = 0x4402 \<and> mx_aid m' = 5"
  using OnAssocRsp_accepts_response [where m = "jx_linking\<lparr>mx_state := 0x2402\<rparr>"
      and f = "jx_frame 0x10 ([1, 0, 0, 0, 5, 0xc0] @ ies_enc [(42, [0]), (0xdd, WMM_PARA_OUI)])" and fc = "0x10"
      and ?a2.0 = jx_ap and ?a3.0 = jx_ap and sc = 0 and cap = 1 and aid = "0xc005"
      and es = "[(42, [0]), (0xdd, WMM_PARA_OUI)]" and v = jx_env]
  by (force simp: jx_linking_def jx_wait_def jx_mlme_def jx_env_def jx_frame_def jx_ap_def put_LE16_def lo8_def hi8_def
      hdr_3addr_def wf_ie_def vendor_ok_def WMM_PARA_OUI_def ies_enc_def ie_enc_def)

text \<open>The handler never looks at the length of the frame. It reads behind the end of a frame without a status, and of a
  frame that ends with a vendor element of less than four bytes.\<close>

theorem OnAssocRsp_reads_past_end:
  assumes m: "in_state m (WIFI_FW_AUTH_SUCCESS OR WIFI_FW_ASSOC_STATE)" "\<not> in_state m WIFI_FW_ASSOC_SUCCESS" "\<not> mx_join_abort m"
    and a: "length (mx_mac m) = 6" "length a2 = 6" "length a3 = 6" "\<not> bit fc 8"
    and f: "(f = hdr_3addr fc (mx_mac m) a2 a3 sc @ b \<and> length b < 4) \<or>
      (f = hdr_3addr fc (mx_mac m) a2 a3 sc @ put_LE16 cap @ put_LE16 0 @ put_LE16 aid @ ies_enc es @ ie_enc (0xdd, c) \<and>
       1 \<le> uint (aid AND 0x3fff) \<and> uint (aid AND 0x3fff) \<le> 2007 \<and> (\<forall>e \<in> set es. wf_ie e \<and> vendor_ok e) \<and>
       length c < 4 \<and> length f < 2 ^ 32)"
  shows "OnAssocRsp v f m = None"
proof -
  have da: "get_da f = Some (mx_mac m)"
    using a f by (auto simp: get_da_def GetToDs_def hdr_3addr_fc hdr_3addr_addrs)
  have "assoc_rsp_body v f (cancel_link_timer m) = None"
    using f
  proof (elim disjE conjE)
    assume s: "f = hdr_3addr fc (mx_mac m) a2 a3 sc @ b" "length b < 4"
    then have "RTW_GET_LE16 f (WLAN_HDR_A3_LEN + 2) = None" using a by (simp add: LE16_None_iff)
    then show ?thesis by (simp add: assoc_rsp_body_def)
  next
    let ?b = "put_LE16 cap @ put_LE16 0 @ put_LE16 aid @ ies_enc es @ ie_enc (0xdd, c)"
    assume s: "f = hdr_3addr fc (mx_mac m) a2 a3 sc @ ?b" "1 \<le> uint (aid AND 0x3fff)" "uint (aid AND 0x3fff) \<le> 2007"
      "\<forall>e \<in> set es. wf_ie e \<and> vendor_ok e" "length c < 4" "length f < 2 ^ 32"
    have body: "drop (WLAN_HDR_A3_LEN + k) f = drop k ?b" for k
      unfolding s(1) by (rule hdr_3addr_body) (rule a)+
    have r: "RTW_GET_LE16 f WLAN_HDR_A3_LEN = Some cap" "RTW_GET_LE16 f (WLAN_HDR_A3_LEN + 2) = Some 0"
      "RTW_GET_LE16 f (WLAN_HDR_A3_LEN + 4) = Some aid"
      using body [of 0] body [of 2] body [of 4] by (auto intro!: get_put_LE16 simp: put_LE16_def)
    let ?p = "6 + WLAN_HDR_A3_LEN" and ?n = "length (ies_enc es) + length c + 2"
    have flen: "length f = ?p + ?n" unfolding s(1) using a by simp
    then have len: "usub32 (usub32 (length f) 6) WLAN_HDR_A3_LEN = ?n" by (simp add: usub32_def)
    have d: "drop (?p + length (ies_enc es)) f = ie_enc (0xdd, c)"
      using body [of "6 + length (ies_enc es)"] by (simp add: drop_append) (simp only: add_ac)
    then have "rd f (?p + length (ies_enc es)) = Some 0xdd" by (simp add: ie_enc_def rd_drop)
    then have "mlme_ie_call f (?p + length (ies_enc es)) = None"
      using flen s(5) by (simp add: mlme_ie_call_def memeq_def rd_n_def)
    then have "rtw_update_mlme f ?p ?n (length (ies_enc es)) x = None" for x
      by (subst rtw_update_mlme.simps) simp
    moreover have "drop (?p + 0) f = ies_enc es @ ie_enc (0xdd, c)" using body [of 6] by (simp add: put_LE16_def add_ac)
    ultimately have "rtw_update_mlme f ?p ?n 0 x = None" for x
      using rtw_update_mlme_prefix [of ?p 0 f es "ie_enc (0xdd, c)" ?n x] s(4) by simp
    then show ?thesis using r s(2,3) len by (simp add: assoc_rsp_body_def Let_def)
  qed
  then show ?thesis using m da by (simp add: OnAssocRsp_def)
qed

theorem OnAssocRsp_reads_past_end_witness:
  "OnAssocRsp jx_env (jx_frame 0x10 []) (jx_linking\<lparr>mx_state := 0x2402\<rparr>) = None"
  using OnAssocRsp_reads_past_end [where m = "jx_linking\<lparr>mx_state := 0x2402\<rparr>" and ?a2.0 = jx_ap and ?a3.0 = jx_ap
      and fc = "0x10" and f = "jx_frame 0x10 []" and sc = 0 and b = "[]" and v = jx_env]
  by (simp add: jx_linking_def jx_wait_def jx_mlme_def jx_frame_def jx_ap_def in_state_def)

end
