(* ===== verification/Ap_Auth.thy ===== *)
theory Ap_Auth
  imports Sta_Table Mlme_Join
begin

text \<open>
  Authentication at the access point (\<open>OnAuth\<close> in \<open>core/rtw_mlme_ext.c\<close>): the checks of an authentication frame, the
  station it is for in the station table (\<open>Sta_Table\<close>), open system and shared key authentication, and the answers that
  \<open>issue_auth\<close> sends. The last section runs the handlers of an access point and of a client (\<open>Mlme_Join\<close>) against each
  other.

  The mesh handler and fast transition are not in this build. Frames for the supplicant and the frames sent are recorded
  in \<open>ap_out\<close>.
\<close>

section \<open>State\<close>

text \<open>The part of \<open>struct sta_info\<close> that authentication uses, beside the station table.\<close>

record ap_sta =
  as_state :: u32
  as_auth_seq :: u32
  as_authalg :: u32
  as_chg_txt :: bytes
  as_flags :: u32
  as_pairwise :: bool

datatype ap_out = Ap_auth bytes | Ap_mframe bytes

record ap_priv =
  ap_tab :: sta_priv
  ap_sta :: "nat \<Rightarrow> ap_sta"
  asoc_list :: "nat list"
  asoc_list_cnt :: u8
  auth_to :: nat
  assoc_to :: nat
  ap_mac :: bytes
  ap_auth_algo :: u32
  ap_privacy_algo :: security_type
  ap_keys :: wep_keys
  defs_lmt_sta :: nat
  defs_lmt_time :: u32
  defs_ptime :: u32
  ap_mgnt_seq :: u16
  ap_out :: "ap_out list"

text \<open>What the handler asks of the rest of the system: the interface is up as an access point (\<open>up_ap\<close>, \<open>linked\<close>), the
  time, a buffer for the answer, the debug hook, and whether the supplicant listens to authentication frames.\<close>

record ap_env =
  up_ap :: bool
  linked :: bool
  now_ms :: u32
  ap_tx_ok :: bool
  force_auth_fail :: u16
  report_auth_ap :: bool

definition upd_ap_sta :: "nat \<Rightarrow> (ap_sta \<Rightarrow> ap_sta) \<Rightarrow> ap_priv \<Rightarrow> ap_priv" where
  "upd_ap_sta s f p = p\<lparr>ap_sta := (ap_sta p)(s := f (ap_sta p s))\<rparr>"

definition zero_ap_sta :: ap_sta where
  "zero_ap_sta = \<lparr>as_state = 0, as_auth_seq = 0, as_authalg = 0, as_chg_txt = replicate 128 0, as_flags = 0, as_pairwise = False\<rparr>"

text \<open>A station that is allocated is cleared; one that is freed keeps what authentication has written.\<close>

definition ap_alloc :: "ap_priv \<Rightarrow> bytes \<Rightarrow> nat option \<times> ap_priv" where
  "ap_alloc p sa =
     (case rtw_alloc_stainfo (ap_tab p) sa of
        (None, t) \<Rightarrow> (None, p\<lparr>ap_tab := t\<rparr>)
      | (Some s, t) \<Rightarrow> (Some s, upd_ap_sta s (\<lambda>_. zero_ap_sta) (p\<lparr>ap_tab := t\<rparr>)))"

definition ap_free :: "nat option \<Rightarrow> ap_priv \<Rightarrow> ap_priv" where
  "ap_free psta p = p\<lparr>ap_tab := rtw_free_stainfo (ap_tab p) psta\<rparr>"

definition set_expire_to :: "nat \<Rightarrow> nat \<Rightarrow> ap_priv \<Rightarrow> ap_priv" where
  "set_expire_to s n p = p\<lparr>ap_tab := (ap_tab p)\<lparr>xmitpriv := upd_sta s (\<lambda>u. u\<lparr>expire_to := n\<rparr>) (xmitpriv (ap_tab p))\<rparr>\<rparr>"

section \<open>The answer\<close>

text \<open>\<open>issue_auth\<close> for a station. The algorithm is 0 in a refusal; the challenge text goes with the second frame of shared
  key authentication.\<close>

definition ap_auth_frame :: "ap_priv \<Rightarrow> bytes \<Rightarrow> ap_sta \<Rightarrow> u16 \<Rightarrow> bytes" where
  "ap_auth_frame p mac a st =
     (let val16 = (if st \<noteq> 0 then 0 else ucast (as_authalg a)) :: u16;
          use_shared_key = (val16 \<noteq> 0);
          hdr = hdr_3addr (set_frame_sub_type 0 WIFI_AUTH) mac (ap_mac p) (ap_mac p) (SetSeqNum 0 (ap_mgnt_seq p)) in
      hdr @ put_LE16 val16 @ put_LE16 (ucast (as_auth_seq a)) @ put_LE16 st
        @ (if as_auth_seq a = 2 \<and> as_state a AND WIFI_FW_AUTH_STATE \<noteq> 0 \<and> use_shared_key
           then ie_enc (16, take 128 (as_chg_txt a)) else []))"

definition ap_issue_auth :: "ap_env \<Rightarrow> bytes \<Rightarrow> ap_sta \<Rightarrow> u16 \<Rightarrow> ap_priv \<Rightarrow> ap_priv" where
  "ap_issue_auth v mac a st p =
     (if \<not> ap_tx_ok v then p
      else p\<lparr>ap_mgnt_seq := ap_mgnt_seq p + 1, ap_out := ap_out p @ [Ap_auth (ap_auth_frame p mac a st)]\<rparr>)"

section \<open>The handler\<close>

definition rtw_get_sta_num_by_state :: "ap_priv \<Rightarrow> u32 \<Rightarrow> nat" where
  "rtw_get_sta_num_by_state p st = length (filter (\<lambda>s. as_state (ap_sta p s) AND st \<noteq> 0) (concat (sta_hash (ap_tab p))))"

text \<open>Too many stations are authenticating: two frames within \<open>defs_lmt_time\<close>, and \<open>defs_lmt_sta\<close> stations.\<close>

definition rtw_defs_attack_chk :: "u32 \<Rightarrow> ap_priv \<Rightarrow> bool \<times> ap_priv" where
  "rtw_defs_attack_chk stime p =
     (defs_ptime p > 0 \<and> stime - defs_ptime p < defs_lmt_time p \<and>
        rtw_get_sta_num_by_state p WIFI_FW_LINKING_STATE \<ge> defs_lmt_sta p,
      p\<lparr>defs_ptime := stime\<rparr>)"

text \<open>The frame: the WEP layer of the third frame of shared key authentication is taken off in place.\<close>

definition auth_decrypt :: "ap_priv \<Rightarrow> bytes \<Rightarrow> (bytes \<times> nat) option" where
  "auth_decrypt p pframe = do {
     privacy \<leftarrow> GetPrivacy pframe;
     if privacy then do {
       iv3 \<leftarrow> rd pframe (WLAN_HDR_A3_LEN + 3);
       let a = \<lparr>encrypt = WEP40, hdrlen = WLAN_HDR_A3_LEN, iv_len = 4, icv_len = 4, nr_frags = 0, last_txcmdsz = 0,
                key_index = unat (drop_bit 6 iv3 AND 0x3), at_ra = [], at_ta = []\<rparr>;
       m \<leftarrow> rtw_wep_decrypt (ap_keys p) a pframe (length pframe);
       Some (m, 4) }
     else Some (pframe, 0) }"

text \<open>Management frame protection is in use for the station and its key is installed: its state is not to be changed by
  a frame that anybody can send.\<close>

definition WLAN_STA_MFP :: u32 where "WLAN_STA_MFP = bit_mask 10"

definition unprotected :: "ap_sta \<Rightarrow> bool" where
  "unprotected a \<longleftrightarrow> \<not> as_pairwise a \<and> as_flags a AND WLAN_STA_MFP \<noteq> 0 \<or> as_flags a AND WLAN_STA_MFP = 0"

text \<open>The end of a failed authentication. The answer is sent from a cleared station with the sequence number 2.\<close>

definition auth_fail :: "ap_env \<Rightarrow> bytes \<Rightarrow> u16 \<Rightarrow> nat option \<Rightarrow> ap_priv \<Rightarrow> bool \<times> ap_priv" where
  "auth_fail v sa st psta p = (False, ap_issue_auth v sa (zero_ap_sta\<lparr>as_auth_seq := 2\<rparr>) st (ap_free psta p))"

text \<open>The station of the frame, and its place in the two lists.\<close>

definition auth_station :: "bytes \<Rightarrow> ap_priv \<Rightarrow> nat option \<times> ap_priv" where
  "auth_station sa p =
     (case rtw_get_stainfo (ap_tab p) sa of
        None \<Rightarrow>
          (case ap_alloc p sa of
             (None, p) \<Rightarrow> (None, p)
           | (Some s, p) \<Rightarrow> (Some s, upd_ap_sta s (\<lambda>a. a\<lparr>as_state := WIFI_FW_AUTH_NULL, as_auth_seq := 0\<rparr>) p))
      | Some s \<Rightarrow>
          (Some s, if unprotected (ap_sta p s) \<and> s \<in> set (asoc_list p)
                   then p\<lparr>asoc_list := remove1 s (asoc_list p), asoc_list_cnt := asoc_list_cnt p - 1\<rparr> else p))"

definition auth_enlist :: "nat \<Rightarrow> ap_priv \<Rightarrow> ap_priv" where
  "auth_enlist s p =
     (let p = (if unprotected (ap_sta p s) \<and> s \<notin> set (auth_list (ap_tab p))
               then p\<lparr>ap_tab := (ap_tab p)\<lparr>auth_list := auth_list (ap_tab p) @ [s], auth_list_cnt := auth_list_cnt (ap_tab p) + 1\<rparr>\<rparr>
               else p) in
      if as_auth_seq (ap_sta p s) = 0 then set_expire_to s (auth_to p) p else p)"

text \<open>The two algorithms. The result is a refusal, or the state of the station after the frame has been accepted.\<close>

definition auth_open :: "u32 \<Rightarrow> u16 \<Rightarrow> nat \<Rightarrow> ap_priv \<Rightarrow> u16 + ap_priv" where
  "auth_open algorithm seq s p =
     (if seq = 1 then
        Inr (upd_ap_sta s (\<lambda>a. a\<lparr>as_authalg := algorithm\<rparr>)
          (if unprotected (ap_sta p s) then
             set_expire_to s (assoc_to p)
               (upd_ap_sta s (\<lambda>a. a\<lparr>as_state := (as_state a AND NOT WIFI_FW_AUTH_NULL) OR WIFI_FW_AUTH_SUCCESS\<rparr>) p)
           else p))
      else Inl 14)"

definition auth_shared :: "u32 \<Rightarrow> u16 \<Rightarrow> bytes \<Rightarrow> nat \<Rightarrow> ap_priv \<Rightarrow> (u16 + ap_priv) option" where
  "auth_shared algorithm seq m s p =
     (if seq = 1 then
        Some (Inr (upd_ap_sta s (\<lambda>a. a\<lparr>as_authalg := algorithm, as_auth_seq := 2\<rparr>)
          (upd_ap_sta s (\<lambda>a. if unprotected a then a\<lparr>as_state := (as_state a AND NOT WIFI_FW_AUTH_NULL) OR WIFI_FW_AUTH_STATE\<rparr> else a)
            (upd_ap_sta s (\<lambda>a. a\<lparr>as_chg_txt := replicate 128 78\<rparr>) p))))
      else if seq = 3 then do {
        (pie, ie_len) \<leftarrow> rtw_get_ie m (WLAN_HDR_A3_LEN + 4 + 6) 16 0 (int (length m) - 24 - 6 - 4);
        case pie of
          None \<Rightarrow> Some (Inl 15)
        | Some q \<Rightarrow>
            if ie_len \<le> 0 then Some (Inl 15)
            else do {
              same \<leftarrow> memeq m (q + 2) (as_chg_txt (ap_sta p s)) 128;
              Some (if same then
                Inr (if unprotected (ap_sta p s) then
                       set_expire_to s (assoc_to p)
                         (upd_ap_sta s (\<lambda>a. a\<lparr>as_state := (as_state a AND NOT WIFI_FW_AUTH_STATE) OR WIFI_FW_AUTH_SUCCESS\<rparr>) p)
                     else p)
              else Inl 15) } }
      else Some (Inl 14))"

definition auth_answer :: "ap_env \<Rightarrow> bytes \<Rightarrow> u16 \<Rightarrow> nat \<Rightarrow> ap_priv \<Rightarrow> bool \<times> ap_priv" where
  "auth_answer v sa seq s p =
     (let p = upd_ap_sta s (\<lambda>a. a\<lparr>as_auth_seq := ucast seq + 1\<rparr>) p;
          p = ap_issue_auth v (sta_mac (ap_tab p) s) (ap_sta p s) 0 p in
      (True, if as_state (ap_sta p s) AND (WIFI_FW_AUTH_SUCCESS OR WIFI_FW_ASSOC_SUCCESS) \<noteq> 0
             then upd_ap_sta s (\<lambda>a. a\<lparr>as_auth_seq := 0\<rparr>) p else p))"

text \<open>With SAE the supplicant authenticates the station.\<close>

definition auth_algorithm :: "ap_env \<Rightarrow> bytes \<Rightarrow> bytes \<Rightarrow> u32 \<Rightarrow> u16 \<Rightarrow> u16 \<Rightarrow> nat \<Rightarrow> ap_priv \<Rightarrow> (bool \<times> ap_priv) option" where
  "auth_algorithm v m sa auth_mode algorithm seq s p =
     (if report_auth_ap v \<and> algorithm = 3 \<and> auth_mode = 2 then
        Some (True, (upd_ap_sta s (\<lambda>a. a\<lparr>as_authalg := ucast algorithm\<rparr>) p)\<lparr>ap_out := ap_out p @ [Ap_mframe m]\<rparr>)
      else if as_auth_seq (ap_sta p s) + 1 \<noteq> ucast seq then Some (auth_fail v sa 14 (Some s) p)
      else do {
        r \<leftarrow> (if algorithm = 0 \<and> (auth_mode = 0 \<or> auth_mode = 2 \<or> auth_mode = 3)
              then Some (auth_open (ucast algorithm) seq s p)
              else auth_shared (ucast algorithm) seq m s p);
        Some (case r of Inl st \<Rightarrow> auth_fail v sa st (Some s) p | Inr p \<Rightarrow> auth_answer v sa seq s p) })"

text \<open>Who may authenticate: not too many stations at once, an algorithm that the access point offers, an address that the
  access control lists let in, and room in the table.\<close>

definition auth_admit :: "ap_env \<Rightarrow> bytes \<Rightarrow> bytes \<Rightarrow> u16 \<Rightarrow> u16 \<Rightarrow> ap_priv \<Rightarrow> (bool \<times> ap_priv) option" where
  "auth_admit v m sa algorithm seq p =
     (let (attack, p) = rtw_defs_attack_chk (now_ms v) p in
      if attack \<and> (case rtw_get_stainfo (ap_tab p) sa of None \<Rightarrow> True
                    | Some s \<Rightarrow> as_state (ap_sta p s) AND WIFI_FW_ASSOC_SUCCESS = 0)
      then Some (auth_fail v sa 30 None p)
      else if force_auth_fail v \<noteq> 0 then Some (auth_fail v sa (force_auth_fail v) None p)
      else
        let auth_mode = (if ap_auth_algo p = 2 \<and> algorithm \<noteq> 3 \<and> ap_privacy_algo p \<noteq> WEP40 \<and> ap_privacy_algo p \<noteq> WEP104
                         then 0 else ap_auth_algo p) in
        if algorithm > 0 \<and> auth_mode = 0 \<or> algorithm = 0 \<and> auth_mode = 1 then Some (auth_fail v sa 13 None p)
        else if \<not> rtw_access_ctrl (acl_list (ap_tab p)) sa then Some (auth_fail v sa 17 None p)
        else
          case auth_station sa p of
            (None, p) \<Rightarrow> Some (auth_fail v sa 17 None p)
          | (Some s, p) \<Rightarrow> auth_algorithm v m sa auth_mode algorithm seq s (auth_enlist s p))"

definition OnAuth :: "ap_env \<Rightarrow> bytes \<Rightarrow> ap_priv \<Rightarrow> (bool \<times> ap_priv) option" where
  "OnAuth v pframe p =
     (if \<not> up_ap v then Some (False, p)
      else if \<not> linked v then Some (True, p)
      else do {
        (m, offset) \<leftarrow> auth_decrypt p pframe;
        sa \<leftarrow> get_addr2_ptr m;
        algorithm \<leftarrow> RTW_GET_LE16 m (WLAN_HDR_A3_LEN + offset);
        seq \<leftarrow> RTW_GET_LE16 m (WLAN_HDR_A3_LEN + offset + 2);
        invalid \<leftarrow> rtw_check_invalid_mac_address sa False;
        if invalid then Some (False, p) else auth_admit v m sa algorithm seq p })"

section \<open>Invariant\<close>

text \<open>The two lists of the access point hold stations of the table, each once, and their counters count them.\<close>

definition list_ok :: "nat set \<Rightarrow> nat list \<Rightarrow> u8 \<Rightarrow> bool" where
  "list_ok S xs c \<longleftrightarrow> distinct xs \<and> set xs \<subseteq> S \<and> c = of_nat (length xs)"

definition auth_inv :: "ap_priv \<Rightarrow> bool" where
  "auth_inv p \<longleftrightarrow> sta_inv (ap_tab p) \<and> list_ok (set (tabled (ap_tab p))) (asoc_list p) (asoc_list_cnt p) \<and>
     list_ok (set (tabled (ap_tab p))) (auth_list (ap_tab p)) (auth_list_cnt (ap_tab p))"

lemma of_nat_remove1: "s \<in> set xs \<Longrightarrow> of_nat (length (remove1 s xs)) = (of_nat (length xs) - 1 :: u8)"
proof -
  assume "s \<in> set xs"
  then have "length (remove1 s xs) = length xs - 1" "1 \<le> length xs" by (auto simp: length_remove1 Suc_le_eq)
  then show ?thesis by (simp add: of_nat_diff)
qed

lemma list_ok_remove: "list_ok S xs c \<Longrightarrow> s \<in> set xs \<Longrightarrow> list_ok S (remove1 s xs) (c - 1)"
  by (auto simp: list_ok_def of_nat_remove1 dest: notin_set_remove1)

lemma list_ok_leave: "list_ok S xs c \<Longrightarrow> list_ok (S - {s}) (remove1 s xs) (if s \<in> set xs then c - 1 else c)"
  by (auto simp: list_ok_def of_nat_remove1 remove1_idem dest: notin_set_remove1)

lemma list_ok_add: "list_ok S xs c \<Longrightarrow> s \<in> S \<Longrightarrow> s \<notin> set xs \<Longrightarrow> list_ok S (xs @ [s]) (c + 1)"
  by (simp add: list_ok_def)

lemma list_ok_mono: "list_ok S xs c \<Longrightarrow> S \<subseteq> T \<Longrightarrow> list_ok T xs c"
  by (auto simp: list_ok_def)

lemma list_ok_without: "list_ok S xs c \<Longrightarrow> s \<notin> set xs \<Longrightarrow> list_ok (S - {s}) xs c"
  by (auto simp: list_ok_def)

lemma free_auth_list:
  "auth_list (rtw_free_stainfo t (Some s)) = remove1 s (auth_list t)"
  "auth_list_cnt (rtw_free_stainfo t (Some s)) = (if s \<in> set (auth_list t) then auth_list_cnt t - 1 else auth_list_cnt t)"
proof -
  obtain i d where "rtw_release_macid (adapter_if t) (sta_mac t s) (sta_mac_id t s) (dvobj t) = (i, d)" by fastforce
  then show "auth_list (rtw_free_stainfo t (Some s)) = remove1 s (auth_list t)"
    "auth_list_cnt (rtw_free_stainfo t (Some s)) = (if s \<in> set (auth_list t) then auth_list_cnt t - 1 else auth_list_cnt t)"
    by (simp_all add: rtw_free_stainfo_def free_sta_ap_def Let_def remove1_idem)
qed

lemma alloc_auth_list:
  assumes "rtw_alloc_stainfo t k = (r, t')"
  shows "auth_list t' = auth_list t" "auth_list_cnt t' = auth_list_cnt t"
  using assms by (auto simp: rtw_alloc_stainfo_def u_rtw_init_stainfo_def Let_def split: list.splits prod.splits if_splits)

text \<open>Nothing but the operations of the table and the lists matters.\<close>

lemma sta_inv_cong:
  assumes "sta_hash t' = sta_hash t" "free_sta_queue t' = free_sta_queue t" "asoc_sta_count t' = asoc_sta_count t"
    "sta_mac t' = sta_mac t" "sta_mac_id t' = sta_mac_id t" "dvobj t' = dvobj t" "adapter_if t' = adapter_if t"
    "\<And>u. servq (stas (xmitpriv t') u) = servq (stas (xmitpriv t) u)" "sta_queue (xmitpriv t') = sta_queue (xmitpriv t)"
    "accnt (xmitpriv t') = accnt (xmitpriv t)"
  shows "sta_inv t' = sta_inv t" "tabled t' = tabled t"
proof -
  have p: "pending (xmitpriv t') = pending (xmitpriv t)" by (simp add: pending_def fun_eq_iff assms)
  show tb: "tabled t' = tabled t" by (simp add: tabled_def assms)
  have "holders_of t' = holders_of t" by (simp add: holders_of_def fun_eq_iff tb assms)
  then show "sta_inv t' = sta_inv t"
    using p tb assms by (simp add: sta_inv_def tab_inv_def tx_inv_def)
qed

lemma set_expire_to_tab:
  "sta_inv (ap_tab (set_expire_to s n p)) = sta_inv (ap_tab p)" "tabled (ap_tab (set_expire_to s n p)) = tabled (ap_tab p)"
proof -
  have t: "ap_tab (set_expire_to s n p) = (ap_tab p)\<lparr>xmitpriv := upd_sta s (\<lambda>u. u\<lparr>expire_to := n\<rparr>) (xmitpriv (ap_tab p))\<rparr>"
    by (simp add: set_expire_to_def)
  show "sta_inv (ap_tab (set_expire_to s n p)) = sta_inv (ap_tab p)" unfolding t
    by (rule sta_inv_cong) (simp_all add: upd_sta_def)
  show "tabled (ap_tab (set_expire_to s n p)) = tabled (ap_tab p)" unfolding t
    by (rule sta_inv_cong) (simp_all add: upd_sta_def)
qed

lemma auth_inv_sel [simp]:
  "auth_inv (set_expire_to s n p) = auth_inv p" "auth_inv (upd_ap_sta s f p) = auth_inv p"
  "auth_inv (ap_issue_auth v mac a st p) = auth_inv p" "auth_inv (p\<lparr>defs_ptime := x\<rparr>) = auth_inv p"
  "auth_inv (p\<lparr>ap_out := y\<rparr>) = auth_inv p"
  by (simp_all add: auth_inv_def set_expire_to_tab) (simp_all add: set_expire_to_def upd_ap_sta_def ap_issue_auth_def)

text \<open>A station that is in neither list, or in the list of stations that authenticate, can be freed.\<close>

lemma ap_free_inv:
  assumes inv: "auth_inv p" and s: "s \<in> set (tabled (ap_tab p))" "s \<notin> set (asoc_list p)"
  shows "auth_inv (ap_free (Some s) p)"
proof -
  have i: "sta_inv (ap_tab p)" using inv by (simp add: auth_inv_def)
  note f = rtw_free_stainfo_ok [OF i s(1)]
  have "distinct (tabled (ap_tab p))" using i by (simp add: sta_inv_def tab_inv_def)
  then have "set (tabled (rtw_free_stainfo (ap_tab p) (Some s))) = set (tabled (ap_tab p)) - {s}" using f by simp
  with inv f s(2) show ?thesis
    by (simp add: auth_inv_def ap_free_def free_auth_list list_ok_leave list_ok_without)
qed

lemma auth_fail_inv:
  assumes "auth_inv p" "\<And>s. psta = Some s \<Longrightarrow> s \<in> set (tabled (ap_tab p)) \<and> s \<notin> set (asoc_list p)"
  shows "auth_inv (snd (auth_fail v sa st psta p))"
proof (cases psta)
  case None
  then show ?thesis using assms by (simp add: auth_fail_def ap_free_def rtw_free_stainfo_def)
next
  case (Some s)
  then show ?thesis using ap_free_inv assms by (simp add: auth_fail_def)
qed

lemma auth_station_inv:
  assumes inv: "auth_inv p" and k: "sta_key sa" and u: "\<And>s. s \<in> set (asoc_list p) \<Longrightarrow> unprotected (ap_sta p s)"
    and r: "auth_station sa p = (psta, p')"
  shows "auth_inv p'" "psta = Some s \<Longrightarrow> s \<in> set (tabled (ap_tab p')) \<and> s \<notin> set (asoc_list p')"
proof -
  have i: "sta_inv (ap_tab p)" "tab_inv (ap_tab p)" using inv by (simp_all add: auth_inv_def sta_inv_def)
  have "auth_inv p' \<and> (\<forall>s. psta = Some s \<longrightarrow> s \<in> set (tabled (ap_tab p')) \<and> s \<notin> set (asoc_list p'))"
  proof (cases "rtw_get_stainfo (ap_tab p) sa")
    case (Some s)
    then have s: "s \<in> set (tabled (ap_tab p))" using get_stainfo_Some [OF i(2) k, of s] by simp
    show ?thesis
    proof (cases "s \<in> set (asoc_list p)")
      case True
      then have "p' = p\<lparr>asoc_list := remove1 s (asoc_list p), asoc_list_cnt := asoc_list_cnt p - 1\<rparr>" "psta = Some s"
        using Some r u by (auto simp: auth_station_def)
      moreover have "s \<notin> set (remove1 s (asoc_list p))" using inv by (simp add: auth_inv_def list_ok_def)
      ultimately show ?thesis using inv s True by (simp add: auth_inv_def list_ok_remove)
    qed (use Some r inv s in \<open>auto simp: auth_station_def\<close>)
  next
    case None
    show ?thesis
    proof (cases "free_sta_queue (ap_tab p)")
      case Nil
      then have "rtw_alloc_stainfo (ap_tab p) sa = (None, ap_tab p)" by (simp add: rtw_alloc_stainfo_def)
      then show ?thesis using None r inv by (auto simp: auth_station_def ap_alloc_def)
    next
      case (Cons s rest)
      from rtw_alloc_stainfo_ok [OF i(1) k None Cons] obtain t' where t': "rtw_alloc_stainfo (ap_tab p) sa = (Some s, t')"
        "sta_inv t'" "set (tabled t') = insert s (set (tabled (ap_tab p)))" by blast
      have "s \<notin> set (tabled (ap_tab p))" using i(2) Cons by (auto simp: tab_inv_def)
      then have "s \<notin> set (asoc_list p)" using inv by (auto simp: auth_inv_def list_ok_def)
      moreover have "p' = upd_ap_sta s (\<lambda>a. a\<lparr>as_state := WIFI_FW_AUTH_NULL, as_auth_seq := 0\<rparr>)
          (upd_ap_sta s (\<lambda>_. zero_ap_sta) (p\<lparr>ap_tab := t'\<rparr>))" "psta = Some s"
        using None t'(1) r by (simp_all add: auth_station_def ap_alloc_def)
      moreover have "auth_inv (p\<lparr>ap_tab := t'\<rparr>)"
        using inv t' alloc_auth_list [OF t'(1)] by (auto simp: auth_inv_def intro: list_ok_mono)
      ultimately show ?thesis using t'(3) by (simp add: upd_ap_sta_def) (simp add: auth_inv_def)
    qed
  qed
  then show "auth_inv p'" "psta = Some s \<Longrightarrow> s \<in> set (tabled (ap_tab p')) \<and> s \<notin> set (asoc_list p')" by auto
qed

lemma auth_enlist_inv:
  assumes inv: "auth_inv p" and s: "s \<in> set (tabled (ap_tab p))" "s \<notin> set (asoc_list p)"
  shows "auth_inv (auth_enlist s p) \<and> s \<in> set (tabled (ap_tab (auth_enlist s p))) \<and> asoc_list (auth_enlist s p) = asoc_list p"
proof -
  let ?t = "(ap_tab p)\<lparr>auth_list := auth_list (ap_tab p) @ [s], auth_list_cnt := auth_list_cnt (ap_tab p) + 1\<rparr>"
  have "sta_inv ?t = sta_inv (ap_tab p)" "tabled ?t = tabled (ap_tab p)" by (rule sta_inv_cong; simp)+
  then have "auth_inv (p\<lparr>ap_tab := ?t\<rparr>)" "tabled (ap_tab (p\<lparr>ap_tab := ?t\<rparr>)) = tabled (ap_tab p)" if "s \<notin> set (auth_list (ap_tab p))"
    using inv s that by (simp_all add: auth_inv_def list_ok_add)
  moreover have "asoc_list (set_expire_to s n q) = asoc_list q" for n q by (simp add: set_expire_to_def)
  ultimately show ?thesis using inv s by (simp add: auth_enlist_def Let_def set_expire_to_tab)
qed

lemma ap_sel [simp]:
  "ap_tab (upd_ap_sta s f p) = ap_tab p" "asoc_list (upd_ap_sta s f p) = asoc_list p"
  "ap_tab (ap_issue_auth v mac a st p) = ap_tab p" "asoc_list (ap_issue_auth v mac a st p) = asoc_list p"
  "asoc_list (set_expire_to s n p) = asoc_list p"
  by (simp_all add: upd_ap_sta_def ap_issue_auth_def set_expire_to_def)

lemma auth_open_inv: "auth_inv p \<Longrightarrow> auth_open alg seq s p = Inr p' \<Longrightarrow> auth_inv p'"
  by (auto simp: auth_open_def split: if_splits)

lemma auth_shared_inv: "auth_inv p \<Longrightarrow> auth_shared alg seq m s p = Some (Inr p') \<Longrightarrow> auth_inv p'"
  by (auto simp: auth_shared_def elim!: bind_SomeE split: if_splits option.splits)

lemma auth_answer_inv: "auth_inv p \<Longrightarrow> auth_inv (snd (auth_answer v sa seq s p))"
  by (simp add: auth_answer_def Let_def)

lemma auth_algorithm_inv:
  assumes inv: "auth_inv p" and s: "s \<in> set (tabled (ap_tab p))" "s \<notin> set (asoc_list p)"
    and r: "auth_algorithm v m sa mode alg seq s p = Some (b, p')"
  shows "auth_inv p'"
proof -
  have fail: "auth_inv q" if "auth_fail v sa st (Some s) p = (c, q)" for st c q
    using auth_fail_inv [OF inv, of "Some s" v sa st] s that by simp
  have ans: "auth_inv q" if "auth_answer v sa seq s p1 = (c, q)" "auth_inv p1" for p1 c q
    using auth_answer_inv [OF that(2), of v sa seq s] that(1) by simp
  obtain r1 where "(report_auth_ap v \<and> alg = 3 \<and> mode = 2 \<and> auth_inv p') \<or> auth_fail v sa 14 (Some s) p = (b, p') \<or>
      (case r1 of Inl st \<Rightarrow> auth_fail v sa st (Some s) p | Inr p1 \<Rightarrow> auth_answer v sa seq s p1) = (b, p') \<and>
      (r1 = auth_open (ucast alg) seq s p \<or> auth_shared (ucast alg) seq m s p = Some r1)"
    using r inv by (auto simp: auth_algorithm_def elim!: bind_SomeE split: if_splits)
  then show ?thesis
    using fail ans auth_open_inv [OF inv] auth_shared_inv [OF inv] by (cases r1) auto
qed

lemma auth_inv_sta_key: "rtw_check_invalid_mac_address sa False = Some False \<Longrightarrow> length sa = 6 \<Longrightarrow> sta_key sa"
  by (cases sa) (auto simp: rtw_check_invalid_mac_address_def sta_key_def IS_MCAST_def rd_def elim!: bind_SomeE split: if_splits)

lemma defs_chk_inv [simp]: "auth_inv (snd (rtw_defs_attack_chk now p)) = auth_inv p"
  by (simp add: rtw_defs_attack_chk_def)

lemma auth_admit_inv:
  assumes inv: "auth_inv p" and u: "\<And>s. s \<in> set (asoc_list p) \<Longrightarrow> unprotected (ap_sta p s)" and k: "sta_key sa"
    and r: "auth_admit v m sa alg seq p = Some (b, p')"
  shows "auth_inv p'"
proof -
  define p1 where "p1 = p\<lparr>defs_ptime := now_ms v\<rparr>"
  have p1: "auth_inv p1" "asoc_list p1 = asoc_list p" "ap_sta p1 = ap_sta p" using inv by (simp_all add: p1_def)
  have none: "auth_inv q" if "auth_fail v sa st None p1 = (c, q)" for st c q
    using auth_fail_inv [OF p1(1), of None v sa st] that by simp
  obtain psta p2 where st: "auth_station sa p1 = (psta, p2)" by fastforce
  have i2: "auth_inv p2" "\<And>s. psta = Some s \<Longrightarrow> s \<in> set (tabled (ap_tab p2)) \<and> s \<notin> set (asoc_list p2)"
    using auth_station_inv [OF p1(1) k _ st] u p1(2,3) by auto
  have none2: "auth_inv q" if "auth_fail v sa st None p2 = (c, q)" for st c q
    using auth_fail_inv [OF i2(1), of None v sa st] that by simp
  have some: "auth_inv p'" if "auth_algorithm v m sa mode x seq s (auth_enlist s p2) = Some (b, p')" "psta = Some s" for mode s x
    using auth_algorithm_inv [OF _ _ _ that(1)] auth_enlist_inv [OF i2(1), of s] i2(2) [OF that(2)] by simp
  show ?thesis
    using r st
    by (cases psta)
      (auto simp: auth_admit_def rtw_defs_attack_chk_def p1_def [symmetric] Let_def split: if_splits dest: none none2 some)
qed

text \<open>C8. Whatever frame arrives, the access point keeps its lists and the station table consistent, as long as no station in
  the list of associated stations is protected.\<close>

theorem OnAuth_lists:
  assumes inv: "auth_inv p" and u: "\<forall>s \<in> set (asoc_list p). unprotected (ap_sta p s)" and r: "OnAuth v f p = Some (b, p')"
  shows "auth_inv p'"
proof (cases "p' = p")
  case False
  then obtain m sa alg seq where a: "get_addr2_ptr m = Some sa" "rtw_check_invalid_mac_address sa False = Some False"
    "auth_admit v m sa alg seq p = Some (b, p')"
    using r by (auto simp: OnAuth_def elim!: bind_SomeE split: if_splits)
  have "length sa = 6" using a(1) by (auto simp: get_addr2_ptr_def rd_n_Some_iff)
  then show ?thesis using auth_admit_inv [OF inv _ _ a(3)] u auth_inv_sta_key [OF a(2)] by simp
qed (use inv in simp)

section \<open>A protected station\<close>

text \<open>C36. Authentication frames are not protected, so the code leaves the state of a protected station alone. A refusal frees
  it all the same: one open system frame with a sequence number other than 1, in the name of an associated and protected
  station, and the station is back in the pool, while the list of associated stations still holds it.\<close>

theorem OnAuth_frees_protected_station:
  assumes inv: "auth_inv p" and s: "rtw_get_stainfo (ap_tab p) sa = Some s" "s \<in> set (asoc_list p)"
    and prot: "as_pairwise (ap_sta p s)" "as_flags (ap_sta p s) AND WLAN_STA_MFP \<noteq> 0" "as_auth_seq (ap_sta p s) = 0"
    and sa: "sta_key sa" "\<not> IS_MCAST sa" "sa \<noteq> replicate 6 0"
    and ap: "up_ap v" "linked v" "ap_auth_algo p = 0" "force_auth_fail v = 0" "rtw_access_ctrl (acl_list (ap_tab p)) sa"
      "as_state (ap_sta p s) AND WIFI_FW_ASSOC_SUCCESS \<noteq> 0"
    and f: "f = hdr_3addr fc a1 sa a3 sc @ put_LE16 0 @ put_LE16 seq @ b" "\<not> bit fc 14" "length a1 = 6" "length a3 = 6" "seq \<noteq> 1"
  shows "\<exists>p'. OnAuth v f p = Some (False, p') \<and> s \<in> set (free_sta_queue (ap_tab p')) \<and>
    rtw_get_stainfo (ap_tab p') sa = None \<and> s \<in> set (asoc_list p')"
proof -
  have i: "sta_inv (ap_tab p)" "tab_inv (ap_tab p)" using inv by (simp_all add: auth_inv_def sta_inv_def)
  have tb: "s \<in> set (tabled (ap_tab p))" "sta_mac (ap_tab p) s = sa" using get_stainfo_Some [OF i(2) sa(1), of s] s(1) by simp_all
  have len: "length sa = 6" using sa(1) by (simp add: sta_key_def)
  have body: "drop (WLAN_HDR_A3_LEN + k) f = drop k (put_LE16 0 @ put_LE16 seq @ b)" for k
    unfolding f(1) by (rule hdr_3addr_body) (rule f(3) len f(4))+
  have fields: "auth_decrypt p f = Some (f, 0)" "get_addr2_ptr f = Some sa" "RTW_GET_LE16 f WLAN_HDR_A3_LEN = Some 0"
    "RTW_GET_LE16 f (WLAN_HDR_A3_LEN + 2) = Some seq"
    using body [of 0] body [of 2] f len
    by (auto simp: auth_decrypt_def GetPrivacy_def hdr_3addr_fc hdr_3addr_addrs put_LE16_def intro!: get_put_LE16)
  have valid: "rtw_check_invalid_mac_address sa False = Some False"
  proof -
    obtain x xs where x: "sa = x # xs" using len by (cases sa) auto
    then have "x AND 1 = 0" using sa(2) by (simp add: IS_MCAST_def)
    then have "sa \<noteq> replicate 6 0xff" using x by (auto simp: replicate_numeral)
    then show ?thesis using sa(3) len x \<open>x AND 1 = 0\<close>
      by (simp add: rtw_check_invalid_mac_address_def memeq_def rd_n_def rd_def)
  qed
  define p1 where "p1 = p\<lparr>defs_ptime := now_ms v\<rparr>"
  have np: "\<not> unprotected (ap_sta p1 s)" using prot by (simp add: unprotected_def p1_def)
  define p2 where "p2 = auth_enlist s p1"
  have p2: "ap_sta p2 = ap_sta p" "asoc_list p2 = asoc_list p" "sta_inv (ap_tab p2)" "tabled (ap_tab p2) = tabled (ap_tab p)"
    "sta_mac (ap_tab p2) = sta_mac (ap_tab p)"
    using np i(1) by (simp_all add: p2_def auth_enlist_def p1_def set_expire_to_tab Let_def) (simp_all add: set_expire_to_def)
  have adm: "auth_admit v f sa 0 seq p = auth_algorithm v f sa 0 0 seq s p2"
  proof -
    have p1: "ap_tab p1 = ap_tab p" "ap_sta p1 = ap_sta p" "ap_auth_algo p1 = 0" using ap(3) by (simp_all add: p1_def)
    then have "auth_station sa p1 = (Some s, p1)" using s(1) np by (simp add: auth_station_def)
    then show ?thesis
      using s(1) ap p1 by (simp add: auth_admit_def rtw_defs_attack_chk_def p1_def [symmetric] p2_def)
  qed
  have out: "auth_algorithm v f sa 0 0 seq s p2 = Some (auth_fail v sa 14 (Some s) p2)"
    using prot(3) f(5) p2(1) by (simp add: auth_algorithm_def auth_open_def)
  let ?p = "snd (auth_fail v sa 14 (Some s) p2)"
  have t: "ap_tab ?p = rtw_free_stainfo (ap_tab p2) (Some s)" "asoc_list ?p = asoc_list p"
    using p2(2) by (simp_all add: auth_fail_def ap_free_def)
  have tb2: "s \<in> set (tabled (ap_tab p2))" using tb(1) p2(4) by simp
  note fr = rtw_free_stainfo_ok [OF p2(3) tb2]
  have "tab_inv (rtw_free_stainfo (ap_tab p2) (Some s))" using fr by (simp add: sta_inv_def)
  moreover have "distinct (tabled (ap_tab p))" "inj_on (sta_mac (ap_tab p)) (set (tabled (ap_tab p)))" using i(2) by (simp_all add: tab_inv_def)
  ultimately have "rtw_get_stainfo (ap_tab ?p) sa = None"
    using get_stainfo_None [OF _ sa(1)] fr t(1) tb p2(4,5) by (auto simp: inj_on_def)
  moreover have "OnAuth v f p = Some (False, ?p)"
    using ap(1,2) fields valid adm out by (simp add: OnAuth_def auth_fail_def)
  ultimately show ?thesis using t fr s(2) by auto
qed

section \<open>A client and an access point\<close>

lemma sta_key_valid:
  assumes "length sa = 6" "\<not> IS_MCAST sa" "sa \<noteq> replicate 6 0"
  shows "rtw_check_invalid_mac_address sa False = Some False"
proof -
  obtain x xs where x: "sa = x # xs" using assms(1) by (cases sa) auto
  then have "x AND 1 = 0" using assms(2) by (simp add: IS_MCAST_def)
  moreover from this have "sa \<noteq> replicate 6 0xff" using x by (auto simp: replicate_numeral)
  ultimately show ?thesis using assms x by (simp add: rtw_check_invalid_mac_address_def memeq_def rd_n_def rd_def)
qed

text \<open>What the receiver of an authentication frame without challenge text reads.\<close>

lemma auth_fields:
  assumes "f = hdr_3addr fc a1 a2 a3 sc @ put_LE16 alg @ put_LE16 seq @ put_LE16 st @ b"
    and "length a1 = 6" "length a2 = 6" "length a3 = 6" "\<not> bit fc 8" "\<not> bit fc 14"
  shows "get_da f = Some a1" "get_addr2_ptr f = Some a2" "GetPrivacy f = Some False" "auth_decrypt p f = Some (f, 0)"
    "RTW_GET_LE16 f WLAN_HDR_A3_LEN = Some alg" "RTW_GET_LE16 f (WLAN_HDR_A3_LEN + 2) = Some seq"
    "RTW_GET_LE16 f (WLAN_HDR_A3_LEN + 4) = Some st"
proof -
  have body: "drop (WLAN_HDR_A3_LEN + k) f = drop k (put_LE16 alg @ put_LE16 seq @ put_LE16 st @ b)" for k
    unfolding assms(1) by (rule hdr_3addr_body) (rule assms)+
  show "RTW_GET_LE16 f WLAN_HDR_A3_LEN = Some alg" "RTW_GET_LE16 f (WLAN_HDR_A3_LEN + 2) = Some seq"
    "RTW_GET_LE16 f (WLAN_HDR_A3_LEN + 4) = Some st"
    using body [of 0] body [of 2] body [of 4] by (auto intro!: get_put_LE16 simp: put_LE16_def)
  show "GetPrivacy f = Some False" using assms by (simp add: GetPrivacy_def hdr_3addr_fc)
  then show "auth_decrypt p f = Some (f, 0)" by (simp add: auth_decrypt_def)
  show "get_da f = Some a1" "get_addr2_ptr f = Some a2"
    using assms by (simp_all add: get_da_def GetToDs_def hdr_3addr_fc hdr_3addr_addrs)
qed

lemma auth_fc: "\<not> bit (set_frame_sub_type 0 WIFI_AUTH) 8" "\<not> bit (set_frame_sub_type 0 WIFI_AUTH) 14"
  by (simp_all add: set_frame_sub_type_def WIFI_AUTH_def WIFI_MGT_TYPE_def)

text \<open>C7. Open system authentication between a client and an access point of this driver: the access point takes the client
  into its table, and its answer makes the client send the association request.\<close>

theorem open_auth_handshake:
  assumes m: "mx_state m = WIFI_FW_STATION_STATE OR WIFI_FW_AUTH_STATE" "mx_auth_seq m = 1" "mx_auth_algo m \<noteq> dot11AuthAlgrthm_Shared"
      "\<not> mx_join_abort m" "mx_bssid m = ap_mac p" "\<not> sae w" "tx_ok w" "\<not> btm_reassoc w"
    and mac: "length (mx_mac m) = 6" "\<not> IS_MCAST (mx_mac m)" "mx_mac m \<noteq> replicate 6 0" "length (ap_mac p) = 6"
    and ap: "auth_inv p" "up_ap v" "linked v" "ap_tx_ok v" "ap_auth_algo p = 0" "force_auth_fail v = 0"
      "rtw_access_ctrl (acl_list (ap_tab p)) (mx_mac m)" "\<not> fst (rtw_defs_attack_chk (now_ms v) p)"
    and new: "rtw_get_stainfo (ap_tab p) (mx_mac m) = None" "free_sta_queue (ap_tab p) \<noteq> []"
  shows "\<exists>tx p' s answer m'. mx_out (issue_auth w 0 m) = mx_out m @ [Tx_auth tx] \<and>
    OnAuth v (at_frame tx) p = Some (True, p') \<and> ap_out p' = ap_out p @ [Ap_auth answer] \<and>
    rtw_get_stainfo (ap_tab p') (mx_mac m) = Some s \<and> s \<in> set (auth_list (ap_tab p')) \<and>
    as_state (ap_sta p' s) = WIFI_FW_AUTH_SUCCESS \<and>
    OnAuthClient w answer (issue_auth w 0 m) = Some (True, m') \<and>
    mx_state m' = WIFI_FW_STATION_STATE OR WIFI_FW_AUTH_SUCCESS OR WIFI_FW_ASSOC_STATE \<and>
    mx_out m' = mx_out m @ [Tx_auth tx, Tx_assocreq]"
proof -
  let ?sa = "mx_mac m"
  have i: "sta_inv (ap_tab p)" "tab_inv (ap_tab p)" using ap(1) by (simp_all add: auth_inv_def sta_inv_def)
  have key: "sta_key ?sa" using mac by (simp add: sta_key_def)
  obtain s rest where free: "free_sta_queue (ap_tab p) = s # rest" using new(2) by (cases "free_sta_queue (ap_tab p)") auto
  obtain t' where t': "rtw_alloc_stainfo (ap_tab p) ?sa = (Some s, t')" "sta_inv t'" "set (tabled t') = insert s (set (tabled (ap_tab p)))"
    "sta_mac t' = (sta_mac (ap_tab p))(s := ?sa)"
    using rtw_alloc_stainfo_ok [OF i(1) key new(1) free] by blast
  have s_new: "s \<notin> set (auth_list t')"
    using ap(1) i(2) free alloc_auth_list(1) [OF t'(1)] by (auto simp: auth_inv_def list_ok_def tab_inv_def)
  have found: "rtw_get_stainfo t' ?sa = Some s"
    using get_stainfo_Some [OF _ key, of t' s] t' by (simp add: sta_inv_def)
  let ?tx = "auth_frame m 0"
  have f: "at_frame ?tx = hdr_3addr (set_frame_sub_type 0 WIFI_AUTH) (ap_mac p) ?sa (ap_mac p) (SetSeqNum 0 (mx_mgnt_seq m)) @
      put_LE16 0 @ put_LE16 1 @ put_LE16 0 @ []"
    using m by (simp add: auth_frame_def auth_seq3_def Let_def)
  note fields = auth_fields [OF f mac(4,1,4) auth_fc]
  define p1 where "p1 = p\<lparr>defs_ptime := now_ms v\<rparr>"
  have p1: "ap_tab p1 = ap_tab p" "ap_auth_algo p1 = 0" "ap_mac p1 = ap_mac p" "ap_out p1 = ap_out p" "ap_mgnt_seq p1 = ap_mgnt_seq p"
    using ap(5) by (simp_all add: p1_def)
  define p2 where "p2 = upd_ap_sta s (\<lambda>a. a\<lparr>as_state := WIFI_FW_AUTH_NULL, as_auth_seq := 0\<rparr>)
      (upd_ap_sta s (\<lambda>_. zero_ap_sta) (p1\<lparr>ap_tab := t'\<rparr>))"
  have station: "auth_station ?sa p1 = (Some s, p2)"
    using new(1) t'(1) by (simp add: auth_station_def ap_alloc_def p1 p2_def)
  have p2: "ap_tab p2 = t'" "ap_sta p2 s = zero_ap_sta\<lparr>as_state := WIFI_FW_AUTH_NULL, as_auth_seq := 0\<rparr>" "ap_mac p2 = ap_mac p"
    "ap_out p2 = ap_out p" "ap_mgnt_seq p2 = ap_mgnt_seq p"
    by (simp_all add: p2_def upd_ap_sta_def p1)
  define p3 where "p3 = auth_enlist s p2"
  have p3: "auth_list (ap_tab p3) = auth_list t' @ [s]" "ap_sta p3 = ap_sta p2" "ap_mac p3 = ap_mac p" "ap_out p3 = ap_out p"
    "ap_mgnt_seq p3 = ap_mgnt_seq p" "sta_hash (ap_tab p3) = sta_hash t'" "sta_mac (ap_tab p3) = sta_mac t'"
    using s_new p2 by (simp_all add: p3_def auth_enlist_def Let_def unprotected_def zero_ap_sta_def set_expire_to_def)
  define p4 where "p4 = upd_ap_sta s (\<lambda>a. a\<lparr>as_authalg := 0\<rparr>) (set_expire_to s (assoc_to p3)
      (upd_ap_sta s (\<lambda>a. a\<lparr>as_state := (as_state a AND NOT WIFI_FW_AUTH_NULL) OR WIFI_FW_AUTH_SUCCESS\<rparr>) p3))"
  have p4: "auth_list (ap_tab p4) = auth_list t' @ [s]" "ap_sta p4 s = zero_ap_sta\<lparr>as_state := WIFI_FW_AUTH_SUCCESS\<rparr>"
    "ap_mac p4 = ap_mac p" "ap_out p4 = ap_out p" "sta_hash (ap_tab p4) = sta_hash t'" "sta_mac (ap_tab p4) = sta_mac t'"
    using p2(2) p3 by (simp_all add: p4_def upd_ap_sta_def set_expire_to_def zero_ap_sta_def)
  have opened: "auth_open 0 1 s p3 = Inr p4"
    using p2(2) p3(2) by (simp add: auth_open_def unprotected_def zero_ap_sta_def p4_def)
  define p5 where "p5 = snd (auth_answer v ?sa 1 s p4)"
  define ans where "ans = ap_auth_frame (upd_ap_sta s (\<lambda>a. a\<lparr>as_auth_seq := 2\<rparr>) p4) ?sa (zero_ap_sta\<lparr>as_state := WIFI_FW_AUTH_SUCCESS, as_auth_seq := 2\<rparr>) 0"
  have p5: "auth_answer v ?sa 1 s p4 = (True, p5)" "ap_out p5 = ap_out p @ [Ap_auth ans]" "ap_tab p5 = ap_tab p4"
    "as_state (ap_sta p5 s) = WIFI_FW_AUTH_SUCCESS"
    using p4(2,4,6) ap(4) t'(4)
    by (simp_all add: p5_def auth_answer_def Let_def ap_issue_auth_def ans_def) (simp_all add: upd_ap_sta_def zero_ap_sta_def)
  have get: "rtw_get_stainfo (ap_tab p5) ?sa = Some s" "s \<in> set (auth_list (ap_tab p5))"
    using found p4(1,5,6) p5(3) by (simp_all add: rtw_get_stainfo_def)
  have "auth_algorithm v (at_frame ?tx) ?sa 0 0 1 s p3 = Some (True, p5)"
    using opened p5(1) p2(2) p3(2) by (simp add: auth_algorithm_def zero_ap_sta_def)
  then have "auth_admit v (at_frame ?tx) ?sa 0 1 p = Some (True, p5)"
    using ap(6,7,8) p1 station by (auto simp: auth_admit_def rtw_defs_attack_chk_def p1_def [symmetric] p3_def)
  then have on: "OnAuth v (at_frame ?tx) p = Some (True, p5)"
    using ap(2,3) fields sta_key_valid [OF mac(1-3)] by (simp add: OnAuth_def)
  have a: "ans = hdr_3addr (set_frame_sub_type 0 WIFI_AUTH) ?sa (ap_mac p) (ap_mac p) (SetSeqNum 0 (ap_mgnt_seq p4)) @
      put_LE16 0 @ put_LE16 2 @ put_LE16 0 @ []"
    using p4(3) by (simp add: ans_def ap_auth_frame_def Let_def upd_ap_sta_def zero_ap_sta_def)
  note afields = auth_fields [OF a mac(1,4,4) auth_fc]
  define m1 where "m1 = issue_auth w 0 m"
  have m1: "mx_state m1 = 0x202" "mx_auth_algo m1 \<noteq> dot11AuthAlgrthm_Shared" "\<not> mx_join_abort m1" "mx_mac m1 = ?sa"
    "mx_out m1 = mx_out m @ [Tx_auth ?tx]"
    using m by (simp_all add: m1_def issue_auth_def)
  have cl: "OnAuthClient w ans m1 = Some (True, start_clnt_assoc w m1)"
    using m1 m(6) afields by (simp add: OnAuthClient_def in_state_def auth_client_rsp_def)
  have "mx_state (start_clnt_assoc w m1) = 0x2402" "mx_out (start_clnt_assoc w m1) = mx_out m @ [Tx_auth ?tx, Tx_assocreq]"
    using m1 m(8) by (simp_all add: start_clnt_assoc_def Let_def)
  then show ?thesis
    using on p5 get cl m1(5) unfolding m1_def by (intro exI [of _ ?tx] exI [of _ p5] exI [of _ s] exI [of _ ans]) simp
qed

section \<open>Examples\<close>

definition ax_env :: ap_env where
  "ax_env = \<lparr>up_ap = True, linked = True, now_ms = 1, ap_tx_ok = True, force_auth_fail = 0, report_auth_ap = False\<rparr>"

text \<open>An access point with one associated and protected station, the station of the examples of the table.\<close>

definition ax_ap :: ap_priv where
  "ax_ap = \<lparr>ap_tab = ex_tab2\<lparr>acl_list := acl_start acl_demo\<rparr>, ap_sta = (\<lambda>_. zero_ap_sta)(1 := zero_ap_sta\<lparr>as_state := WIFI_FW_ASSOC_SUCCESS, as_flags := WLAN_STA_MFP,
     as_pairwise := True\<rparr>), asoc_list = [1], asoc_list_cnt = 1, auth_to = 3, assoc_to = 3, ap_mac = jx_ap, ap_auth_algo = 0,
     ap_privacy_algo = AES, ap_keys = \<lparr>dot11PrivacyKeyIndex = 0, dot11DefKey = [], dot11DefKeylen = []\<rparr>, defs_lmt_sta = 5,
     defs_lmt_time = 5000, defs_ptime = 0, ap_mgnt_seq = 0, ap_out = []\<rparr>"

lemma ex_tab2_lists: "auth_list ex_tab2 = []" "auth_list_cnt ex_tab2 = 0"
proof -
  obtain a t1 b t2 where r: "rtw_alloc_stainfo ex_tab bc_addr = (a, t1)" "rtw_alloc_stainfo t1 peer_demo = (b, t2)" by fastforce
  have t: "auth_list ex_tab = []" "auth_list_cnt ex_tab = 0"
    by (simp_all add: ex_tab_def u_rtw_init_sta_priv_def Let_def)
  have "ex_tab2 = t2" using r by (simp add: ex_tab2_def)
  then show "auth_list ex_tab2 = []" "auth_list_cnt ex_tab2 = 0"
    using alloc_auth_list [OF r(1)] alloc_auth_list [OF r(2)] t by simp_all
qed

lemma ax_ap_tab:
  "sta_inv (ap_tab ax_ap) = sta_inv ex_tab2" "tabled (ap_tab ax_ap) = tabled ex_tab2"
  "rtw_get_stainfo (ap_tab ax_ap) a = rtw_get_stainfo ex_tab2 a" "free_sta_queue (ap_tab ax_ap) = free_sta_queue ex_tab2"
proof -
  have t: "ap_tab ax_ap = ex_tab2\<lparr>acl_list := acl_start acl_demo\<rparr>" by (simp add: ax_ap_def)
  show "sta_inv (ap_tab ax_ap) = sta_inv ex_tab2" "tabled (ap_tab ax_ap) = tabled ex_tab2"
    unfolding t by (rule sta_inv_cong; simp)+
  show "rtw_get_stainfo (ap_tab ax_ap) a = rtw_get_stainfo ex_tab2 a" "free_sta_queue (ap_tab ax_ap) = free_sta_queue ex_tab2"
    unfolding t by (simp_all add: rtw_get_stainfo_def)
qed

lemma ax_ap_inv: "auth_inv ax_ap"
  using ex_tab2_ok ex_tab2_lists ax_ap_tab by (simp add: auth_inv_def) (simp add: ax_ap_def list_ok_def)

text \<open>The lists of the access control are empty: every address is let in.\<close>

lemma ax_acl: "rtw_access_ctrl (acl_list (ap_tab ax_ap)) a"
proof -
  have "acl_rel (acl_start acl_demo) (\<lambda>_. (RTW_ACL_MODE_DISABLED, {}))"
    by (rule acl_start_rel) (simp_all add: acl_demo_def acl_consts list_all_iff)
  then show ?thesis
    by (auto simp: ax_ap_def rtw_access_ctrl_def access_ctrl_period_def acl_rel_def acl_decide_allows acl_consts)
qed

definition ax_frame :: "u16 \<Rightarrow> bytes" where
  "ax_frame seq = hdr_3addr 0xb0 jx_ap peer_demo jx_ap 0 @ put_LE16 0 @ put_LE16 seq @ put_LE16 0 @ []"

lemma ax_peer: "length peer_demo = 6" "length jx_ap = 6" "\<not> IS_MCAST peer_demo" "peer_demo \<noteq> replicate 6 0"
  by (simp_all add: peer_demo_def jx_ap_def IS_MCAST_def replicate_numeral)

theorem OnAuth_frees_protected_station_witness:
  "\<exists>p'. OnAuth ax_env (ax_frame 2) ax_ap = Some (False, p') \<and> 1 \<in> set (free_sta_queue (ap_tab p')) \<and> 1 \<in> set (asoc_list p')"
proof -
  have s: "rtw_get_stainfo (ap_tab ax_ap) peer_demo = Some 1" "1 \<in> set (asoc_list ax_ap)"
    using ex_tab2_ok by (simp_all add: ax_ap_tab(3)) (simp add: ax_ap_def)
  have p: "as_pairwise (ap_sta ax_ap 1)" "as_flags (ap_sta ax_ap 1) AND WLAN_STA_MFP \<noteq> 0" "as_auth_seq (ap_sta ax_ap 1) = 0"
    "as_state (ap_sta ax_ap 1) AND WIFI_FW_ASSOC_SUCCESS \<noteq> 0" "ap_auth_algo ax_ap = 0"
    by (simp_all add: ax_ap_def zero_ap_sta_def WLAN_STA_MFP_def)
  have v: "up_ap ax_env" "linked ax_env" "force_auth_fail ax_env = 0" by (simp_all add: ax_env_def)
  show ?thesis
    using OnAuth_frees_protected_station [OF ax_ap_inv s p(1-3) ex_keys(2) ax_peer(3,4) v(1,2) p(5) v(3) ax_acl p(4) ax_frame_def [of 2]]
      ax_peer by auto
qed

text \<open>The same access point before the station's key is installed.\<close>

definition ax_open :: ap_priv where "ax_open = upd_ap_sta 1 (\<lambda>a. a\<lparr>as_pairwise := False\<rparr>) ax_ap"

lemma auth_admit_open: "ap_auth_algo p = 0 \<Longrightarrow> \<exists>r. auth_admit v m sa 0 seq p = Some r"
  by (auto simp: auth_admit_def rtw_defs_attack_chk_def auth_algorithm_def Let_def split: prod.split option.split)

theorem OnAuth_lists_witness:
  "\<exists>b p'. OnAuth ax_env (ax_frame 1) ax_open = Some (b, p') \<and> auth_inv p'"
proof -
  have "ap_auth_algo ax_open = 0" by (simp add: ax_open_def upd_ap_sta_def ax_ap_def)
  from auth_admit_open [OF this] have "OnAuth ax_env (ax_frame 1) ax_open \<noteq> None"
    using auth_fields [OF ax_frame_def [of 1] ax_peer(2,1,2)] sta_key_valid [OF ax_peer(1,3,4)]
    by (auto simp: OnAuth_def ax_env_def)
  then obtain b p' where r: "OnAuth ax_env (ax_frame 1) ax_open = Some (b, p')" by auto
  have "auth_inv ax_open" by (simp add: ax_open_def ax_ap_inv)
  moreover have "\<forall>s \<in> set (asoc_list ax_open). unprotected (ap_sta ax_open s)"
    by (simp add: ax_open_def upd_ap_sta_def ax_ap_def unprotected_def)
  ultimately show ?thesis using OnAuth_lists r by blast
qed

text \<open>The client of the examples of \<open>Mlme_Join\<close> at the access point.\<close>

theorem open_auth_handshake_witness:
  "\<exists>(tx :: auth_tx) p' s. OnAuth ax_env (at_frame tx) ax_ap = Some (True, p') \<and> rtw_get_stainfo (ap_tab p') (mx_mac jx_authing) = Some s \<and>
     as_state (ap_sta p' s) = WIFI_FW_AUTH_SUCCESS"
proof -
  have mac: "mx_mac jx_authing = [2, 0, 0, 0, 0, 1]"
    by (simp add: jx_authing_def issue_auth_def emit_def set_link_timer_def jx_linking_def jx_wait_def jx_mlme_def)
  have m: "mx_state jx_authing = WIFI_FW_STATION_STATE OR WIFI_FW_AUTH_STATE" "mx_auth_seq jx_authing = 1"
    "mx_auth_algo jx_authing \<noteq> dot11AuthAlgrthm_Shared" "\<not> mx_join_abort jx_authing" "mx_bssid jx_authing = ap_mac ax_ap"
    "\<not> sae jx_env" "tx_ok jx_env" "\<not> btm_reassoc jx_env"
    by (simp_all add: jx_authing_def issue_auth_def emit_def set_link_timer_def jx_linking_def jx_wait_def jx_mlme_def jx_env_def
        jx_ap_def ax_ap_def)
  have a: "length (mx_mac jx_authing) = 6" "\<not> IS_MCAST (mx_mac jx_authing)" "mx_mac jx_authing \<noteq> replicate 6 0" "length (ap_mac ax_ap) = 6"
    by (simp_all add: mac IS_MCAST_def replicate_numeral) (simp add: ax_ap_def jx_ap_def)
  have k: "sta_key (mx_mac jx_authing)" using a by (simp add: sta_key_def)
  have v: "up_ap ax_env" "linked ax_env" "ap_tx_ok ax_env" "ap_auth_algo ax_ap = 0" "force_auth_fail ax_env = 0"
    "\<not> fst (rtw_defs_attack_chk (now_ms ax_env) ax_ap)"
    by (simp_all add: ax_env_def ax_ap_def rtw_defs_attack_chk_def)
  have tab: "tab_inv ex_tab2" using ex_tab2_ok by (simp add: sta_inv_def)
  have "mx_mac jx_authing \<notin> sta_mac ex_tab2 ` set (tabled ex_tab2)"
    using ex_tab2_ok get_stainfo_Some [OF tab ex_keys(1), of 0] get_stainfo_Some [OF tab ex_keys(2), of 1]
    by (auto simp: mac rtw_get_bcmc_stainfo_def peer_demo_def)
  then have new: "rtw_get_stainfo (ap_tab ax_ap) (mx_mac jx_authing) = None"
    using get_stainfo_None [OF tab k] by (simp add: ax_ap_tab)
  have "card (set (tabled ex_tab2)) \<noteq> NUM_STA" using ex_tab2_ok by (simp add: MACID_NUM_SW_LIMIT_def)
  then have room: "free_sta_queue (ap_tab ax_ap) \<noteq> []" using tab by (auto simp: ax_ap_tab tab_inv_def)
  show ?thesis
    using open_auth_handshake [OF m a ax_ap_inv v(1-5) ax_acl v(6) new room]
    by blast
qed

section \<open>Shared key authentication\<close>

lemma as_state_fail: "auth_fail v sa st psta p = (b, p') \<Longrightarrow> ap_sta p' = ap_sta p"
  by (auto simp: auth_fail_def ap_issue_auth_def ap_free_def)

lemma as_state_answer: "auth_answer v sa seq s p = (b, p') \<Longrightarrow> as_state (ap_sta p' u) = as_state (ap_sta p u)"
  by (auto simp: auth_answer_def ap_issue_auth_def upd_ap_sta_def Let_def)

lemma auth_shared_success:
  assumes "auth_shared alg seq m s p = Some (Inr p')" "as_state (ap_sta p u) AND WIFI_FW_AUTH_SUCCESS = 0"
    "as_state (ap_sta p' u) AND WIFI_FW_AUTH_SUCCESS \<noteq> 0"
  shows "u = s \<and> seq = 3 \<and> (\<exists>q. memeq m q (as_chg_txt (ap_sta p s)) 128 = Some True)"
proof (cases "seq = 1")
  case True
  have "(x AND NOT 0x100 OR 0x200) AND 0x400 = x AND (0x400 :: u32)" for x
    by (simp add: bit.conj_disj_distrib2 and.assoc)
  then have "as_state (ap_sta p' u) AND WIFI_FW_AUTH_SUCCESS = as_state (ap_sta p u) AND WIFI_FW_AUTH_SUCCESS"
    using assms(1) True by (auto simp: auth_shared_def upd_ap_sta_def)
  then show ?thesis using assms(2,3) by simp
next
  case False
  then show ?thesis
    using assms
    by (auto simp: auth_shared_def upd_ap_sta_def set_expire_to_def elim!: bind_SomeE split: if_splits option.splits) blast
qed

lemma auth_station_sel:
  assumes "auth_station sa p = (Some u, p')" "as_state (ap_sta p s) AND WIFI_FW_AUTH_SUCCESS = 0"
  shows "as_state (ap_sta p' s) AND WIFI_FW_AUTH_SUCCESS = 0" "ap_auth_algo p' = ap_auth_algo p"
    "rtw_get_stainfo (ap_tab p) sa = Some w \<Longrightarrow> ap_sta p' = ap_sta p"
  using assms by (auto simp: auth_station_def ap_alloc_def upd_ap_sta_def zero_ap_sta_def split: option.splits prod.splits if_splits)

lemma auth_enlist_sta [simp]: "ap_sta (auth_enlist s p) = ap_sta p"
  by (simp add: auth_enlist_def set_expire_to_def Let_def)

text \<open>C39. With shared key authentication a station that is in the table becomes authenticated only by the third frame of the
  exchange, whose decryption holds the challenge text of the station.\<close>

theorem shared_auth_needs_challenge:
  assumes r: "OnAuth v f p = Some (b, p')" and alg: "ap_auth_algo p = dot11AuthAlgrthm_Shared"
    and s: "as_state (ap_sta p s) AND WIFI_FW_AUTH_SUCCESS = 0" "as_state (ap_sta p' s) AND WIFI_FW_AUTH_SUCCESS \<noteq> 0"
  shows "\<exists>m off q sa. auth_decrypt p f = Some (m, off) \<and> RTW_GET_LE16 m (WLAN_HDR_A3_LEN + off + 2) = Some 3 \<and>
    get_addr2_ptr m = Some sa \<and> rtw_get_stainfo (ap_tab p) sa = Some s \<and> memeq m q (as_chg_txt (ap_sta p s)) 128 = Some True"
proof -
  obtain m off sa alg seq where a: "auth_decrypt p f = Some (m, off)" "get_addr2_ptr m = Some sa"
    "RTW_GET_LE16 m (WLAN_HDR_A3_LEN + off + 2) = Some seq" "auth_admit v m sa alg seq p = Some (b, p')"
    using r s by (auto simp: OnAuth_def elim!: bind_SomeE split: if_splits)
  define p1 where "p1 = p\<lparr>defs_ptime := now_ms v\<rparr>"
  have p1: "ap_sta p1 = ap_sta p" "ap_auth_algo p1 = 1" "ap_tab p1 = ap_tab p" using alg by (simp_all add: p1_def)
  have nofail: "auth_fail v sa st psta q \<noteq> (b, p')" if "as_state (ap_sta q s) AND WIFI_FW_AUTH_SUCCESS = 0" for st psta q
    using as_state_fail [of v sa st psta q b p'] s(2) that by auto
  obtain psta p2 where st: "auth_station sa p1 = (psta, p2)" by fastforce
  have "auth_algorithm v m sa 1 alg seq u (auth_enlist u p2) = Some (b, p') \<and> psta = Some u" if "psta = Some u" for u
    using a(4) st that nofail [of p1] s(1) p1
    by (auto simp: auth_admit_def rtw_defs_attack_chk_def p1_def [symmetric] Let_def split: if_splits)
  moreover have "psta \<noteq> None"
  proof
    assume n: "psta = None"
    then have "ap_sta p2 = ap_sta p" using st p1 by (auto simp: auth_station_def ap_alloc_def split: option.splits prod.splits)
    then show False
      using a(4) st n nofail [of p1] nofail [of p2] s(1) p1
      by (auto simp: auth_admit_def rtw_defs_attack_chk_def p1_def [symmetric] Let_def split: if_splits)
  qed
  ultimately obtain u where u: "psta = Some u" "auth_algorithm v m sa 1 alg seq u (auth_enlist u p2) = Some (b, p')" by auto
  let ?p = "auth_enlist u p2"
  have st2: "auth_station sa p1 = (Some u, p2)" using st u(1) by simp
  have s2: "as_state (ap_sta ?p s) AND WIFI_FW_AUTH_SUCCESS = 0" using auth_station_sel(1) [OF st2, of s] s(1) p1(1) by simp
  have "as_auth_seq (ap_sta ?p u) + 1 = ucast seq \<and> (\<exists>p3. auth_shared (ucast alg) seq m u ?p = Some (Inr p3) \<and> auth_answer v sa seq u p3 = (b, p'))"
    using u(2) nofail [OF s2] by (auto simp: auth_algorithm_def elim!: bind_SomeE split: if_splits sum.splits)
  then obtain p3 where p3: "as_auth_seq (ap_sta ?p u) + 1 = ucast seq" "auth_shared (ucast alg) seq m u ?p = Some (Inr p3)"
    "auth_answer v sa seq u p3 = (b, p')" by blast
  have "as_state (ap_sta p3 s) AND WIFI_FW_AUTH_SUCCESS \<noteq> 0" using as_state_answer [OF p3(3), of s] s(2) by simp
  from auth_shared_success [OF p3(2) s2 this] obtain q where q: "s = u" "seq = 3" "memeq m q (as_chg_txt (ap_sta ?p u)) 128 = Some True"
    by blast
  have "rtw_get_stainfo (ap_tab p1) sa = Some u"
  proof (cases "rtw_get_stainfo (ap_tab p1) sa")
    case None
    then have "as_auth_seq (ap_sta p2 u) = 0"
      using st2 by (auto simp: auth_station_def ap_alloc_def upd_ap_sta_def split: option.splits prod.splits)
    then show ?thesis using p3(1) q(2) by simp
  next
    case (Some w)
    then show ?thesis using st2 by (simp add: auth_station_def)
  qed
  moreover have "ap_sta p2 = ap_sta p1"
    using calculation st2 by (auto simp: auth_station_def split: if_splits)
  ultimately show ?thesis using a q p1 by auto
qed

lemma get_ie_first:
  assumes "drop k m = [eid, l] @ rest" "0 < limit" "uint eid = ix"
  shows "rtw_get_ie m k ix len limit = Some (Some k, uint l)"
  using assms rd2_drop [of k m eid l rest] by (simp add: rtw_get_ie_def rtw_get_ie_loop.simps)

lemma plain_third_frame:
  assumes s: "rtw_get_stainfo (ap_tab p) sa = Some s" "as_auth_seq (ap_sta p s) = 2" "as_flags (ap_sta p s) AND WLAN_STA_MFP = 0"
      "as_chg_txt (ap_sta p s) = replicate 128 78"
    and sa: "length sa = 6" "\<not> IS_MCAST sa" "sa \<noteq> replicate 6 0"
    and ap: "ap_auth_algo p = dot11AuthAlgrthm_Shared" "force_auth_fail v = 0"
      "rtw_access_ctrl (acl_list (ap_tab p)) sa" "\<not> fst (rtw_defs_attack_chk (now_ms v) p)"
    and f: "f = hdr_3addr fc a1 sa a3 sc @ put_LE16 1 @ put_LE16 3 @ put_LE16 0 @ pad @ ie_enc (16, replicate 128 78)"
      "length pad = 4" "\<not> bit fc 8" "\<not> bit fc 14" "length a1 = 6" "length a3 = 6"
  shows "\<exists>p'. auth_admit v f sa 1 3 p = Some (True, p') \<and> as_state (ap_sta p' s) AND WIFI_FW_AUTH_SUCCESS \<noteq> 0"
proof -
  define p1 where "p1 = p\<lparr>defs_ptime := now_ms v\<rparr>"
  have p1: "ap_sta p1 = ap_sta p" "ap_auth_algo p1 = 1" "ap_tab p1 = ap_tab p" using ap(1) by (simp_all add: p1_def)
  have un: "unprotected (ap_sta p s)" using s(3) by (simp add: unprotected_def)
  obtain p2 where p2: "auth_station sa p1 = (Some s, p2)" "ap_sta p2 = ap_sta p"
    using s(1) p1 by (auto simp: auth_station_def)
  let ?p = "auth_enlist s p2"
  have body: "drop (WLAN_HDR_A3_LEN + k) f = drop k (put_LE16 1 @ put_LE16 3 @ put_LE16 0 @ pad @ ie_enc (16, replicate 128 78))" for k
    unfolding f(1) by (rule hdr_3addr_body) (rule f(5) sa(1) f(6))+
  have d: "drop (WLAN_HDR_A3_LEN + 10) f = [16, 128] @ replicate 128 78"
    using body [of 10] f(2) by (simp add: put_LE16_def ie_enc_def)
  have flen: "length f = 164" unfolding f(1) using f sa by (simp add: WLAN_HDR_A3_LEN_def)
  have ie: "rtw_get_ie f (WLAN_HDR_A3_LEN + 10) 16 0 (int (length f) - 34) = Some (Some (WLAN_HDR_A3_LEN + 10), 128)"
    using get_ie_first [OF d, of "int (length f) - 34" 16 0] flen by simp
  have "drop (WLAN_HDR_A3_LEN + 12) f = replicate 128 78" using drop_add [OF d] by (simp add: add_ac)
  then have eq: "memeq f (WLAN_HDR_A3_LEN + 12) (replicate 128 78) 128 = Some True"
    using flen by (simp add: memeq_in WLAN_HDR_A3_LEN_def)
  define p3 where "p3 = set_expire_to s (assoc_to ?p)
      (upd_ap_sta s (\<lambda>a. a\<lparr>as_state := (as_state a AND NOT WIFI_FW_AUTH_STATE) OR WIFI_FW_AUTH_SUCCESS\<rparr>) ?p)"
  have sh: "auth_shared 1 3 f s ?p = Some (Inr p3)"
    using ie eq s(4) un p2(2) by (simp add: auth_shared_def p3_def add_ac)
  obtain p4 where p4: "auth_answer v sa 3 s p3 = (True, p4)" by (auto simp: auth_answer_def Let_def)
  have "auth_algorithm v f sa 1 1 3 s ?p = Some (True, p4)"
    using sh p4 s(2) p2(2) by (simp add: auth_algorithm_def)
  then have adm: "auth_admit v f sa 1 3 p = Some (True, p4)"
    using ap(2,3,4) p1 p2(1) by (auto simp: auth_admit_def rtw_defs_attack_chk_def p1_def [symmetric])
  have "as_state (ap_sta p3 s) AND WIFI_FW_AUTH_SUCCESS \<noteq> 0"
    using p2(2) by (simp add: p3_def set_expire_to_def upd_ap_sta_def bit.conj_disj_distrib2 and.assoc)
  then have "as_state (ap_sta p4 s) AND WIFI_FW_AUTH_SUCCESS \<noteq> 0" using as_state_answer [OF p4] by simp
  with adm show ?thesis by blast
qed

lemma auth_third_frame:
  assumes "f = hdr_3addr fc a1 sa a3 sc @ put_LE16 1 @ put_LE16 3 @ put_LE16 0 @ b" "length a1 = 6" "length sa = 6" "length a3 = 6"
    and "\<not> bit fc 8" "\<not> bit fc 14" "\<not> IS_MCAST sa" "sa \<noteq> replicate 6 0" "up_ap v" "linked v"
  shows "OnAuth v f p = auth_admit v f sa 1 3 p"
  using auth_fields [OF assms(1-6)] sta_key_valid [OF assms(3,7,8)] assms(9,10) by (simp add: OnAuth_def)

text \<open>C37. The handler does not ask whether that frame was encrypted. The challenge is always the same text, so a station
  without the key passes with a plain frame that has the text where the encrypted frame would have it, four bytes behind
  its place in a plain frame.\<close>

theorem shared_auth_without_key:
  assumes s: "rtw_get_stainfo (ap_tab p) sa = Some s" "as_auth_seq (ap_sta p s) = 2" "as_flags (ap_sta p s) AND WLAN_STA_MFP = 0"
      "as_chg_txt (ap_sta p s) = replicate 128 78"
    and sa: "length sa = 6" "\<not> IS_MCAST sa" "sa \<noteq> replicate 6 0"
    and ap: "up_ap v" "linked v" "ap_auth_algo p = dot11AuthAlgrthm_Shared" "force_auth_fail v = 0"
      "rtw_access_ctrl (acl_list (ap_tab p)) sa" "\<not> fst (rtw_defs_attack_chk (now_ms v) p)"
    and f: "f = hdr_3addr fc a1 sa a3 sc @ put_LE16 1 @ put_LE16 3 @ put_LE16 0 @ pad @ ie_enc (16, replicate 128 78)"
      "length pad = 4" "\<not> bit fc 8" "\<not> bit fc 14" "length a1 = 6" "length a3 = 6"
  shows "\<exists>p'. OnAuth v f p = Some (True, p') \<and> as_state (ap_sta p' s) AND WIFI_FW_AUTH_SUCCESS \<noteq> 0"
  using plain_third_frame [OF s sa ap(3-6) f] auth_third_frame [OF f(1) f(5) sa(1) f(6) f(3,4) sa(2,3) ap(1,2)] by simp

definition ax_shared :: ap_priv where
  "ax_shared = ax_ap\<lparr>ap_auth_algo := dot11AuthAlgrthm_Shared, asoc_list := [], ap_sta := (\<lambda>_. zero_ap_sta)(1 := zero_ap_sta\<lparr>
     as_state := WIFI_FW_AUTH_STATE, as_auth_seq := 2, as_chg_txt := replicate 128 78\<rparr>)\<rparr>"

definition ax_plain :: bytes where
  "ax_plain = hdr_3addr 0xb0 jx_ap peer_demo jx_ap 0 @ put_LE16 1 @ put_LE16 3 @ put_LE16 0 @ [0, 0, 0, 0] @ ie_enc (16, replicate 128 78)"

lemma ax_shared_ok:
  "rtw_get_stainfo (ap_tab ax_shared) peer_demo = Some 1" "as_auth_seq (ap_sta ax_shared 1) = 2"
  "as_flags (ap_sta ax_shared 1) AND WLAN_STA_MFP = 0" "as_chg_txt (ap_sta ax_shared 1) = replicate 128 78"
  "ap_auth_algo ax_shared = dot11AuthAlgrthm_Shared" "force_auth_fail ax_env = 0"
  "rtw_access_ctrl (acl_list (ap_tab ax_shared)) peer_demo" "\<not> fst (rtw_defs_attack_chk (now_ms ax_env) ax_shared)"
  "up_ap ax_env" "linked ax_env" "as_state (ap_sta ax_shared 1) AND WIFI_FW_AUTH_SUCCESS = 0"
  using ex_tab2_ok ax_acl by (simp_all add: ax_shared_def ax_ap_tab(3) zero_ap_sta_def ax_env_def)
    (simp add: ax_ap_def rtw_defs_attack_chk_def)

lemma ax_fc: "\<not> bit (0xb0 :: u16) 8" "\<not> bit (0xb0 :: u16) 14"
  by simp_all

theorem shared_auth_without_key_witness:
  "\<exists>p'. OnAuth ax_env ax_plain ax_shared = Some (True, p') \<and> as_state (ap_sta p' 1) AND WIFI_FW_AUTH_SUCCESS \<noteq> 0"
  by (rule shared_auth_without_key [OF ax_shared_ok(1-4) ax_peer(1,3,4) ax_shared_ok(9,10,5-8) ax_plain_def _ ax_fc ax_peer(2,2)]) simp

theorem shared_auth_needs_challenge_witness:
  "\<exists>m off q. auth_decrypt ax_shared ax_plain = Some (m, off) \<and> RTW_GET_LE16 m (WLAN_HDR_A3_LEN + off + 2) = Some 3 \<and>
     memeq m q (as_chg_txt (ap_sta ax_shared 1)) 128 = Some True"
proof -
  have "\<exists>p'. auth_admit ax_env ax_plain peer_demo 1 3 ax_shared = Some (True, p') \<and> as_state (ap_sta p' 1) AND WIFI_FW_AUTH_SUCCESS \<noteq> 0"
    by (rule plain_third_frame [OF ax_shared_ok(1-4) ax_peer(1,3,4) ax_shared_ok(5-8) ax_plain_def _ ax_fc ax_peer(2,2)]) simp
  then obtain p' where p': "OnAuth ax_env ax_plain ax_shared = Some (True, p')" "as_state (ap_sta p' 1) AND WIFI_FW_AUTH_SUCCESS \<noteq> 0"
    using auth_third_frame [OF ax_plain_def ax_peer(2,1,2) ax_fc ax_peer(3,4) ax_shared_ok(9,10), of ax_shared] by auto
  from shared_auth_needs_challenge [OF p'(1) ax_shared_ok(5,11) p'(2)] show ?thesis by blast
qed

end
