(* ===== verification/Ez_Config.thy ===== *)
theory Ez_Config
  imports Wlan_Hdr
begin

text \<open>
  The device configuration of \<open>os_dep/linux/ez_wifi_config.c\<close>: the scanner of \<open>/home/config.txt\<close>, the
  choice of the channel plan from the country code, the MAC address with its use in \<open>rtw_macaddr_cfg\<close> of
  \<open>core/rtw_ieee80211.c\<close>, and the check of the calibration in the efuse.
\<close>

section \<open>Characters\<close>

definition bytes_of :: "string \<Rightarrow> bytes" where "bytes_of s = map of_char s"

abbreviation CR :: u8 where "CR \<equiv> 13"
abbreviation LF :: u8 where "LF \<equiv> 10"
abbreviation TAB :: u8 where "TAB \<equiv> 9"
abbreviation SPACE :: u8 where "SPACE \<equiv> 32"
abbreviation HASH :: u8 where "HASH \<equiv> 35"
abbreviation BACKSLASH :: u8 where "BACKSLASH \<equiv> 92"

section \<open>The scanner\<close>

definition EZ_CONFIG_BUF_SIZE :: nat where "EZ_CONFIG_BUF_SIZE = 4096"
definition EZ_PICK_BUF_SIZE :: nat where "EZ_PICK_BUF_SIZE = 1024"

text \<open>The variables of the loop of \<open>process_config_vars\<close>: \<open>cv_pos\<close> is set in a comment, \<open>cv_n\<close> behind a
  backslash, \<open>cv_m\<close> while a value is copied; \<open>cv_end\<close> is zero at the start of a line.\<close>

record cv_state =
  cv_pos :: bool
  cv_n :: bool
  cv_m :: bool
  cv_end :: nat
  cv_j :: nat
  cv_pick :: bytes

text \<open>The end of the loop body: copy the character at \<open>i\<close> unless it is a tab or a second space.\<close>

definition cv_copy :: "bytes \<Rightarrow> nat \<Rightarrow> cv_state \<Rightarrow> cv_state option" where
  "cv_copy buf i s = do {
     c \<leftarrow> rd buf i;
     if c \<noteq> TAB then do {
       dup \<leftarrow> (if cv_j s \<noteq> 0 then do { last \<leftarrow> rd (cv_pick s) (cv_j s - 1); Some (last = SPACE \<and> c = SPACE) }
               else Some False);
       if dup then Some (s\<lparr>cv_m := True, cv_pos := False\<rparr>)
       else do {
         pick \<leftarrow> wr (cv_pick s) (cv_j s) c;
         Some (s\<lparr>cv_pick := pick, cv_j := cv_j s + 1, cv_m := True, cv_pos := False\<rparr>) } }
     else Some (s\<lparr>cv_m := True, cv_pos := False\<rparr>) }"

text \<open>One round of the loop; the result has the index before the increment of the \<open>for\<close>.\<close>

definition cv_step :: "bytes \<Rightarrow> bytes \<Rightarrow> nat \<Rightarrow> cv_state \<Rightarrow> (nat \<times> cv_state) option" where
  "cv_step var buf i s = do {
     c \<leftarrow> rd buf i;
     if c = CR then Some (i, s)
     else if cv_pos s \<or> cv_n s then
       Some (i, if c = LF then (if cv_n s then s\<lparr>cv_n := False, cv_pos := False\<rparr>
                                else s\<lparr>cv_pos := False, cv_end := 0\<rparr>)
                else s)
     else if c = HASH then Some (i, s\<lparr>cv_n := False, cv_pos := True\<rparr>)
     else if c = BACKSLASH then Some (i, s\<lparr>cv_n := True, cv_pos := False\<rparr>)
     else if c = LF then Some (i, s\<lparr>cv_end := 0, cv_n := False, cv_pos := False\<rparr>)
     else do {
       here \<leftarrow> memeq buf i var (length var);
       if cv_end s = 0 \<and> here then do {
         s' \<leftarrow> cv_copy buf (i + length var) (s\<lparr>cv_end := length var, cv_j := 0\<rparr>);
         Some (i + length var, s') }
       else if cv_end s = 0 \<and> cv_m s then Some (i, s\<lparr>cv_end := 0, cv_m := False, cv_pos := False\<rparr>)
       else if \<not> cv_m s then Some (i, s\<lparr>cv_end := cv_end s + 1, cv_pos := False\<rparr>)
       else do { s' \<leftarrow> cv_copy buf i (s\<lparr>cv_end := cv_end s + 1\<rparr>); Some (i, s') } } }"

lemma cv_step_ge: "cv_step var buf i s = Some (i', s') \<Longrightarrow> i \<le> i'"
  by (auto simp: cv_step_def Option.bind_eq_Some_conv split: if_splits)

function cv_loop :: "bytes \<Rightarrow> bytes \<Rightarrow> nat \<Rightarrow> nat \<Rightarrow> cv_state \<Rightarrow> cv_state option" where
  "cv_loop var buf len i s =
     (if i < len then
        (case cv_step var buf i s of None \<Rightarrow> None | Some (i', s') \<Rightarrow> cv_loop var buf len (i' + 1) s')
      else Some s)"
  by pat_completeness auto
termination
  by (relation "measure (\<lambda>(var, buf, len, i, s). len - i)") (auto dest!: cv_step_ge)

declare cv_loop.simps [simp del]

definition process_config_vars :: "bytes \<Rightarrow> nat \<Rightarrow> bytes \<Rightarrow> bytes \<Rightarrow> (nat \<times> bytes) option" where
  "process_config_vars buf len pick var = do {
     s \<leftarrow> cv_loop var buf len 0
       \<lparr>cv_pos = False, cv_n = False, cv_m = False, cv_end = 0, cv_j = 0, cv_pick = pick\<rparr>;
     Some (cv_j s, cv_pick s) }"

section \<open>Country codes\<close>

text \<open>A table is one string of codes of two letters, each followed by a NUL.\<close>

definition code_table :: "string list \<Rightarrow> bytes" where
  "code_table codes = concat (map (\<lambda>c. bytes_of c @ [0]) codes)"

definition us_country_code_table :: "string list" where
  "us_country_code_table = [''US'', ''CA'', ''MX'', ''TW'', ''VI'', ''DO'', ''GT'']"

definition br_country_code_table :: "string list" where
  "br_country_code_table =
     [''BR'', ''CO'', ''BB'', ''CR'', ''EC'', ''UY'', ''BM'', ''DM'', ''GY'', ''HT'', ''TT'', ''NI'', ''HN'', ''PA'', ''VE'',
      ''PY'', ''BS'', ''FM'', ''GD'', ''JM'', ''PW'', ''SV'', ''VU'', ''CL'', ''AR'', ''IN'', ''PK'']"

definition etsi_country_code_table :: "string list" where
  "etsi_country_code_table =
     [''AT'', ''BE'', ''BG'', ''CY'', ''CZ'', ''DE'', ''DK'', ''EE'', ''ES'', ''FI'', ''FR'', ''GB'', ''GR'', ''HR'', ''HU'',
      ''IE'', ''IT'', ''LU'', ''MT'', ''NL'', ''PL'', ''PT'', ''RO'', ''SE'', ''SI'', ''SK'', ''TR'', ''LV'', ''LT'', ''KW'',
      ''KZ'', ''LB'', ''AD'', ''AM'', ''AZ'', ''BD'', ''GE'', ''HK'', ''KG'', ''LK'', ''MD'', ''MN'', ''MP'', ''MR'', ''NA'',
      ''PG'', ''TD'', ''TJ'', ''TM'', ''UZ'', ''ZW'', ''IR'', ''OM'', ''SG'', ''TH'', ''VN'', ''ZA'', ''JO'', ''BY'', ''RU'',
      ''IL'', ''SA'', ''IQ'', ''AG'', ''AL'', ''AO'', ''BA'', ''BJ'', ''BZ'', ''CH'', ''CM'', ''CV'', ''FJ'', ''GA'', ''IS'',
      ''KH'', ''KI'', ''KN'', ''LA'', ''LC'', ''LI'', ''LY'', ''MC'', ''MK'', ''ML'', ''MO'', ''MV'', ''MZ'', ''NO'', ''NP'',
      ''RS'', ''SC'', ''SM'', ''SN'', ''SZ'', ''TG'', ''TN'', ''TZ'', ''UG'', ''VA'', ''VC'', ''WS'', ''YE'', ''ZM'', ''AU'',
      ''MY'', ''PH'', ''ID'', ''AE'', ''KR'', ''NZ'', ''KE'', ''LS'', ''EG'', ''UA'', ''MA'', ''QA'', ''EU'']"

definition eu_country_code_table :: "string list" where
  "eu_country_code_table =
     [''AT'', ''BE'', ''BG'', ''CY'', ''CZ'', ''DE'', ''DK'', ''EE'', ''ES'', ''FI'', ''FR'', ''GB'', ''GR'', ''HR'', ''HU'',
      ''IE'', ''IT'', ''LU'', ''MT'', ''NL'', ''PL'', ''PT'', ''RO'', ''SE'', ''SI'', ''SK'', ''TR'', ''LV'', ''LT'', ''EU'',
      ''NO'', ''AD'', ''CH'', ''IS'', ''MC'', ''MK'']"

definition apec_country_code_table :: "string list" where
  "apec_country_code_table =
     [''KW'', ''KZ'', ''LB'', ''AD'', ''AM'', ''AZ'', ''BD'', ''GE'', ''HK'', ''KG'', ''LK'', ''MD'', ''MN'', ''MP'', ''MR'',
      ''NA'', ''PG'', ''TD'', ''TJ'', ''TM'', ''UZ'', ''ZW'', ''IR'', ''OM'', ''SG'', ''TH'', ''VN'', ''ZA'', ''JO'', ''BY'',
      ''RU'', ''IL'', ''SA'', ''IQ'', ''AG'', ''AL'', ''AO'', ''BA'', ''BJ'', ''BZ'', ''CH'', ''CM'', ''CV'', ''FJ'', ''GA'',
      ''IS'', ''KH'', ''KI'', ''KN'', ''LA'', ''LC'', ''LI'', ''LY'', ''MC'', ''MK'', ''ML'', ''MO'', ''MV'', ''MZ'', ''NO'',
      ''NP'', ''RS'', ''SC'', ''SM'', ''SN'', ''SZ'', ''TG'', ''TN'', ''TZ'', ''UG'', ''VA'', ''VC'', ''WS'', ''YE'', ''ZM'',
      ''AU'', ''MY'', ''PH'', ''ID'', ''AE'', ''KR'']"

definition jp_country_code_table :: "string list" where
  "jp_country_code_table = [''JP'']"

definition other_country_code_table :: "string list" where
  "other_country_code_table =
     [''CN'', ''AF'', ''BF'', ''BH'', ''BI'', ''BN'', ''BO'', ''BT'', ''BW'', ''CD'', ''CF'', ''CG'', ''CI'', ''CK'', ''CU'',
      ''DJ'', ''DZ'', ''ER'', ''ET'', ''GH'', ''GM'', ''GN'', ''GQ'', ''GW'', ''KM'', ''KP'', ''LR'', ''MG'', ''MH'', ''MM'',
      ''MU'', ''NE'', ''NG'', ''NR'', ''NU'', ''PS'', ''RW'', ''SB'', ''SD'', ''SL'', ''SO'', ''ST'', ''SY'', ''TO'', ''TP'',
      ''TV'']"

text \<open>The loop of the \<open>woal_is_..._country\<close> functions over the bytes of a table.\<close>

function woal_loop :: "bytes \<Rightarrow> bytes \<Rightarrow> nat \<Rightarrow> bool option" where
  "woal_loop cc tab i =
     (if i < length tab then do {
        a \<leftarrow> rd_n cc 0 2; b \<leftarrow> rd_n tab i 2;
        if a = b then Some True else woal_loop cc tab (i + 3) }
      else Some False)"
  by pat_completeness auto
termination by (relation "measure (\<lambda>(cc, tab, i). length tab - i)") auto

declare woal_loop.simps [simp del]

definition woal_is_us_country :: "bytes \<Rightarrow> bool option" where
  "woal_is_us_country cc = woal_loop cc (code_table us_country_code_table) 0"
definition woal_is_br_country :: "bytes \<Rightarrow> bool option" where
  "woal_is_br_country cc = woal_loop cc (code_table br_country_code_table) 0"
definition woal_is_etsi_country :: "bytes \<Rightarrow> bool option" where
  "woal_is_etsi_country cc = woal_loop cc (code_table etsi_country_code_table) 0"
definition woal_is_eu_country :: "bytes \<Rightarrow> bool option" where
  "woal_is_eu_country cc = woal_loop cc (code_table eu_country_code_table) 0"
definition woal_is_apec_country :: "bytes \<Rightarrow> bool option" where
  "woal_is_apec_country cc = woal_loop cc (code_table apec_country_code_table) 0"
definition woal_is_jp_country :: "bytes \<Rightarrow> bool option" where
  "woal_is_jp_country cc = woal_loop cc (code_table jp_country_code_table) 0"
definition woal_is_other_country :: "bytes \<Rightarrow> bool option" where
  "woal_is_other_country cc = woal_loop cc (code_table other_country_code_table) 0"

section \<open>Initialisation\<close>

text \<open>The module parameters that the configuration sets. \<open>ez_leaked\<close> counts the buffers of the scanner
  that are never freed.\<close>

record ez_globals =
  rtw_channel_plan :: nat
  rtw_initmac :: "bytes option"
  ez_mac_addr :: bytes
  ez_leaked :: nat

definition ez_set_country :: "bytes option \<Rightarrow> ez_globals \<Rightarrow> ez_globals option" where
  "ez_set_country country_code g =
     (case country_code of
        None \<Rightarrow> Some g
      | Some cc \<Rightarrow> do {
          us \<leftarrow> woal_is_us_country cc;
          if us then Some (g\<lparr>rtw_channel_plan := 0x43\<rparr>)
          else do {
            eu \<leftarrow> woal_is_eu_country cc;
            if eu then Some (g\<lparr>rtw_channel_plan := 0x42\<rparr>)
            else do {
              jp \<leftarrow> woal_is_jp_country cc;
              Some (g\<lparr>rtw_channel_plan := if jp then 0x37 else 0x62\<rparr>) } } })"

text \<open>What the kernel does for the configuration: whether the file opens, what the read of a block of the
  given size returns and stores, and whether the two allocations succeed. The buffers come uninitialised.\<close>

record ez_env =
  file_opens :: bool
  kernel_read :: "nat \<Rightarrow> int \<times> bytes"
  alloc_buf :: "bytes option"
  alloc_pick :: "bytes option"

definition ez_os_get_image_block :: "ez_env \<Rightarrow> bytes \<Rightarrow> nat \<Rightarrow> (int \<times> bytes) option" where
  "ez_os_get_image_block env buf sz = do {
     let (ret, data) = kernel_read env sz;
     buf' \<leftarrow> wr_n buf 0 data;
     Some (ret, buf') }"

text \<open>The file as the scanner sees it: the block with a NUL behind it, and a cleared \<open>pick\<close>.\<close>

definition ez_scan :: "bytes \<Rightarrow> bytes \<Rightarrow> nat \<Rightarrow> bytes \<Rightarrow> (nat \<times> bytes) option" where
  "ez_scan buf pick len var = do {
     buf \<leftarrow> wr buf len 0;
     pick \<leftarrow> memset pick 0 0 EZ_PICK_BUF_SIZE;
     process_config_vars buf len pick var }"

definition ez_get_mac_addr :: "ez_env \<Rightarrow> ez_globals \<Rightarrow> (int \<times> ez_globals) option" where
  "ez_get_mac_addr env g =
     (if \<not> file_opens env then Some (-1, g)
      else case (alloc_buf env, alloc_pick env) of
        (Some buf, Some pick) \<Rightarrow> do {
          (len, buf) \<leftarrow> ez_os_get_image_block env buf EZ_CONFIG_BUF_SIZE;
          if 0 < len \<and> len < int EZ_CONFIG_BUF_SIZE then do {
            (n, pick) \<leftarrow> ez_scan buf pick (nat len) (bytes_of ''mac_addr='');
            if n \<noteq> 17 then Some (0, g)
            else do {
              mac \<leftarrow> rd_n pick 0 17;
              Some (0, g\<lparr>ez_mac_addr := mac, rtw_initmac := Some mac\<rparr>) } }
          else Some (-1, g) }
      | _ \<Rightarrow> Some (-1, g))"

text \<open>\<open>pick\<close> is never freed; it is counted as leaked when it was allocated.\<close>

definition ez_wifi_preinit :: "ez_env \<Rightarrow> ez_env \<Rightarrow> ez_globals \<Rightarrow> (int \<times> ez_globals) option" where
  "ez_wifi_preinit env env_mac g =
     (if \<not> file_opens env \<or> alloc_buf env = None \<or> alloc_pick env = None then do {
        g \<leftarrow> ez_set_country (Some (bytes_of ''CN'' @ [0])) g; Some (-1, g) }
      else do {
        (len, buf) \<leftarrow> ez_os_get_image_block env (the (alloc_buf env)) EZ_CONFIG_BUF_SIZE;
        (ret, g) \<leftarrow>
          (if 0 < len \<and> len < int EZ_CONFIG_BUF_SIZE then do {
             (n, pick) \<leftarrow> ez_scan buf (the (alloc_pick env)) (nat len) (bytes_of ''ccode='');
             if n \<noteq> 0 then do {
               g \<leftarrow> ez_set_country (Some (if n \<noteq> 2 then bytes_of ''CN'' @ [0] else pick)) g;
               Some (0 :: int, g) }
             else Some (-1, g) }
           else Some (-1, g));
        (_, g) \<leftarrow> ez_get_mac_addr env_mac g;
        let g = g\<lparr>ez_leaked := ez_leaked g + 1\<rparr>;
        if ret = 0 then Some (0, g)
        else do { g \<leftarrow> ez_set_country (Some (bytes_of ''CN'' @ [0])) g; Some (-1, g) } })"

section \<open>The address in use\<close>

definition key_char2num :: "u8 \<Rightarrow> u8" where
  "key_char2num ch =
     (if 48 \<le> ch \<and> ch \<le> 57 then ch - 48
      else if 97 \<le> ch \<and> ch \<le> 102 then ch - 97 + 10
      else if 65 \<le> ch \<and> ch \<le> 70 then ch - 65 + 10
      else 0xff)"

definition str_2char2num :: "u8 \<Rightarrow> u8 \<Rightarrow> u8" where
  "str_2char2num hch lch = key_char2num hch * 10 + key_char2num lch"

definition key_2char2num :: "u8 \<Rightarrow> u8 \<Rightarrow> u8" where
  "key_2char2num hch lch = push_bit 4 (key_char2num hch) OR key_char2num lch"

text \<open>\<open>macstr2num\<close>, and the same loop in \<open>rtw_macaddr_cfg\<close>.\<close>

primrec macstr_loop :: "nat \<Rightarrow> bytes \<Rightarrow> nat \<Rightarrow> bytes option" where
  "macstr_loop 0 src kk = Some []"
| "macstr_loop (Suc n) src kk = do {
     h \<leftarrow> rd src kk; l \<leftarrow> rd src (kk + 1);
     rest \<leftarrow> macstr_loop n src (kk + 3);
     Some (key_2char2num h l # rest) }"

definition macstr2num :: "bytes \<Rightarrow> bytes option" where "macstr2num src = macstr_loop 6 src 0"

definition convert_ip_addr :: "u8 \<Rightarrow> u8 \<Rightarrow> u8 \<Rightarrow> u8" where
  "convert_ip_addr hch mch lch = key_char2num hch * 100 + key_char2num mch * 10 + key_char2num lch"

text \<open>\<open>rand\<close> is the four bytes of \<open>rtw_random32\<close>; the third byte of the result overwrites the first of them.\<close>

definition rtw_macaddr_cfg :: "bytes option \<Rightarrow> bytes \<Rightarrow> bytes option \<Rightarrow> bytes option" where
  "rtw_macaddr_cfg initmac rand hw_mac_addr = do {
     mac \<leftarrow> (case initmac of
              Some s \<Rightarrow> macstr_loop 6 s 0
            | None \<Rightarrow> (case hw_mac_addr of Some hw \<Rightarrow> rd_n hw 0 6 | None \<Rightarrow> Some (replicate 6 0)));
     invalid \<leftarrow> rtw_check_invalid_mac_address mac True;
     if invalid then do { mac \<leftarrow> wr_n mac 2 rand; wr_n mac 0 [0x00, 0xe0, 0x4c] } else Some mac }"

section \<open>A parser for addresses\<close>

definition ez_hexval :: "u8 \<Rightarrow> u32" where
  "ez_hexval c =
     (if 48 \<le> c \<and> c \<le> 57 then ucast c - 48
      else if 65 \<le> c \<and> c \<le> 70 then ucast c - 65 + 10
      else if 97 \<le> c \<and> c \<le> 102 then ucast c - 97 + 10
      else 0)"

definition ez_is_hex :: "u8 \<Rightarrow> bool" where
  "ez_is_hex c \<longleftrightarrow> 48 \<le> c \<and> c \<le> 57 \<or> 65 \<le> c AND 0xDF \<and> c AND 0xDF \<le> 70"

function ez_atox_loop :: "bytes \<Rightarrow> nat \<Rightarrow> u32 \<Rightarrow> u32 option" where
  "ez_atox_loop m s val =
     (if s < length m then
        (if ez_is_hex (m ! s) then ez_atox_loop m (s + 1) (val * 16 + ez_hexval (m ! s)) else Some val)
      else None)"
  by pat_completeness auto
termination by (relation "measure (\<lambda>(m, s, val). length m - s)") auto

declare ez_atox_loop.simps [simp del]

definition ez_atox :: "bytes \<Rightarrow> nat \<Rightarrow> u32 option" where "ez_atox m s = ez_atox_loop m s 0"

definition strlen :: "bytes \<Rightarrow> nat \<Rightarrow> nat option" where
  "strlen m p = (let n = length (takeWhile (\<lambda>c. c \<noteq> 0) (drop p m)) in if p + n < length m then Some n else None)"

text \<open>The loop of \<open>ez_strsep\<close> from \<open>p\<close>: the memory and the new value of \<open>*stringp\<close>.\<close>

function ez_strsep_loop :: "u8 \<Rightarrow> u8 \<Rightarrow> nat \<Rightarrow> bytes \<Rightarrow> (bytes \<times> nat option) option" where
  "ez_strsep_loop delim esc p m =
     (if p < length m then
        (let c = m ! p in
         if c = 0 then Some (m, None)
         else if c = esc \<and> p + 1 < length m \<and> (m ! (p + 1) = esc \<or> m ! (p + 1) = delim) then
           (case do { n \<leftarrow> strlen m p; bs \<leftarrow> rd_n m (p + 1) n; wr_n m p bs } of
              None \<Rightarrow> None
            | Some m' \<Rightarrow> if length m' = length m then ez_strsep_loop delim esc (p + 1) m' else None)
         else if c = esc \<and> length m \<le> p + 1 then None
         else if c = delim then Some (m[p := 0], Some (p + 1))
         else ez_strsep_loop delim esc (p + 1) m)
      else None)"
  by pat_completeness auto
termination by (relation "measure (\<lambda>(delim, esc, p, m). length m - p)") auto

declare ez_strsep_loop.simps [simp del]

text \<open>The result is the token, if any, with the memory and \<open>*stringp\<close>.\<close>

definition ez_strsep :: "bytes \<Rightarrow> nat option \<Rightarrow> u8 \<Rightarrow> u8 \<Rightarrow> (nat option \<times> bytes \<times> nat option) option" where
  "ez_strsep m stringp delim esc =
     (case stringp of
        None \<Rightarrow> Some (None, m, None)
      | Some s \<Rightarrow> do {
          c \<leftarrow> rd m s;
          if c = 0 then Some (None, m, stringp)
          else do { (m', sp') \<leftarrow> ez_strsep_loop delim esc s m; Some (Some s, m', sp') } })"

primrec mac2u8_loop :: "nat \<Rightarrow> nat \<Rightarrow> bytes \<Rightarrow> nat option \<Rightarrow> bytes \<Rightarrow> bytes option" where
  "mac2u8_loop 0 i buf p mac = Some mac"
| "mac2u8_loop (Suc n) i buf p mac = do {
     (sep, buf', p') \<leftarrow> ez_strsep buf p 58 47;
     mac' \<leftarrow> (case sep of None \<Rightarrow> Some mac | Some s \<Rightarrow> do { v \<leftarrow> ez_atox buf' s; wr mac i (ucast v) });
     mac2u8_loop n (i + 1) buf' p' mac' }"

text \<open>The copy of the string has room for a NUL, which is not written: \<open>junk\<close> is the byte that
  \<open>kmalloc\<close> left there.\<close>

definition ez_mac2u8 :: "u8 \<Rightarrow> bytes \<Rightarrow> bytes option \<Rightarrow> bytes option" where
  "ez_mac2u8 junk mac s =
     (case s of
        None \<Rightarrow> Some mac
      | Some str \<Rightarrow> do {
          n \<leftarrow> strlen str 0;
          mac2u8_loop 6 0 (take n str @ [junk]) (Some 0) mac })"

section \<open>Calibration\<close>

text \<open>\<open>efuse addr cnts\<close> is what \<open>rtw_efuse_mask_map_read\<close> reads, if it succeeds.\<close>

definition ez_read_efuse :: "(nat \<Rightarrow> nat \<Rightarrow> bytes option) \<Rightarrow> nat \<Rightarrow> nat \<Rightarrow> bytes option" where
  "ez_read_efuse efuse addr cnts = efuse addr cnts"

definition ez_read_efuse_mac :: "(nat \<Rightarrow> nat \<Rightarrow> bytes option) \<Rightarrow> int" where
  "ez_read_efuse_mac efuse =
     (case ez_read_efuse efuse 0xD7 6 of
        None \<Rightarrow> -1
      | Some mac \<Rightarrow> if mac = replicate 6 0xff \<or> mac = replicate 6 0 then -1 else 0)"

definition ez_read_efuse_rf :: "(nat \<Rightarrow> nat \<Rightarrow> bytes option) \<Rightarrow> int" where
  "ez_read_efuse_rf efuse =
     (case ez_read_efuse efuse 0x10 12 of
        None \<Rightarrow> -1
      | Some rf \<Rightarrow>
          if 0xFF \<in> set rf then -1
          else case ez_read_efuse efuse 0xB9 1 of
            None \<Rightarrow> -1
          | Some crystal \<Rightarrow>
              if crystal = [0xFF] then -1
              else case ez_read_efuse efuse 0xBA 1 of
                None \<Rightarrow> -1
              | Some thermal \<Rightarrow> if thermal = [0xFF] then -1 else 0)"

definition ez_read_eFuse_free_block :: "nat \<Rightarrow> nat \<Rightarrow> int" where
  "ez_read_eFuse_free_block max_size cur_size = (if int max_size - int cur_size \<le> 0 then -1 else 0)"

definition ez_rf_calibration_check :: "(nat \<Rightarrow> nat \<Rightarrow> bytes option) \<Rightarrow> nat \<Rightarrow> nat \<Rightarrow> int" where
  "ez_rf_calibration_check efuse max_size cur_size =
     (let mac = ez_read_efuse_mac efuse; rf = ez_read_efuse_rf efuse;
          free = ez_read_eFuse_free_block max_size cur_size;
          res = (if mac = -1 \<and> rf = -1 then 3 else if rf = -1 then 2 else if mac = -1 then 1 else 0) in
      if free = -1 then 4 else res)"

section \<open>What the scanner finds\<close>

definition plain :: "u8 \<Rightarrow> bool" where
  "plain c \<longleftrightarrow> c \<noteq> CR \<and> c \<noteq> LF \<and> c \<noteq> HASH \<and> c \<noteq> BACKSLASH"

text \<open>A line that does not set the variable: a comment, or text without special characters in which the
  variable stands neither at the start nor behind the first character.\<close>

definition quiet :: "bytes \<Rightarrow> bytes \<Rightarrow> bool" where
  "quiet var l \<longleftrightarrow> (l \<noteq> [] \<and> hd l = HASH \<and> LF \<notin> set l) \<or>
     ((\<forall>c \<in> set l. plain c) \<and> take (length var) l \<noteq> var \<and> take (length var) (tl l) \<noteq> var)"

fun no_double_space :: "bytes \<Rightarrow> bool" where
  "no_double_space (a # b # v) \<longleftrightarrow> \<not> (a = SPACE \<and> b = SPACE) \<and> no_double_space (b # v)"
| "no_double_space _ \<longleftrightarrow> True"

definition clean_value :: "bytes \<Rightarrow> bool" where
  "clean_value v \<longleftrightarrow> v \<noteq> [] \<and> (\<forall>c \<in> set v. plain c \<and> c \<noteq> TAB) \<and> no_double_space v"

definition fresh :: "cv_state \<Rightarrow> bool" where
  "fresh s \<longleftrightarrow> \<not> cv_pos s \<and> \<not> cv_n s \<and> cv_end s = 0"

lemma cv_loop_next: "i < len \<Longrightarrow> cv_step var buf i s = Some (i', s') \<Longrightarrow> cv_loop var buf len i s = cv_loop var buf len (i' + 1) s'"
  by (subst cv_loop.simps) simp

lemma drop_Suc_eq: "drop i xs = x # ys \<Longrightarrow> drop (Suc i) xs = ys"
  by (metis drop_Suc list.sel(3) tl_drop)

lemma memeq_here:
  assumes "drop i buf = l" "i + length var \<le> length buf"
  shows "memeq buf i var (length var) = Some (take (length var) l = var)"
  using assms memeq_in [of i "length var" buf var] by simp

text \<open>The rest of a line behind its first character.\<close>

lemma cv_rest_of_line:
  assumes "drop i buf = l @ LF # rest" "\<forall>c \<in> set l. plain c" "i + length l < len" "len + length var \<le> length buf"
    and "\<not> cv_pos s" "\<not> cv_n s" "\<not> cv_m s" "cv_end s \<noteq> 0"
  shows "cv_loop var buf len i s = cv_loop var buf len (i + length l + 1) (s\<lparr>cv_end := 0\<rparr>)"
  using assms
proof (induction l arbitrary: i s)
  case Nil
  then have "cv_step var buf i s = Some (i, s\<lparr>cv_end := 0\<rparr>)"
    by (cases s) (simp add: cv_step_def rd_drop)
  with Nil show ?case by (simp add: cv_loop_next)
next
  case (Cons c l)
  let ?s = "s\<lparr>cv_end := cv_end s + 1\<rparr>"
  have mem: "memeq buf i var (length var) = Some (take (length var) (c # l @ LF # rest) = var)"
    using Cons.prems by (intro memeq_here) auto
  have "cv_step var buf i s = Some (i, ?s)"
    using Cons.prems mem by (cases s) (auto simp: cv_step_def rd_drop plain_def)
  then have "cv_loop var buf len i s = cv_loop var buf len (Suc i) ?s"
    using Cons.prems(3) by (simp add: cv_loop_next)
  also have "\<dots> = cv_loop var buf len (Suc i + length l + 1) (?s\<lparr>cv_end := 0\<rparr>)"
    using Cons.prems drop_Suc_eq [of i buf c "l @ LF # rest"] by (intro Cons.IH) auto
  finally show ?case by (cases s) simp
qed

lemma cv_comment:
  assumes "drop i buf = l @ LF # rest" "LF \<notin> set l" "i + length l < len" "cv_pos s" "\<not> cv_n s"
  shows "cv_loop var buf len i s = cv_loop var buf len (i + length l + 1) (s\<lparr>cv_pos := False, cv_end := 0\<rparr>)"
  using assms
proof (induction l arbitrary: i)
  case Nil
  then show ?case by (simp add: cv_loop_next cv_step_def rd_drop)
next
  case (Cons c l)
  have "cv_step var buf i s = Some (i, s)" using Cons.prems by (auto simp: cv_step_def rd_drop)
  then have "cv_loop var buf len i s = cv_loop var buf len (Suc i) s" using Cons.prems(3) by (simp add: cv_loop_next)
  with Cons drop_Suc_eq [of i buf c "l @ LF # rest"] show ?case by simp
qed

lemma take_var_line:
  assumes "LF \<notin> set var" "take (length var) (l @ LF # rest) = var"
  shows "take (length var) l = var"
proof (cases "length var \<le> length l")
  case False
  then have "LF \<in> set (take (length var) (l @ LF # rest))" by (auto simp: take_Cons' split: nat.splits)
  with assms show ?thesis by simp
qed (use assms in simp)

lemma fresh_same [simp]: "fresh s \<Longrightarrow> s\<lparr>cv_end := 0\<rparr> = s" "fresh s \<Longrightarrow> s\<lparr>cv_pos := False, cv_end := 0\<rparr> = s"
  by (cases s; simp add: fresh_def)+

text \<open>A line of text that is not a match, when no value precedes it.\<close>

lemma cv_plain_line:
  assumes "drop i buf = l @ LF # rest" "\<forall>c \<in> set l. plain c" "take (length var) l \<noteq> var" "i + length l < len"
    and "len + length var \<le> length buf" "fresh s" "\<not> cv_m s" "LF \<notin> set var"
  shows "cv_loop var buf len i s = cv_loop var buf len (i + length l + 1) s"
proof (cases l)
  case Nil
  then have "cv_step var buf i s = Some (i, s)"
    using assms by (cases s) (simp add: cv_step_def rd_drop fresh_def)
  with Nil assms show ?thesis by (simp add: cv_loop_next)
next
  case (Cons c k)
  let ?s = "s\<lparr>cv_end := 1\<rparr>"
  have "memeq buf i var (length var) = Some False"
    using memeq_here [OF assms(1), of var] assms(3,4,5) take_var_line [OF assms(8)] by auto
  then have "cv_step var buf i s = Some (i, ?s)"
    using assms(1,2,6,7) Cons by (cases s) (auto simp: cv_step_def rd_drop fresh_def plain_def)
  then have "cv_loop var buf len i s = cv_loop var buf len (Suc i) ?s"
    using assms(4) Cons by (simp add: cv_loop_next)
  also have "\<dots> = cv_loop var buf len (Suc i + length k + 1) (?s\<lparr>cv_end := 0\<rparr>)"
    using assms Cons drop_Suc_eq [of i buf c "k @ LF # rest"] by (intro cv_rest_of_line) (auto simp: fresh_def)
  finally show ?thesis using Cons assms(6) by (cases s) (simp add: fresh_def)
qed

text \<open>A quiet line changes nothing but the memory of a value before it.\<close>

lemma cv_quiet_line:
  assumes "drop i buf = l @ LF # rest" "quiet var l" "i + length l < len" "len + length var \<le> length buf"
    and "fresh s" "LF \<notin> set var"
  shows "\<exists>m. cv_loop var buf len i s = cv_loop var buf len (i + length l + 1) (s\<lparr>cv_m := m\<rparr>)"
proof -
  consider (comment) k where "l = HASH # k" "LF \<notin> set k" | (empty) "l = []"
    | (words) "(\<forall>c \<in> set l. plain c) \<and> take (length var) l \<noteq> var" "\<not> cv_m s"
    | (after) c k where "l = c # k" "\<forall>c \<in> set l. plain c" "take (length var) l \<noteq> var" "take (length var) k \<noteq> var" "cv_m s"
    using assms(2) unfolding quiet_def by (cases l) auto
  then show ?thesis
  proof cases
    case comment
    have "cv_step var buf i s = Some (i, s\<lparr>cv_pos := True\<rparr>)"
      using assms(1,5) comment by (cases s) (simp add: cv_step_def rd_drop fresh_def)
    then have "cv_loop var buf len i s = cv_loop var buf len (Suc i) (s\<lparr>cv_pos := True\<rparr>)"
      using assms(3) comment by (simp add: cv_loop_next)
    also have "\<dots> = cv_loop var buf len (Suc i + length k + 1) s"
      using cv_comment [of "Suc i" buf k rest len "s\<lparr>cv_pos := True\<rparr>" var] assms(1,3,5) comment
        drop_Suc_eq [of i buf HASH "k @ LF # rest"] by (cases s) (simp add: fresh_def)
    finally show ?thesis using comment by (intro exI [of _ "cv_m s"]) simp
  next
    case empty
    then have "cv_step var buf i s = Some (i, s)"
      using assms by (cases s) (simp add: cv_step_def rd_drop fresh_def)
    with empty assms show ?thesis by (intro exI [of _ "cv_m s"]) (simp add: cv_loop_next)
  next
    case words
    with assms cv_plain_line [OF assms(1) _ _ assms(3,4,5)] show ?thesis by (intro exI [of _ "cv_m s"]) (cases s, simp)
  next
    case after
    let ?s = "s\<lparr>cv_m := False\<rparr>"
    have "memeq buf i var (length var) = Some False"
      using memeq_here [OF assms(1), of var] assms(3,4) take_var_line [OF assms(6)] after(3) by auto
    then have "cv_step var buf i s = Some (i, ?s)"
      using assms(1,5) after by (cases s) (auto simp: cv_step_def rd_drop fresh_def plain_def)
    then have "cv_loop var buf len i s = cv_loop var buf len (Suc i) ?s" using assms(3) after(1) by (simp add: cv_loop_next)
    also have "\<dots> = cv_loop var buf len (Suc i + length k + 1) ?s"
      using assms after drop_Suc_eq [of i buf c "k @ LF # rest"] by (intro cv_plain_line) (auto simp: fresh_def)
    finally show ?thesis using after(1) by (intro exI [of _ False]) simp
  qed
qed

lemma no_double_space_mid: "no_double_space (u @ c # w) \<Longrightarrow> u \<noteq> [] \<Longrightarrow> \<not> (last u = SPACE \<and> c = SPACE)"
proof (induction u)
  case (Cons a u)
  then show ?case by (cases u) auto
qed simp

lemma no_double_space_app: "no_double_space (u @ w) \<Longrightarrow> no_double_space u"
proof (induction u)
  case (Cons a u)
  then show ?case by (cases u) auto
qed simp

lemma rd_last: "u \<noteq> [] \<Longrightarrow> rd (u @ xs) (length u - 1) = Some (last u)"
  by (cases u rule: rev_cases) (simp_all add: rd_app)

lemma cv_copy_char:
  assumes "rd buf i = Some c" "c \<noteq> TAB" "cv_j s = length u" "cv_pick s = u @ x # slack"
    and "\<not> (u \<noteq> [] \<and> last u = SPACE \<and> c = SPACE)"
  shows "cv_copy buf i s = Some (s\<lparr>cv_pick := u @ c # slack, cv_j := Suc (length u), cv_m := True, cv_pos := False\<rparr>)"
proof -
  have "wr (u @ x # slack) (length u) c = Some (u @ c # slack)" by (simp add: wr_def)
  moreover have "rd (u @ x # slack) (length u - 1) = Some (last u)" if "u \<noteq> []" by (rule rd_last [OF that])
  ultimately show ?thesis using assms by (cases "u = []") (auto simp: cv_copy_def)
qed

text \<open>Copying part of a value.\<close>

lemma cv_copy_run:
  assumes "drop i buf = w @ rest" "\<forall>c \<in> set w. plain c \<and> c \<noteq> TAB" "no_double_space (u @ w)" "u \<noteq> []"
    and "i + length w \<le> len" "len + length var \<le> length buf" "\<not> cv_pos s" "\<not> cv_n s" "cv_m s" "cv_end s \<noteq> 0"
    and "cv_j s = length u" "cv_pick s = u @ slack" "length w \<le> length slack"
  shows "cv_loop var buf len i s = cv_loop var buf len (i + length w)
     (s\<lparr>cv_end := cv_end s + length w, cv_j := length (u @ w), cv_pick := u @ w @ drop (length w) slack\<rparr>)"
  using assms
proof (induction w arbitrary: i s u slack)
  case Nil
  then show ?case by (cases s) simp
next
  case (Cons c w)
  have mem: "\<exists>b. memeq buf i var (length var) = Some b"
    using Cons.prems memeq_in [of i "length var" buf var] by auto
  obtain x slack' where slack: "slack = x # slack'" using Cons.prems(13) by (cases slack) auto
  let ?s = "s\<lparr>cv_end := cv_end s + 1, cv_pick := (u @ [c]) @ slack', cv_j := length (u @ [c])\<rparr>"
  have c: "rd buf i = Some c" "plain c" "c \<noteq> TAB" using Cons.prems(1,2) by (simp_all add: rd_drop)
  have same: "s\<lparr>cv_end := e, cv_pick := p, cv_j := j, cv_m := True, cv_pos := False\<rparr> = s\<lparr>cv_end := e, cv_pick := p, cv_j := j\<rparr>"
    for e p j using Cons.prems(7,9) by (cases s) simp
  have "cv_copy buf i (s\<lparr>cv_end := cv_end s + 1\<rparr>) = Some ?s"
    using cv_copy_char [OF c(1,3), of "s\<lparr>cv_end := cv_end s + 1\<rparr>" u x slack'] Cons.prems(11,12) slack
      no_double_space_mid [OF Cons.prems(3,4)] same by simp
  then have "cv_step var buf i s = Some (i, ?s)"
    using Cons.prems(7-10) mem c by (auto simp: cv_step_def plain_def)
  then have "cv_loop var buf len i s = cv_loop var buf len (Suc i) ?s"
    using Cons.prems(5) by (simp add: cv_loop_next)
  also have "\<dots> = cv_loop var buf len (Suc i + length w) (?s\<lparr>cv_end := cv_end ?s + length w,
      cv_j := length ((u @ [c]) @ w), cv_pick := (u @ [c]) @ w @ drop (length w) slack'\<rparr>)"
  proof (rule Cons.IH)
    show "drop (Suc i) buf = w @ rest" using drop_Suc_eq [of i buf c "w @ rest"] Cons.prems(1) by simp
    show "length w \<le> length slack'" using Cons.prems(13) slack by simp
  qed (use Cons.prems in simp_all)
  finally show ?case using slack by simp
qed

definition var_ok :: "bytes \<Rightarrow> bool" where
  "var_ok var \<longleftrightarrow> var \<noteq> [] \<and> (\<forall>c \<in> set var. plain c)"

text \<open>The state behind the first character of a value.\<close>

abbreviation in_value :: "cv_state \<Rightarrow> bytes \<Rightarrow> u8 \<Rightarrow> bytes \<Rightarrow> cv_state" where
  "in_value s var c slack \<equiv> s\<lparr>cv_end := length var, cv_m := True, cv_j := length [c], cv_pick := [c] @ slack\<rparr>"

lemma cv_value_start:
  assumes "drop i buf = var @ c # rest" "plain c" "c \<noteq> TAB" "i < len" "i + length var \<le> length buf"
    and "fresh s" "var_ok var" "cv_pick s = x # slack"
  shows "cv_loop var buf len i s = cv_loop var buf len (Suc (i + length var)) (in_value s var c slack)"
proof -
  obtain b bs where var: "var = b # bs" using assms(7) by (cases var) (auto simp: var_ok_def)
  have dv: "drop (i + length var) buf = c # rest" using assms(1) drop_add [of i buf var] by simp
  have "memeq buf i var (length var) = Some True"
    using memeq_here [OF assms(1), of var] assms(5) by simp
  moreover have "cv_copy buf (i + length var) (s\<lparr>cv_end := length var, cv_j := 0\<rparr>) = Some (in_value s var c slack)"
    using assms(3,6,8) rd_drop [OF dv] by (subst cv_copy_char [of _ _ c _ "[]" x slack]) (auto simp: fresh_def)
  ultimately have "cv_step var buf i s = Some (i + length var, in_value s var c slack)"
    using assms(1,6,7) var by (auto simp: cv_step_def rd_drop fresh_def plain_def var_ok_def)
  then show ?thesis using assms(4) by (simp add: cv_loop_next)
qed

lemma cv_value_line:
  assumes "drop i buf = var @ v @ LF # rest" "clean_value v" "i + length var + length v < len"
    and "len + length var \<le> length buf" "fresh s" "var_ok var" "length v \<le> length (cv_pick s)"
  shows "cv_loop var buf len i s = cv_loop var buf len (i + length var + length v + 1)
     (s\<lparr>cv_m := True, cv_j := length v, cv_pick := v @ drop (length v) (cv_pick s)\<rparr>)"
proof -
  obtain c w where v: "v = c # w" using assms(2) by (cases v) (auto simp: clean_value_def)
  obtain x slack where pick: "cv_pick s = x # slack" using assms(7) v by (cases "cv_pick s") auto
  let ?i = "Suc (i + length var)" and ?s = "in_value s var c slack"
  let ?t = "?s\<lparr>cv_end := length var + length w, cv_j := length ([c] @ w), cv_pick := [c] @ w @ drop (length w) slack\<rparr>"
  have d: "drop ?i buf = w @ LF # rest" using drop_add [of i buf "var @ [c]" "w @ LF # rest"] assms(1) v by simp
  have "cv_loop var buf len i s = cv_loop var buf len ?i ?s"
    using assms v pick by (intro cv_value_start) (auto simp: clean_value_def)
  also have "\<dots> = cv_loop var buf len (?i + length w) ?t"
    using assms v pick d
    by (subst cv_copy_run [of ?i buf w "LF # rest" "[c]" len var ?s slack]) (auto simp: clean_value_def fresh_def var_ok_def)
  also have "cv_step var buf (?i + length w) ?t = Some (?i + length w, ?t\<lparr>cv_end := 0\<rparr>)"
    using drop_add [OF d] assms(5) by (cases s) (simp add: cv_step_def rd_drop fresh_def)
  then have "cv_loop var buf len (?i + length w) ?t = cv_loop var buf len (?i + length w + 1) (?t\<lparr>cv_end := 0\<rparr>)"
    using assms(3) v by (simp add: cv_loop_next)
  finally show ?thesis using v pick assms(5) by (cases s) (simp add: fresh_def)
qed

definition lines_of :: "bytes list \<Rightarrow> bytes" where "lines_of ls = concat (map (\<lambda>l. l @ [LF]) ls)"

lemma lines_of_simps [simp]: "lines_of [] = []" "lines_of (l # ls) = l @ LF # lines_of ls"
  by (simp_all add: lines_of_def)

lemma cv_quiet_lines:
  assumes "drop i buf = lines_of ls @ rest" "\<forall>l \<in> set ls. quiet var l" "i + length (lines_of ls) \<le> len"
    and "len + length var \<le> length buf" "fresh s" "LF \<notin> set var"
  shows "\<exists>m. cv_loop var buf len i s = cv_loop var buf len (i + length (lines_of ls)) (s\<lparr>cv_m := m\<rparr>)"
  using assms
proof (induction ls arbitrary: i s)
  case Nil
  then show ?case by (intro exI [of _ "cv_m s"]) simp
next
  case (Cons l ls)
  obtain m where m: "cv_loop var buf len i s = cv_loop var buf len (i + length l + 1) (s\<lparr>cv_m := m\<rparr>)"
    using cv_quiet_line [of i buf l "lines_of ls @ rest" var len s] Cons.prems by auto
  have "drop (i + length (l @ [LF])) buf = lines_of ls @ rest"
    using drop_add [of i buf "l @ [LF]"] Cons.prems(1) by simp
  with Cons.IH [of "i + length l + 1" "s\<lparr>cv_m := m\<rparr>"] Cons.prems m show ?case by (auto simp: fresh_def add.assoc)
qed

definition cv_start :: "bytes \<Rightarrow> cv_state" where
  "cv_start pick = \<lparr>cv_pos = False, cv_n = False, cv_m = False, cv_end = 0, cv_j = 0, cv_pick = pick\<rparr>"

lemma config_vars_found:
  assumes "buf = lines_of pre @ (var @ v) @ LF # lines_of post @ slack" "var_ok var" "clean_value v"
    and "\<forall>l \<in> set (pre @ post). quiet var l" "len = length buf - length slack" "length var \<le> length slack"
    and "length v \<le> length pick"
  shows "process_config_vars buf len pick var = Some (length v, v @ drop (length v) pick)"
proof -
  have lf: "LF \<notin> set var" using assms(2) by (auto simp: var_ok_def plain_def)
  let ?i = "length (lines_of pre)" and ?s = "cv_start pick"
  have fresh: "fresh ?s" by (simp add: fresh_def cv_start_def)
  have len: "len = ?i + length var + length v + 1 + length (lines_of post)" using assms(1,5) by simp
  have bound: "len + length var \<le> length buf" using assms(1,5,6) by simp
  obtain m where 1: "cv_loop var buf len 0 ?s = cv_loop var buf len ?i (?s\<lparr>cv_m := m\<rparr>)"
    using cv_quiet_lines [of 0 buf pre "var @ v @ LF # lines_of post @ slack" var len ?s] assms(1,4) fresh lf len bound by auto
  let ?s1 = "?s\<lparr>cv_m := True, cv_j := length v, cv_pick := v @ drop (length v) pick\<rparr>"
  have "cv_loop var buf len ?i (?s\<lparr>cv_m := m\<rparr>) = cv_loop var buf len (?i + length var + length v + 1) ?s1"
    using assms(1,2,3,7) fresh len bound
    by (subst cv_value_line [of _ _ _ v "lines_of post @ slack"]) (auto simp: fresh_def cv_start_def)
  moreover have "drop (?i + length var + length v + 1) buf = lines_of post @ slack" using assms(1) by simp
  then obtain m2 where "cv_loop var buf len (?i + length var + length v + 1) ?s1 = cv_loop var buf len len (?s1\<lparr>cv_m := m2\<rparr>)"
    using cv_quiet_lines [of "?i + length var + length v + 1" buf post slack var len ?s1] assms(4) fresh lf len bound
    by (auto simp: fresh_def add.assoc)
  moreover have "cv_loop var buf len len s = Some s" for s by (subst cv_loop.simps) simp
  ultimately show ?thesis using 1 by (simp add: process_config_vars_def cv_start_def)
qed

text \<open>The scanner finds a variable: in a file of lines of which one sets the variable to a value without
  special characters and no other line starts with it, as text or in its second column,
  \<open>process_config_vars\<close> returns the length of the value and leaves the value in the buffer, whatever
  comments and other lines stand around it.\<close>

theorem process_config_vars_finds:
  assumes "buf = lines_of pre @ (var @ v) @ LF # lines_of post @ slack" and "var_ok var" and "clean_value v"
    and "\<forall>l \<in> set (pre @ post). quiet var l" and "len = length buf - length slack" and "length var \<le> length slack"
    and "length v \<le> length pick"
  shows "process_config_vars buf len pick var = Some (length v, v @ drop (length v) pick)"
  using assms by (rule config_vars_found)

theorem process_config_vars_finds_witness:
  "process_config_vars (lines_of [bytes_of ''# unit'', bytes_of ''mode=2''] @ (bytes_of ''ccode='' @ bytes_of ''US'') @ LF #
       lines_of [bytes_of ''mac_addr=x''] @ replicate 10 0) 34 (replicate 4 0) (bytes_of ''ccode='') =
     Some (length (bytes_of ''US''), bytes_of ''US'' @ drop (length (bytes_of ''US'')) (replicate 4 0))"
proof (rule process_config_vars_finds [OF refl])
  show "var_ok (bytes_of ''ccode='')" by (simp add: bytes_of_def var_ok_def plain_def)
  show "clean_value (bytes_of ''US'')" by (simp add: bytes_of_def clean_value_def plain_def)
  show "\<forall>l \<in> set ([bytes_of ''# unit'', bytes_of ''mode=2''] @ [bytes_of ''mac_addr=x'']). quiet (bytes_of ''ccode='') l"
    by (simp add: bytes_of_def quiet_def plain_def)
qed (simp_all add: bytes_of_def)

section \<open>Findings on the scanner\<close>

text \<open>An empty value is not empty: with nothing behind the variable the scanner copies the line end and
  goes on with the next line, so that \<open>ccode=\<close> followed by \<open>ab\<close> yields the three characters of line end
  and \<open>ab\<close>.\<close>

theorem process_config_vars_empty_value:
  "process_config_vars (bytes_of ''ccode='' @ [LF] @ bytes_of ''ab'' @ [LF] @ replicate 10 0) 10 (replicate 8 0)
     (bytes_of ''ccode='') = Some (3, [LF] @ bytes_of ''ab'' @ replicate 5 0)"
  by code_simp

text \<open>A value that does not fit is written past its buffer: with any clean value longer than the buffer
  \<open>pick\<close> the scanner leaves the buffer. The driver passes it a file of up to 4095 bytes and a buffer of
  1024.\<close>

theorem process_config_vars_overflow:
  assumes "buf = (var @ v) @ LF # slack" and "var_ok var" and "clean_value v" and "len = length buf - length slack"
    and "length var \<le> length slack" and "length pick < length v" and "pick \<noteq> []"
  shows "process_config_vars buf len pick var = None"
proof -
  obtain c w where v: "v = c # w" using assms(3) by (cases v) (auto simp: clean_value_def)
  obtain x slack' where pick: "pick = x # slack'" using assms(7) by (cases pick) auto
  define w1 where "w1 = take (length slack') w"
  obtain e w2 where w: "w = w1 @ e # w2" and len1: "length w1 = length slack'"
    using assms(6) v pick id_take_nth_drop [of "length slack'" w] by (auto simp: w1_def)
  let ?s = "in_value (cv_start pick) var c slack'" and ?i = "Suc (length var)"
  let ?t = "?s\<lparr>cv_end := length var + length w1, cv_j := length ([c] @ w1), cv_pick := [c] @ w1\<rparr>"
  have d: "drop ?i buf = w1 @ e # w2 @ LF # slack" using assms(1) v w by simp
  have clean: "no_double_space ([c] @ w1)" "\<forall>c \<in> set w1. plain c \<and> c \<noteq> TAB" "plain e" "e \<noteq> TAB"
      "\<not> (last ([c] @ w1) = SPACE \<and> e = SPACE)"
  proof -
    have nd: "no_double_space (([c] @ w1) @ e # w2)" using assms(3) v w by (simp add: clean_value_def)
    then show "no_double_space ([c] @ w1)" by (rule no_double_space_app)
    show "\<not> (last ([c] @ w1) = SPACE \<and> e = SPACE)" using nd by (rule no_double_space_mid) simp
  qed (use assms(3) v w in \<open>simp_all add: clean_value_def\<close>)
  have bound: "len + length var \<le> length buf" "?i + length w1 < len" using assms(1,4,5) v w by simp_all
  have "cv_loop var buf len 0 (cv_start pick) = cv_loop var buf len ?i ?s"
    using assms(1,2,3) v pick bound cv_value_start [of 0 buf var c "w @ LF # slack" len "cv_start pick" x slack']
    by (simp add: clean_value_def fresh_def cv_start_def)
  also have "\<dots> = cv_loop var buf len (?i + length w1) ?t"
    using cv_copy_run [OF d clean(2,1), of len var ?s slack'] bound len1 assms(2)
    by (simp add: cv_start_def var_ok_def)
  also have "\<dots> = None"
  proof -
    have "rd buf (?i + length w1) = Some e" using drop_add [OF d] by (rule rd_drop)
    moreover have "\<exists>b. memeq buf (?i + length w1) var (length var) = Some b"
      using memeq_in [of "?i + length w1" "length var" buf var] bound by simp
    moreover have "rd ([c] @ w1) (length ([c] @ w1) - 1) = Some (last ([c] @ w1))" using rd_last [of "[c] @ w1" "[]"] by simp
    moreover have "cv_pos ?t = False" "cv_n ?t = False" "cv_m ?t = True" "cv_end ?t \<noteq> 0" "cv_j ?t = length ([c] @ w1)"
        "cv_pick ?t = [c] @ w1"
      using assms(2) by (simp_all add: cv_start_def var_ok_def)
    ultimately have "cv_step var buf (?i + length w1) ?t = None"
      using clean(3-5) by (auto simp: cv_step_def cv_copy_def plain_def wr_def)
    then show ?thesis using bound(2) by (subst cv_loop.simps) simp
  qed
  finally show ?thesis by (simp add: process_config_vars_def cv_start_def)
qed

theorem process_config_vars_overflow_witness:
  "process_config_vars ((bytes_of ''ccode='' @ bytes_of ''USA'') @ LF # replicate 10 0) 10 (replicate 2 0) (bytes_of ''ccode='') =
     None"
proof (rule process_config_vars_overflow [OF refl])
  show "var_ok (bytes_of ''ccode='')" by (simp add: bytes_of_def var_ok_def plain_def)
  show "clean_value (bytes_of ''USA'')" by (simp add: bytes_of_def clean_value_def plain_def)
qed (simp_all add: bytes_of_def)

section \<open>Country codes and channel plans\<close>

lemma bytes_of_inj: "bytes_of s = bytes_of t \<longleftrightarrow> s = t"
proof -
  have "inj (of_char :: char \<Rightarrow> u8)"
  proof (rule injI)
    fix c d :: char
    assume "(of_char c :: u8) = of_char d"
    then have "(of_nat (of_char c) :: u8) = of_nat (of_char d)" by (simp add: of_nat_of_char)
    then have "unat (of_nat (of_char c) :: u8) = unat (of_nat (of_char d) :: u8)" by (rule arg_cong)
    then have "(of_char c :: nat) mod 256 = of_char d mod 256" by (simp only: unat_of_nat) simp
    then have "(of_char c :: nat) = of_char d" by (simp only: of_char_mod_256)
    then show "c = d" by simp
  qed
  then show ?thesis by (simp add: bytes_of_def inj_map_eq_map)
qed

lemma code_table_length: "\<forall>c \<in> set codes. length c = 2 \<Longrightarrow> length (code_table codes) = 3 * length codes"
  by (induction codes) (auto simp: code_table_def bytes_of_def)

text \<open>The loop looks a code up in the list that the table encodes.\<close>

lemma woal_loop_mem:
  assumes "\<forall>c \<in> set codes. length c = 2" "2 \<le> length cc" "drop i tab = code_table codes"
  shows "woal_loop cc tab i = Some (take 2 cc \<in> bytes_of ` set codes)"
  using assms
proof (induction codes arbitrary: i)
  case Nil
  then have "length tab \<le> i" by (simp add: code_table_def)
  then show ?case by (subst woal_loop.simps) simp
next
  case (Cons c codes)
  have d: "drop i tab = (bytes_of c @ [0]) @ code_table codes" using Cons.prems(3) by (simp add: code_table_def)
  have len: "length (bytes_of c) = 2" using Cons.prems(1) by (simp add: bytes_of_def)
  have bound: "i + 3 \<le> length tab" using drop_app_le [OF d] len by simp
  have "rd_n tab i 2 = Some (bytes_of c)" using d len bound by (simp add: rd_n_def)
  moreover have "drop (i + 3) tab = code_table codes" using drop_add [OF d] len by simp
  ultimately show ?case
    using Cons.IH [of "i + 3"] Cons.prems(1,2) bound by (subst woal_loop.simps) (auto simp: rd_n_def)
qed

lemma two_letter_codes:
  "\<forall>c \<in> set us_country_code_table. length c = 2" "\<forall>c \<in> set eu_country_code_table. length c = 2"
  "\<forall>c \<in> set jp_country_code_table. length c = 2" "\<forall>c \<in> set br_country_code_table. length c = 2"
  "\<forall>c \<in> set etsi_country_code_table. length c = 2" "\<forall>c \<in> set apec_country_code_table. length c = 2"
  "\<forall>c \<in> set other_country_code_table. length c = 2"
  by (simp_all add: us_country_code_table_def eu_country_code_table_def jp_country_code_table_def
      br_country_code_table_def etsi_country_code_table_def apec_country_code_table_def other_country_code_table_def)

definition plan_of :: "string \<Rightarrow> nat" where
  "plan_of code =
     (if code \<in> set us_country_code_table then 0x43
      else if code \<in> set eu_country_code_table then 0x42
      else if code \<in> set jp_country_code_table then 0x37
      else 0x62)"

lemma set_country_plan:
  assumes "length code = 2"
  shows "ez_set_country (Some (bytes_of code @ rest)) g = Some (g\<lparr>rtw_channel_plan := plan_of code\<rparr>)"
proof -
  have mem: "woal_loop (bytes_of code @ rest) (code_table codes) 0 = Some (code \<in> set codes)"
    if "\<forall>c \<in> set codes. length c = 2" for codes
  proof -
    have "take 2 (bytes_of code @ rest) = bytes_of code" "2 \<le> length (bytes_of code @ rest)"
      using assms by (simp_all add: bytes_of_def)
    with woal_loop_mem [OF that, of "bytes_of code @ rest" 0 "code_table codes"] show ?thesis
      by (auto simp: bytes_of_inj)
  qed
  show ?thesis
    using two_letter_codes by (simp add: ez_set_country_def woal_is_us_country_def woal_is_eu_country_def
        woal_is_jp_country_def mem plan_of_def)
qed

text \<open>The channel plan of a country: \<open>ez_set_country\<close> sets plan \<open>0x43\<close> for the codes of the US table,
  \<open>0x42\<close> for those of the EU table, \<open>0x37\<close> for Japan and \<open>0x62\<close> for every other code of two letters, and the
  first three tables have no code in common.\<close>

theorem ez_set_country_plan:
  assumes "length code = 2"
  shows "ez_set_country (Some (bytes_of code @ rest)) g = Some (g\<lparr>rtw_channel_plan := plan_of code\<rparr>) \<and>
     set us_country_code_table \<inter> set eu_country_code_table = {} \<and>
     (set us_country_code_table \<union> set eu_country_code_table) \<inter> set jp_country_code_table = {}"
  using set_country_plan [OF assms]
  by (simp add: us_country_code_table_def eu_country_code_table_def jp_country_code_table_def)

theorem ez_set_country_plan_witness:
  "ez_set_country (Some (bytes_of ''CN'' @ [0]))
       \<lparr>rtw_channel_plan = 0, rtw_initmac = None, ez_mac_addr = [], ez_leaked = 0\<rparr> =
     Some \<lparr>rtw_channel_plan = 0x62, rtw_initmac = None, ez_mac_addr = [], ez_leaked = 0\<rparr>"
  using ez_set_country_plan [of "''CN''" "[0]" "\<lparr>rtw_channel_plan = 0, rtw_initmac = None, ez_mac_addr = [], ez_leaked = 0\<rparr>"]
  by (simp add: plan_of_def us_country_code_table_def eu_country_code_table_def jp_country_code_table_def)

section \<open>The whole initialisation\<close>

text \<open>The environment of a file that reads: the block is the text, the buffers have their sizes.\<close>

definition reads :: "ez_env \<Rightarrow> bytes \<Rightarrow> bool" where
  "reads env txt \<longleftrightarrow> file_opens env \<and> kernel_read env EZ_CONFIG_BUF_SIZE = (int (length txt), txt) \<and>
     (\<exists>buf. alloc_buf env = Some buf \<and> length buf = EZ_CONFIG_BUF_SIZE) \<and>
     (\<exists>pick. alloc_pick env = Some pick \<and> length pick = EZ_PICK_BUF_SIZE)"

text \<open>A file that sets the variable once. The room behind it keeps comparisons near the end of the file
  inside the buffer.\<close>

definition sets :: "bytes \<Rightarrow> bytes \<Rightarrow> bytes \<Rightarrow> bool" where
  "sets txt var v \<longleftrightarrow> (\<exists>pre post. txt = lines_of pre @ (var @ v) @ LF # lines_of post \<and>
     (\<forall>l \<in> set (pre @ post). quiet var l)) \<and> clean_value v \<and> length txt + length var \<le> EZ_CONFIG_BUF_SIZE"

lemma ez_scan_finds:
  assumes "sets txt var v" "var_ok var" "length buf = EZ_CONFIG_BUF_SIZE" "length pick = EZ_PICK_BUF_SIZE"
    and "length v \<le> EZ_PICK_BUF_SIZE"
  shows "ez_scan (txt @ drop (length txt) buf) pick (length txt) var =
     Some (length v, v @ replicate (EZ_PICK_BUF_SIZE - length v) 0)"
proof -
  obtain pre post where tx: "txt = lines_of pre @ (var @ v) @ LF # lines_of post" "\<forall>l \<in> set (pre @ post). quiet var l"
    using assms(1) by (auto simp: sets_def)
  let ?slack = "(drop (length txt) buf)[0 := 0]"
  have v: "clean_value v" "length txt + length var \<le> length buf" "0 < length var"
    using assms(1-3) by (auto simp: sets_def var_ok_def)
  have "length txt < length buf" using v by linarith
  then have "wr (txt @ drop (length txt) buf) (length txt) 0 = Some (txt @ ?slack)"
    by (simp add: wr_def list_update_append)
  moreover have "memset pick 0 0 EZ_PICK_BUF_SIZE = Some (replicate EZ_PICK_BUF_SIZE 0)"
    using assms(4) by (simp add: memset_def wr_n_def)
  moreover have "process_config_vars (txt @ ?slack) (length txt) (replicate EZ_PICK_BUF_SIZE 0) var =
      Some (length v, v @ drop (length v) (replicate EZ_PICK_BUF_SIZE 0))"
    using tx v assms(2,5) by (intro config_vars_found [of _ pre _ _ post ?slack]) auto
  ultimately show ?thesis by (simp add: ez_scan_def)
qed

lemma image_block:
  assumes "length buf = EZ_CONFIG_BUF_SIZE" "kernel_read env EZ_CONFIG_BUF_SIZE = (int (length txt), txt)"
    and "length txt \<le> EZ_CONFIG_BUF_SIZE"
  shows "ez_os_get_image_block env buf EZ_CONFIG_BUF_SIZE = Some (int (length txt), txt @ drop (length txt) buf)"
  using assms by (simp add: ez_os_get_image_block_def wr_n_def)

lemma sets_length: "sets txt var v \<Longrightarrow> var_ok var \<Longrightarrow> 0 < length txt \<and> length txt < EZ_CONFIG_BUF_SIZE"
  by (cases var) (auto simp: sets_def var_ok_def)

lemma var_names: "var_ok (bytes_of ''ccode='')" "var_ok (bytes_of ''mac_addr='')"
  by (simp_all add: var_ok_def plain_def bytes_of_def)

lemma get_mac_addr_reads:
  assumes "reads env txt" "sets txt (bytes_of ''mac_addr='') mac" "length mac = 17"
  shows "ez_get_mac_addr env g = Some (0, g\<lparr>ez_mac_addr := mac, rtw_initmac := Some mac\<rparr>)"
proof -
  obtain buf pick where env: "alloc_buf env = Some buf" "length buf = EZ_CONFIG_BUF_SIZE" "alloc_pick env = Some pick"
      "length pick = EZ_PICK_BUF_SIZE" "file_opens env" "kernel_read env EZ_CONFIG_BUF_SIZE = (int (length txt), txt)"
    using assms(1) by (auto simp: reads_def)
  have len: "0 < length txt" "length txt < EZ_CONFIG_BUF_SIZE" using sets_length [OF assms(2) var_names(2)] by auto
  have "ez_scan (txt @ drop (length txt) buf) pick (length txt) (bytes_of ''mac_addr='') =
      Some (length mac, mac @ replicate (EZ_PICK_BUF_SIZE - length mac) 0)"
    using assms(2,3) env by (intro ez_scan_finds var_names) (auto simp: EZ_PICK_BUF_SIZE_def)
  with env len image_block [OF env(2,6)] assms(3) show ?thesis
    by (simp add: ez_get_mac_addr_def rd_n_def)
qed

text \<open>The configuration takes effect: with a file that sets \<open>ccode\<close> to a code of two letters and \<open>mac_addr\<close>
  to a string of 17 characters, \<open>ez_wifi_preinit\<close> succeeds, selects the channel plan of the country and
  makes the string the initial address. One scan buffer is leaked.\<close>

theorem ez_wifi_preinit_configures:
  assumes "reads env txt" and "reads env_mac txt" and "sets txt (bytes_of ''ccode='') (bytes_of code)" and "length code = 2"
    and "sets txt (bytes_of ''mac_addr='') mac" and "length mac = 17"
  shows "ez_wifi_preinit env env_mac g = Some (0, g\<lparr>rtw_channel_plan := plan_of code, ez_mac_addr := mac,
     rtw_initmac := Some mac, ez_leaked := ez_leaked g + 1\<rparr>)"
proof -
  obtain buf pick where env: "alloc_buf env = Some buf" "length buf = EZ_CONFIG_BUF_SIZE" "alloc_pick env = Some pick"
      "length pick = EZ_PICK_BUF_SIZE" "file_opens env" "kernel_read env EZ_CONFIG_BUF_SIZE = (int (length txt), txt)"
    using assms(1) by (auto simp: reads_def)
  have len: "0 < length txt" "length txt < EZ_CONFIG_BUF_SIZE" using sets_length [OF assms(3) var_names(1)] by auto
  have "ez_scan (txt @ drop (length txt) buf) pick (length txt) (bytes_of ''ccode='') =
      Some (length (bytes_of code), bytes_of code @ replicate (EZ_PICK_BUF_SIZE - length (bytes_of code)) 0)"
    using assms(3,4) env by (intro ez_scan_finds var_names) (auto simp: EZ_PICK_BUF_SIZE_def bytes_of_def)
  moreover have "length (bytes_of code) = 2" using assms(4) by (simp add: bytes_of_def)
  ultimately show ?thesis
    using env len image_block [OF env(2,6)] set_country_plan [OF assms(4)] get_mac_addr_reads [OF assms(2,5,6)]
    by (simp add: ez_wifi_preinit_def)
qed

definition sample_config :: bytes where
  "sample_config = lines_of [] @ (bytes_of ''ccode='' @ bytes_of ''US'') @ LF #
     lines_of [bytes_of ''mac_addr='' @ bytes_of ''00:e0:4c:01:02:03'']"

definition sample_env :: ez_env where
  "sample_env = \<lparr>file_opens = True, kernel_read = (\<lambda>_. (int (length sample_config), sample_config)),
     alloc_buf = Some (replicate EZ_CONFIG_BUF_SIZE 0), alloc_pick = Some (replicate EZ_PICK_BUF_SIZE 0)\<rparr>"

theorem ez_wifi_preinit_configures_witness:
  "ez_wifi_preinit sample_env sample_env \<lparr>rtw_channel_plan = 0, rtw_initmac = None, ez_mac_addr = [], ez_leaked = 0\<rparr> =
     Some (0, \<lparr>rtw_channel_plan = 0x43, rtw_initmac = Some (bytes_of ''00:e0:4c:01:02:03''),
       ez_mac_addr = bytes_of ''00:e0:4c:01:02:03'', ez_leaked = 1\<rparr>)"
proof -
  let ?mac = "bytes_of ''00:e0:4c:01:02:03''"
  have env: "reads sample_env sample_config" by (simp add: reads_def sample_env_def)
  have "sets sample_config (bytes_of ''ccode='') (bytes_of ''US'')"
    unfolding sets_def
  proof (intro conjI exI)
    show "sample_config = lines_of [] @ (bytes_of ''ccode='' @ bytes_of ''US'') @ LF # lines_of [bytes_of ''mac_addr='' @ ?mac]"
      by (rule sample_config_def)
  qed (simp_all add: quiet_def plain_def clean_value_def bytes_of_def sample_config_def EZ_CONFIG_BUF_SIZE_def)
  moreover have "sets sample_config (bytes_of ''mac_addr='') ?mac"
    unfolding sets_def
  proof (intro conjI exI)
    show "sample_config = lines_of [bytes_of ''ccode='' @ bytes_of ''US''] @ (bytes_of ''mac_addr='' @ ?mac) @ LF # lines_of []"
      by (simp add: sample_config_def)
  qed (simp_all add: quiet_def plain_def clean_value_def bytes_of_def sample_config_def EZ_CONFIG_BUF_SIZE_def)
  moreover have "length ?mac = 17" by (simp add: bytes_of_def)
  moreover have "plan_of ''US'' = 0x43" by (simp add: plan_of_def us_country_code_table_def)
  ultimately show ?thesis
    using ez_wifi_preinit_configures [OF env env, of "''US''" ?mac] by simp
qed

section \<open>The address of the adapter\<close>

text \<open>The usual notation of an address.\<close>

definition hex_digit :: "nat \<Rightarrow> u8" where
  "hex_digit n = (if n < 10 then of_nat (48 + n) else of_nat (87 + n))"

definition hex2 :: "u8 \<Rightarrow> bytes" where
  "hex2 b = [hex_digit (unat b div 16), hex_digit (unat b mod 16)]"

fun mac_string :: "bytes \<Rightarrow> bytes" where
  "mac_string [] = []"
| "mac_string [b] = hex2 b"
| "mac_string (b # bs) = hex2 b @ 58 # mac_string bs"

lemma key_char2num_hex: "n < 16 \<Longrightarrow> key_char2num (hex_digit n) = of_nat n"
proof -
  assume "n < 16"
  then have "n \<in> set [0..<16]" by simp
  moreover have "\<forall>n \<in> set [0..<16]. key_char2num (hex_digit n) = of_nat n" by code_simp
  ultimately show ?thesis by blast
qed

lemma key_2char2num_hex: "key_2char2num (hex_digit (unat b div 16)) (hex_digit (unat b mod 16)) = b"
proof -
  have "b = push_bit 4 (drop_bit 4 b) OR take_bit 4 b"
    by (rule bit_word_eqI) (auto simp: bit_simps)
  moreover have "(of_nat (unat b div 16) :: u8) = drop_bit 4 b" "(of_nat (unat b mod 16) :: u8) = take_bit 4 b"
    using unsigned_less [of b, where 'a = nat]
    by (simp_all add: word_unat_eq_iff unat_of_nat drop_bit_eq_div take_bit_eq_mod unat_div_distrib unat_mod_distrib)
  moreover have "unat b div 16 < 16" using unsigned_less [of b, where 'a = nat] by simp
  ultimately show ?thesis by (simp add: key_2char2num_def key_char2num_hex)
qed

lemma macstr_loop_string:
  assumes "drop kk src = mac_string bs @ rest"
  shows "macstr_loop (length bs) src kk = Some bs"
  using assms
proof (induction bs arbitrary: kk rule: mac_string.induct)
  case (2 b)
  from "2.prems" rd2_drop [of kk src "hex_digit (unat b div 16)" "hex_digit (unat b mod 16)" rest] show ?case
    by (simp add: hex2_def key_2char2num_hex)
next
  case (3 b c bs)
  let ?post = "58 # mac_string (c # bs) @ rest"
  have "drop (kk + 3) src = mac_string (c # bs) @ rest"
    using drop_add [of kk src "hex2 b @ [58]" "mac_string (c # bs) @ rest"] "3.prems"
    by (simp add: hex2_def numeral_3_eq_3)
  from "3.IH" [OF this] "3.prems"
    rd2_drop [of kk src "hex_digit (unat b div 16)" "hex_digit (unat b mod 16)" ?post] show ?case
    by (simp add: hex2_def key_2char2num_hex)
qed simp

text \<open>The configured address is the adapter's: \<open>rtw_macaddr_cfg\<close> on the printed form of six bytes returns
  them, for every unicast address that is globally administered and not zero; without a configured address it
  returns the one of the hardware under the same condition; and in every other case an address of the vendor
  prefix \<open>00:e0:4c\<close>.\<close>

theorem rtw_macaddr_cfg_correct:
  assumes "length mac = 6" and "length rand = 4"
  shows "\<exists>out. rtw_macaddr_cfg (if configured then Some (mac_string mac @ rest) else None) rand (Some mac) = Some out \<and>
     (if mac \<noteq> replicate 6 0 \<and> \<not> bit (hd mac) 0 \<and> \<not> bit (hd mac) 1 then out = mac
      else length out = 6 \<and> take 3 out = [0x00, 0xe0, 0x4c])"
proof -
  have loop: "macstr_loop 6 (mac_string mac @ rest) 0 = Some mac"
    using macstr_loop_string [of 0 "mac_string mac @ rest" mac rest] assms(1) by simp
  have src: "(case if configured then Some (mac_string mac @ rest) else None of Some s \<Rightarrow> macstr_loop 6 s 0
     | None \<Rightarrow> (case Some mac of Some hw \<Rightarrow> rd_n hw 0 6 | None \<Rightarrow> Some (replicate 6 0))) = Some mac"
    using loop assms(1) by (simp add: rd_n_def)
  obtain a where a: "rd mac 0 = Some a" "hd mac = a" using assms(1) by (cases mac) (auto simp: rd_def)
  have bits: "a AND 1 \<noteq> 0 \<longleftrightarrow> bit a 0" "a AND 2 \<noteq> 0 \<longleftrightarrow> bit a 1"
    using and_exp_eq_0_iff_not_bit [of a 0] and_exp_eq_0_iff_not_bit [of a 1] by simp_all
  have ones: "bit a 0" if "mac = replicate 6 0xff" using that a(2) by simp
  have "rtw_check_invalid_mac_address mac True = Some (\<not> (mac \<noteq> replicate 6 0 \<and> \<not> bit a 0 \<and> \<not> bit a 1))"
    using assms(1) a(1) bits ones by (auto simp: rtw_check_invalid_mac_address_def memeq_def rd_n_def)
  moreover have "\<exists>out. wr_n mac 2 rand \<bind> (\<lambda>m. wr_n m 0 [0x00, 0xe0, 0x4c]) = Some out \<and> length out = 6 \<and>
      take 3 out = [0x00, 0xe0, 0x4c]"
    using assms by (simp add: wr_n_def)
  ultimately show ?thesis using src a(2) unfolding rtw_macaddr_cfg_def by auto
qed

theorem rtw_macaddr_cfg_correct_witness:
  "rtw_macaddr_cfg (Some (bytes_of ''00:e0:4c:01:02:ff'')) [1, 2, 3, 4] (Some [0x00, 0xe0, 0x4c, 1, 2, 0xff]) =
     Some [0x00, 0xe0, 0x4c, 1, 2, 0xff]"
proof -
  have "mac_string [0x00, 0xe0, 0x4c, 1, 2, 0xff] @ [] = bytes_of ''00:e0:4c:01:02:ff''" by code_simp
  with rtw_macaddr_cfg_correct [of "[0x00, 0xe0, 0x4c, 1, 2, 0xff]" "[1, 2, 3, 4]" True "[]"] show ?thesis
    by (simp add: eval_nat_numeral)
qed

end
