(* ===== verification/Ez_Sc.thy ===== *)
theory Ez_Sc
  imports Ez_Config Ie_Core
begin

text \<open>
  The onboarding protocol of \<open>os_dep/linux/ez_sc.c\<close>, with the calls in \<open>OnProbeReq\<close> and \<open>OnProbeRsp\<close>
  (\<open>core/rtw_mlme_ext.c\<close>) and the dispatch in \<open>rtw_ioctl\<close> (\<open>os_dep/linux/ioctl_linux.c\<close>). The protocol
  runs in vendor elements 207, 208 and 209 of probe frames. User space fills and reads the tables through
  four ioctls, and a peer on the air fills them through probe frames.

  The log lines that print a string are part of the definitions, since they read until a zero byte.

  The kernel's \<open>copy_from_user\<close> and \<open>copy_to_user\<close> are parameters: the record \<open>user_mem\<close> gives, for an address
  and a length, the number of bytes that could not be copied and the bytes the destination then has.
\<close>

section \<open>Data\<close>

definition EZ_SYNC_CODE_LEN :: nat where "EZ_SYNC_CODE_LEN = 5"
definition EZ_VALUE_LEN :: nat where "EZ_VALUE_LEN = 32"
definition EZ_NEW_SC_BUF_LEN :: nat where "EZ_NEW_SC_BUF_LEN = 512"
definition EZ_DEVICE_SN_LEN :: nat where "EZ_DEVICE_SN_LEN = 9"
definition EZ_DEVICE_INFO_LEN :: nat where "EZ_DEVICE_INFO_LEN = 41"
definition WLAN_MAX_VENDOR_IE_LEN :: nat where "WLAN_MAX_VENDOR_IE_LEN = 255"
definition WLAN_MAX_VENDOR_IE_NUM :: nat where "WLAN_MAX_VENDOR_IE_NUM = 5"

lemmas ez_sizes = EZ_SYNC_CODE_LEN_def EZ_VALUE_LEN_def EZ_NEW_SC_BUF_LEN_def EZ_DEVICE_SN_LEN_def
  EZ_DEVICE_INFO_LEN_def WLAN_MAX_VENDOR_IE_LEN_def WLAN_MAX_VENDOR_IE_NUM_def

definition ez_sync_code :: bytes where "ez_sync_code = bytes_of ''EZVIZ''"

text \<open>\<open>struct ez_probe_t\<close>, which is packed: its 42 bytes in memory are those of \<open>ez_probe_bytes\<close>.\<close>

record ez_probe_t =
  element :: u8
  element_len :: u8
  sync :: bytes
  probe_id :: u16
  probe_len :: u8
  probe_value :: bytes

definition EZ_PROBE_SIZE :: nat where "EZ_PROBE_SIZE = 42"

definition ez_probe_of :: "bytes \<Rightarrow> ez_probe_t" where
  "ez_probe_of bs = \<lparr>element = bs ! 0, element_len = bs ! 1, sync = take EZ_SYNC_CODE_LEN (drop 2 bs),
     probe_id = mk16 (bs ! 8) (bs ! 7), probe_len = bs ! 9, probe_value = take EZ_VALUE_LEN (drop 10 bs)\<rparr>"

definition ez_probe_bytes :: "ez_probe_t \<Rightarrow> bytes" where
  "ez_probe_bytes p = [element p, element_len p] @ sync p @ put_LE16 (probe_id p) @ [probe_len p] @ probe_value p"

definition ez_probe_zero :: ez_probe_t where
  "ez_probe_zero = ez_probe_of (replicate EZ_PROBE_SIZE 0)"

text \<open>The file's globals, and the table of vendor elements in \<open>mlme_priv\<close>: \<open>vendor_ie\<close> is the two dimensional
  array as one object. \<open>scans\<close> counts the site surveys requested, and \<open>user_out\<close> has what was copied to user
  space.\<close>

record ez_sc =
  err_status :: u8
  smart_flg :: u8
  scan_flag :: u8
  sc_enable :: u8
  sc_done :: u8
  sc_buf :: bytes
  sc_len :: u16
  DeviceInfo :: bytes
  probe_resp_t :: ez_probe_t
  probe_req_t :: ez_probe_t
  vendor_ie :: bytes
  vendor_ielen :: "nat list"
  vendor_ie_mask :: "u32 list"
  scans :: nat
  user_out :: "(u32 \<times> bytes) list"

definition WIFI_PROBEREQ_VENDOR_IE_BIT :: u32 where "WIFI_PROBEREQ_VENDOR_IE_BIT = bit_mask 1"
definition WIFI_PROBERESP_VENDOR_IE_BIT :: u32 where "WIFI_PROBERESP_VENDOR_IE_BIT = bit_mask 2"

section \<open>Access from the rest of the driver\<close>

definition ez_set_join_fail_reason :: "u8 \<Rightarrow> ez_sc \<Rightarrow> u8 \<times> ez_sc" where
  "ez_set_join_fail_reason result s = (result, s\<lparr>err_status := result\<rparr>)"

text \<open>\<open>err_status\<close> is signed.\<close>

definition ez_get_join_fail_reason :: "ez_sc \<Rightarrow> int" where
  "ez_get_join_fail_reason s = sint (err_status s)"

definition set_smartconfig_flag :: "u8 \<Rightarrow> ez_sc \<Rightarrow> ez_sc" where
  "set_smartconfig_flag flag s = s\<lparr>smart_flg := flag\<rparr>"

definition check_scan_flag :: "ez_sc \<Rightarrow> u8" where "check_scan_flag s = scan_flag s"

definition set_scan_flag :: "int \<Rightarrow> ez_sc \<Rightarrow> ez_sc" where
  "set_scan_flag flag s = s\<lparr>scan_flag := (if flag \<noteq> 0 then 1 else 0)\<rparr>"

definition check_sn_valid :: "ez_sc \<Rightarrow> bool option" where
  "check_sn_valid s = map_option Not (memeq (DeviceInfo s) 0 (replicate EZ_DEVICE_SN_LEN 0) EZ_DEVICE_SN_LEN)"

section \<open>Vendor elements\<close>

text \<open>\<open>rtw_ezviz_ie_set\<close>; a null \<open>ie\<close> comes with the length zero and is the empty object. The clear path
  erases four times the size of a group.\<close>

definition rtw_ezviz_ie_set :: "u32 \<Rightarrow> bytes \<Rightarrow> nat \<Rightarrow> ez_sc \<Rightarrow> (int \<times> ez_sc) option" where
  "rtw_ezviz_ie_set bits ie ielen s =
     (if bits = 0 then do {
        v \<leftarrow> memset (vendor_ie s) 0 0 (4 * WLAN_MAX_VENDOR_IE_LEN);
        Some (-14, s\<lparr>vendor_ie := v, vendor_ielen := (vendor_ielen s)[0 := 0],
          vendor_ie_mask := (vendor_ie_mask s)[0 := 0]\<rparr>) }
      else do {
        v \<leftarrow> memcpy (vendor_ie s) 0 ie 0 ielen;
        Some (0, s\<lparr>vendor_ie := v, vendor_ielen := (vendor_ielen s)[0 := ielen],
          vendor_ie_mask := (vendor_ie_mask s)[0 := bits]\<rparr>) })"

text \<open>\<open>rtw_build_vendor_ie\<close>: the bytes appended to a management frame.\<close>

definition build_group :: "u32 \<Rightarrow> ez_sc \<Rightarrow> nat \<Rightarrow> bytes option" where
  "build_group ty s k =
     (if vendor_ielen s ! k > 0 \<and> vendor_ie_mask s ! k AND ty \<noteq> 0
      then rd_n (vendor_ie s) (k * WLAN_MAX_VENDOR_IE_LEN) (vendor_ielen s ! k) else Some [])"

primrec build_loop :: "u32 \<Rightarrow> ez_sc \<Rightarrow> nat list \<Rightarrow> bytes \<Rightarrow> bytes option" where
  "build_loop ty s [] frame = Some frame"
| "build_loop ty s (k # ks) frame = do { g \<leftarrow> build_group ty s k; build_loop ty s ks (frame @ g) }"

definition rtw_build_vendor_ie :: "u32 \<Rightarrow> ez_sc \<Rightarrow> bytes \<Rightarrow> bytes option" where
  "rtw_build_vendor_ie ty s frame = build_loop ty s [0..<WLAN_MAX_VENDOR_IE_NUM] frame"

section \<open>Strings in the log\<close>

text \<open>What \<open>printk\<close> reads for a string argument, given as the rest of its object: for \<open>%s\<close> the bytes up to a
  terminating zero, for \<open>%.*s\<close> the same but at most as many as the precision says. \<open>None\<close> is a read behind
  the object. The other log lines of the file print numbers, single bytes and constant strings.\<close>

fun printk_s :: "bytes \<Rightarrow> unit option" where
  "printk_s [] = None"
| "printk_s (b # bs) = (if b = 0 then Some () else printk_s bs)"

fun printk_ps :: "nat \<Rightarrow> bytes \<Rightarrow> unit option" where
  "printk_ps 0 bs = Some ()"
| "printk_ps (Suc n) [] = None"
| "printk_ps (Suc n) (b # bs) = (if b = 0 then Some () else printk_ps n bs)"

lemma printk_s_eq: "printk_s bs = (if 0 \<in> set bs then Some () else None)"
  by (induction bs) auto

lemma printk_ps_eq: "printk_ps n bs = (if length bs < n \<and> 0 \<notin> set bs then None else Some ())"
  by (induction n bs rule: printk_ps.induct) auto

section \<open>Probe requests with the configuration of the access point\<close>

function sync_loop :: "bool \<Rightarrow> bytes \<Rightarrow> nat \<Rightarrow> nat \<Rightarrow> nat option" where
  "sync_loop sn_valid buf len i =
     (if i < len - 2 then do {
        e \<leftarrow> rd buf i;
        hit \<leftarrow> (if (if sn_valid then e = 207 \<or> e = 209 else e = 207)
                then memeq buf (i + 2) ez_sync_code EZ_SYNC_CODE_LEN else Some False);
        if hit then Some i
        else do { l \<leftarrow> rd buf (i + 1); sync_loop sn_valid buf len (i + (unat l + 2)) } }
      else Some 0)"
  by pat_completeness auto
termination by (relation "measure (\<lambda>(_, _, len, i). len - i)") auto

declare sync_loop.simps [simp del]

text \<open>\<open>buf\<close> is null or a pointer to the start of the object; a negative length is the length zero.\<close>

definition check_probe_sync_EID :: "ez_sc \<Rightarrow> bytes option \<Rightarrow> nat \<Rightarrow> int option" where
  "check_probe_sync_EID s buf len = do {
     sn_valid \<leftarrow> check_sn_valid s;
     case buf of None \<Rightarrow> Some (-1) | Some b \<Rightarrow> map_option int (sync_loop sn_valid b len 0) }"

definition ez_probe_req_handler :: "bytes \<Rightarrow> nat \<Rightarrow> ez_sc \<Rightarrow> ez_sc option" where
  "ez_probe_req_handler pframe len s = (let buf = drop 24 pframe in do {
     offset \<leftarrow> check_probe_sync_EID s (Some buf) (len - 24);
     if offset > 0 then do {
       ie_len \<leftarrow> rd buf (nat offset + 1);
       b \<leftarrow> memcpy (sc_buf s) 0 buf (nat offset + 2) (unat ie_len);
       Some (s\<lparr>sc_len := ucast ie_len, sc_buf := b, sc_done := 1\<rparr>) }
     else Some s })"

section \<open>Discovery with element 208\<close>

function eid208_loop :: "bytes \<Rightarrow> nat \<Rightarrow> nat \<Rightarrow> nat option" where
  "eid208_loop buf len i =
     (if i < len - 8 then do {
        e \<leftarrow> rd buf i;
        hit \<leftarrow> (if e = 208 then memeq buf (i + 2) ez_sync_code EZ_SYNC_CODE_LEN else Some False);
        if hit then Some i else eid208_loop buf len (i + 1) }
      else Some 0)"
  by pat_completeness auto
termination by (relation "measure (\<lambda>(_, len, i). len - i)") auto

declare eid208_loop.simps [simp del]

definition check_probe_sync_eid208 :: "bytes option \<Rightarrow> nat \<Rightarrow> int option" where
  "check_probe_sync_eid208 buf len =
     (case buf of None \<Rightarrow> Some (-1) | Some b \<Rightarrow> map_option int (eid208_loop b len 0))"

text \<open>The copy of a structure out of the frame.\<close>

definition ez_probe_read :: "bytes \<Rightarrow> nat \<Rightarrow> ez_probe_t option" where
  "ez_probe_read buf i = map_option ez_probe_of (rd_n buf i EZ_PROBE_SIZE)"

definition ez_probe_response_eid208_handler :: "bytes option \<Rightarrow> nat \<Rightarrow> ez_sc \<Rightarrow> (int \<times> ez_sc) option" where
  "ez_probe_response_eid208_handler pframe len s =
     (if probe_len (probe_resp_t s) \<noteq> 0 then Some (0, s)
      else case pframe of None \<Rightarrow> Some (-1, s)
      | Some fr \<Rightarrow>
          if len \<le> 23 then Some (-1, s)
          else (let buf = drop 24 fr in do {
            offset \<leftarrow> check_probe_sync_eid208 (Some buf) (len - 24);
            if offset > 0 then do {
              p \<leftarrow> ez_probe_read buf (nat offset);
              _ \<leftarrow> printk_ps (unat (probe_len p)) (probe_value p);
              Some (offset, s\<lparr>probe_resp_t := p\<rparr>) }
            else Some (offset, s) }))"

text \<open>The answer to a request: the join result is appended behind the value when the request asks for it.\<close>

definition ez_tlv_bytes :: "u8 \<Rightarrow> bytes" where
  "ez_tlv_bytes status = put_LE16 0x6994 @ [1, status]"

definition ez_probe_answer :: "u8 \<Rightarrow> ez_probe_t \<Rightarrow> ez_probe_t option option" where
  "ez_probe_answer status p =
     (if probe_id p = 0x6990 then Some (Some (p\<lparr>probe_id := 0x6991\<rparr>))
      else if probe_id p = 0x6992 then
        (if status = 0 then Some None
         else do {
           v \<leftarrow> wr_n (probe_value p) (unat (probe_len p)) (ez_tlv_bytes status);
           Some (Some (p\<lparr>element_len := element_len p + 4, probe_id := 0x6993, probe_value := v\<rparr>)) })
      else Some (Some p))"

definition ez_probe_requst_eid208_handler :: "bytes option \<Rightarrow> nat \<Rightarrow> ez_sc \<Rightarrow> (int \<times> ez_sc) option" where
  "ez_probe_requst_eid208_handler pframe len s =
     (case pframe of None \<Rightarrow> Some (-1, s)
      | Some fr \<Rightarrow>
          if len \<le> 23 then Some (-1, s)
          else (let buf = drop 24 fr in do {
            offset \<leftarrow> check_probe_sync_eid208 (Some buf) (len - 24);
            if offset \<le> 0 then Some (offset, s)
            else do {
              p \<leftarrow> ez_probe_read buf (nat offset);
              same \<leftarrow> memeq (probe_value p) 0 (DeviceInfo s) EZ_DEVICE_SN_LEN;
              if \<not> same then Some (0, s\<lparr>probe_resp_t := p\<rparr>)
              else do {
                answer \<leftarrow> ez_probe_answer (err_status s) p;
                case answer of None \<Rightarrow> Some (0, s\<lparr>probe_resp_t := p\<rparr>)
                | Some q \<Rightarrow> do {
                    _ \<leftarrow> printk_ps (unat (probe_len q)) (probe_value q);
                    Some (offset, s\<lparr>probe_resp_t := q\<rparr>) } } } }))"

text \<open>The calls in \<open>OnProbeReq\<close> and \<open>OnProbeRsp\<close>. The length of the frame is unsigned there, so that the
  difference to the header wraps.\<close>

definition OnProbeReq_ez :: "bytes \<Rightarrow> nat \<Rightarrow> ez_sc \<Rightarrow> ez_sc option" where
  "OnProbeReq_ez pframe len s = do {
     s1 \<leftarrow> (if sc_enable s \<noteq> 0 \<and> sc_done s = 0 \<and> usub32 len 24 > 255 then ez_probe_req_handler pframe len s
            else Some s);
     (ez_ret, s2) \<leftarrow> ez_probe_requst_eid208_handler (Some pframe) len s1;
     if ez_ret > 0 then do {
       (_, s3) \<leftarrow> rtw_ezviz_ie_set WIFI_PROBERESP_VENDOR_IE_BIT (ez_probe_bytes (probe_resp_t s2))
         (unat (element_len (probe_resp_t s2) + 2)) s2;
       Some s3 }
     else if vendor_ielen s2 ! 0 \<noteq> 0 then do {
       (_, s3) \<leftarrow> rtw_ezviz_ie_set WIFI_PROBERESP_VENDOR_IE_BIT [] 0 s2; Some s3 }
     else Some s2 }"

definition OnProbeRsp_ez :: "bytes \<Rightarrow> nat \<Rightarrow> ez_sc \<Rightarrow> ez_sc option" where
  "OnProbeRsp_ez pframe len s = map_option snd (ez_probe_response_eid208_handler (Some pframe) len s)"

section \<open>Ioctls\<close>

record user_mem =
  from_user :: "u32 \<Rightarrow> nat \<Rightarrow> nat \<times> bytes"
  to_user :: "u32 \<Rightarrow> bytes \<Rightarrow> nat"

record iw_point =
  iw_pointer :: u32
  iw_length :: u16

text \<open>A call with its destination: the result is the number of bytes left and the destination object.\<close>

definition copy_from_user :: "user_mem \<Rightarrow> bytes \<Rightarrow> nat \<Rightarrow> u32 \<Rightarrow> nat \<Rightarrow> (nat \<times> bytes) option" where
  "copy_from_user u dst i src n = map_option (Pair (fst (from_user u src n))) (wr_n dst i (snd (from_user u src n)))"

definition copy_to_user :: "user_mem \<Rightarrow> u32 \<Rightarrow> bytes \<Rightarrow> ez_sc \<Rightarrow> nat \<times> ez_sc" where
  "copy_to_user u dst bs s = (to_user u dst bs, s\<lparr>user_out := user_out s @ [(dst, bs)]\<rparr>)"

definition le32_of :: "bytes \<Rightarrow> u32" where
  "le32_of bs = of_nat (unat (bs ! 0) + 256 * unat (bs ! 1) + 65536 * unat (bs ! 2) + 16777216 * unat (bs ! 3))"

definition sc_reset :: "ez_sc \<Rightarrow> ez_sc" where
  "sc_reset s = s\<lparr>sc_enable := 0, sc_done := 0, sc_buf := replicate EZ_NEW_SC_BUF_LEN 0, sc_len := 0\<rparr>"

definition ez_set_new_sc :: "user_mem \<Rightarrow> iw_point \<Rightarrow> ez_sc \<Rightarrow> (int \<times> ez_sc) option" where
  "ez_set_new_sc u iwp s = do {
     (left, sc_cmd) \<leftarrow> copy_from_user u (replicate 8 0) 0 (iw_pointer iwp) 8;
     if left \<noteq> 0 then Some (-14, s)
     else if le32_of sc_cmd = 0 then Some (0, (sc_reset s)\<lparr>sc_enable := 1, err_status := 0\<rparr>)
     else if le32_of sc_cmd = 1 then Some (0, (sc_reset s)\<lparr>err_status := 0\<rparr>)
     else if le32_of sc_cmd = 2 then Some (if sc_done s = 0 then 0 else 308, s\<lparr>sc_done := 0\<rparr>)
     else if le32_of sc_cmd = 3 then do {
       (r1, addr) \<leftarrow> copy_from_user u (replicate 4 0) 0 (iw_pointer iwp + 4) 4;
       data \<leftarrow> rd_n (sc_buf s) 0 (unat (sc_len s));
       let (r2, s1) = copy_to_user u (le32_of addr + 8) data s;
           (r3, s2) = copy_to_user u (le32_of addr) (put_LE16 (sc_len s)) s1
       in Some (int (r1 OR r2 OR r3), s2\<lparr>sc_done := 0\<rparr>) }
     else if le32_of sc_cmd = 4 then do {
       (r1, addr) \<leftarrow> copy_from_user u (replicate 4 0) 0 (iw_pointer iwp + 4) 4;
       (r2, buf) \<leftarrow> copy_from_user u (replicate 514 0) 0 (le32_of addr) 8;
       Some (int (r1 OR r2), s\<lparr>err_status := buf ! 2\<rparr>) }
     else Some (-22, s) }"



definition ez_device_info_ioctl_handle :: "user_mem \<Rightarrow> iw_point option \<Rightarrow> ez_sc \<Rightarrow> (int \<times> ez_sc) option" where
  "ez_device_info_ioctl_handle u rq s =
     (case rq of None \<Rightarrow> Some (2, s)
      | Some iwp \<Rightarrow>
          if iw_pointer iwp = 0 then Some (1, s)
          else (let n = unat (iw_length iwp); d0 = replicate EZ_DEVICE_INFO_LEN 0 in
            if n \<le> 8 then Some (0, s\<lparr>DeviceInfo := d0\<rparr>)
            else do {
              (left, d1) \<leftarrow> copy_from_user u d0 0 (iw_pointer iwp) EZ_DEVICE_SN_LEN;
              if left \<noteq> 0 then Some (int left, s\<lparr>DeviceInfo := d1\<rparr>)
              else do {
                _ \<leftarrow> printk_s d1;
                if n - EZ_DEVICE_SN_LEN = 0 then Some (0, s\<lparr>DeviceInfo := d1\<rparr>)
                else do {
                  (left2, d2) \<leftarrow> copy_from_user u d1 EZ_DEVICE_SN_LEN
                    (iw_pointer iwp + of_nat EZ_DEVICE_SN_LEN) (n - EZ_DEVICE_SN_LEN);
                  _ \<leftarrow> (if left2 \<noteq> 0 then Some () else printk_s (drop EZ_DEVICE_SN_LEN d2));
                  Some (int left2, s\<lparr>DeviceInfo := d2\<rparr>) } } }))"

text \<open>\<open>struct ez_scan_cmd_t\<close>\<close>

record ez_scan_cmd_t =
  scan_cmd :: u8
  scan_len :: u8
  scan_value :: bytes



text \<open>The cases \<open>TRIG_SCAN_DEVICE\<close> and \<open>TRIG_SCAN_REASON\<close>, which differ in the identifier.\<close>

definition trig_scan :: "u16 \<Rightarrow> ez_scan_cmd_t \<Rightarrow> ez_sc \<Rightarrow> (int \<times> ez_sc) option" where
  "trig_scan ident sc s = (let len = scan_len sc;
       q = (probe_req_t s)\<lparr>element := 208, element_len := len + 8, sync := ez_sync_code, probe_id := ident\<rparr> in do {
     q' \<leftarrow> (if len \<noteq> 0 then do {
              v \<leftarrow> memcpy (probe_value q) 0 (scan_value sc) 0 (unat len);
              Some (q\<lparr>probe_len := len, probe_value := v\<rparr>) }
            else Some q);
     if probe_len q' = 0 then Some (0, s\<lparr>probe_req_t := q'\<rparr>)
     else do {
       _ \<leftarrow> printk_s (probe_value q');
       (ret, s1) \<leftarrow> rtw_ezviz_ie_set WIFI_PROBEREQ_VENDOR_IE_BIT (ez_probe_bytes q') (unat (element_len q' + 2))
         (s\<lparr>probe_req_t := q', probe_resp_t := ez_probe_zero\<rparr>);
       Some (ret, s1\<lparr>scans := scans s1 + 1, scan_flag := 1\<rparr>) } })"

definition poll_device :: "ez_scan_cmd_t \<Rightarrow> ez_sc \<Rightarrow> ez_scan_cmd_t option" where
  "poll_device sc s = do {
     v \<leftarrow> memcpy (scan_value sc) 0 (probe_value (probe_resp_t s)) 0 (unat (probe_len (probe_resp_t s)));
     Some (sc\<lparr>scan_len := probe_len (probe_resp_t s), scan_value := v\<rparr>) }"

definition poll_reason :: "ez_scan_cmd_t \<Rightarrow> ez_sc \<Rightarrow> ez_scan_cmd_t option" where
  "poll_reason sc s = do {
     reason \<leftarrow> rd_n (probe_value (probe_resp_t s)) (unat (probe_len (probe_resp_t s))) 4;
     if mk16 (reason ! 1) (reason ! 0) = 0x6994 then do {
       v \<leftarrow> memcpy (scan_value sc) 0 reason 3 (unat (reason ! 2));
       Some (sc\<lparr>scan_len := reason ! 2, scan_value := v\<rparr>) }
     else do { v \<leftarrow> wr (scan_value sc) 0 0xff; Some (sc\<lparr>scan_len := 1, scan_value := v\<rparr>) } }"


text \<open>The dispatch in \<open>rtw_ioctl\<close>; \<open>None\<close> inside the result is a command of another handler.\<close>

datatype iftype = NL80211_IFTYPE_AP | NL80211_IFTYPE_STATION | NL80211_IFTYPE_OTHER


section \<open>The structure in memory\<close>

text \<open>An element of the protocol on the air: its head of ten bytes and a value.\<close>

definition probe_elem :: "u8 \<Rightarrow> u16 \<Rightarrow> u8 \<Rightarrow> bytes \<Rightarrow> bytes" where
  "probe_elem el ident n val = [208, el] @ ez_sync_code @ put_LE16 ident @ [n] @ val"

lemma sync_code_bytes: "ez_sync_code = [69, 90, 86, 73, 90]"
  by (simp add: ez_sync_code_def bytes_of_def)

lemma probe_elem_length [simp]: "length (probe_elem el ident n val) = 10 + length val"
  by (simp add: probe_elem_def sync_code_bytes)

lemma ez_probe_of_elem:
  assumes "32 \<le> length val"
  shows "ez_probe_of (probe_elem el ident n val) =
     \<lparr>element = 208, element_len = el, sync = ez_sync_code, probe_id = ident, probe_len = n, probe_value = take 32 val\<rparr>"
  by (simp add: ez_probe_of_def probe_elem_def sync_code_bytes put_LE16_def ez_sizes)

lemma ez_probe_bytes_elem:
  "ez_probe_bytes \<lparr>element = 208, element_len = el, sync = ez_sync_code, probe_id = ident, probe_len = n, probe_value = v\<rparr> =
     probe_elem el ident n v"
  by (simp add: ez_probe_bytes_def probe_elem_def)

lemma take_probe_elem: "take (10 + k) (probe_elem el ident n v) = probe_elem el ident n (take k v)"
proof -
  let ?head = "[208, el] @ ez_sync_code @ put_LE16 ident @ [n]"
  have "length ?head = 10" by (simp add: sync_code_bytes)
  then have "take (10 + k) (?head @ v) = ?head @ take k v" by (metis take_all le_add1 take_append add_diff_cancel_left')
  then show ?thesis by (simp add: probe_elem_def)
qed

lemma ez_probe_read_elem:
  assumes "drop off buf = probe_elem el ident n val @ rest" "length val \<le> 32" "32 \<le> length val + length rest"
  shows "ez_probe_read buf off = Some \<lparr>element = 208, element_len = el, sync = ez_sync_code, probe_id = ident,
     probe_len = n, probe_value = val @ take (32 - length val) rest\<rparr>"
proof -
  have "off + 42 \<le> length buf" using arg_cong [OF assms(1), of length] assms(3) by simp
  moreover have "take 42 (drop off buf) = probe_elem el ident n (val @ take (32 - length val) rest)"
    using assms by (simp add: probe_elem_def sync_code_bytes put_LE16_def)
  ultimately show ?thesis
    using assms by (simp add: ez_probe_read_def rd_n_def EZ_PROBE_SIZE_def ez_probe_of_elem)
qed

section \<open>The search for the element\<close>

definition marker :: "bytes \<Rightarrow> nat \<Rightarrow> bool" where
  "marker buf i \<longleftrightarrow> buf ! i = 208 \<and> take 5 (drop (i + 2) buf) = ez_sync_code"

lemma eid208_loop_find:
  assumes "len \<le> length buf"
  shows "eid208_loop buf len i = Some (case find (marker buf) [i..<len - 8] of Some k \<Rightarrow> k | None \<Rightarrow> 0)"
  using assms
proof (induction buf len i rule: eid208_loop.induct)
  case (1 buf len i)
  show ?case
  proof (cases "i < len - 8")
    case True
    then have "rd buf i = Some (buf ! i)" "memeq buf (i + 2) ez_sync_code EZ_SYNC_CODE_LEN =
        Some (take 5 (drop (i + 2) buf) = ez_sync_code)"
      using "1.prems" by (simp_all add: rd_def memeq_in ez_sizes sync_code_bytes)
    then have "eid208_loop buf len i = (if marker buf i then Some i else eid208_loop buf len (i + 1))"
      using True by (subst eid208_loop.simps) (auto simp: marker_def)
    with True "1.IH" [OF True] "1.prems" \<open>rd buf i = _\<close> \<open>memeq buf (i + 2) _ _ = _\<close> show ?thesis
      by (auto simp: marker_def [of buf i] upt_conv_Cons)
  next
    case False
    then show ?thesis by (subst eid208_loop.simps) simp
  qed
qed

lemma find_append_None: "find P xs = None \<Longrightarrow> find P (xs @ ys) = find P ys"
  by (induction xs) (auto split: if_splits)

lemma find_skip:
  assumes "\<forall>i < k. \<not> P i" "P k" "k < n"
  shows "find P [0..<n] = Some k"
proof -
  have "[0..<n] = [0..<k] @ k # [Suc k..<n]" using assms(3) by (metis less_imp_add_positive upt_add_eq_append upt_conv_Cons zero_le less_add_same_cancel1 add_0)
  moreover have "find P [0..<k] = None" using assms(1) by (simp add: find_None_iff)
  ultimately show ?thesis using assms(2) by (simp add: find_append_None)
qed

text \<open>The body of a request has an element of the protocol, the first one, at the offset \<open>k\<close>. The handlers do not
  tell an element at the very start of the body from none.\<close>

definition elem_at :: "bytes \<Rightarrow> nat \<Rightarrow> bool" where
  "elem_at body k \<longleftrightarrow> 0 < k \<and> k < length body - 8 \<and> marker body k \<and> (\<forall>i < k. \<not> marker body i)"

lemma elem_at_unique: "elem_at body k \<Longrightarrow> elem_at body k' \<Longrightarrow> k = k'"
  by (metis elem_at_def linorder_neqE_nat)

lemma sync_elem_at: "elem_at body k \<Longrightarrow> check_probe_sync_eid208 (Some body) (length body) = Some (int k)"
  using find_skip [of k "marker body" "length body - 8"]
  by (simp add: elem_at_def check_probe_sync_eid208_def eid208_loop_find)

lemma sync_no_elem:
  assumes "\<nexists>k. elem_at body k"
  shows "check_probe_sync_eid208 (Some body) (length body) = Some 0"
proof -
  have "k = 0" if "find (marker body) [0..<length body - 8] = Some k" for k
  proof (rule ccontr)
    assume "k \<noteq> 0"
    moreover from that have "k < length body - 8" "marker body k" "\<forall>i < k. \<not> marker body i"
      by (auto simp: find_Some_iff)
    ultimately have "elem_at body k" by (simp add: elem_at_def)
    with assms show False by blast
  qed
  then show ?thesis by (auto simp: check_probe_sync_eid208_def eid208_loop_find split: option.split)
qed

text \<open>A prefix of the body in which no byte 208 is followed by the start of the code.\<close>

definition clean :: "bytes \<Rightarrow> bool" where
  "clean pre \<longleftrightarrow> pre \<noteq> [] \<and> (\<forall>i. i + 2 < length pre \<and> pre ! i = 208 \<longrightarrow> pre ! (i + 2) \<noteq> 69)"

lemma marker_start:
  assumes "marker buf i" "i + 3 < length buf"
  shows "buf ! i = 208 \<and> buf ! (i + 2) = 69 \<and> buf ! (i + 3) = 90"
proof -
  have code: "take 5 (drop (i + 2) buf) = [69, 90, 86, 73, 90]"
    using assms(1) by (simp only: marker_def sync_code_bytes)
  have "take 5 (drop (i + 2) buf) ! 0 = 69" by (simp only: code nth_Cons_0)
  moreover have "take 5 (drop (i + 2) buf) ! 1 = 90" unfolding code by simp
  moreover have "take 5 (drop (i + 2) buf) ! 0 = buf ! (i + 2)" "take 5 (drop (i + 2) buf) ! 1 = buf ! (i + 3)"
    using assms(2) by (simp_all add: numeral_3_eq_3)
  ultimately show ?thesis using assms(1) by (simp only: marker_def)
qed

lemma marker_clean:
  assumes "clean pre" "i < length pre"
  shows "\<not> marker (pre @ probe_elem el ident n val @ rest) i"
proof
  define es where "es = probe_elem el ident n val @ rest"
  have es: "es ! 0 = 208" "es ! 2 = 69" "3 < length es"
    by (simp_all add: es_def probe_elem_def sync_code_bytes)
  assume "marker (pre @ probe_elem el ident n val @ rest) i"
  then have m: "marker (pre @ es) i" by (simp add: es_def)
  have "i + 3 < length (pre @ es)" using assms(2) es(3) by (simp del: One_nat_def)
  from marker_start [OF m this] have at: "pre ! i = 208" "(pre @ es) ! (i + 2) = 69" "(pre @ es) ! (i + 3) = 90"
    using assms(2) by (simp_all add: nth_append)
  consider "i + 2 < length pre" | "i + 2 = length pre" | "i + 3 = length pre + 2" using assms(2) by linarith
  then show False
  proof cases
    case 1
    with at have "pre ! (i + 2) = 69" by (simp add: nth_append)
    with 1 assms(1) at(1) show False by (simp only: clean_def)
  next
    case 2
    with at(2) es(1) show False by (simp only: nth_append) simp
  next
    case 3
    with at(3) es(2) show False by (simp only: nth_append_length_plus) simp
  qed
qed

lemma elem_at_elem:
  assumes "clean pre" "body = pre @ probe_elem el ident n val @ rest"
  shows "elem_at body (length pre)"
proof -
  have "marker body (length pre)"
    by (simp add: assms(2) marker_def probe_elem_def sync_code_bytes nth_append)
  then show ?thesis
    using marker_clean [OF assms(1)] assms by (auto simp: elem_at_def clean_def)
qed

section \<open>Well-formed states\<close>

definition probe_wf :: "ez_probe_t \<Rightarrow> bool" where
  "probe_wf p \<longleftrightarrow> length (sync p) = EZ_SYNC_CODE_LEN \<and> length (probe_value p) = EZ_VALUE_LEN"

definition ez_wf :: "ez_sc \<Rightarrow> bool" where
  "ez_wf s \<longleftrightarrow> length (sc_buf s) = EZ_NEW_SC_BUF_LEN \<and> unat (sc_len s) \<le> EZ_NEW_SC_BUF_LEN \<and>
     length (DeviceInfo s) = EZ_DEVICE_INFO_LEN \<and> probe_wf (probe_resp_t s) \<and> probe_wf (probe_req_t s) \<and>
     length (vendor_ie s) = WLAN_MAX_VENDOR_IE_NUM * WLAN_MAX_VENDOR_IE_LEN \<and>
     length (vendor_ielen s) = WLAN_MAX_VENDOR_IE_NUM \<and> length (vendor_ie_mask s) = WLAN_MAX_VENDOR_IE_NUM \<and>
     (\<forall>n \<in> set (vendor_ielen s). n \<le> WLAN_MAX_VENDOR_IE_LEN)"

section \<open>One exchange\<close>

text \<open>Only group 0 of the vendor elements is in use.\<close>

definition lone_group :: "ez_sc \<Rightarrow> bool" where
  "lone_group s \<longleftrightarrow> (\<forall>k \<in> {1, 2, 3, 4}. vendor_ielen s ! k = 0)"

definition sends :: "u32 \<Rightarrow> bytes \<Rightarrow> ez_sc \<Rightarrow> ez_sc" where
  "sends bits ie s = s\<lparr>vendor_ie := ie @ drop (length ie) (vendor_ie s),
     vendor_ielen := (vendor_ielen s)[0 := length ie], vendor_ie_mask := (vendor_ie_mask s)[0 := bits]\<rparr>"

lemma ezviz_ie_set_sends:
  assumes "ez_wf s" "k \<le> length ie" "k \<le> 255" "bits \<noteq> 0"
  shows "rtw_ezviz_ie_set bits ie k s = Some (0, sends bits (take k ie) s)"
  using assms by (simp add: rtw_ezviz_ie_set_def memcpy_def rd_n_def wr_n_def ez_wf_def ez_sizes sends_def)

lemma build_vendor_ie_sends:
  assumes "ez_wf s" "lone_group s" "0 < length ie" "length ie \<le> 255" "bits \<noteq> 0"
  shows "rtw_build_vendor_ie bits (sends bits ie s) fr = Some (fr @ ie)"
proof -
  have "[0..<WLAN_MAX_VENDOR_IE_NUM] = [0, 1, 2, 3, 4]" by (simp add: ez_sizes upt_rec)
  moreover have "build_group bits (sends bits ie s) 0 = Some ie"
    using assms by (simp add: build_group_def sends_def rd_n_def ez_wf_def ez_sizes)
  moreover have "build_group bits (sends bits ie s) k = Some []" if "k \<in> {1, 2, 3, 4}" for k
    using assms that by (auto simp: build_group_def sends_def lone_group_def)
  ultimately show ?thesis by (simp add: rtw_build_vendor_ie_def)
qed

text \<open>What a frame with an element tells the receiver.\<close>

definition received :: "u8 \<Rightarrow> u16 \<Rightarrow> u8 \<Rightarrow> bytes \<Rightarrow> ez_probe_t" where
  "received el ident n val = \<lparr>element = 208, element_len = el, sync = ez_sync_code, probe_id = ident, probe_len = n,
     probe_value = take 32 val\<rparr>"

lemma received_bytes: "ez_probe_bytes (received el ident n val) = probe_elem el ident n (take 32 val)"
  by (simp add: received_def ez_probe_bytes_elem)

lemma probe_read_received:
  assumes "32 \<le> length (val @ post)" "length val \<le> 32"
  shows "ez_probe_read (pre @ probe_elem el ident n val @ post) (length pre) = Some (received el ident n (val @ post))"
  using assms by (simp add: ez_probe_read_elem received_def)


lemma elem_at_frame: "elem_at (drop 24 fr) k \<Longrightarrow> 24 < length fr"
  by (auto simp: elem_at_def)

lemma request_at:
  assumes "elem_at (drop 24 fr) k"
  shows "ez_probe_requst_eid208_handler (Some fr) (length fr) b = do {
     p \<leftarrow> ez_probe_read (drop 24 fr) k;
     same \<leftarrow> memeq (probe_value p) 0 (DeviceInfo b) EZ_DEVICE_SN_LEN;
     if \<not> same then Some (0, b\<lparr>probe_resp_t := p\<rparr>)
     else do {
       answer \<leftarrow> ez_probe_answer (err_status b) p;
       case answer of None \<Rightarrow> Some (0, b\<lparr>probe_resp_t := p\<rparr>)
       | Some q \<Rightarrow> do { _ \<leftarrow> printk_ps (unat (probe_len q)) (probe_value q); Some (int k, b\<lparr>probe_resp_t := q\<rparr>) } } }"
  using sync_elem_at [OF assms] elem_at_frame [OF assms] assms
  by (simp add: ez_probe_requst_eid208_handler_def Let_def elem_at_def)


lemma probe_read_at: "ez_probe_read body k = (if k + 42 \<le> length body then Some (ez_probe_of (take 42 (drop k body))) else None)"
  by (simp add: ez_probe_read_def rd_n_def EZ_PROBE_SIZE_def)

lemma probe_at_sizes:
  assumes "k + 42 \<le> length body" "p = ez_probe_of (take 42 (drop k body))"
  shows "length (sync p) = 5" "length (probe_value p) = 32"
  using assms by (simp_all add: ez_probe_of_def ez_sizes)

lemma request_handler:
  assumes "ez_wf b" "length hdr = 24" "clean pre" "32 \<le> length (val @ post)" "length val \<le> 32"
    and "fr = hdr @ pre @ probe_elem el ident n val @ post"
  shows "ez_probe_requst_eid208_handler (Some fr) (length fr) b =
     (let p = received el ident n (val @ post) in
      if take 9 (val @ post) \<noteq> take 9 (DeviceInfo b) then Some (0, b\<lparr>probe_resp_t := p\<rparr>)
      else do { answer \<leftarrow> ez_probe_answer (err_status b) p;
                case answer of None \<Rightarrow> Some (0, b\<lparr>probe_resp_t := p\<rparr>)
                | Some q \<Rightarrow> do { _ \<leftarrow> printk_ps (unat (probe_len q)) (probe_value q);
                                Some (int (length pre), b\<lparr>probe_resp_t := q\<rparr>) } })"
proof -
  have body: "drop 24 fr = pre @ probe_elem el ident n val @ post" using assms(2,6) by simp
  have "memeq (probe_value (received el ident n (val @ post))) 0 (DeviceInfo b) EZ_DEVICE_SN_LEN =
      Some (take 9 (val @ post) = take 9 (DeviceInfo b))"
    using assms(1,4) by (simp add: memeq_in received_def ez_wf_def ez_sizes min_def del: take_append)
  then show ?thesis
    using request_at [OF elem_at_elem [OF assms(3) body], of b]
      probe_read_received [OF assms(4,5), of pre el ident n]
    by (simp add: body Let_def del: take_append)
qed


text \<open>The older scheme does not take the request: it is off, has its configuration already, or the frame is too
  short for it.\<close>

definition older_idle :: "ez_sc \<Rightarrow> bytes \<Rightarrow> bool" where
  "older_idle b fr \<longleftrightarrow> sc_enable b = 0 \<or> sc_done b \<noteq> 0 \<or> length fr < 280"

lemma older_idle_step:
  assumes "ez_wf b" "older_idle b fr"
  shows "(if sc_enable b \<noteq> 0 \<and> sc_done b = 0 \<and> usub32 (length fr) 24 > 255 then ez_probe_req_handler fr (length fr) b
          else Some b) = Some b"
proof (cases "length fr < 24")
  case True
  have "check_sn_valid b \<noteq> None" using assms(1) by (simp add: check_sn_valid_def memeq_in ez_wf_def ez_sizes)
  then have "check_probe_sync_EID b (Some (drop 24 fr)) 0 = Some 0"
    by (auto simp: check_probe_sync_EID_def sync_loop.simps)
  with True show ?thesis by (simp add: ez_probe_req_handler_def Let_def)
next
  case False
  with assms(2) show ?thesis by (auto simp: older_idle_def usub32_def)
qed

lemma OnProbeReq_ez_answered:
  assumes "ez_wf b" "older_idle b fr" "ez_probe_requst_eid208_handler (Some fr) (length fr) b = Some (r, s)" "0 < r"
    and "rtw_ezviz_ie_set WIFI_PROBERESP_VENDOR_IE_BIT (ez_probe_bytes (probe_resp_t s))
      (unat (element_len (probe_resp_t s) + 2)) s = Some (x, s')"
  shows "OnProbeReq_ez fr (length fr) b = Some s'"
  using assms(3-5) by (simp add: OnProbeReq_ez_def older_idle_step [OF assms(1,2)])



text \<open>The state after the module is loaded, here with a serial number.\<close>

definition ez_init :: "bytes \<Rightarrow> ez_sc" where
  "ez_init sn = \<lparr>err_status = 0, smart_flg = 0, scan_flag = 0, sc_enable = 0, sc_done = 0,
     sc_buf = replicate EZ_NEW_SC_BUF_LEN 0, sc_len = 0, DeviceInfo = sn @ replicate (EZ_DEVICE_INFO_LEN - length sn) 0,
     probe_resp_t = ez_probe_zero, probe_req_t = ez_probe_zero,
     vendor_ie = replicate (WLAN_MAX_VENDOR_IE_NUM * WLAN_MAX_VENDOR_IE_LEN) 0,
     vendor_ielen = replicate WLAN_MAX_VENDOR_IE_NUM 0, vendor_ie_mask = replicate WLAN_MAX_VENDOR_IE_NUM 0,
     scans = 0, user_out = []\<rparr>"

lemma probe_zero_wf [simp]: "probe_wf ez_probe_zero" "probe_len ez_probe_zero = 0"
  by (simp_all add: probe_wf_def ez_probe_zero_def ez_probe_of_def ez_sizes EZ_PROBE_SIZE_def)


definition sample_sn :: bytes where "sample_sn = bytes_of ''C12345678''"

lemma sample_sn_bytes: "sample_sn = [67, 49, 50, 51, 52, 53, 54, 55, 56]"
  by (simp add: sample_sn_def bytes_of_def)

lemma sample_clean: "clean [0, 0]" by (simp add: clean_def)


section \<open>Discovery and the join result\<close>

lemma response_at:
  assumes "elem_at (drop 24 fr) k" "probe_len (probe_resp_t a) = 0"
  shows "OnProbeRsp_ez fr (length fr) a = do {
     p \<leftarrow> ez_probe_read (drop 24 fr) k;
     _ \<leftarrow> printk_ps (unat (probe_len p)) (probe_value p);
     Some (a\<lparr>probe_resp_t := p\<rparr>) }"
  using sync_elem_at [OF assms(1)] elem_at_frame [OF assms(1)] assms
  by (cases "ez_probe_read (drop 24 fr) k")
    (auto simp: OnProbeRsp_ez_def ez_probe_response_eid208_handler_def Let_def elem_at_def printk_ps_eq)

text \<open>Exactly which probe responses make the driver leave its memory: with no answer stored, one whose first element
  begins less than 42 bytes before the end of the frame, or has a length field above 32 and no zero byte in
  the value.\<close>

lemma OnProbeRsp_ez_out_of_bounds:
  "OnProbeRsp_ez fr (length fr) a = None \<longleftrightarrow> probe_len (probe_resp_t a) = 0 \<and>
     (\<exists>k. elem_at (drop 24 fr) k \<and>
       (length (drop 24 fr) < k + 42 \<or>
        (let p = ez_probe_of (take 42 (drop k (drop 24 fr))) in 32 < unat (probe_len p) \<and> 0 \<notin> set (probe_value p))))"
proof (cases "probe_len (probe_resp_t a) = 0 \<and> (\<exists>k. elem_at (drop 24 fr) k)")
  case True
  then obtain k where k: "elem_at (drop 24 fr) k" by blast
  then have k_iff: "elem_at (drop 24 fr) k' \<longleftrightarrow> k' = k" for k' using elem_at_unique by blast
  from True probe_at_sizes(2) [OF _ refl, of k "drop 24 fr"] show ?thesis
    by (auto simp: response_at [OF k] probe_read_at k_iff Let_def printk_ps_eq simp del: drop_drop length_drop)
next
  case False
  then show ?thesis
    using sync_no_elem [of "drop 24 fr"]
    by (auto simp: OnProbeRsp_ez_def ez_probe_response_eid208_handler_def Let_def simp del: drop_drop)
qed

lemma response_handler:
  assumes "probe_len (probe_resp_t a) = 0" "length hdr = 24" "clean pre" "32 \<le> length (val @ post)" "length val \<le> 32"
    and "unat n \<le> 32" "fr = hdr @ pre @ probe_elem el ident n val @ post"
  shows "OnProbeRsp_ez fr (length fr) a = Some (a\<lparr>probe_resp_t := received el ident n (val @ post)\<rparr>)"
proof -
  have body: "drop 24 fr = pre @ probe_elem el ident n val @ post" using assms(2,7) by simp
  have "length (take 32 (val @ post)) = 32" using assms(4) by simp
  then have "printk_ps (unat n) (take 32 (val @ post)) = Some ()" using assms(6) by (simp add: printk_ps_eq del: take_append)
  then show ?thesis
    using response_at [OF elem_at_elem [OF assms(3) body] assms(1)] probe_read_received [OF assms(4,5), of pre el ident n]
    by (simp add: body received_def del: take_append)
qed

text \<open>The value searched for ends inside the request structure: a zero byte is in it or in what the structure had
  behind it, so that its log line stays inside.\<close>

definition ends_in_value :: "ez_scan_cmd_t \<Rightarrow> ez_sc \<Rightarrow> bool" where
  "ends_in_value sc s \<longleftrightarrow>
     0 \<in> set (take (unat (scan_len sc)) (scan_value sc) @ drop (unat (scan_len sc)) (probe_value (probe_req_t s)))"

lemma trig_scan_sends:
  assumes "ez_wf a" "lone_group a" "length (scan_value sc) = 32" "0 < unat (scan_len sc)" "unat (scan_len sc) \<le> 32"
    and "ends_in_value sc a"
  shows "\<exists>a1. trig_scan ident sc a = Some (0, a1) \<and> probe_resp_t a1 = ez_probe_zero \<and>
     rtw_build_vendor_ie WIFI_PROBEREQ_VENDOR_IE_BIT a1 fr =
       Some (fr @ probe_elem (scan_len sc + 8) ident (scan_len sc) (take (unat (scan_len sc)) (scan_value sc)))"
proof -
  let ?n = "scan_len sc"
  let ?v = "take (unat ?n) (scan_value sc)"
  define q where "q = \<lparr>element = 208, element_len = ?n + 8, sync = ez_sync_code, probe_id = ident, probe_len = ?n,
    probe_value = ?v @ drop (unat ?n) (probe_value (probe_req_t a))\<rparr>"
  define s where "s = a\<lparr>probe_req_t := q, probe_resp_t := ez_probe_zero\<rparr>"
  have len: "unat (?n + 8 + 2) = 10 + unat ?n" using assms(5) by (simp add: unat_word_ariths)
  have "probe_wf q"
    using assms(1,3,5) by (simp add: q_def ez_wf_def probe_wf_def ez_sizes sync_code_bytes)
  then have wf: "ez_wf s" "lone_group s"
    using assms(1,2) by (simp_all add: s_def ez_wf_def lone_group_def)
  have q: "q = (probe_req_t a)\<lparr>element := 208, element_len := ?n + 8, sync := ez_sync_code, probe_id := ident,
      probe_len := ?n, probe_value := ?v @ drop (unat ?n) (probe_value (probe_req_t a))\<rparr>"
    by (simp add: q_def)
  have bytes: "take (10 + unat ?n) (ez_probe_bytes q) = probe_elem (?n + 8) ident ?n ?v"
    using assms(3,5) by (simp add: q_def ez_probe_bytes_elem take_probe_elem)
  have "length (ez_probe_bytes q) = 42"
    using assms by (simp add: q_def ez_probe_bytes_elem ez_wf_def probe_wf_def ez_sizes)
  then have set: "rtw_ezviz_ie_set WIFI_PROBEREQ_VENDOR_IE_BIT (ez_probe_bytes q) (10 + unat ?n) s =
      Some (0, sends WIFI_PROBEREQ_VENDOR_IE_BIT (probe_elem (?n + 8) ident ?n ?v) s)"
    using ezviz_ie_set_sends [OF wf(1), of "10 + unat ?n" "ez_probe_bytes q"] assms(5) bytes
    by (simp add: WIFI_PROBEREQ_VENDOR_IE_BIT_def)
  let ?a1 = "(sends WIFI_PROBEREQ_VENDOR_IE_BIT (probe_elem (?n + 8) ident ?n ?v) s)\<lparr>scans := scans s + 1, scan_flag := 1\<rparr>"
  have copy: "memcpy (probe_value (probe_req_t a)) 0 (scan_value sc) 0 (unat ?n) =
      Some (?v @ drop (unat ?n) (probe_value (probe_req_t a)))"
    using assms by (simp add: memcpy_def rd_n_def wr_n_def ez_wf_def probe_wf_def ez_sizes)
  have "?n \<noteq> 0" using assms(4) by auto
  then have "trig_scan ident sc a = Some (0, ?a1)"
    using set len copy assms(6) by (simp add: trig_scan_def Let_def q s_def sends_def printk_s_eq ends_in_value_def)
  moreover have "rtw_build_vendor_ie bits (s'\<lparr>scans := x, scan_flag := y\<rparr>) fr = rtw_build_vendor_ie bits s' fr" for bits s' x y
    by (simp add: rtw_build_vendor_ie_def ez_sizes upt_rec build_group_def)
  moreover have "rtw_build_vendor_ie WIFI_PROBEREQ_VENDOR_IE_BIT
      (sends WIFI_PROBEREQ_VENDOR_IE_BIT (probe_elem (?n + 8) ident ?n ?v) s) fr =
      Some (fr @ probe_elem (?n + 8) ident ?n ?v)"
    using wf assms(3,5) by (intro build_vendor_ie_sends) (auto simp: WIFI_PROBEREQ_VENDOR_IE_BIT_def)
  ultimately show ?thesis by (intro exI [of _ ?a1]) (simp add: s_def sends_def)
qed

lemma ez_exchange:
  assumes "ez_wf a" "lone_group a" "ez_wf b" "lone_group b" "length (scan_value sc) = 32" "ends_in_value sc a"
    and n: "n = scan_len sc" "9 \<le> unat n" "unat n \<le> 32" "take 9 (scan_value sc) = take 9 (DeviceInfo b)"
    and air: "length hdr = 24" "clean pre" "32 \<le> unat n + length post"
      "length hdr' = 24" "clean pre'" "32 \<le> m + length post'"
    and idle: "\<And>req. length req = length (hdr @ pre) + 10 + unat n \<Longrightarrow> older_idle b (req @ post)"
    and ans: "ez_probe_answer (err_status b) (received (n + 8) ident n (take (unat n) (scan_value sc) @ post)) =
       Some (Some (received el ident' n v))" "length v = 32" "unat (el + 2) = 10 + m" "m \<le> 32"
  shows "\<exists>a1 req b1 resp. trig_scan ident sc a = Some (0, a1) \<and>
     rtw_build_vendor_ie WIFI_PROBEREQ_VENDOR_IE_BIT a1 (hdr @ pre) = Some req \<and>
     OnProbeReq_ez (req @ post) (length (req @ post)) b = Some b1 \<and>
     rtw_build_vendor_ie WIFI_PROBERESP_VENDOR_IE_BIT b1 (hdr' @ pre') = Some resp \<and>
     OnProbeRsp_ez (resp @ post') (length (resp @ post')) a1 =
       Some (a1\<lparr>probe_resp_t := received el ident' n (take m v @ post')\<rparr>)"
proof -
  let ?val = "take (unat n) (scan_value sc)"
  let ?req = "hdr @ pre @ probe_elem (n + 8) ident n ?val"
  let ?ie = "probe_elem el ident' n (take m v)"
  let ?b1 = "sends WIFI_PROBERESP_VENDOR_IE_BIT ?ie (b\<lparr>probe_resp_t := received el ident' n v\<rparr>)"
  obtain a1 where a1: "trig_scan ident sc a = Some (0, a1)" "probe_resp_t a1 = ez_probe_zero"
      "rtw_build_vendor_ie WIFI_PROBEREQ_VENDOR_IE_BIT a1 (hdr @ pre) = Some ?req"
    using trig_scan_sends [OF assms(1,2,5), of ident "hdr @ pre"] assms(6) n by auto
  have sn: "take 9 (?val @ post) = take 9 (DeviceInfo b)" using n assms(5) by (simp add: min_def)
  have len: "length (?val @ post) \<ge> 32" "length ?val \<le> 32" "length (?req @ post) = length (hdr @ pre) + 10 + unat n + length post"
    using assms(5) n air by auto
  have log: "printk_ps (unat n) v = Some ()" using ans(2) n by (simp add: printk_ps_eq)
  have h: "ez_probe_requst_eid208_handler (Some (?req @ post)) (length (?req @ post)) b =
      Some (int (length pre), b\<lparr>probe_resp_t := received el ident' n v\<rparr>)"
    using request_handler [OF assms(3) air(1,2) len(1,2), of "?req @ post" "n + 8" ident n] sn ans(1,2) log
    by (simp add: Let_def received_def del: take_append)
  have wf: "ez_wf (b\<lparr>probe_resp_t := received el ident' n v\<rparr>)" "lone_group (b\<lparr>probe_resp_t := received el ident' n v\<rparr>)"
    using assms(3,4) ans(2) by (simp_all add: ez_wf_def lone_group_def probe_wf_def received_def ez_sizes sync_code_bytes)
  have "rtw_ezviz_ie_set WIFI_PROBERESP_VENDOR_IE_BIT (probe_elem el ident' n v) (10 + m)
      (b\<lparr>probe_resp_t := received el ident' n v\<rparr>) = Some (0, ?b1)"
    using ezviz_ie_set_sends [OF wf(1), of "10 + m" "probe_elem el ident' n v" WIFI_PROBERESP_VENDOR_IE_BIT] ans
    by (simp add: take_probe_elem WIFI_PROBERESP_VENDOR_IE_BIT_def)
  then have "OnProbeReq_ez (?req @ post) (length (?req @ post)) b = Some ?b1"
    using ans air(2) assms(5) n idle [of ?req]
    by (intro OnProbeReq_ez_answered [OF assms(3) _ h]) (simp_all add: received_bytes clean_def, simp_all add: received_def)
  moreover have "rtw_build_vendor_ie WIFI_PROBERESP_VENDOR_IE_BIT ?b1 (hdr' @ pre') = Some ((hdr' @ pre') @ ?ie)"
    using wf ans by (intro build_vendor_ie_sends) (auto simp: WIFI_PROBERESP_VENDOR_IE_BIT_def)
  moreover have "OnProbeRsp_ez (((hdr' @ pre') @ ?ie) @ post') (length (((hdr' @ pre') @ ?ie) @ post')) a1 =
      Some (a1\<lparr>probe_resp_t := received el ident' n (take m v @ post')\<rparr>)"
    using a1(2) air ans n by (intro response_handler) auto
  ultimately show ?thesis using a1 by blast
qed


text \<open>The reason of a failed join reaches the station: a scan for the reason, sent to a device that has
  recorded one, makes polling return that byte. The value must leave four bytes for the result; the other
  hypotheses are those of the discovery.\<close>

theorem ez_reason_roundtrip:
  assumes "ez_wf a" and "lone_group a" and "ez_wf b" and "lone_group b" and "sc_enable b = 0 \<or> sc_done b \<noteq> 0"
    and "length (scan_value sc) = 32" and "ends_in_value sc a" and "9 \<le> unat (scan_len sc)" and "unat (scan_len sc) \<le> 28"
    and "take 9 (scan_value sc) = take 9 (DeviceInfo b)" and "err_status b \<noteq> 0"
    and "length hdr = 24" and "clean pre" and "32 \<le> unat (scan_len sc) + length post"
    and "length hdr' = 24" and "clean pre'" and "28 \<le> unat (scan_len sc) + length post'" and "length (scan_value poll) = 32"
  shows "\<exists>a1 req b1 resp a2 out. trig_scan 0x6992 sc a = Some (0, a1) \<and>
     rtw_build_vendor_ie WIFI_PROBEREQ_VENDOR_IE_BIT a1 (hdr @ pre) = Some req \<and>
     OnProbeReq_ez (req @ post) (length (req @ post)) b = Some b1 \<and>
     rtw_build_vendor_ie WIFI_PROBERESP_VENDOR_IE_BIT b1 (hdr' @ pre') = Some resp \<and>
     OnProbeRsp_ez (resp @ post') (length (resp @ post')) a1 = Some a2 \<and>
     poll_reason poll a2 = Some out \<and> scan_len out = 1 \<and> scan_value out ! 0 = err_status b"
proof -
  let ?n = "scan_len sc" and ?val = "take (unat (scan_len sc)) (scan_value sc)"
  define v where "v = ?val @ ez_tlv_bytes (err_status b) @ drop (unat ?n + 4) (take 32 (?val @ post))"
  have n32: "unat ?n \<le> 32" using assms(9) by simp
  have val: "length ?val = unat ?n" using assms(6,9) by simp
  have tlv: "length (ez_tlv_bytes (err_status b)) = 4" by (simp add: ez_tlv_bytes_def)
  have v: "length v = 32" "take (unat ?n + 4) v = ?val @ ez_tlv_bytes (err_status b)"
    using val tlv assms(9,14) by (simp_all add: v_def)
  have idle: "older_idle b (req @ post)" for req using assms(5) by (auto simp: older_idle_def)
  have "ez_probe_answer (err_status b) (received (?n + 8) 0x6992 ?n (?val @ post)) =
      Some (Some (received (?n + 12) 0x6993 ?n v))"
    using assms(9,11,14) val tlv v(1) by (simp add: ez_probe_answer_def received_def wr_n_def v_def add.assoc)
  moreover have "unat (?n + 12 + 2) = 10 + (unat ?n + 4)" using assms(9) by (simp add: unat_word_ariths)
  moreover have "unat ?n + 4 \<le> 32" "32 \<le> (unat ?n + 4) + length post'" using assms(9,17) by simp_all
  ultimately obtain a1 req b1 resp where x: "trig_scan 0x6992 sc a = Some (0, a1)"
     "rtw_build_vendor_ie WIFI_PROBEREQ_VENDOR_IE_BIT a1 (hdr @ pre) = Some req"
     "OnProbeReq_ez (req @ post) (length (req @ post)) b = Some b1"
     "rtw_build_vendor_ie WIFI_PROBERESP_VENDOR_IE_BIT b1 (hdr' @ pre') = Some resp"
     "OnProbeRsp_ez (resp @ post') (length (resp @ post')) a1 =
       Some (a1\<lparr>probe_resp_t := received (?n + 12) 0x6993 ?n (take (unat ?n + 4) v @ post')\<rparr>)"
    using ez_exchange [OF assms(1-4) assms(6,7) refl assms(8) n32 assms(10,12-16) _ idle _ v(1)] by blast
  let ?a2 = "a1\<lparr>probe_resp_t := received (?n + 12) 0x6993 ?n (take (unat ?n + 4) v @ post')\<rparr>"
  have "rd_n (probe_value (probe_resp_t ?a2)) (unat ?n) 4 = Some (ez_tlv_bytes (err_status b))"
    unfolding v(2) using assms(9,17) val tlv by (simp add: received_def rd_n_def)
  then have "\<exists>out. poll_reason poll ?a2 = Some out \<and> scan_len out = 1 \<and> scan_value out ! 0 = err_status b"
    using assms(18) by (cases "scan_value poll")
      (auto simp: poll_reason_def ez_tlv_bytes_def put_LE16_def received_def memcpy_def rd_n_def wr_n_def)
  with x show ?thesis by blast
qed

definition sample_scan :: "u8 \<Rightarrow> u8 \<Rightarrow> ez_scan_cmd_t" where
  "sample_scan c n = \<lparr>scan_cmd = c, scan_len = n, scan_value = sample_sn @ replicate 23 0\<rparr>"

lemma ez_init_lone: "lone_group (ez_init sn)"
  by (simp add: lone_group_def ez_init_def ez_sizes)

lemma sample_hyps:
  "ez_wf (ez_init [])" "ez_wf (ez_init sample_sn)" "ez_wf ((ez_init sample_sn)\<lparr>err_status := 7\<rparr>)"
  "lone_group ((ez_init sample_sn)\<lparr>err_status := 7\<rparr>)" "sc_enable (ez_init sample_sn) = 0"
  "length (scan_value (sample_scan c n)) = 32" "scan_len (sample_scan c n) = n"
  "take 9 (scan_value (sample_scan c n)) = take 9 (DeviceInfo (ez_init sample_sn))"
  by (simp_all add: ez_wf_def lone_group_def ez_init_def ez_sizes sample_scan_def sample_sn_bytes)

lemma sample_ends: "ends_in_value (sample_scan 1 32) (ez_init [])" "ends_in_value (sample_scan 3 28) (ez_init [])"
  by (simp_all add: ends_in_value_def sample_scan_def sample_sn_bytes)


theorem ez_reason_roundtrip_witness:
  "\<exists>a1 req b1 resp a2 out. trig_scan 0x6992 (sample_scan 3 28) (ez_init []) = Some (0, a1) \<and>
     rtw_build_vendor_ie WIFI_PROBEREQ_VENDOR_IE_BIT a1 (replicate 24 0 @ [0, 0]) = Some req \<and>
     OnProbeReq_ez (req @ replicate 4 0) (length (req @ replicate 4 (0 :: u8))) ((ez_init sample_sn)\<lparr>err_status := 7\<rparr>) = Some b1 \<and>
     rtw_build_vendor_ie WIFI_PROBERESP_VENDOR_IE_BIT b1 (replicate 24 0 @ [0, 0]) = Some resp \<and>
     OnProbeRsp_ez (resp @ []) (length (resp @ [])) a1 = Some a2 \<and>
     poll_reason (sample_scan 4 0) a2 = Some out \<and> scan_len out = 1 \<and>
     scan_value out ! 0 = err_status ((ez_init sample_sn)\<lparr>err_status := 7\<rparr>)"
  by (rule ez_reason_roundtrip [OF sample_hyps(1) ez_init_lone sample_hyps(3,4) _ sample_hyps(6) sample_ends(2)
        _ _ _ _ _ sample_clean _ _ sample_clean _ sample_hyps(6)]) (simp_all add: sample_hyps)

section \<open>Every sequence of events\<close>

text \<open>What the code relies on of \<open>copy_from_user\<close>: it fills the destination, with zeros where the source
  cannot be read.\<close>

definition user_ok :: "user_mem \<Rightarrow> bool" where
  "user_ok u \<longleftrightarrow> (\<forall>a n. length (snd (from_user u a n)) = n)"











lemma unat_ucast_u8_u16: "unat (ucast (b :: u8) :: u16) = unat b"
  using unsigned_less [of b, where 'a = nat] by (simp add: unsigned_ucast_eq take_bit_eq_mod)
























text \<open>A user space of which every read fails, and one that holds a given command.\<close>

definition no_user :: user_mem where
  "no_user = \<lparr>from_user = (\<lambda>a n. (n, replicate n 0)), to_user = (\<lambda>a bs. length bs)\<rparr>"


lemma device_info_None_iff:
  assumes "user_ok u"
  shows "ez_device_info_ioctl_handle u (Some iwp) s = None \<longleftrightarrow>
       iw_pointer iwp \<noteq> 0 \<and> fst (from_user u (iw_pointer iwp) 9) = 0 \<and>
       (41 < unat (iw_length iwp) \<or>
        unat (iw_length iwp) = 41 \<and> fst (from_user u (iw_pointer iwp + 9) 32) = 0 \<and>
        0 \<notin> set (snd (from_user u (iw_pointer iwp + 9) 32)))"
proof -
  have len: "length (snd (from_user u a n)) = n" for a n using assms by (simp add: user_ok_def)
  show ?thesis
  proof (cases "iw_pointer iwp \<noteq> 0 \<and> fst (from_user u (iw_pointer iwp) 9) = 0 \<and> 8 < unat (iw_length iwp)")
    case True
    let ?n = "unat (iw_length iwp)" and ?p = "iw_pointer iwp"
    let ?d = "snd (from_user u ?p 9) @ replicate 32 0"
    let ?rest = "from_user u (?p + 9) (?n - 9)"
    have "ez_device_info_ioctl_handle u (Some iwp) s =
        (if ?n = 9 then Some (0, s\<lparr>DeviceInfo := ?d\<rparr>)
         else do {
           d2 \<leftarrow> wr_n ?d 9 (snd ?rest);
           _ \<leftarrow> (if fst ?rest \<noteq> 0 then Some () else printk_s (drop 9 d2));
           Some (int (fst ?rest), s\<lparr>DeviceInfo := d2\<rparr>) })"
      using True len by (auto simp: ez_device_info_ioctl_handle_def Let_def copy_from_user_def wr_n_def ez_sizes printk_s_eq)
    moreover have "wr_n ?d 9 (snd ?rest) =
        (if ?n \<le> 41 then Some (snd (from_user u ?p 9) @ snd ?rest @ replicate (41 - ?n) 0) else None)" if "?n \<noteq> 9"
      using True len that by (auto simp: wr_n_def)
    ultimately show ?thesis
      using True len by (auto simp: printk_s_eq)
  next
    case False
    then show ?thesis by (auto simp: ez_device_info_ioctl_handle_def Let_def copy_from_user_def wr_n_def len ez_sizes)
  qed
qed

lemma trig_scan_None_iff:
  assumes "ez_wf s" and "length (scan_value sc) = 32"
  shows "trig_scan ident sc s = None \<longleftrightarrow> 32 < unat (scan_len sc) \<or>
       (scan_len sc \<noteq> 0 \<or> probe_len (probe_req_t s) \<noteq> 0) \<and> \<not> ends_in_value sc s"
proof -
  let ?n = "scan_len sc"
  have v: "length (probe_value (probe_req_t s)) = 32" "length (vendor_ie s) = 1275"
    using assms(1) by (simp_all add: ez_wf_def probe_wf_def ez_sizes)
  have "unat (10 + ?n) \<le> 42" if "unat ?n \<le> 32" using that by (simp add: unat_word_ariths)
  with v assms(2) show ?thesis
    by (auto simp: trig_scan_def Let_def memcpy_def rd_n_def wr_n_def rtw_ezviz_ie_set_def ends_in_value_def printk_s_eq
        WIFI_PROBEREQ_VENDOR_IE_BIT_def ez_probe_bytes_def sync_code_bytes)
qed

text \<open>C35. Where the ioctls leave their buffers, exactly. The device information (with the serial number read): when
  the given length exceeds the 41 bytes of the table, or is 41 and the 32 bytes of the model name could be
  read and have no zero, so that their log line reads behind the table. The two scans: when the length byte
  of the command exceeds the 32 bytes of the value, or a request is sent and its value has no zero, so that
  its log line reads behind it. Polling for a device: when the length byte in the last answer exceeds 32.
  Polling for the reason: when it exceeds 28, or what is behind the value has the identifier of a result and
  a length above 1. The tables are well formed, the command is a structure of its size, and
  \<open>copy_from_user\<close> fills the destination.\<close>

theorem ez_ioctl_bounds:
  assumes "user_ok u" and "ez_wf s" and "length (scan_value sc) = 32"
  shows "(ez_device_info_ioctl_handle u (Some iwp) s = None \<longleftrightarrow>
       iw_pointer iwp \<noteq> 0 \<and> fst (from_user u (iw_pointer iwp) 9) = 0 \<and>
       (41 < unat (iw_length iwp) \<or>
        unat (iw_length iwp) = 41 \<and> fst (from_user u (iw_pointer iwp + 9) 32) = 0 \<and>
        0 \<notin> set (snd (from_user u (iw_pointer iwp + 9) 32)))) \<and>
     (trig_scan ident sc s = None \<longleftrightarrow> 32 < unat (scan_len sc) \<or>
       (scan_len sc \<noteq> 0 \<or> probe_len (probe_req_t s) \<noteq> 0) \<and> \<not> ends_in_value sc s) \<and>
     (poll_device sc s = None \<longleftrightarrow> 32 < unat (probe_len (probe_resp_t s))) \<and>
     (poll_reason sc s = None \<longleftrightarrow> 28 < unat (probe_len (probe_resp_t s)) \<or>
       (let reason = take 4 (drop (unat (probe_len (probe_resp_t s))) (probe_value (probe_resp_t s))) in
          mk16 (reason ! 1) (reason ! 0) = 0x6994 \<and> 1 < unat (reason ! 2)))"
proof (intro conjI)
  have v: "length (probe_value (probe_req_t s)) = 32" "length (probe_value (probe_resp_t s)) = 32" "length (vendor_ie s) = 1275"
    using assms(2) by (simp_all add: ez_wf_def probe_wf_def ez_sizes)
  show "ez_device_info_ioctl_handle u (Some iwp) s = None \<longleftrightarrow>
       iw_pointer iwp \<noteq> 0 \<and> fst (from_user u (iw_pointer iwp) 9) = 0 \<and>
       (41 < unat (iw_length iwp) \<or>
        unat (iw_length iwp) = 41 \<and> fst (from_user u (iw_pointer iwp + 9) 32) = 0 \<and>
        0 \<notin> set (snd (from_user u (iw_pointer iwp + 9) 32)))"
    by (rule device_info_None_iff [OF assms(1)])
  show "poll_device sc s = None \<longleftrightarrow> 32 < unat (probe_len (probe_resp_t s))"
    using v assms(3) by (simp add: poll_device_def memcpy_def rd_n_def wr_n_def)
  show "poll_reason sc s = None \<longleftrightarrow> 28 < unat (probe_len (probe_resp_t s)) \<or>
       (let reason = take 4 (drop (unat (probe_len (probe_resp_t s))) (probe_value (probe_resp_t s))) in
          mk16 (reason ! 1) (reason ! 0) = 0x6994 \<and> 1 < unat (reason ! 2))"
    using v assms(3) by (auto simp: poll_reason_def memcpy_def rd_n_def wr_n_def wr_def Let_def)
  show "trig_scan ident sc s = None \<longleftrightarrow> 32 < unat (scan_len sc) \<or>
       (scan_len sc \<noteq> 0 \<or> probe_len (probe_req_t s) \<noteq> 0) \<and> \<not> ends_in_value sc s"
    by (rule trig_scan_None_iff [OF assms(2,3)])
qed

theorem ez_ioctl_bounds_witness:
  "trig_scan 0x6990 \<lparr>scan_cmd = 1, scan_len = 32, scan_value = replicate 32 1\<rparr> (ez_init []) = None"
proof -
  have "length (probe_value (probe_req_t (ez_init []))) = 32" using sample_hyps(1) by (simp add: ez_wf_def probe_wf_def ez_sizes)
  then show ?thesis
    using ez_ioctl_bounds [of no_user "ez_init []" "\<lparr>scan_cmd = 1, scan_len = 32, scan_value = replicate 32 1\<rparr>" undefined "0x6990"]
    by (simp add: user_ok_def no_user_def sample_hyps(1) ends_in_value_def)
qed

section \<open>The configuration from the access point\<close>

lemma sync_loop_hit:
  assumes "drop i buf = 207 # l # ez_sync_code @ post" "i + 2 < len"
  shows "sync_loop sn buf len i = Some i"
proof -
  have "drop (i + 2) buf = ez_sync_code @ post" using drop_add [of i buf "[207, l]" "ez_sync_code @ post"] assms(1) by simp
  then have "memeq buf (i + 2) ez_sync_code EZ_SYNC_CODE_LEN = Some True"
    using drop_app_le [of "i + 2" buf ez_sync_code post] by (simp add: memeq_in ez_sizes sync_code_bytes)
  moreover have "i < len - 2" using assms(2) by linarith
  ultimately show ?thesis using rd_drop [OF assms(1)] by (subst sync_loop.simps) simp
qed

lemma sync_loop_miss:
  assumes "drop i buf = ie_enc e @ post" "fst e \<noteq> 207" "fst e \<noteq> 209" "wf_ie e" "i + 2 < len"
  shows "sync_loop sn buf len i = sync_loop sn buf len (i + length (ie_enc e))"
proof -
  from assms(1) have "rd buf i = Some (fst e)" "rd buf (i + 1) = Some (of_nat (length (snd e)))"
    using rd2_drop [of i buf "fst e" "of_nat (length (snd e))" "snd e @ post"] by (auto simp: ie_enc_def)
  moreover have "i < len - 2" using assms(5) by linarith
  ultimately show ?thesis
    using assms by (subst sync_loop.simps) (simp add: ie_enc_def wf_ie_def unat_of_nat_u8 add.commute)
qed

lemma sync_loop_skip:
  assumes "drop i buf = ies_enc es @ 207 # l # ez_sync_code @ post" "list_all wf_ie es"
    and "\<forall>e \<in> set es. fst e \<noteq> 207 \<and> fst e \<noteq> 209" "i + length (ies_enc es) + 2 < len"
  shows "sync_loop sn buf len i = Some (i + length (ies_enc es))"
  using assms
proof (induction es arbitrary: i)
  case Nil
  then show ?case by (simp add: sync_loop_hit)
next
  case (Cons e es)
  have "drop (i + length (ie_enc e)) buf = ies_enc es @ 207 # l # ez_sync_code @ post"
    using drop_add [of i buf "ie_enc e"] Cons.prems(1) by simp
  from Cons.IH [OF this] Cons.prems sync_loop_miss [of i buf e _ len sn] show ?case by (simp add: add.assoc)
qed

text \<open>User space that holds a command with its argument at an address.\<close>

definition holds :: "user_mem \<Rightarrow> u32 \<Rightarrow> bytes \<Rightarrow> bytes \<Rightarrow> bool" where
  "holds u p c arg \<longleftrightarrow> length c = 4 \<and> length arg = 4 \<and> from_user u p 8 = (0, c @ arg) \<and> from_user u (p + 4) 4 = (0, arg)"

text \<open>The configuration that an access point broadcasts reaches user space: after the command \<open>NEW_SC_INIT\<close>, a
  probe request whose elements end in one with number 207 and the code (not the first element) is taken;
  \<open>NEW_SC_POLL_RESULT\<close> then answers 308, and \<open>NEW_SC_GET_RESULTS\<close> copies the body of the element and its
  length to the address that user space gives.\<close>

theorem ez_ap_config_delivered:
  assumes "user_ok u" and "ez_wf s" and "holds u p0 [0, 0, 0, 0] x" and "holds u p2 [2, 0, 0, 0] y"
    and "holds u p3 [3, 0, 0, 0] addr"
    and "length hdr = 24" and "es \<noteq> []" and "list_all wf_ie es" and "\<forall>e \<in> set es. fst e \<noteq> 207 \<and> fst e \<noteq> 209"
    and "length data \<le> 250" and "fr = hdr @ ies_enc es @ ie_enc (207, ez_sync_code @ data) @ post"
  shows "\<exists>s1 s2. ez_set_new_sc u \<lparr>iw_pointer = p0, iw_length = l0\<rparr> s = Some (0, s1) \<and>
     ez_probe_req_handler fr (length fr) s1 = Some s2 \<and> sc_done s2 = 1 \<and>
     ez_set_new_sc u \<lparr>iw_pointer = p2, iw_length = l2\<rparr> s2 = Some (308, s2\<lparr>sc_done := 0\<rparr>) \<and>
     (\<exists>ret. ez_set_new_sc u \<lparr>iw_pointer = p3, iw_length = l3\<rparr> s2 = Some (ret, s2\<lparr>sc_done := 0,
       user_out := user_out s @ [(le32_of addr + 8, ez_sync_code @ data), (le32_of addr, put_LE16 (of_nat (5 + length data)))]\<rparr>))"
proof -
  let ?buf = "ies_enc es @ ie_enc (207, ez_sync_code @ data) @ post"
  let ?off = "length (ies_enc es)"
  define L where "L = (of_nat (5 + length data) :: u8)"
  let ?s1 = "(sc_reset s)\<lparr>sc_enable := 1, err_status := 0\<rparr>"
  have l: "unat L = 5 + length data" using assms(10) unfolding L_def by (intro unat_of_nat_u8) simp
  have code: "length ez_sync_code = 5" by (simp add: sync_code_bytes)
  have dl: "length (ez_sync_code @ data) = 5 + length data" by (simp add: code)
  have enc: "ie_enc (207, ez_sync_code @ data) = 207 # L # ez_sync_code @ data" by (simp add: ie_enc_def code L_def)
  obtain e es' where "es = e # es'" using assms(7) by (cases es) auto
  then have off: "0 < ?off" by (simp add: ie_enc_def)
  have init: "ez_set_new_sc u \<lparr>iw_pointer = p0, iw_length = l0\<rparr> s = Some (0, ?s1)"
    using assms(3) by (simp add: ez_set_new_sc_def copy_from_user_def holds_def wr_n_def le32_of_def)
  have "sync_loop sn ?buf (length ?buf) 0 = Some ?off" for sn
    using sync_loop_skip [of 0 ?buf es L "data @ post" "length ?buf" sn] assms(8,9) by (simp add: enc code)
  moreover have "check_sn_valid ?s1 \<noteq> None"
    using assms(2) by (simp add: check_sn_valid_def sc_reset_def memeq_in ez_wf_def ez_sizes)
  ultimately have check: "check_probe_sync_EID ?s1 (Some ?buf) (length ?buf) = Some (int ?off)"
    by (auto simp: check_probe_sync_EID_def)
  have "rd ?buf (?off + 1) = Some L" using rd2_drop [of ?off ?buf 207 L] by (simp add: enc)
  moreover have "rd_n ?buf (?off + 2) (unat L) = Some (ez_sync_code @ data)"
    by (simp add: enc rd_n_def l code)
  moreover have "drop 24 fr = ?buf" "length fr - 24 = length ?buf" using assms(6,11) by simp_all
  ultimately have "ez_probe_req_handler fr (length fr) ?s1 = Some (?s1\<lparr>sc_len := ucast L,
      sc_buf := (ez_sync_code @ data) @ drop (5 + length data) (replicate 512 0), sc_done := 1\<rparr>)" (is "_ = Some ?s2")
    using check off l dl assms(10)
    by (simp add: ez_probe_req_handler_def Let_def memcpy_def wr_n_def sc_reset_def ez_sizes code del: drop_append length_append append_assoc)
  moreover have "ez_set_new_sc u \<lparr>iw_pointer = p2, iw_length = l2\<rparr> ?s2 = Some (308, ?s2\<lparr>sc_done := 0\<rparr>)"
    using assms(4) by (simp add: ez_set_new_sc_def copy_from_user_def holds_def wr_n_def le32_of_def)
  moreover have "\<exists>ret. ez_set_new_sc u \<lparr>iw_pointer = p3, iw_length = l3\<rparr> ?s2 = Some (ret, ?s2\<lparr>sc_done := 0,
       user_out := user_out s @ [(le32_of addr + 8, ez_sync_code @ data), (le32_of addr, put_LE16 (of_nat (5 + length data)))]\<rparr>)"
  proof -
    have "(ucast L :: u16) = of_nat (5 + length data)"
      using l assms(10) by (simp add: word_unat_eq_iff unat_ucast_u8_u16 unat_of_nat del: of_nat_add)
    moreover have "rd_n (sc_buf ?s2) 0 (unat (sc_len ?s2)) = Some (ez_sync_code @ data)"
      using l assms(10) by (simp add: rd_n_def unat_ucast_u8_u16 code)
    ultimately show ?thesis
      using assms(5) by (simp add: ez_set_new_sc_def copy_from_user_def copy_to_user_def holds_def wr_n_def le32_of_def sc_reset_def)
  qed
  ultimately show ?thesis using init by (intro exI [of _ ?s1] exI [of _ ?s2]) simp
qed

definition sample_user :: user_mem where
  "sample_user = \<lparr>from_user = (\<lambda>a n. (0, take n ((if a = 16 then [0, 0, 0, 0] else if a = 32 then [2, 0, 0, 0]
      else if a = 48 then [3, 0, 0, 0] else [64, 0, 0, 0]) @ [64, 0, 0, 0]) @ replicate (n - 8) 0)), to_user = (\<lambda>a bs. 0)\<rparr>"

theorem ez_ap_config_delivered_witness:
  "\<exists>s1 s2. ez_set_new_sc sample_user \<lparr>iw_pointer = 16, iw_length = 8\<rparr> (ez_init []) = Some (0, s1) \<and>
     ez_probe_req_handler (replicate 24 0 @ ies_enc [(0, [])] @ ie_enc (207, ez_sync_code @ [1, 2]) @ [])
       (length (replicate 24 0 @ ies_enc [(0, [])] @ ie_enc (207, ez_sync_code @ [1, 2]) @ [])) s1 = Some s2 \<and> sc_done s2 = 1 \<and>
     ez_set_new_sc sample_user \<lparr>iw_pointer = 32, iw_length = 8\<rparr> s2 = Some (308, s2\<lparr>sc_done := 0\<rparr>) \<and>
     (\<exists>ret. ez_set_new_sc sample_user \<lparr>iw_pointer = 48, iw_length = 8\<rparr> s2 = Some (ret, s2\<lparr>sc_done := 0,
       user_out := user_out (ez_init []) @ [(le32_of [64, 0, 0, 0] + 8, ez_sync_code @ [1, 2]),
         (le32_of [64, 0, 0, 0], put_LE16 (of_nat (5 + length [1, 2 :: u8])))]\<rparr>))"
proof (rule ez_ap_config_delivered [where x = "[64, 0, 0, 0]" and y = "[64, 0, 0, 0]"
      and hdr = "replicate 24 0" and es = "[(0, [])]" and post = "[]"])
  show "user_ok sample_user"
    by (auto simp: user_ok_def sample_user_def)
qed (simp_all add: sample_hyps(1) holds_def sample_user_def wf_ie_def)

end
