(* ===== verification/Spec2Isabelle.thy ===== *)
theory Spec2Isabelle
  imports Prelude Ie_Core Ie_Vendor Ie_Security Ie_Elems Rx_Reorder Sec_Wep Sec_Tkip Sec_Aes Sec_Ccm Sec_Ccmp Rx_Defrag Rx_Replay Sta_Acl Sta_Macid Tx_Queue Tx_Sleep Sta_Table Wlan_Hdr Mlme_Join Ap_Auth Ez_Config Ez_Sc
begin

text \<open>
  \<^bold>\<open>A verification library for the RTL8188FU wireless driver.\<close>

  The driver receives 802.11 frames over USB, checks and reassembles them and hands Ethernet frames
  to the kernel; it parses the information elements of management frames to learn what an access point
  offers; and it protects frames in software where the chip does not. The library models the parts of
  this that are computations on bytes and on the driver's own state, and proves what they promise.

  \<^bold>\<open>Conventions.\<close> \<open>Prelude\<close> has the machine types and the memory model: a C object is a byte list,
  every access is checked, and a result \<open>None\<close> of a definition in the option monad is an access outside an
  object. A theorem that a definition returns \<open>Some\<close> is therefore also a theorem of memory safety. Integers
  keep their width where the code keeps a value in a narrow type; offsets into one object are \<open>nat\<close>.
  Loops that may not end are \<open>partial_function\<close>s, whose \<open>None\<close> is also a loop that runs forever; all other
  loops are total functions and need no fuel.

  \<^bold>\<open>Parts.\<close>
  \<^item> \<open>Ie_Core\<close> (\<open>core/rtw_ieee80211.c\<close>): the element writers \<open>rtw_set_ie\<close>, the searchers \<open>rtw_get_ie\<close> and
    \<open>rtw_get_ie_ex\<close> and the editors \<open>rtw_ies_update_ie\<close> and \<open>rtw_ies_remove_ie\<close>. On a well-formed sequence of
    elements they find, replace and delete what a list of elements says; searches stay in bounds but for
    one byte, for which there is a counterexample.
  \<^item> \<open>Ie_Vendor\<close> (same file): vendor elements of WPS, P2P, WFD and OWE, the attributes in them, the merge of
    split P2P elements and the deletions. The locales state what a test on elements, a search and an
    attribute codec promise; the searches of the code interpret them. Two attribute loops do not end on
    attributes whose length overflows a \<open>u16\<close>.
  \<^item> \<open>Ie_Security\<close> (same file): the WPA and RSN elements. The RSN parser is in bounds on every input, and on
    the encoding of an RSN description it returns exactly its suites and capabilities.
  \<^item> \<open>Ie_Elems\<close> (same file): the table of elements that \<open>rtw_ieee802_11_parse_elems\<close> fills for a frame; every
    slot holds the last element of its kind, and parsing never leaves the frame.
  \<^item> \<open>Rx_Reorder\<close> (\<open>core/rtw_recv.c\<close>): the reordering buffer of a block-ack session as a state machine of
    frame arrivals and timeouts. It refines an abstract buffer, hands frames on in sequence order, and a
    frame that waits has its timer armed.
  \<^item> \<open>Rx_Defrag\<close> (same file, \<open>include/rtw_recv.h\<close>): frame buffers, reassembly with the checks of fragment
    numbers, key generations and packet numbers, and the Michael check with its countermeasures. Reassembly
    computes the joined frame or drops the whole queue; no frame is lost or freed twice.
  \<^item> \<open>Rx_Replay\<close> (same file): duplicate detection as a map, packet number checks, port control.
  \<^item> \<open>Sec_Wep\<close>, \<open>Sec_Tkip\<close> (\<open>core/rtw_security.c\<close>): ARC4, CRC-32, Michael and the TKIP key mixing, with the
    encryption and decryption of frames. Decryption inverts encryption, the table CRC is the bit-wise one, the
    byte-wise Michael is the block-wise one, and no two packets of a key share an RC4 key.
  \<^item> \<open>Sec_Aes\<close>, \<open>Sec_Ccm\<close>, \<open>Sec_Ccmp\<close> (\<open>core/crypto\<close>, \<open>core/rtw_swcrypto.c\<close>, \<open>core/rtw_security.c\<close>): AES with word tables
    is the cipher of FIPS 197, the CCM mode is that of RFC 3610 over any block cipher (a locale, interpreted
    by AES), and frames under CCMP decrypt to what was sent. Decryption accepts exactly the frames that
    encryption produces.
  \<^item> \<open>Sta_Acl\<close> (\<open>core/rtw_ap.c\<close>, \<open>core/rtw_sta_mgt.c\<close>): the access lists refine sets of addresses with a mode.
  \<^item> \<open>Sta_Macid\<close> (\<open>core/rtw_wlan_util.c\<close>): bitmaps of ids (a locale with three interpretations), MAC ids as a state
    machine in which no id is shared or lost, and the cache of the security CAM as a map of keys.
  \<^item> \<open>Tx_Queue\<close>, \<open>Tx_Sleep\<close> (\<open>core/rtw_xmit.c\<close>): the transmit queues keep the order of frames per station and category
    and serve the categories by priority; a station without U-APSD that sleeps and wakes up finds
    its frames unchanged.
  \<^item> \<open>Sta_Table\<close> (\<open>core/rtw_sta_mgt.c\<close>): the hash table of stations refines a bounded set of addresses (a locale);
    joining and leaving keep the MAC ids, the queues and the pool consistent.
  \<^item> \<open>Wlan_Hdr\<close> (\<open>include/wifi.h\<close>): the fields of an 802.11 header, and the header of management frames.
  \<^item> \<open>Mlme_Join\<close> (\<open>core/rtw_mlme_ext.c\<close>): a client that joins a network, as a state machine over the join command,
    received beacons, authentication, association and disconnection frames, the link timer and aborts. Without SAE
    and with memory for the driver's events, a join ends after at most nine expiries of the timer, with exactly
    one result, whatever the air brings (a locale of machines that retry within a budget, interpreted by these
    handlers), and a client is associated only after it was authenticated. With SAE and a cached key the join
    stalls, and an answer is read past its end.
  \<^item> \<open>Ap_Auth\<close> (same file, over \<open>Sta_Table\<close>): authentication at the access point. Its lists stay consistent with the
    station table, but for the frames that free a protected station; open system authentication is run between the
    two sides, and shared key authentication needs the challenge text but not the key.
  \<^item> \<open>Ez_Config\<close> (\<open>os_dep/linux/ez_wifi_config.c\<close>, \<open>core/rtw_ieee80211.c\<close>): the device's configuration file, the
    channel plan of a country, the MAC address and the efuse check. The scanner finds a variable that the file
    sets, and the initialisation makes its settings effective; a counterexample has the scan buffer overflow.
  \<^item> \<open>Ez_Sc\<close> (\<open>os_dep/linux/ez_sc.c\<close> with its calls in \<open>OnProbeReq\<close>, \<open>OnProbeRsp\<close> and \<open>rtw_ioctl\<close>): onboarding
    and discovery over probe frames. Discovery, the join result and the configuration from an access point
    reach their destination end to end. An event that leaves a buffer (a copy, or the read of a string for the
    log) has the outcome \<open>None\<close>, after which nothing is claimed: up to it the tables keep their shape under every
    sequence of events, and the requests and ioctls that have this outcome are characterised exactly.

  \<^bold>\<open>How the parts meet.\<close> A received frame passes \<open>Rx_Replay\<close> (duplicates, packet numbers), decryption in
  \<open>Sec_Wep\<close> and \<open>Sec_Tkip\<close>, \<open>Rx_Defrag\<close> (which calls Michael of \<open>Sec_Tkip\<close>) and \<open>Rx_Reorder\<close>. Management frames
  go to \<open>Ie_Elems\<close> and from there to \<open>Ie_Security\<close> and \<open>Ie_Vendor\<close>, all of which walk elements as \<open>Ie_Core\<close> does.
  The stations of \<open>Sta_Table\<close> own the queues of \<open>Tx_Queue\<close> and \<open>Tx_Sleep\<close>, the MAC ids of \<open>Sta_Macid\<close>, the access
  lists of \<open>Sta_Acl\<close> and the receive state of \<open>Rx_Reorder\<close> and \<open>Rx_Replay\<close>; joining and leaving create and release
  all of them. \<open>Ap_Auth\<close> lets stations into that table and answers the frames that \<open>Mlme_Join\<close> sends at the other end.

  \<^bold>\<open>Not modelled.\<close> The hardware layer (\<open>hal/\<close>, with the PHY code and firmware images) and the kernel glue
  (\<open>os_dep/linux\<close>: ioctls, cfg80211, USB) are sequences of register accesses and kernel calls whose meaning is
  outside the sources. Locks are not modelled: each definition is the body of a critical section. Features
  that the configuration leaves out (mesh, TDLS, VHT) are not modelled. The attributes and headers of transmitted frames, scanning, association at the access point, the command queue, GCMP and BIP are left to extensions.
\<close>

end
